(* ===== verification/Prelude.thy ===== *)
theory Prelude
  imports Main "HOL-Library.Word" "HOL-Library.Multiset"
begin

text \<open>
  What every component of the model shares: bytes, the outcome of a piece of C++ code (a value,
  or the fault that ends its defined behaviour), memory regions read and overwritten by offset,
  subtraction on \<^verbatim>\<open>size_t\<close>, and transition systems with their reachable states.
\<close>

section \<open>Bytes and named collections\<close>

type_synonym byte = "8 word"

named_theorems op_defs \<open>definitions of the operations, for unfolding\<close>
named_theorems region \<open>equations on memory regions\<close>

text \<open>A C string literal as the bytes it holds, without its terminator.\<close>

definition lit :: "string \<Rightarrow> byte list" where
  "lit s = map (\<lambda>c. of_char c :: byte) s"

lemma length_lit [simp]: "length (lit s) = length s"
  by (simp add: lit_def)

section \<open>Outcomes\<close>

text \<open>
  A fault is a point where the source's behaviour stops being defined (a write outside an
  allocation, a null or dangling pointer, an invalidated iterator), where it stops the process
  (\<^verbatim>\<open>assert\<close>, \<^verbatim>\<open>CRASH_ASSERT\<close>, a secure-CRT parameter check,
  \<^verbatim>\<open>TerminateProcess\<close>), or where the thread blocks on a lock it holds itself.
\<close>

datatype fault =
    OutOfBounds
  | NullDeref
  | AssertFailed
  | CrashAssert
  | DanglingRef
  | IteratorInvalidated
  | StackOverrun
  | UnterminatedString
  | InvalidParameter
  | SelfDeadlock
  | ProcessTerminated int

datatype 'a outcome = Ok (result: 'a) | Fault fault

fun bnd :: "'a outcome \<Rightarrow> ('a \<Rightarrow> 'b outcome) \<Rightarrow> 'b outcome" where
  "bnd (Ok x) f = f x"
| "bnd (Fault e) f = Fault e"

lemma bnd_eq_Ok [simp]: "bnd m f = Ok y \<longleftrightarrow> (\<exists>x. m = Ok x \<and> f x = Ok y)"
  by (cases m) auto

lemma bnd_eq_Fault: "bnd m f = Fault e \<longleftrightarrow> m = Fault e \<or> (\<exists>x. m = Ok x \<and> f x = Fault e)"
  by (cases m) auto

lemma bnd_assoc: "bnd (bnd m f) g = bnd m (\<lambda>x. bnd (f x) g)"
  by (cases m) auto

lemma bnd_cong [fundef_cong]:
  "m = m' \<Longrightarrow> (\<And>x. m' = Ok x \<Longrightarrow> f x = f' x) \<Longrightarrow> bnd m f = bnd m' f'"
  by (cases m') auto

section \<open>Memory regions\<close>

text \<open>
  A region is \<^verbatim>\<open>n\<close> cells of an allocation from offset \<^verbatim>\<open>off\<close> on;
  \<^verbatim>\<open>mem_read\<close> and \<^verbatim>\<open>mem_write\<close> are \<^verbatim>\<open>memcpy\<close> out of and
  into it, and fault where \<^verbatim>\<open>memcpy\<close> would leave the allocation.
\<close>

definition slice :: "nat \<Rightarrow> nat \<Rightarrow> 'a list \<Rightarrow> 'a list" where
  "slice off n m = take n (drop off m)"

definition overwrite :: "nat \<Rightarrow> 'a list \<Rightarrow> 'a list \<Rightarrow> 'a list" where
  "overwrite off xs m = take off m @ xs @ drop (off + length xs) m"

definition mem_read :: "nat \<Rightarrow> nat \<Rightarrow> 'a list \<Rightarrow> 'a list outcome" where
  "mem_read off n m = (if off + n \<le> length m then Ok (slice off n m) else Fault OutOfBounds)"

definition mem_write :: "nat \<Rightarrow> 'a list \<Rightarrow> 'a list \<Rightarrow> 'a list outcome" where
  "mem_write off xs m =
     (if off + length xs \<le> length m then Ok (overwrite off xs m) else Fault OutOfBounds)"

lemma length_slice [simp]: "off + n \<le> length m \<Longrightarrow> length (slice off n m) = n"
  by (simp add: slice_def)

lemma slice_0 [simp]: "slice off 0 m = []"
  by (simp add: slice_def)

lemma length_overwrite [simp]:
  "off + length xs \<le> length m \<Longrightarrow> length (overwrite off xs m) = length m"
  by (simp add: overwrite_def)

lemma slice_split:
  "off + a + b \<le> length m \<Longrightarrow> slice off (a + b) m = slice off a m @ slice (off + a) b m"
  by (simp add: slice_def take_add drop_drop add.commute)

lemma take_slice [region]: "k \<le> n \<Longrightarrow> take k (slice off n m) = slice off k m"
  by (simp add: slice_def min_def)

lemma drop_slice [region]: "drop k (slice off n m) = slice (off + k) (n - k) m"
  by (simp add: slice_def drop_take drop_drop add.commute)

lemma slice_overwrite_before [region]:
  assumes "off' + length xs \<le> length m" and "off + n \<le> off'"
  shows "slice off n (overwrite off' xs m) = slice off n m"
proof -
  have "slice off n (overwrite off' xs m) = take n (drop off (take off' m))"
    using assms by (simp add: slice_def overwrite_def)
  also have "\<dots> = slice off n m"
    using assms(2) by (simp add: slice_def take_drop min_def)
  finally show ?thesis .
qed

lemma slice_overwrite_after [region]:
  assumes "off' + length xs \<le> length m" and "off' + length xs \<le> off"
  shows "slice off n (overwrite off' xs m) = slice off n m"
  using assms by (simp add: slice_def overwrite_def)

lemma slice_overwrite_same [region]:
  "off + length xs \<le> length m \<Longrightarrow> n = length xs \<Longrightarrow> slice off n (overwrite off xs m) = xs"
  by (simp add: slice_def overwrite_def)

section \<open>Counting in lists of threads\<close>

definition count_if :: "('a \<Rightarrow> bool) \<Rightarrow> 'a list \<Rightarrow> nat" where
  "count_if P xs = length (filter P xs)"

lemma count_if_le: "count_if P xs \<le> length xs"
  by (simp add: count_if_def)

lemma count_if_Cons [simp]: "count_if P (x # xs) = (if P x then 1 else 0) + count_if P xs"
  by (simp add: count_if_def)

lemma count_if_update:
  "t < length xs \<Longrightarrow> count_if P (xs[t := x]) + (if P (xs ! t) then 1 else 0) = count_if P xs + (if P x then 1 else 0)"
proof (induction xs arbitrary: t)
  case (Cons y ys)
  then show ?case by (cases t) auto
qed simp

lemma count_if_zero: "count_if P xs = 0 \<longleftrightarrow> (\<forall>x\<in>set xs. \<not> P x)"
  by (auto simp: count_if_def filter_empty_conv)

lemma count_if_mono: "(\<And>x. P x \<Longrightarrow> Q x) \<Longrightarrow> count_if P xs \<le> count_if Q xs"
  by (induction xs) (auto simp: count_if_def)

lemma count_if_two: "i < length xs \<Longrightarrow> j < length xs \<Longrightarrow> i \<noteq> j \<Longrightarrow> P (xs ! i) \<Longrightarrow> P (xs ! j) \<Longrightarrow> 2 \<le> count_if P xs"
proof (induction xs arbitrary: i j)
  case (Cons x xs)
  have one: "k < length xs \<Longrightarrow> P (xs ! k) \<Longrightarrow> 1 \<le> count_if P xs" for k
    using count_if_zero [of P xs] by (auto simp: Suc_le_eq)
  from Cons show ?case
    by (cases i; cases j) (auto dest: one)
qed simp

lemma sum_update:
  fixes f :: "'a \<Rightarrow> 'b :: comm_monoid_add"
  shows "t < length xs \<Longrightarrow> sum_list (map f (xs[t := x])) + f (xs ! t) = sum_list (map f xs) + f x"
proof (induction xs arbitrary: t)
  case (Cons y ys)
  show ?case
  proof (cases t)
    case 0
    then show ?thesis by (simp add: ac_simps)
  next
    case (Suc k)
    with Cons.prems have "sum_list (map f (ys[k := x])) + f (ys ! k) = sum_list (map f ys) + f x"
      by (intro Cons.IH) simp
    with Suc show ?thesis by (simp add: ac_simps)
  qed
qed simp

lemma Union_update: "t < length xs \<Longrightarrow> \<Union> (set (xs[t := x])) \<union> xs ! t = \<Union> (set xs) \<union> x"
proof (induction xs arbitrary: t)
  case (Cons y ys)
  show ?case
  proof (cases t)
    case (Suc k)
    with Cons.prems have "\<Union> (set (ys[k := x])) \<union> ys ! k = \<Union> (set ys) \<union> x" by (intro Cons.IH) simp
    with Suc show ?thesis by auto
  qed auto
qed simp

section \<open>Differences of type \<^verbatim>\<open>size_t\<close>\<close>

text \<open>\<^verbatim>\<open>size_t\<close> has 64 bits on both targets; a negative difference wraps around.\<close>

definition size_sub :: "nat \<Rightarrow> nat \<Rightarrow> nat" where
  "size_sub a b = nat ((int a - int b) mod 2 ^ 64)"

lemma size_sub_le [simp]:
  assumes "b \<le> a" and "a < 2 ^ 64"
  shows "size_sub a b = a - b"
proof -
  have "int a < 2 ^ 64"
    using assms(2) by simp
  then have "(int a - int b) mod 2 ^ 64 = int a - int b"
    using assms(1) by (intro mod_pos_pos_trivial) linarith+
  then show ?thesis
    by (simp only: size_sub_def nat_minus_as_int)
qed

lemma size_sub_bound: "size_sub a b < 2 ^ 64"
proof -
  have "(int a - int b) mod 2 ^ 64 < 2 ^ 64"
    by (rule pos_mod_bound) simp
  moreover have "0 \<le> (int a - int b) mod 2 ^ 64"
    by (rule pos_mod_sign) simp
  ultimately show ?thesis
    by (simp add: size_sub_def)
qed

section \<open>Transition systems\<close>

inductive reach :: "('s \<Rightarrow> bool) \<Rightarrow> ('s \<Rightarrow> 's \<Rightarrow> bool) \<Rightarrow> 's \<Rightarrow> bool"
  for init :: "'s \<Rightarrow> bool" and step :: "'s \<Rightarrow> 's \<Rightarrow> bool" where
  reach_init: "init s \<Longrightarrow> reach init step s"
| reach_step: "reach init step s \<Longrightarrow> step s t \<Longrightarrow> reach init step t"

text \<open>
  The contract of every inductive-invariant argument below: an invariant that the initial states
  have and the steps keep holds in every reachable state.
\<close>

locale invariant_system =
  fixes init :: "'s \<Rightarrow> bool"
    and step :: "'s \<Rightarrow> 's \<Rightarrow> bool"
    and inv :: "'s \<Rightarrow> bool"
  assumes inv_init: "init s \<Longrightarrow> inv s"
    and inv_step: "inv s \<Longrightarrow> step s t \<Longrightarrow> inv t"
begin

lemma inv_reach: "reach init step s \<Longrightarrow> inv s"
  by (induction rule: reach.induct) (blast intro: inv_init inv_step)+

lemma inv_steps: "step\<^sup>*\<^sup>* s t \<Longrightarrow> inv s \<Longrightarrow> inv t"
  by (induction rule: rtranclp_induct) (blast intro: inv_step)+

end

end
