(* ===== verification/CircBuf.thy ===== *)
theory CircBuf
  imports Prelude
begin

text \<open>
  The circular buffer of \<^verbatim>\<open>GameLiftLinuxServer/CircularBuffer.h\<close> and
  \<^verbatim>\<open>.cpp\<close>: one allocation that holds up to two regions, A and B. The pointers
  \<^verbatim>\<open>mARegionPointer\<close> and \<^verbatim>\<open>mBRegionPointer\<close> are offsets from
  \<^verbatim>\<open>mBuffer\<close>, \<^verbatim>\<open>None\<close> is \<^verbatim>\<open>nullptr\<close>, and
  \<^verbatim>\<open>mBufferEnd\<close> is the length of the allocation. Every operation is written with its
  \<^verbatim>\<open>memcpy\<close> calls and its \<^verbatim>\<open>assert\<close>s; the invariant then shows that none of
  them faults and that the buffer is a bounded byte queue.
\<close>

section \<open>State and accessors\<close>

record cbuf =
  mBuffer :: "byte list"
  mARegionPointer :: nat
  mARegionSize :: nat
  mBRegionPointer :: "nat option"
  mBRegionSize :: nat

definition CircularBuffer_new :: "nat \<Rightarrow> byte list \<Rightarrow> cbuf" where
  \<comment> \<open>\<open>new char[capacity]\<close> leaves the cells unspecified: they are an argument\<close>
  "CircularBuffer_new capacity cells =
     \<lparr>mBuffer = take capacity (cells @ replicate capacity 0), mARegionPointer = 0,
      mARegionSize = 0, mBRegionPointer = None, mBRegionSize = 0\<rparr>"

text \<open>\<^verbatim>\<open>BufferReset\<close>, which the copies of the Windows programs and of the game client
  have; \<^verbatim>\<open>mCapacity\<close> is the length of the allocation.\<close>

definition BufferReset :: "cbuf \<Rightarrow> cbuf" where
  "BufferReset b = \<lparr>mBuffer = replicate (length (mBuffer b)) 0, mARegionPointer = 0,
     mARegionSize = 0, mBRegionPointer = None, mBRegionSize = 0\<rparr>"

definition GetAFreeSpace :: "cbuf \<Rightarrow> nat" where
  "GetAFreeSpace b = size_sub (length (mBuffer b)) (mARegionPointer b + mARegionSize b)"

definition GetSpaceBeforeA :: "cbuf \<Rightarrow> nat" where
  "GetSpaceBeforeA b = mARegionPointer b"

definition GetBFreeSpace :: "cbuf \<Rightarrow> nat" where
  "GetBFreeSpace b =
     (case mBRegionPointer b of None \<Rightarrow> 0
      | Some p \<Rightarrow> size_sub (mARegionPointer b) (p + mBRegionSize b))"

definition AllocateB :: "cbuf \<Rightarrow> cbuf" where
  "AllocateB b = b\<lparr>mBRegionPointer := Some 0\<rparr>"

definition GetFreeSpaceSize :: "cbuf \<Rightarrow> nat \<times> cbuf" where
  "GetFreeSpaceSize b =
     (if mBRegionPointer b \<noteq> None then (GetBFreeSpace b, b)
      else if GetAFreeSpace b < GetSpaceBeforeA b
           then (let b' = AllocateB b in (GetBFreeSpace b', b'))
           else (GetAFreeSpace b, b))"

definition GetStoredSize :: "cbuf \<Rightarrow> nat" where
  "GetStoredSize b = mARegionSize b + mBRegionSize b"

definition GetContiguiousBytes :: "cbuf \<Rightarrow> nat" where
  "GetContiguiousBytes b = (if mARegionSize b > 0 then mARegionSize b else mBRegionSize b)"

definition GetBuffer :: "cbuf \<Rightarrow> nat" where
  "GetBuffer b =
     (case mBRegionPointer b of Some p \<Rightarrow> p + mBRegionSize b
      | None \<Rightarrow> mARegionPointer b + mARegionSize b)"

definition Commit :: "nat \<Rightarrow> cbuf \<Rightarrow> cbuf" where
  "Commit len b =
     (if mBRegionPointer b \<noteq> None then b\<lparr>mBRegionSize := mBRegionSize b + len\<rparr>
      else b\<lparr>mARegionSize := mARegionSize b + len\<rparr>)"

definition GetBufferStart :: "cbuf \<Rightarrow> nat option" where
  "GetBufferStart b =
     (if mARegionSize b > 0 then Some (mARegionPointer b) else mBRegionPointer b)"

section \<open>Peek, Read, Write and Remove\<close>

text \<open>
  The part of \<^verbatim>\<open>Peek\<close> and \<^verbatim>\<open>Read\<close> that copies out of region B, with its two
  assertions; \<^verbatim>\<open>cnt\<close> is what remains to copy.
\<close>

definition copy_from_B :: "nat \<Rightarrow> cbuf \<Rightarrow> byte list outcome" where
  "copy_from_B cnt b =
     (if cnt > 0 \<and> mBRegionSize b > 0
      then if cnt \<le> mBRegionSize b
           then (case mBRegionPointer b of None \<Rightarrow> Fault NullDeref
                 | Some p \<Rightarrow> mem_read p cnt (mBuffer b))
           else Fault AssertFailed
      else if cnt = 0 then Ok [] else Fault AssertFailed)"

definition Peek :: "nat \<Rightarrow> cbuf \<Rightarrow> byte list option outcome" where
  "Peek bytes b =
     (if mARegionSize b + mBRegionSize b < bytes then Ok None
      else let aRead = (if mARegionSize b > 0 then min bytes (mARegionSize b) else 0)
           in bnd (mem_read (mARegionPointer b) aRead (mBuffer b)) (\<lambda>da.
              bnd (copy_from_B (bytes - aRead) b) (\<lambda>db. Ok (Some (da @ db)))))"

text \<open>When region A ran empty, region B moves to the front, or both are reset.\<close>

definition rebase :: "cbuf \<Rightarrow> cbuf outcome" where
  "rebase b =
     (if mARegionSize b = 0
      then if mBRegionSize b > 0
           then (case mBRegionPointer b of None \<Rightarrow> Fault NullDeref
                 | Some p \<Rightarrow>
                     bnd (mem_read p (mBRegionSize b) (mBuffer b)) (\<lambda>xs.
                     bnd (if p \<noteq> 0 then mem_write 0 xs (mBuffer b) else Ok (mBuffer b)) (\<lambda>m.
                     Ok (b\<lparr>mBuffer := m, mARegionPointer := 0, mARegionSize := mBRegionSize b,
                           mBRegionPointer := None, mBRegionSize := 0\<rparr>))))
           else Ok (b\<lparr>mBRegionPointer := None, mBRegionSize := 0, mARegionPointer := 0,
                      mARegionSize := 0\<rparr>)
      else Ok b)"

definition take_A :: "nat \<Rightarrow> cbuf \<Rightarrow> cbuf" where
  "take_A n b = b\<lparr>mARegionSize := mARegionSize b - n, mARegionPointer := mARegionPointer b + n\<rparr>"

definition take_B :: "nat \<Rightarrow> cbuf \<Rightarrow> cbuf" where
  "take_B n b =
     (if n > 0 \<and> mBRegionSize b > 0
      then b\<lparr>mBRegionSize := mBRegionSize b - n,
             mBRegionPointer := map_option (\<lambda>p. p + n) (mBRegionPointer b)\<rparr>
      else b)"

definition Read :: "nat \<Rightarrow> cbuf \<Rightarrow> (byte list option \<times> cbuf) outcome" where
  "Read bytes b =
     (if mARegionSize b + mBRegionSize b < bytes then Ok (None, b)
      else let aRead = (if mARegionSize b > 0 then min bytes (mARegionSize b) else 0)
           in bnd (mem_read (mARegionPointer b) aRead (mBuffer b)) (\<lambda>da.
              bnd (copy_from_B (bytes - aRead) b) (\<lambda>db.
              bnd (rebase (take_B (bytes - aRead) (take_A aRead b))) (\<lambda>b'.
              Ok (Some (da @ db), b')))))"

text \<open>The two copies of \<^verbatim>\<open>Write\<close>'s guarded append to region B are one definition.\<close>

definition append_B :: "byte list \<Rightarrow> cbuf \<Rightarrow> (bool \<times> cbuf) outcome" where
  "append_B data b =
     (if GetBFreeSpace b < length data then Ok (False, b)
      else (case mBRegionPointer b of None \<Rightarrow> Fault NullDeref
            | Some p \<Rightarrow>
                bnd (mem_write (p + mBRegionSize b) data (mBuffer b)) (\<lambda>m.
                Ok (True, b\<lparr>mBuffer := m, mBRegionSize := mBRegionSize b + length data\<rparr>))))"

definition Write :: "byte list \<Rightarrow> cbuf \<Rightarrow> (bool \<times> cbuf) outcome" where
  "Write data b =
     (if mBRegionPointer b \<noteq> None then append_B data b
      else if GetAFreeSpace b < GetSpaceBeforeA b then append_B data (AllocateB b)
      else if GetAFreeSpace b < length data then Ok (False, b)
      else bnd (mem_write (mARegionPointer b + mARegionSize b) data (mBuffer b)) (\<lambda>m.
           Ok (True, b\<lparr>mBuffer := m, mARegionSize := mARegionSize b + length data\<rparr>)))"

definition Remove :: "nat \<Rightarrow> cbuf \<Rightarrow> cbuf outcome" where
  "Remove len b =
     (let aRemove = (if mARegionSize b > 0 then min len (mARegionSize b) else 0);
          cnt = len - aRemove;
          bRemove = (if cnt > 0 \<and> mBRegionSize b > 0 then min cnt (mBRegionSize b) else 0)
      in rebase (take_B bRemove (take_A aRemove b)))"

section \<open>The invariant and the queue the buffer stands for\<close>

definition cb_inv :: "cbuf \<Rightarrow> bool" where
  "cb_inv b \<longleftrightarrow>
     length (mBuffer b) < 2 ^ 64 \<and>
     mARegionPointer b + mARegionSize b \<le> length (mBuffer b) \<and>
     (case mBRegionPointer b of None \<Rightarrow> mBRegionSize b = 0
      | Some p \<Rightarrow> p = 0 \<and> mBRegionSize b \<le> mARegionPointer b \<and>
                  length (mBuffer b) \<le> 2 * mARegionPointer b + mARegionSize b) \<and>
     (mARegionSize b = 0 \<longrightarrow> mARegionPointer b = 0 \<and> mBRegionPointer b = None)"

definition contents :: "cbuf \<Rightarrow> byte list" where
  "contents b =
     slice (mARegionPointer b) (mARegionSize b) (mBuffer b) @
     (case mBRegionPointer b of None \<Rightarrow> []
      | Some p \<Rightarrow> slice p (mBRegionSize b) (mBuffer b))"

definition capacity :: "cbuf \<Rightarrow> nat" where
  "capacity b = length (mBuffer b)"

text \<open>The room a \<^verbatim>\<open>Write\<close> has: one contiguous region, in front of A or behind it.\<close>

definition room :: "cbuf \<Rightarrow> nat" where
  "room b =
     (case mBRegionPointer b of Some p \<Rightarrow> mARegionPointer b - mBRegionSize b
      | None \<Rightarrow> max (mARegionPointer b)
                        (length (mBuffer b) - (mARegionPointer b + mARegionSize b)))"

text \<open>
  What the kernel and \<^verbatim>\<open>WSARecv\<close> do with the buffer: they store the received bytes at
  \<^verbatim>\<open>GetBuffer()\<close>, and the caller then calls \<^verbatim>\<open>Commit\<close>.
\<close>

definition recv_into :: "byte list \<Rightarrow> cbuf \<Rightarrow> cbuf outcome" where
  "recv_into data b =
     bnd (mem_write (GetBuffer b) data (mBuffer b)) (\<lambda>m.
     Ok (Commit (length data) (b\<lparr>mBuffer := m\<rparr>)))"

section \<open>Every operation keeps the invariant and acts on the queue\<close>

lemma length_contents:
  "cb_inv b \<Longrightarrow> length (contents b) = mARegionSize b + mBRegionSize b"
  by (auto simp: cb_inv_def contents_def split: option.splits)

lemma GetStoredSize_eq: "cb_inv b \<Longrightarrow> GetStoredSize b = length (contents b)"
  by (simp add: GetStoredSize_def length_contents)

lemma contents_le_capacity: "cb_inv b \<Longrightarrow> length (contents b) \<le> capacity b"
  by (auto simp: length_contents cb_inv_def capacity_def split: option.splits)

lemma free_A: "cb_inv b \<Longrightarrow>
    GetAFreeSpace b = length (mBuffer b) - (mARegionPointer b + mARegionSize b)"
  by (auto simp: cb_inv_def GetAFreeSpace_def)

lemma free_B: "cb_inv b \<Longrightarrow> mBRegionPointer b = Some p \<Longrightarrow>
    GetBFreeSpace b = mARegionPointer b - mBRegionSize b"
  by (auto simp: cb_inv_def GetBFreeSpace_def)

lemma cb_inv_AllocateB:
  assumes "cb_inv b" and "mBRegionPointer b = None" and "GetAFreeSpace b < GetSpaceBeforeA b"
  shows "cb_inv (AllocateB b)" and "contents (AllocateB b) = contents b"
    and "room (AllocateB b) = room b" and "capacity (AllocateB b) = capacity b"
  using assms free_A [OF assms(1)]
  by (auto simp: cb_inv_def AllocateB_def GetSpaceBeforeA_def contents_def room_def capacity_def)

text \<open>The state between taking bytes out of the regions and \<^const>\<open>rebase\<close>.\<close>

definition pre_inv :: "cbuf \<Rightarrow> bool" where
  "pre_inv b \<longleftrightarrow>
     length (mBuffer b) < 2 ^ 64 \<and>
     mARegionPointer b + mARegionSize b \<le> length (mBuffer b) \<and>
     (case mBRegionPointer b of None \<Rightarrow> mBRegionSize b = 0
      | Some p \<Rightarrow> p + mBRegionSize b \<le> length (mBuffer b) \<and>
                  (mARegionSize b > 0 \<longrightarrow> p = 0 \<and> mBRegionSize b \<le> mARegionPointer b \<and>
                    length (mBuffer b) \<le> 2 * mARegionPointer b + mARegionSize b))"

lemma rebase_spec:
  assumes "pre_inv b"
  shows "\<exists>b'. rebase b = Ok b' \<and> cb_inv b' \<and> contents b' = contents b \<and> capacity b' = capacity b"
proof (cases "mARegionSize b = 0 \<and> mBRegionSize b > 0")
  case True
  then obtain p where p: "mBRegionPointer b = Some p"
    using assms by (auto simp: pre_inv_def split: option.splits)
  have le: "p + mBRegionSize b \<le> length (mBuffer b)"
    using assms p by (simp add: pre_inv_def)
  have "mem_read p (mBRegionSize b) (mBuffer b) = Ok (slice p (mBRegionSize b) (mBuffer b))"
    using le by (simp add: mem_read_def)
  with True p le assms show ?thesis
    by (auto simp: rebase_def mem_write_def cb_inv_def pre_inv_def contents_def capacity_def region)
next
  case False
  with assms show ?thesis
    by (auto simp: rebase_def cb_inv_def pre_inv_def contents_def capacity_def split: option.splits)
qed

lemma taken_pre_inv:
  assumes "cb_inv b" and "a \<le> mARegionSize b" and "c \<le> mBRegionSize b"
    and "c > 0 \<Longrightarrow> a = mARegionSize b"
  shows "pre_inv (take_B c (take_A a b))"
  using assms
  by (cases "c = 0")
    (auto simp: cb_inv_def pre_inv_def take_A_def take_B_def split: option.splits)

lemma taken_contents:
  assumes "cb_inv b" and "a \<le> mARegionSize b" and "c \<le> mBRegionSize b"
    and "c > 0 \<Longrightarrow> a = mARegionSize b"
  shows "contents (take_B c (take_A a b)) = drop (a + c) (contents b)"
  using assms
  by (cases "c = 0")
    (auto simp: cb_inv_def contents_def take_A_def take_B_def region split: option.splits)

lemma taken_capacity [simp]: "capacity (take_B c (take_A a b)) = capacity b"
  by (simp add: capacity_def take_A_def take_B_def)

lemma take_rebase:
  assumes "cb_inv b" and "a \<le> mARegionSize b" and "c \<le> mBRegionSize b"
    and "c > 0 \<Longrightarrow> a = mARegionSize b"
  shows "\<exists>b'. rebase (take_B c (take_A a b)) = Ok b' \<and> cb_inv b' \<and>
      contents b' = drop (a + c) (contents b) \<and> capacity b' = capacity b"
  using rebase_spec [OF taken_pre_inv [OF assms]] taken_contents [OF assms] by simp

lemma copy_out:
  assumes "cb_inv b" and "n \<le> length (contents b)"
  defines "a \<equiv> (if mARegionSize b > 0 then min n (mARegionSize b) else 0)"
  shows "mem_read (mARegionPointer b) a (mBuffer b) = Ok (take a (contents b))"
    and "copy_from_B (n - a) b = Ok (take (n - a) (drop a (contents b)))"
    and "a \<le> mARegionSize b" and "n - a \<le> mBRegionSize b"
    and "n - a > 0 \<Longrightarrow> a = mARegionSize b" and "a + (n - a) = n"
proof -
  show a: "a \<le> mARegionSize b" "n - a > 0 \<Longrightarrow> a = mARegionSize b" "n - a \<le> mBRegionSize b"
      "a + (n - a) = n"
    using assms(1,2) by (auto simp: a_def length_contents)
  show "mem_read (mARegionPointer b) a (mBuffer b) = Ok (take a (contents b))"
    using assms(1) a(1)
    by (auto simp: mem_read_def cb_inv_def contents_def region split: option.splits)
  show "copy_from_B (n - a) b = Ok (take (n - a) (drop a (contents b)))"
  proof (cases "n - a = 0")
    case True
    then show ?thesis by (simp add: copy_from_B_def)
  next
    case False
    with a have "a = mARegionSize b" "0 < mBRegionSize b" by auto
    with False a(3) assms(1) show ?thesis
      by (auto simp: copy_from_B_def mem_read_def cb_inv_def contents_def region
          split: option.splits)
  qed
qed

lemma Peek_spec:
  assumes "cb_inv b"
  shows "Peek n b =
    Ok (if n \<le> length (contents b) then Some (take n (contents b)) else None)"
proof (cases "n \<le> length (contents b)")
  case True
  note c = copy_out [OF assms True]
  show ?thesis
    using True c(1,2,6) assms by (simp add: Peek_def length_contents Let_def flip: take_add)
qed (simp add: Peek_def length_contents [OF assms])

lemma Read_ok:
  assumes "cb_inv b" and "n \<le> length (contents b)"
  shows "\<exists>b'. Read n b = Ok (Some (take n (contents b)), b') \<and> cb_inv b' \<and>
      contents b' = drop n (contents b) \<and> capacity b' = capacity b"
proof -
  note c = copy_out [OF assms]
  from take_rebase [OF assms(1) c(3,4,5)] c(1,2,6) assms show ?thesis
    by (auto simp: Read_def length_contents Let_def simp flip: take_add)
qed

lemma Read_short: "cb_inv b \<Longrightarrow> length (contents b) < n \<Longrightarrow> Read n b = Ok (None, b)"
  by (simp add: Read_def length_contents)

lemma Remove_spec:
  assumes "cb_inv b"
  shows "\<exists>b'. Remove n b = Ok b' \<and> cb_inv b' \<and> contents b' = drop n (contents b) \<and>
      capacity b' = capacity b"
proof -
  define a where "a = (if mARegionSize b > 0 then min n (mARegionSize b) else 0)"
  define c where "c = (if n - a > 0 \<and> mBRegionSize b > 0 then min (n - a) (mBRegionSize b) else 0)"
  have "a \<le> mARegionSize b" "c \<le> mBRegionSize b" "c > 0 \<Longrightarrow> a = mARegionSize b"
    by (auto simp: a_def c_def min_def split: if_splits)
  from take_rebase [OF assms this]
  obtain b' where b': "rebase (take_B c (take_A a b)) = Ok b'" "cb_inv b'"
      "contents b' = drop (a + c) (contents b)" "capacity b' = capacity b"
    by blast
  have "drop (a + c) (contents b) = drop n (contents b)"
    by (cases "n \<le> length (contents b)")
      (auto simp: a_def c_def length_contents [OF assms] min_def)
  moreover have "Remove n b = rebase (take_B c (take_A a b))"
    by (simp only: Remove_def Let_def a_def c_def)
  ultimately show ?thesis
    using b' by simp
qed

lemma append_B_ok:
  assumes "cb_inv b" and "mBRegionPointer b = Some p" and "length d \<le> room b"
  shows "\<exists>b'. append_B d b = Ok (True, b') \<and> cb_inv b' \<and> contents b' = contents b @ d \<and>
      capacity b' = capacity b"
  using assms free_B [OF assms(1,2)]
  by (auto simp: append_B_def mem_write_def cb_inv_def contents_def capacity_def room_def region
      slice_split)

lemma append_B_full:
  "cb_inv b \<Longrightarrow> mBRegionPointer b = Some p \<Longrightarrow> room b < length d \<Longrightarrow> append_B d b = Ok (False, b)"
  by (simp add: append_B_def free_B room_def)

lemma append_A_ok:
  assumes "cb_inv b" and "mBRegionPointer b = None"
    and "length d \<le> length (mBuffer b) - (mARegionPointer b + mARegionSize b)"
  defines "b' \<equiv> b\<lparr>mBuffer := overwrite (mARegionPointer b + mARegionSize b) d (mBuffer b),
                   mARegionSize := mARegionSize b + length d\<rparr>"
  shows "mem_write (mARegionPointer b + mARegionSize b) d (mBuffer b) = Ok (mBuffer b')"
    and "cb_inv b'" and "contents b' = contents b @ d" and "capacity b' = capacity b"
  using assms(1-3)
  by (auto simp: b'_def mem_write_def cb_inv_def contents_def capacity_def region slice_split)

lemma Write_ok:
  assumes "cb_inv b" and "length d \<le> room b"
  shows "\<exists>b'. Write d b = Ok (True, b') \<and> cb_inv b' \<and> contents b' = contents b @ d \<and>
      capacity b' = capacity b"
proof (cases "mBRegionPointer b")
  case (Some p)
  with append_B_ok [OF assms(1) Some assms(2)] show ?thesis by (simp add: Write_def)
next
  case None
  note fA = free_A [OF assms(1)]
  show ?thesis
  proof (cases "GetAFreeSpace b < GetSpaceBeforeA b")
    case True
    note al = cb_inv_AllocateB [OF assms(1) None True]
    have "mBRegionPointer (AllocateB b) = Some 0" by (simp add: AllocateB_def)
    from append_B_ok [OF al(1) this] al assms(2) True None show ?thesis
      by (simp add: Write_def)
  next
    case False
    then have le: "length d \<le> length (mBuffer b) - (mARegionPointer b + mARegionSize b)"
      using assms(2) fA None by (simp add: room_def GetSpaceBeforeA_def max_def split: if_splits)
    note a = append_A_ok [OF assms(1) None le]
    from a False None le fA show ?thesis by (auto simp: Write_def)
  qed
qed

lemma Write_full:
  assumes "cb_inv b" and "room b < length d"
  shows "\<exists>b'. Write d b = Ok (False, b') \<and> cb_inv b' \<and> contents b' = contents b \<and>
      capacity b' = capacity b \<and> room b' = room b"
proof (cases "mBRegionPointer b")
  case (Some p)
  with append_B_full [OF assms(1) Some assms(2)] assms(1) show ?thesis by (simp add: Write_def)
next
  case None
  note fA = free_A [OF assms(1)]
  show ?thesis
  proof (cases "GetAFreeSpace b < GetSpaceBeforeA b")
    case True
    note al = cb_inv_AllocateB [OF assms(1) None True]
    have "mBRegionPointer (AllocateB b) = Some 0" by (simp add: AllocateB_def)
    from append_B_full [OF al(1) this] al assms(2) True None show ?thesis
      by (simp add: Write_def)
  next
    case False
    with assms fA None show ?thesis by (simp add: Write_def room_def GetSpaceBeforeA_def)
  qed
qed

section \<open>Receiving into the buffer, sending out of it\<close>

lemma GetFreeSpaceSize_spec:
  assumes "cb_inv b"
  defines "b' \<equiv> snd (GetFreeSpaceSize b)"
  shows "fst (GetFreeSpaceSize b) = room b" and "cb_inv b'" and "contents b' = contents b"
    and "capacity b' = capacity b" and "room b' = room b"
    and "GetBuffer b' + room b' \<le> length (mBuffer b')"
    and "fst (GetFreeSpaceSize b') = room b" and "snd (GetFreeSpaceSize b') = b'"
proof -
  have "fst (GetFreeSpaceSize b) = room b \<and> cb_inv b' \<and> contents b' = contents b \<and>
      capacity b' = capacity b \<and> room b' = room b \<and>
      GetBuffer b' + room b' \<le> length (mBuffer b') \<and>
      fst (GetFreeSpaceSize b') = room b \<and> snd (GetFreeSpaceSize b') = b'"
  proof (cases "mBRegionPointer b")
    case (Some p)
    with assms(1) free_B [OF assms(1) Some] show ?thesis
      by (auto simp: b'_def GetFreeSpaceSize_def GetBuffer_def room_def cb_inv_def)
  next
    case None
    show ?thesis
    proof (cases "GetAFreeSpace b < GetSpaceBeforeA b")
      case True
      note al = cb_inv_AllocateB [OF assms(1) None True]
      have P: "mBRegionPointer (AllocateB b) = Some 0" by (simp add: AllocateB_def)
      from True None have b': "b' = AllocateB b"
        by (simp add: b'_def GetFreeSpaceSize_def Let_def)
      from al True None P free_B [OF al(1) P] assms(1) show ?thesis
        by (auto simp: b' GetFreeSpaceSize_def GetBuffer_def room_def cb_inv_def AllocateB_def)
    next
      case False
      with assms(1) None free_A [OF assms(1)] show ?thesis
        by (auto simp: b'_def GetFreeSpaceSize_def GetBuffer_def room_def cb_inv_def
            GetSpaceBeforeA_def)
    qed
  qed
  then show "fst (GetFreeSpaceSize b) = room b" "cb_inv b'" "contents b' = contents b"
    "capacity b' = capacity b" "room b' = room b" "GetBuffer b' + room b' \<le> length (mBuffer b')"
    "fst (GetFreeSpaceSize b') = room b" "snd (GetFreeSpaceSize b') = b'"
    by blast+
qed

text \<open>
  Receiving is safe when the destination is read after \<^const>\<open>GetFreeSpaceSize\<close> ran, because
  only then do \<^const>\<open>GetBuffer\<close> and the size speak of the same region.
\<close>

lemma recv_spec:
  assumes "cb_inv b" and "length d \<le> room b"
  shows "\<exists>b'. recv_into d (snd (GetFreeSpaceSize b)) = Ok b' \<and> cb_inv b' \<and>
      contents b' = contents b @ d \<and> capacity b' = capacity b"
proof -
  define c where "c = snd (GetFreeSpaceSize b)"
  note sp = GetFreeSpaceSize_spec [OF assms(1), folded c_def]
  have le: "GetBuffer c + length d \<le> length (mBuffer c)"
    using sp(5,6) assms(2) by linarith
  have "contents (Commit (length d) (c\<lparr>mBuffer := overwrite (GetBuffer c) d (mBuffer c)\<rparr>)) =
      contents c @ d \<and>
      cb_inv (Commit (length d) (c\<lparr>mBuffer := overwrite (GetBuffer c) d (mBuffer c)\<rparr>))"
  proof (cases "mBRegionPointer c")
    case (Some p)
    moreover have "length d + mBRegionSize c \<le> mARegionPointer c"
      using sp(2,5) assms(2) Some by (auto simp: room_def cb_inv_def)
    ultimately show ?thesis
      using sp(2) le
      by (auto simp: Commit_def GetBuffer_def contents_def cb_inv_def region slice_split)
  next
    case None
    have "d \<noteq> [] \<or> d = []" by simp
    with None sp(2) le show ?thesis
      by (auto simp: Commit_def GetBuffer_def contents_def cb_inv_def region slice_split)
  qed
  with le sp(2,3,4) show ?thesis
    by (auto simp: recv_into_def mem_write_def capacity_def Commit_def c_def [symmetric])
qed

text \<open>The bytes \<^verbatim>\<open>write\<close> and \<^verbatim>\<open>WSASend\<close> find at \<^verbatim>\<open>GetBufferStart()\<close>.\<close>

definition front :: "nat \<Rightarrow> cbuf \<Rightarrow> byte list outcome" where
  "front n b =
     (if n = 0 then Ok []
      else (case GetBufferStart b of None \<Rightarrow> Fault NullDeref
            | Some p \<Rightarrow> mem_read p n (mBuffer b)))"

lemma contiguous_spec:
  assumes "cb_inv b"
  shows "GetContiguiousBytes b \<le> length (contents b)"
    and "GetContiguiousBytes b = 0 \<longleftrightarrow> contents b = []"
    and "n \<le> GetContiguiousBytes b \<Longrightarrow> front n b = Ok (take n (contents b))"
proof -
  show "GetContiguiousBytes b \<le> length (contents b)"
    using assms by (simp add: GetContiguiousBytes_def length_contents)
  have "GetContiguiousBytes b = 0 \<longleftrightarrow> length (contents b) = 0"
    by (simp only: length_contents [OF assms]) (simp add: GetContiguiousBytes_def)
  then show "GetContiguiousBytes b = 0 \<longleftrightarrow> contents b = []"
    by simp
  show "n \<le> GetContiguiousBytes b \<Longrightarrow> front n b = Ok (take n (contents b))"
    using assms
    by (auto simp: GetContiguiousBytes_def front_def GetBufferStart_def mem_read_def cb_inv_def
        contents_def region split: if_splits option.splits)
qed

lemma CircularBuffer_new_spec:
  assumes "n < 2 ^ 64"
  shows "cb_inv (CircularBuffer_new n cells)" and "contents (CircularBuffer_new n cells) = []"
    and "capacity (CircularBuffer_new n cells) = n" and "room (CircularBuffer_new n cells) = n"
  using assms by (auto simp: CircularBuffer_new_def cb_inv_def contents_def capacity_def room_def)

lemma BufferReset_spec:
  assumes "cb_inv b"
  shows "cb_inv (BufferReset b)" and "contents (BufferReset b) = []"
    and "capacity (BufferReset b) = capacity b" and "room (BufferReset b) = capacity b"
  using assms by (auto simp: BufferReset_def cb_inv_def contents_def capacity_def room_def)

text \<open>Only an empty buffer, or one whose data is at the front, offers all its free cells.\<close>

lemma room_le: "cb_inv b \<Longrightarrow> room b + length (contents b) \<le> capacity b"
  by (auto simp: length_contents room_def cb_inv_def capacity_def split: option.splits)

lemma room_empty: "cb_inv b \<Longrightarrow> contents b = [] \<Longrightarrow> room b = capacity b"
  using length_contents [of b] by (auto simp: room_def cb_inv_def capacity_def)

text \<open>
  Region B is allocated only when the cells in front of A outnumber those behind it, so the two
  regions never waste more than half of the buffer.
\<close>

lemma room_half: "cb_inv b \<Longrightarrow> capacity b \<le> 2 * (room b + length (contents b))"
  by (auto simp: length_contents room_def cb_inv_def capacity_def max_def split: option.splits)

section \<open>The interface: a bounded byte queue\<close>

text \<open>
  What the sessions rely on. The queue's room may be less than its capacity minus what it holds
  (the two regions are not joined), but never more, and an empty queue offers its whole capacity.
\<close>

locale byte_queue =
  fixes inv :: "'q \<Rightarrow> bool" and cont :: "'q \<Rightarrow> byte list" and cap :: "'q \<Rightarrow> nat"
    and space :: "'q \<Rightarrow> nat"
    and wr :: "byte list \<Rightarrow> 'q \<Rightarrow> (bool \<times> 'q) outcome"
    and rd :: "nat \<Rightarrow> 'q \<Rightarrow> (byte list option \<times> 'q) outcome"
    and pk :: "nat \<Rightarrow> 'q \<Rightarrow> byte list option outcome"
    and rm :: "nat \<Rightarrow> 'q \<Rightarrow> 'q outcome"
  assumes wr_ok: "inv q \<Longrightarrow> length d \<le> space q \<Longrightarrow>
      \<exists>q'. wr d q = Ok (True, q') \<and> inv q' \<and> cont q' = cont q @ d \<and> cap q' = cap q"
    and wr_full: "inv q \<Longrightarrow> space q < length d \<Longrightarrow>
      \<exists>q'. wr d q = Ok (False, q') \<and> inv q' \<and> cont q' = cont q \<and> cap q' = cap q \<and>
        space q' = space q"
    and rd_ok: "inv q \<Longrightarrow> n \<le> length (cont q) \<Longrightarrow>
      \<exists>q'. rd n q = Ok (Some (take n (cont q)), q') \<and> inv q' \<and> cont q' = drop n (cont q) \<and>
        cap q' = cap q"
    and rd_short: "inv q \<Longrightarrow> length (cont q) < n \<Longrightarrow> rd n q = Ok (None, q)"
    and pk_eq: "inv q \<Longrightarrow> pk n q =
      Ok (if n \<le> length (cont q) then Some (take n (cont q)) else None)"
    and rm_ok: "inv q \<Longrightarrow>
      \<exists>q'. rm n q = Ok q' \<and> inv q' \<and> cont q' = drop n (cont q) \<and> cap q' = cap q"
    and space_le: "inv q \<Longrightarrow> space q + length (cont q) \<le> cap q"
    and space_empty: "inv q \<Longrightarrow> cont q = [] \<Longrightarrow> space q = cap q"
    and space_half: "inv q \<Longrightarrow> cap q \<le> 2 * (space q + length (cont q))"

text \<open>
  A session's use of a buffer over time: writes, reads and peeks, and the removals that follow a
  send, which name the bytes sent. The run collects what the buffer accepted and what it delivered.
\<close>

datatype qop = QWrite "byte list" | QRead nat | QPeek nat | QSent nat

fun queue_run ::
  "(byte list \<Rightarrow> 'q \<Rightarrow> (bool \<times> 'q) outcome) \<Rightarrow> (nat \<Rightarrow> 'q \<Rightarrow> (byte list option \<times> 'q) outcome) \<Rightarrow>
   (nat \<Rightarrow> 'q \<Rightarrow> byte list option outcome) \<Rightarrow> (nat \<Rightarrow> 'q \<Rightarrow> 'q outcome) \<Rightarrow>
   qop list \<Rightarrow> 'q \<Rightarrow> (byte list \<times> byte list \<times> 'q) outcome" where
  "queue_run wr rd pk rm [] q = Ok ([], [], q)"
| "queue_run wr rd pk rm (QWrite d # ops) q =
     bnd (wr d q) (\<lambda>(ok, q').
     bnd (queue_run wr rd pk rm ops q') (\<lambda>(acc, del, r).
     Ok ((if ok then d else []) @ acc, del, r)))"
| "queue_run wr rd pk rm (QRead n # ops) q =
     bnd (rd n q) (\<lambda>(x, q').
     bnd (queue_run wr rd pk rm ops q') (\<lambda>(acc, del, r).
     Ok (acc, (case x of None \<Rightarrow> [] | Some d \<Rightarrow> d) @ del, r)))"
| "queue_run wr rd pk rm (QPeek n # ops) q =
     bnd (pk n q) (\<lambda>_. queue_run wr rd pk rm ops q)"
| "queue_run wr rd pk rm (QSent n # ops) q =
     bnd (pk n q) (\<lambda>x. case x of
       None \<Rightarrow> queue_run wr rd pk rm ops q
     | Some d \<Rightarrow>
         bnd (rm n q) (\<lambda>q'.
         bnd (queue_run wr rd pk rm ops q') (\<lambda>(acc, del, r). Ok (acc, d @ del, r))))"

context byte_queue
begin

lemma space_bound: "inv q \<Longrightarrow> space q \<le> cap q - length (cont q)"
  using space_le by fastforce

lemma space_enough: "inv q \<Longrightarrow> 2 * (length (cont q) + n) \<le> cap q \<Longrightarrow> n \<le> space q"
  using space_half by fastforce

lemma wr_cases:
  assumes "inv q"
  obtains q' where "wr d q = Ok (length d \<le> space q, q')" and "inv q'" and "cap q' = cap q"
    and "cont q' = cont q @ (if length d \<le> space q then d else [])"
  using wr_ok [OF assms, of d] wr_full [OF assms, of d]
  by (cases "length d \<le> space q") auto

lemma rd_cases:
  assumes "inv q"
  obtains q' where "rd n q = Ok (if n \<le> length (cont q) then Some (take n (cont q)) else None, q')"
    and "inv q'" and "cap q' = cap q"
    and "cont q' = drop (if n \<le> length (cont q) then n else 0) (cont q)"
  using rd_ok [OF assms, of n] rd_short [OF assms, of n]
  by (cases "n \<le> length (cont q)") (auto simp: not_le assms)

text \<open>No run faults, and no byte is lost, duplicated or reordered.\<close>

lemma run_fifo:
  "inv q \<Longrightarrow> \<exists>acc del r. queue_run wr rd pk rm ops q = Ok (acc, del, r) \<and> inv r \<and>
     cap r = cap q \<and> cont q @ acc = del @ cont r"
proof (induction ops arbitrary: q)
  case Nil
  then show ?case by simp
next
  case (Cons op ops)
  show ?case
  proof (cases op)
    case (QWrite d)
    obtain q' where q': "wr d q = Ok (length d \<le> space q, q')" "inv q'" "cap q' = cap q"
        "cont q' = cont q @ (if length d \<le> space q then d else [])"
      using wr_cases [OF Cons.prems] .
    from Cons.IH [OF q'(2)] q' QWrite show ?thesis by auto
  next
    case (QRead n)
    obtain q' where q': "rd n q = Ok (if n \<le> length (cont q) then Some (take n (cont q)) else None, q')"
        "inv q'" "cap q' = cap q" "cont q' = drop (if n \<le> length (cont q) then n else 0) (cont q)"
      using rd_cases [OF Cons.prems] .
    obtain acc del r where "queue_run wr rd pk rm ops q' = Ok (acc, del, r)" "inv r"
        "cap r = cap q'" and IH: "cont q' @ acc = del @ cont r"
      using Cons.IH [OF q'(2)] by blast
    moreover have "cont q @ acc = (if n \<le> length (cont q) then take n (cont q) else []) @ del @ cont r"
      using IH q'(4) by (auto simp flip: IH)
    ultimately show ?thesis using q' QRead by auto
  next
    case (QPeek n)
    with Cons.IH [OF Cons.prems] pk_eq [OF Cons.prems] show ?thesis by auto
  next
    case (QSent n)
    obtain q' where q': "rm n q = Ok q'" "inv q'" "cont q' = drop n (cont q)" "cap q' = cap q"
      using rm_ok [OF Cons.prems] by blast
    obtain acc del r where r: "queue_run wr rd pk rm ops q' = Ok (acc, del, r)" "inv r"
        "cap r = cap q'" and IH: "cont q' @ acc = del @ cont r"
      using Cons.IH [OF q'(2)] by blast
    have "cont q @ acc = take n (cont q) @ del @ cont r"
      using q'(3) by (simp flip: IH)
    with r q' QSent Cons.IH [OF Cons.prems] pk_eq [OF Cons.prems] show ?thesis by auto
  qed
qed

end

interpretation cb: byte_queue cb_inv contents capacity room Write Read Peek Remove
proof unfold_locales
  fix q d n
  assume q: "cb_inv q"
  show "length d \<le> room q \<Longrightarrow>
      \<exists>q'. Write d q = Ok (True, q') \<and> cb_inv q' \<and> contents q' = contents q @ d \<and>
        capacity q' = capacity q"
    using q by (rule Write_ok)
  show "room q < length d \<Longrightarrow>
      \<exists>q'. Write d q = Ok (False, q') \<and> cb_inv q' \<and> contents q' = contents q \<and>
        capacity q' = capacity q \<and> room q' = room q"
    using q by (rule Write_full)
  show "n \<le> length (contents q) \<Longrightarrow>
      \<exists>q'. Read n q = Ok (Some (take n (contents q)), q') \<and> cb_inv q' \<and>
        contents q' = drop n (contents q) \<and> capacity q' = capacity q"
    using q by (rule Read_ok)
  show "length (contents q) < n \<Longrightarrow> Read n q = Ok (None, q)"
    using q by (rule Read_short)
  show "Peek n q = Ok (if n \<le> length (contents q) then Some (take n (contents q)) else None)"
    using q by (rule Peek_spec)
  show "\<exists>q'. Remove n q = Ok q' \<and> cb_inv q' \<and> contents q' = drop n (contents q) \<and>
      capacity q' = capacity q"
    using q by (rule Remove_spec)
  show "room q + length (contents q) \<le> capacity q"
    using q by (rule room_le)
  show "contents q = [] \<Longrightarrow> room q = capacity q"
    using q by (rule room_empty)
  show "capacity q \<le> 2 * (room q + length (contents q))"
    using q by (rule room_half)
qed

section \<open>Properties of the buffer\<close>

text \<open>A buffer without its first bytes.\<close>

definition after_read :: "nat \<Rightarrow> cbuf \<Rightarrow> cbuf" where
  "after_read n b = snd (result (Read n b))"

lemma after_read_spec:
  assumes "cb_inv b" and "contents b = xs @ rest" and "n = length xs"
  shows "Read n b = Ok (Some xs, after_read n b)" and "cb_inv (after_read n b)"
    and "contents (after_read n b) = rest" and "capacity (after_read n b) = capacity b"
  using cb.rd_ok [OF assms(1), of n] assms(2,3) by (auto simp: after_read_def)

text \<open>C3. Over its whole life a buffer of any capacity is a byte queue: no sequence of writes,
  reads, peeks and removals makes an operation fault, and what was accepted is, in order, what was
  delivered followed by what is still stored.\<close>

theorem CircularBuffer_fifo:
  assumes "n < 2 ^ 64"
  shows "\<exists>accepted delivered b.
    queue_run Write Read Peek Remove ops (CircularBuffer_new n cells) = Ok (accepted, delivered, b) \<and>
    cb_inv b \<and> capacity b = n \<and> accepted = delivered @ contents b"
  using cb.run_fifo [OF CircularBuffer_new_spec(1) [OF assms], of ops cells] CircularBuffer_new_spec [OF assms]
  by auto

lemma CircularBuffer_fifo_witness:
  "\<exists>accepted delivered b.
    queue_run Write Read Peek Remove [QWrite [1, 2, 3], QRead 2, QWrite [4, 5], QSent 1, QPeek 3]
      (CircularBuffer_new 4 []) = Ok (accepted, delivered, b) \<and> accepted = delivered @ contents b"
proof -
  have "(4::nat) < 2 ^ 64" by simp
  from CircularBuffer_fifo [OF this] show ?thesis by blast
qed

text \<open>A write is refused only for lack of room, and then changes nothing; it is never refused
  while the bytes stored and written together fill at most half of the buffer.\<close>

theorem Write_refused_only_when_half_full:
  assumes "cb_inv b"
  shows "\<exists>ok b'. Write d b = Ok (ok, b') \<and> cb_inv b' \<and>
    contents b' = (if ok then contents b @ d else contents b) \<and>
    (2 * (length (contents b) + length d) \<le> capacity b \<longrightarrow> ok)"
proof -
  obtain b' where "Write d b = Ok (length d \<le> room b, b')" "cb_inv b'"
      "contents b' = contents b @ (if length d \<le> room b then d else [])"
    using cb.wr_cases [OF assms] by metis
  with cb.space_enough [OF assms] show ?thesis by auto
qed

lemma Write_refused_only_when_half_full_witness:
  "\<exists>b'. Write [1, 2] (CircularBuffer_new 4 []) = Ok (True, b') \<and> contents b' = [1, 2]"
  using Write_refused_only_when_half_full [OF CircularBuffer_new_spec(1), of 4 "[1, 2]" "[]"]
    CircularBuffer_new_spec [of 4 "[]"] by auto

text \<open>An append leaves the first region where it is, unless the buffer was empty.\<close>

lemma Write_front_stable:
  assumes "cb_inv b" and "Write d b = Ok (r, b')"
  shows "cb_inv b'" and "contents b' = contents b @ (if r then d else [])"
    and "GetContiguiousBytes b \<le> GetContiguiousBytes b'"
    and "0 < GetContiguiousBytes b \<Longrightarrow> GetBufferStart b' = GetBufferStart b"
proof -
  show "cb_inv b'" "contents b' = contents b @ (if r then d else [])"
    using Write_ok [OF assms(1), of d] Write_full [OF assms(1), of d] assms(2)
    by (cases "length d \<le> room b"; force)+
  show "GetContiguiousBytes b \<le> GetContiguiousBytes b'"
    and "0 < GetContiguiousBytes b \<Longrightarrow> GetBufferStart b' = GetBufferStart b"
    using assms by (auto simp: Write_def append_B_def AllocateB_def GetContiguiousBytes_def
        GetBufferStart_def cb_inv_def Let_def split: if_splits option.splits)
qed

end
