(* ===== verification/Packets.thy ===== *)
theory Packets
  imports Prelude
begin

text \<open>
  The wire format of \<^verbatim>\<open>PacketShare/PacketType.h\<close>, shared by the servers and the
  clients: packed structs, sent as the bytes they have in memory (little endian on every target).
  A \<^verbatim>\<open>float\<close> is only ever copied by the servers and is kept as its 32 bits. The structs
  with the same fields share a record type; the constructors keep their own size and type.
\<close>

unbundle bit_operations_syntax

section \<open>Little-endian integers\<close>

definition enc16 :: "16 word \<Rightarrow> byte list" where
  "enc16 w = [ucast w, ucast (drop_bit 8 w)]"

definition dec16 :: "byte list \<Rightarrow> 16 word" where
  "dec16 bs = ucast (bs ! 0) OR push_bit 8 (ucast (bs ! 1))"

definition enc32 :: "32 word \<Rightarrow> byte list" where
  "enc32 w = [ucast w, ucast (drop_bit 8 w), ucast (drop_bit 16 w), ucast (drop_bit 24 w)]"

definition dec32 :: "byte list \<Rightarrow> 32 word" where
  "dec32 bs = ucast (bs ! 0) OR push_bit 8 (ucast (bs ! 1)) OR
              push_bit 16 (ucast (bs ! 2)) OR push_bit 24 (ucast (bs ! 3))"

lemma length_enc [simp]: "length (enc16 w) = 2" "length (enc32 v) = 4"
  by (simp_all add: enc16_def enc32_def)

lemma dec16_enc16 [simp]: "dec16 (enc16 w @ bs) = w"
  by (rule bit_word_eqI) (auto simp: dec16_def enc16_def bit_simps)

lemma dec32_enc32 [simp]: "dec32 (enc32 w @ bs) = w"
proof (rule bit_word_eqI)
  fix n
  assume "n < LENGTH(32)"
  then consider "n < 8" | "8 \<le> n" "n < 16" | "16 \<le> n" "n < 24" | "24 \<le> n" "n < 32"
    by fastforce
  then show "bit (dec32 (enc32 w @ bs)) n = bit w n"
    by cases (auto simp: dec32_def enc32_def bit_simps)
qed

lemma dec_enc_nil [simp]: "dec16 (enc16 w) = w" "dec32 (enc32 v) = v"
  using dec16_enc16 [of w "[]"] dec32_enc32 [of v "[]"] by simp_all

lemma dec16_take: "2 \<le> n \<Longrightarrow> 2 \<le> length bs \<Longrightarrow> dec16 (take n bs) = dec16 bs"
  by (simp add: dec16_def)

section \<open>Sizes and packet types\<close>

definition MAX_CHAT_LEN :: nat where "MAX_CHAT_LEN = 128"
definition MAX_SESSION_LEN :: nat where "MAX_SESSION_LEN = 128"
definition MAX_PLAYER_PER_GAME :: int where "MAX_PLAYER_PER_GAME = 8"

datatype PacketTypes =
    PKT_NONE | PKT_CS_LOGIN | PKT_SC_LOGIN | PKT_CS_CHAT | PKT_SC_CHAT | PKT_CS_MOVE | PKT_SC_MOVE
  | PKT_CS_EXIT | PKT_MAX

fun pkt_value :: "PacketTypes \<Rightarrow> 16 word" where
  "pkt_value PKT_NONE = 0"
| "pkt_value PKT_CS_LOGIN = 1"
| "pkt_value PKT_SC_LOGIN = 2"
| "pkt_value PKT_CS_CHAT = 11"
| "pkt_value PKT_SC_CHAT = 12"
| "pkt_value PKT_CS_MOVE = 21"
| "pkt_value PKT_SC_MOVE = 22"
| "pkt_value PKT_CS_EXIT = 31"
| "pkt_value PKT_MAX = 1024"

definition sizeof_PacketHeader :: nat where "sizeof_PacketHeader = 4"

section \<open>The structs, their constructors and their bytes\<close>

record PacketHeader =
  mSize :: "16 word"
  mType :: "16 word"

text \<open>\<^verbatim>\<open>LoginRequest\<close>, \<^verbatim>\<open>LoginResult\<close> and \<^verbatim>\<open>ExitRequest\<close>.\<close>

record IdPacket = PacketHeader +
  mPlayerId :: "byte list"

text \<open>\<^verbatim>\<open>ChatBroadcastRequest\<close> and \<^verbatim>\<open>ChatBroadcastResult\<close>.\<close>

record ChatPacket = IdPacket +
  mChat :: "byte list"

text \<open>\<^verbatim>\<open>MoveRequest\<close> and \<^verbatim>\<open>MoveBroadcastResult\<close>.\<close>

record MovePacket = PacketHeader +
  mPlayerIdx :: "32 word"
  mPosX :: "32 word"
  mPosY :: "32 word"

definition sizeof_IdPacket :: nat where
  "sizeof_IdPacket = sizeof_PacketHeader + MAX_SESSION_LEN"

definition sizeof_ChatPacket :: nat where
  "sizeof_ChatPacket = sizeof_PacketHeader + MAX_SESSION_LEN + MAX_CHAT_LEN"

definition sizeof_MovePacket :: nat where
  "sizeof_MovePacket = sizeof_PacketHeader + 4 + 4 + 4"

lemmas sizeof_defs = sizeof_PacketHeader_def sizeof_IdPacket_def sizeof_ChatPacket_def
  sizeof_MovePacket_def MAX_SESSION_LEN_def MAX_CHAT_LEN_def

definition PacketHeader_new :: PacketHeader where
  "PacketHeader_new = \<lparr>mSize = 0, mType = pkt_value PKT_NONE\<rparr>"

definition LoginRequest_new :: IdPacket where
  "LoginRequest_new =
     \<lparr>mSize = of_nat sizeof_IdPacket, mType = pkt_value PKT_CS_LOGIN,
      mPlayerId = replicate MAX_SESSION_LEN 0\<rparr>"

definition LoginResult_new :: IdPacket where
  "LoginResult_new =
     \<lparr>mSize = of_nat sizeof_IdPacket, mType = pkt_value PKT_SC_LOGIN,
      mPlayerId = replicate MAX_SESSION_LEN 0\<rparr>"

definition ChatBroadcastRequest_new :: ChatPacket where
  "ChatBroadcastRequest_new =
     \<lparr>mSize = of_nat sizeof_ChatPacket, mType = pkt_value PKT_CS_CHAT,
      mPlayerId = replicate MAX_SESSION_LEN 0, mChat = replicate MAX_CHAT_LEN 0\<rparr>"

definition ChatBroadcastResult_new :: ChatPacket where
  "ChatBroadcastResult_new =
     \<lparr>mSize = of_nat sizeof_ChatPacket, mType = pkt_value PKT_SC_CHAT,
      mPlayerId = replicate MAX_SESSION_LEN 0, mChat = replicate MAX_CHAT_LEN 0\<rparr>"

definition MoveRequest_new :: MovePacket where
  "MoveRequest_new =
     \<lparr>mSize = of_nat sizeof_MovePacket, mType = pkt_value PKT_CS_MOVE,
      mPlayerIdx = - 1, mPosX = 0, mPosY = 0\<rparr>"

definition MoveBroadcastResult_new :: MovePacket where
  "MoveBroadcastResult_new =
     \<lparr>mSize = of_nat sizeof_MovePacket, mType = pkt_value PKT_SC_MOVE,
      mPlayerIdx = - 1, mPosX = 0, mPosY = 0\<rparr>"

definition ExitRequest_new :: IdPacket where
  "ExitRequest_new =
     \<lparr>mSize = of_nat sizeof_IdPacket, mType = pkt_value PKT_CS_EXIT,
      mPlayerId = replicate MAX_SESSION_LEN 0\<rparr>"

lemmas packet_new_defs = PacketHeader_new_def LoginRequest_new_def LoginResult_new_def
  ChatBroadcastRequest_new_def ChatBroadcastResult_new_def MoveRequest_new_def
  MoveBroadcastResult_new_def ExitRequest_new_def

text \<open>The memory of a struct, and the struct a region of memory holds.\<close>

definition header_bytes :: "'a PacketHeader_scheme \<Rightarrow> byte list" where
  "header_bytes p = enc16 (mSize p) @ enc16 (mType p)"

definition id_bytes :: "IdPacket \<Rightarrow> byte list" where
  "id_bytes p = header_bytes p @ mPlayerId p"

definition chat_bytes :: "ChatPacket \<Rightarrow> byte list" where
  "chat_bytes p = header_bytes p @ mPlayerId p @ mChat p"

definition move_bytes :: "MovePacket \<Rightarrow> byte list" where
  "move_bytes p = header_bytes p @ enc32 (mPlayerIdx p) @ enc32 (mPosX p) @ enc32 (mPosY p)"

definition header_of :: "byte list \<Rightarrow> PacketHeader" where
  "header_of bs = \<lparr>mSize = dec16 bs, mType = dec16 (drop 2 bs)\<rparr>"

definition id_of :: "byte list \<Rightarrow> IdPacket" where
  "id_of bs = \<lparr>mSize = dec16 bs, mType = dec16 (drop 2 bs), mPlayerId = take 128 (drop 4 bs)\<rparr>"

definition chat_of :: "byte list \<Rightarrow> ChatPacket" where
  "chat_of bs = \<lparr>mSize = dec16 bs, mType = dec16 (drop 2 bs), mPlayerId = take 128 (drop 4 bs),
                 mChat = take 128 (drop 132 bs)\<rparr>"

definition move_of :: "byte list \<Rightarrow> MovePacket" where
  "move_of bs = \<lparr>mSize = dec16 bs, mType = dec16 (drop 2 bs), mPlayerIdx = dec32 (drop 4 bs),
                 mPosX = dec32 (drop 8 bs), mPosY = dec32 (drop 12 bs)\<rparr>"

lemma length_header_bytes [simp]: "length (header_bytes p) = 4"
  by (simp add: header_bytes_def)

lemma length_move_bytes [simp]: "length (move_bytes p) = 16"
  by (simp add: move_bytes_def)

lemma header_of_bytes [simp]:
  "header_of (header_bytes p @ bs) = \<lparr>mSize = mSize p, mType = mType p\<rparr>"
  by (simp add: header_of_def header_bytes_def)

lemma id_of_bytes: "length (mPlayerId p) = 128 \<Longrightarrow> id_of (id_bytes p @ bs) = p"
  by (cases p) (simp add: id_of_def id_bytes_def header_bytes_def)

lemma chat_of_bytes:
  "length (mPlayerId p) = 128 \<Longrightarrow> length (mChat p) = 128 \<Longrightarrow> chat_of (chat_bytes p @ bs) = p"
  by (cases p) (simp add: chat_of_def chat_bytes_def header_bytes_def)

lemma move_of_bytes: "move_of (move_bytes p @ bs) = p"
  by (cases p) (simp add: move_of_def move_bytes_def header_bytes_def)

text \<open>\<^verbatim>\<open>(size_t)header.mSize\<close>: the sign is extended.\<close>

definition size_of_short :: "16 word \<Rightarrow> nat" where
  "size_of_short w = unat (scast w :: 64 word)"

section \<open>C strings in fixed arrays\<close>

text \<open>
  \<^verbatim>\<open>std::string(arr)\<close> reads up to the first zero byte; with none in the array it reads
  past the end. \<^verbatim>\<open>strcpy\<close> writes the bytes and the terminator, whatever the array's
  size; \<^verbatim>\<open>strcpy_s\<close> and \<^verbatim>\<open>sprintf_s\<close> on an array call the invalid-parameter
  handler, which ends the process, when they do not fit.
\<close>

definition c_str :: "byte list \<Rightarrow> byte list outcome" where
  "c_str arr = (if 0 \<in> set arr then Ok (takeWhile (\<lambda>x. x \<noteq> 0) arr) else Fault UnterminatedString)"

definition strcpy :: "byte list \<Rightarrow> byte list \<Rightarrow> byte list outcome" where
  "strcpy dst s =
     (if length s < length dst then Ok (s @ [0] @ drop (length s + 1) dst) else Fault StackOverrun)"

definition strcpy_s :: "byte list \<Rightarrow> byte list \<Rightarrow> byte list outcome" where
  "strcpy_s dst s =
     (if length s < length dst then Ok (s @ [0] @ drop (length s + 1) dst)
      else Fault InvalidParameter)"

lemma strcpy_eq: "strcpy_s dst s = Ok x \<longleftrightarrow> strcpy dst s = Ok x"
  by (simp add: strcpy_s_def strcpy_def)

lemma takeWhile_nonzero [simp]: "0 \<notin> set s \<Longrightarrow> takeWhile (\<lambda>x. x \<noteq> (0::byte)) (s @ 0 # r) = s"
  by (induction s) auto

lemma takeWhile_neq_length: "(0::byte) \<in> set s \<Longrightarrow> length (takeWhile (\<lambda>x. x \<noteq> 0) s) < length s"
  by (induction s) auto

lemma c_str_bound: "c_str arr = Ok s \<Longrightarrow> length s < length arr \<and> 0 \<notin> set s"
  by (auto simp: c_str_def takeWhile_neq_length dest: set_takeWhileD split: if_splits)

lemma c_str_strcpy: "0 \<notin> set s \<Longrightarrow> strcpy dst s = Ok x \<Longrightarrow> c_str x = Ok s \<and> length x = length dst"
  by (auto simp: c_str_def strcpy_def split: if_splits)

text \<open>A chat broadcast as the server builds it carries its two strings to the client: they
  are copied into the packet's arrays, serialised, received among other bytes and parsed back, and
  the packet's own size names exactly its bytes.\<close>

theorem chat_packet_roundtrip:
  assumes "0 \<notin> set player" and "length player < MAX_SESSION_LEN" and "0 \<notin> set chat"
    and "length chat < MAX_CHAT_LEN"
  shows "\<exists>ida cha p. strcpy (mPlayerId ChatBroadcastResult_new) player = Ok ida \<and>
    strcpy (mChat ChatBroadcastResult_new) chat = Ok cha \<and>
    p = ChatBroadcastResult_new\<lparr>mPlayerId := ida, mChat := cha\<rparr> \<and>
    length (chat_bytes p) = unat (mSize p) \<and> chat_of (chat_bytes p @ rest) = p \<and>
    c_str (mPlayerId (chat_of (chat_bytes p @ rest))) = Ok player \<and>
    c_str (mChat (chat_of (chat_bytes p @ rest))) = Ok chat"
proof -
  obtain ida where ida: "strcpy (mPlayerId ChatBroadcastResult_new) player = Ok ida"
    using assms(2) by (simp add: strcpy_def packet_new_defs)
  obtain cha where cha: "strcpy (mChat ChatBroadcastResult_new) chat = Ok cha"
    using assms(4) by (simp add: strcpy_def packet_new_defs)
  let ?p = "ChatBroadcastResult_new\<lparr>mPlayerId := ida, mChat := cha\<rparr>"
  have l: "length ida = 128" "length cha = 128" "c_str ida = Ok player" "c_str cha = Ok chat"
    using c_str_strcpy [OF assms(1) ida] c_str_strcpy [OF assms(3) cha]
    by (simp_all add: packet_new_defs sizeof_defs)
  then have "chat_of (chat_bytes ?p @ rest) = ?p" by (intro chat_of_bytes) simp_all
  moreover have "length (chat_bytes ?p) = unat (mSize ?p)"
    using l by (simp add: chat_bytes_def packet_new_defs sizeof_defs)
  ultimately show ?thesis using ida cha l by auto
qed

lemma chat_packet_roundtrip_witness:
  "\<exists>ida. strcpy (mPlayerId ChatBroadcastResult_new) (lit ''p1'') = Ok ida \<and> c_str ida = Ok (lit ''p1'')"
proof -
  have "0 \<notin> set (lit ''p1'')" "0 \<notin> set (lit ''hello'')" by (simp_all add: lit_def)
  moreover have "length (lit ''p1'') < MAX_SESSION_LEN" "length (lit ''hello'') < MAX_CHAT_LEN"
    by (simp_all add: MAX_SESSION_LEN_def MAX_CHAT_LEN_def)
  ultimately obtain ida cha p where c: "strcpy (mPlayerId ChatBroadcastResult_new) (lit ''p1'') = Ok ida"
      "p = ChatBroadcastResult_new\<lparr>mPlayerId := ida, mChat := cha\<rparr>" "chat_of (chat_bytes p @ []) = p"
      "c_str (mPlayerId (chat_of (chat_bytes p @ []))) = Ok (lit ''p1'')"
    using chat_packet_roundtrip [of "lit ''p1''" "lit ''hello''" "[]"] by blast
  then show ?thesis by simp
qed

end
