(* ===== verification/Console.thy ===== *)
theory Console
  imports Prelude
begin

text \<open>
  \<^verbatim>\<open>ConsoleLog\<close> of the Linux server (\<^verbatim>\<open>Log.h\<close>, \<^verbatim>\<open>Log.cpp\<close>)
  and the formatting its callers use. \<^verbatim>\<open>PrintOut\<close> formats into a stack buffer of 128
  bytes with the unbounded \<^verbatim>\<open>vsprintf\<close>; a text of 128 bytes or more overruns it. The
  text is the argument of the model, formatted by the caller's format string.
\<close>

section \<open>Formatting\<close>

fun decimal :: "nat \<Rightarrow> byte list" where
  "decimal n = (if n < 10 then [of_nat (48 + n)] else decimal (n div 10) @ [of_nat (48 + n mod 10)])"

declare decimal.simps [simp del]

definition fmt_d :: "int \<Rightarrow> byte list" where
  "fmt_d i = (if i < 0 then lit ''-'' @ decimal (nat (- i)) else decimal (nat i))"

text \<open>\<^verbatim>\<open>inet_ntoa\<close> on the four bytes of an address.\<close>

type_synonym ip_addr = "byte \<times> byte \<times> byte \<times> byte"

fun inet_ntoa :: "ip_addr \<Rightarrow> byte list" where
  "inet_ntoa (a, b, c, d) =
     decimal (unat a) @ lit ''.'' @ decimal (unat b) @ lit ''.'' @
     decimal (unat c) @ lit ''.'' @ decimal (unat d)"

lemma length_decimal: "n < 10 ^ k \<Longrightarrow> 0 < k \<Longrightarrow> length (decimal n) \<le> k"
proof (induction n arbitrary: k rule: decimal.induct)
  case (1 n)
  show ?case
  proof (cases "n < 10")
    case True
    with 1(3) show ?thesis by (subst decimal.simps) simp
  next
    case False
    then obtain j where k: "k = Suc j" "0 < j"
      using 1(2,3) by (cases k; cases "k - 1") auto
    have "n div 10 < 10 ^ j"
      using 1(2) k by (simp add: less_mult_imp_div_less mult.commute)
    from "1.IH" [OF False this k(2)] False k show ?thesis
      by (subst decimal.simps) simp
  qed
qed

lemma length_decimal_byte: "length (decimal (unat (b::byte))) \<le> 3"
proof (rule length_decimal)
  have "unat b < 2 ^ LENGTH(8)"
    by (rule unsigned_less)
  then show "unat b < 10 ^ 3" by simp
qed simp

lemma length_decimal_port: "length (decimal (unat (p::16 word))) \<le> 5"
proof (rule length_decimal)
  have "unat p < 2 ^ LENGTH(16)"
    by (rule unsigned_less)
  then show "unat p < 10 ^ 5" by simp
qed simp

lemma length_inet_ntoa: "length (inet_ntoa a) \<le> 15"
proof (cases a)
  case (fields w x y z)
  then show ?thesis
    using length_decimal_byte [of w] length_decimal_byte [of x]
      length_decimal_byte [of y] length_decimal_byte [of z] by simp
qed

section \<open>\<^verbatim>\<open>ConsoleLog::PrintOut\<close>\<close>

record ConsoleLog =
  console :: "byte list list"
  mLogFileStream :: "byte list list"

definition ConsoleLog_new :: ConsoleLog where
  "ConsoleLog_new = \<lparr>console = [], mLogFileStream = []\<rparr>"

definition LOG_BUF :: nat where "LOG_BUF = 128"

definition PrintOut :: "bool \<Rightarrow> byte list \<Rightarrow> ConsoleLog \<Rightarrow> ConsoleLog outcome" where
  "PrintOut fileOut buf l =
     (if length buf < LOG_BUF
      then Ok (if fileOut
               then l\<lparr>console := console l @ [buf], mLogFileStream := mLogFileStream l @ [buf]\<rparr>
               else l\<lparr>console := console l @ [buf]\<rparr>)
      else Fault StackOverrun)"

lemma PrintOut_fits: "length buf < 128 \<Longrightarrow> \<exists>l'. PrintOut f buf l = Ok l'"
  by (simp add: PrintOut_def LOG_BUF_def)

lemma PrintOut_overrun: "128 \<le> length buf \<Longrightarrow> PrintOut f buf l = Fault StackOverrun"
  by (simp add: PrintOut_def LOG_BUF_def)

end
