(* ===== verification/Scheduling.thy ===== *)
theory Scheduling
  imports Prelude
begin

text \<open>
  The timers: \<^verbatim>\<open>GameLiftLinuxServer/Scheduler\<close>, and \<^verbatim>\<open>Timer\<close> of the
  Windows server and the dummy clients, which run the same loop. A
  \<^verbatim>\<open>std::priority_queue\<close> ordered by \<^verbatim>\<open>mExecutionTick\<close> is kept as a list
  in the order of its ticks; the standard leaves the order of equal ticks open, and what is proved
  of the loop uses only the laws of the locale \<^verbatim>\<open>timer_queue\<close>. Ticks are
  \<^verbatim>\<open>int64_t\<close> milliseconds since the start (or the boot), far from their bounds.
\<close>

section \<open>The queue\<close>

record 'a JobElement =
  mOwner :: nat
  mTask :: 'a
  mExecutionTick :: int

fun pq_push :: "'a JobElement \<Rightarrow> 'a JobElement list \<Rightarrow> 'a JobElement list" where
  "pq_push x [] = [x]"
| "pq_push x (y # ys) =
     (if mExecutionTick x < mExecutionTick y then x # y # ys else y # pq_push x ys)"

definition pq_top :: "'a JobElement list \<Rightarrow> 'a JobElement option" where
  "pq_top q = (case q of [] \<Rightarrow> None | x # _ \<Rightarrow> Some x)"

definition pq_pop :: "'a JobElement list \<Rightarrow> 'a JobElement list" where
  "pq_pop q = tl q"

definition pq_inv :: "'a JobElement list \<Rightarrow> bool" where
  "pq_inv q \<longleftrightarrow> sorted (map mExecutionTick q)"

lemma mset_pq_push [simp]: "mset (pq_push x q) = add_mset x (mset q)"
  by (induction q) auto

lemma set_pq_push: "set (pq_push x q) = insert x (set q)"
  using mset_pq_push [of x q] by (metis set_mset_add_mset_insert set_mset_mset)

lemma pq_push_inv: "pq_inv q \<Longrightarrow> pq_inv (pq_push x q)"
proof (induction q)
  case (Cons y ys)
  then show ?case by (auto simp: pq_inv_def set_pq_push)
qed (simp add: pq_inv_def)

text \<open>
  \<^verbatim>\<open>push_heap\<close> moves a new element up only past strictly later ones, so it never
  displaces a top that is due no later.
\<close>

locale timer_queue =
  fixes push :: "'a JobElement \<Rightarrow> 'q \<Rightarrow> 'q" and topq :: "'q \<Rightarrow> 'a JobElement option"
    and popq :: "'q \<Rightarrow> 'q" and inv :: "'q \<Rightarrow> bool" and elems :: "'q \<Rightarrow> 'a JobElement multiset"
  assumes push_inv: "inv q \<Longrightarrow> inv (push x q)"
    and push_elems: "inv q \<Longrightarrow> elems (push x q) = add_mset x (elems q)"
    and top_None: "inv q \<Longrightarrow> topq q = None \<longleftrightarrow> elems q = {#}"
    and top_min: "inv q \<Longrightarrow> topq q = Some x \<Longrightarrow> y \<in># elems q \<Longrightarrow>
      mExecutionTick x \<le> mExecutionTick y"
    and top_elem: "inv q \<Longrightarrow> topq q = Some x \<Longrightarrow> x \<in># elems q"
    and pop_inv: "inv q \<Longrightarrow> inv (popq q)"
    and pop_elems: "inv q \<Longrightarrow> topq q = Some x \<Longrightarrow> elems (popq q) = elems q - {#x#}"
    and push_keeps_top: "inv q \<Longrightarrow> topq q = Some x \<Longrightarrow> mExecutionTick x \<le> mExecutionTick y \<Longrightarrow>
      topq (push y q) = Some x"

section \<open>Pushing a task, running the due tasks\<close>

definition push_after ::
  "('a JobElement \<Rightarrow> 'q \<Rightarrow> 'q) \<Rightarrow> nat \<Rightarrow> 'a \<Rightarrow> nat \<Rightarrow> int \<Rightarrow> 'q \<Rightarrow> 'q" where
  "push_after push owner task after currentTick q =
     push \<lparr>mOwner = owner, mTask = task, mExecutionTick = int after + currentTick\<rparr> q"

text \<open>
  The loop of \<^verbatim>\<open>DoTasks\<close> and \<^verbatim>\<open>DoTimerJob\<close>: the top is copied, its task runs
  (and may push), and only then is the queue popped, whatever its top is by then. The state
  \<^verbatim>\<open>'s\<close> holds the queue, which \<^verbatim>\<open>getq\<close> reads and \<^verbatim>\<open>setq\<close>
  stores; \<^verbatim>\<open>None\<close> means that the loop does not end.
\<close>

partial_function (option) run_due ::
  "('s \<Rightarrow> 'q) \<Rightarrow> ('q \<Rightarrow> 's \<Rightarrow> 's) \<Rightarrow> ('q \<Rightarrow> 'a JobElement option) \<Rightarrow> ('q \<Rightarrow> 'q) \<Rightarrow>
   ('a \<Rightarrow> 's \<Rightarrow> 's outcome) \<Rightarrow> int \<Rightarrow> 's \<Rightarrow> 's outcome option" where
  "run_due getq setq topq popq exec now s =
     (case topq (getq s) of
        None \<Rightarrow> Some (Ok s)
      | Some job \<Rightarrow>
          if now < mExecutionTick job then Some (Ok s)
          else (case exec (mTask job) s of
                  Fault f \<Rightarrow> Some (Fault f)
                | Ok s' \<Rightarrow> run_due getq setq topq popq exec now (setq (popq (getq s')) s')))"

text \<open>What every task keeps, a pass keeps.\<close>

lemma run_due_keeps:
  assumes "run_due getq setq topq popq exec now s = Some r" and "I s"
    and "\<And>s job s'. I s \<Longrightarrow> topq (getq s) = Some job \<Longrightarrow> exec (mTask job) s = Ok s' \<Longrightarrow> I (setq (popq (getq s')) s')"
  shows "\<forall>s'. r = Ok s' \<longrightarrow> I s'"
proof -
  let ?P = "\<lambda>gq sq tq pq ex n s r. (\<forall>s job s'. I s \<longrightarrow> tq (gq s) = Some job \<longrightarrow> ex (mTask job) s = Ok s' \<longrightarrow>
    I (sq (pq (gq s')) s')) \<longrightarrow> I s \<longrightarrow> (\<forall>s'. r = Ok s' \<longrightarrow> I s')"
  have "?P getq setq topq popq exec now s r"
  proof (rule run_due.raw_induct [where P = ?P, OF _ assms(1)], intro impI allI)
    fix f gq sq tq pq ex n s r s'
    assume IH: "\<And>gq sq tq pq ex n s r. f gq sq tq pq ex n s = Some r \<Longrightarrow> ?P gq sq tq pq ex n s r"
      and run: "(case tq (gq s) of None \<Rightarrow> Some (Ok s)
        | Some job \<Rightarrow> if n < mExecutionTick job then Some (Ok s)
            else (case ex (mTask job) s of Ok s' \<Rightarrow> f gq sq tq pq ex n (sq (pq (gq s')) s') | Fault f \<Rightarrow> Some (Fault f))) = Some r"
      and I: "\<forall>s job s'. I s \<longrightarrow> tq (gq s) = Some job \<longrightarrow> ex (mTask job) s = Ok s' \<longrightarrow> I (sq (pq (gq s')) s')"
      "I s" "r = Ok s'"
    show "I s'"
    proof (cases "s' = s")
      case False
      with run I(3) obtain job s1 where j: "tq (gq s) = Some job" "ex (mTask job) s = Ok s1"
        "f gq sq tq pq ex n (sq (pq (gq s1)) s1) = Some (Ok s')"
        by (auto split: option.splits if_splits outcome.splits)
      with I have "I (sq (pq (gq s1)) s1)" by blast
      with IH [OF j(3)] I(1) show ?thesis by blast
    qed (use I in simp)
  qed
  with assms(2,3) show ?thesis by blast
qed

text \<open>What is due at a tick, and what is not.\<close>

definition due :: "int \<Rightarrow> 'a JobElement multiset \<Rightarrow> 'a JobElement multiset" where
  "due now js = {#j \<in># js. mExecutionTick j \<le> now#}"

definition pending :: "int \<Rightarrow> 'a JobElement multiset \<Rightarrow> 'a JobElement multiset" where
  "pending now js = {#j \<in># js. now < mExecutionTick j#}"

text \<open>Running tasks one after the other, popping the queue after each.\<close>

fun run_list :: "('s \<Rightarrow> 's) \<Rightarrow> ('a \<Rightarrow> 's \<Rightarrow> 's outcome) \<Rightarrow> 'a list \<Rightarrow> 's \<Rightarrow> 's outcome" where
  "run_list pop exec [] s = Ok s"
| "run_list pop exec (t # ts) s = bnd (exec t s) (\<lambda>s'. run_list pop exec ts (pop s'))"

context timer_queue
begin

lemma push_many:
  assumes "inv q" and "topq q = Some x" and "\<forall>j\<in>set js. now < mExecutionTick j"
    and "mExecutionTick x \<le> now"
  shows "inv (fold push js q) \<and> elems (fold push js q) = mset js + elems q \<and>
    topq (fold push js q) = Some x"
  using assms
proof (induction js arbitrary: q)
  case (Cons j js)
  then have "topq (push j q) = Some x"
    by (intro push_keeps_top) auto
  with Cons.IH [of "push j q"] Cons.prems show ?case
    by (auto simp: push_inv push_elems)
qed simp

lemma run_due_idle:
  assumes "inv (getq s)" and "due now (elems (getq s)) = {#}"
  shows "run_due getq setq topq popq exec now s = Some (Ok s)"
proof -
  have "case topq (getq s) of None \<Rightarrow> True | Some j \<Rightarrow> now < mExecutionTick j"
  proof (cases "topq (getq s)")
    case (Some j)
    then have "j \<in># elems (getq s)" using assms(1) by (intro top_elem)
    with assms(2) have "\<not> mExecutionTick j \<le> now"
      by (auto simp: due_def filter_mset_eq_conv)
    with Some show ?thesis by simp
  qed simp
  then show ?thesis by (subst run_due.simps) (auto split: option.splits)
qed

lemma due_top:
  assumes "inv q" and "due now (elems q) \<noteq> {#}"
  obtains x where "topq q = Some x" and "mExecutionTick x \<le> now" and "x \<in># elems q"
    and "\<And>j. j \<in># elems q \<Longrightarrow> mExecutionTick x \<le> mExecutionTick j"
proof -
  obtain y where "y \<in># due now (elems q)" using assms(2) by (rule multiset_nonemptyE)
  then have y: "y \<in># elems q" "mExecutionTick y \<le> now" by (auto simp: due_def)
  then obtain x where x: "topq q = Some x"
    using top_None [OF assms(1)] by (cases "topq q") auto
  moreover have "mExecutionTick x \<le> now"
    using top_min [OF assms(1) x y(1)] y(2) by simp
  ultimately show thesis
    using that top_elem [OF assms(1) x] top_min [OF assms(1) x] by blast
qed

text \<open>The queue after a task that was due: its successors are in, none of them due, and the task is out.\<close>

lemma due_popped:
  assumes "inv q" and "topq q = Some x" and "mExecutionTick x \<le> now" and "\<forall>j\<in>set js. now < mExecutionTick j"
  defines "q' \<equiv> popq (fold push js q)"
  shows "inv q'" and "elems q' = mset js + (elems q - {#x#})" and "due now (elems q') = due now (elems q) - {#x#}"
    and "pending now (elems q') = mset js + pending now (elems q)"
    and "size (due now (elems q)) = Suc (size (due now (elems q')))"
proof -
  have x: "x \<in># elems q" by (rule top_elem [OF assms(1,2)])
  note pm = push_many [OF assms(1,2,4,3)]
  show "inv q'" using pm by (simp add: q'_def pop_inv)
  show el: "elems q' = mset js + (elems q - {#x#})" using pm x by (simp add: q'_def pop_elems)
  have fd: "due now (mset js) = {#}" "pending now (mset js) = mset js"
    using assms(4) by (auto simp: due_def pending_def filter_mset_eq_conv not_le)
  show d: "due now (elems q') = due now (elems q) - {#x#}" using fd(1) assms(3) by (simp add: el due_def)
  show "pending now (elems q') = mset js + pending now (elems q)"
    using fd(2) assms(3) by (simp add: el pending_def filter_diff_mset)
  have "x \<in># due now (elems q)" using assms(3) x by (simp add: due_def)
  then show "size (due now (elems q)) = Suc (size (due now (elems q')))"
    unfolding d by (metis insert_DiffM size_add_mset)
qed

text \<open>
  When a task, run in a state that satisfies \<^verbatim>\<open>I\<close>, pushes its \<^verbatim>\<open>follow\<close>
  jobs, all for later ticks, the loop ends: it has run the due tasks exactly once each, in the order
  of their ticks, and left exactly the tasks that were not due and those that were pushed.
\<close>

lemma run_due_spec:
  fixes getq :: "'s \<Rightarrow> 'q"
  assumes "inv (getq s)" and "I s"
    and getset: "\<And>q s. getq (setq q s) = q"
    and exec: "\<And>x s. I s \<Longrightarrow> inv (getq s) \<Longrightarrow> x \<in># elems (getq s) \<Longrightarrow> topq (getq s) = Some x \<Longrightarrow>
        mExecutionTick x \<le> now \<Longrightarrow> \<exists>s'. exec (mTask x) s = Ok s' \<and> getq s' = fold push (follow (mTask x)) (getq s) \<and>
          (elems (popq (getq s')) = mset (follow (mTask x)) + (elems (getq s) - {#x#}) \<longrightarrow>
           I (setq (popq (getq s')) s'))"
    and later: "\<And>t j. j \<in> set (follow t) \<Longrightarrow> now < mExecutionTick j"
  shows "\<exists>s' jobs. run_due getq setq topq popq exec now s = Some (Ok s') \<and>
     run_list (\<lambda>s. setq (popq (getq s)) s) exec (map mTask jobs) s = Ok s' \<and>
     mset jobs = due now (elems (getq s)) \<and> sorted (map mExecutionTick jobs) \<and>
     elems (getq s') = pending now (elems (getq s)) + mset (concat (map (follow \<circ> mTask) jobs)) \<and>
     inv (getq s') \<and> I s'"
  using assms(1,2)
proof (induction "size (due now (elems (getq s)))" arbitrary: s)
  case 0
  then have none: "due now (elems (getq s)) = {#}" by simp
  then have "pending now (elems (getq s)) = elems (getq s)"
    by (auto simp: pending_def due_def filter_mset_eq_conv not_le)
  with run_due_idle [where getq = getq and setq = setq and exec = exec, OF "0.prems"(1) none] none "0.prems"
  show ?case by (intro exI [of _ s] exI [of _ "[]"]) simp
next
  case (Suc n)
  then have "due now (elems (getq s)) \<noteq> {#}" by auto
  then obtain x where x: "topq (getq s) = Some x" "mExecutionTick x \<le> now" "x \<in># elems (getq s)"
      "\<And>j. j \<in># elems (getq s) \<Longrightarrow> mExecutionTick x \<le> mExecutionTick j"
    using due_top [OF Suc.prems(1)] by blast
  let ?f = "follow (mTask x)"
  obtain s1 where s1: "exec (mTask x) s = Ok s1" "getq s1 = fold push ?f (getq s)"
      "elems (popq (getq s1)) = mset ?f + (elems (getq s) - {#x#}) \<longrightarrow> I (setq (popq (getq s1)) s1)"
    using exec [OF Suc.prems(2,1) x(3,1,2)] by blast
  have "\<forall>j\<in>set ?f. now < mExecutionTick j" using later by blast
  note dp = due_popped [OF Suc.prems(1) x(1,2) this, folded s1(2)]
  define s2 where "s2 = setq (popq (getq s1)) s1"
  have q2: "getq s2 = popq (getq s1)" by (simp add: s2_def getset)
  have inv2: "inv (getq s2)" using dp(1) by (simp add: q2)
  have I2: "I s2" using dp(2) s1(3) by (simp add: s2_def)
  have "n = size (due now (elems (getq s2)))" using Suc.hyps(2) dp(5) by (simp add: q2)
  from Suc.hyps(1) [OF this inv2 I2] obtain s3 jobs where
    IH: "run_due getq setq topq popq exec now s2 = Some (Ok s3)"
      "run_list (\<lambda>s. setq (popq (getq s)) s) exec (map mTask jobs) s2 = Ok s3"
      "mset jobs = due now (elems (getq s2))" "sorted (map mExecutionTick jobs)"
      "elems (getq s3) = pending now (elems (getq s2)) + mset (concat (map (follow \<circ> mTask) jobs))"
      "inv (getq s3)" "I s3"
    by blast
  have "run_due getq setq topq popq exec now s = Some (Ok s3)"
    using x(1,2) s1(1) IH(1) by (subst run_due.simps) (simp add: s2_def)
  moreover have "run_list (\<lambda>s. setq (popq (getq s)) s) exec (map mTask (x # jobs)) s = Ok s3"
    using s1(1) IH(2) by (simp add: s2_def)
  moreover have "mset (x # jobs) = due now (elems (getq s))"
    using IH(3) dp(3) x(2,3) by (simp add: q2 due_def)
  moreover have "sorted (map mExecutionTick (x # jobs))"
  proof -
    have "mExecutionTick x \<le> mExecutionTick j" if "j \<in> set jobs" for j
    proof -
      from that have "j \<in># due now (elems (getq s2))" using IH(3) by (metis set_mset_mset)
      then have "j \<in># due now (elems (getq s))" unfolding q2 dp(3) by (rule in_diffD)
      then show ?thesis using x(4) by (simp add: due_def)
    qed
    with IH(4) show ?thesis by auto
  qed
  moreover have "elems (getq s3) =
      pending now (elems (getq s)) + mset (concat (map (follow \<circ> mTask) (x # jobs)))"
    using IH(5) dp(4) by (simp add: q2)
  ultimately show ?case using IH(6,7) by blast
qed

end

interpretation pq: timer_queue pq_push pq_top pq_pop pq_inv mset
proof unfold_locales
  fix q :: "'a JobElement list" and x y
  assume q: "pq_inv q"
  show "pq_inv (pq_push x q)" using q by (rule pq_push_inv)
  show "mset (pq_push x q) = add_mset x (mset q)" by simp
  show "pq_top q = None \<longleftrightarrow> mset q = {#}" by (simp add: pq_top_def split: list.splits)
  show "pq_top q = Some x \<Longrightarrow> y \<in># mset q \<Longrightarrow> mExecutionTick x \<le> mExecutionTick y"
    using q by (auto simp: pq_top_def pq_inv_def split: list.splits)
  show "pq_top q = Some x \<Longrightarrow> x \<in># mset q"
    by (auto simp: pq_top_def split: list.splits)
  show "pq_inv (pq_pop q)"
    using q by (cases q) (auto simp: pq_pop_def pq_inv_def)
  show "pq_top q = Some x \<Longrightarrow> mset (pq_pop q) = mset q - {#x#}"
    by (auto simp: pq_top_def pq_pop_def split: list.splits)
  show "pq_top q = Some x \<Longrightarrow> mExecutionTick x \<le> mExecutionTick y \<Longrightarrow>
      pq_top (pq_push y q) = Some x"
    by (auto simp: pq_top_def split: list.splits)
qed

end
