(* ===== verification/LinuxServer.thy ===== *)
theory LinuxServer
  imports CircBuf Packets Console Scheduling
begin

text \<open>
  The Linux server (\<^verbatim>\<open>GameLiftLinuxServer\<close>): \<^verbatim>\<open>ClientSession\<close>,
  \<^verbatim>\<open>ClientManager\<close>, \<^verbatim>\<open>GameLiftManager\<close>, the packet handlers and the
  event loop, as functions on one state. The objects the code shares through
  \<^verbatim>\<open>shared_ptr\<close> live in a store \<^verbatim>\<open>objs\<close>, by address. What is outside
  the repository (the system calls, the GameLift SDK's library) is the argument \<^verbatim>\<open>e\<close>: a
  record of functions on a world the server never looks into.
\<close>

section \<open>The environment\<close>

datatype syscall =
    SysSocket | SysReuseAddr int | SysBind int int | SysListen int | SysEpollCreate int
  | SysEpollAdd int int bool \<comment> \<open>epoll descriptor, descriptor, edge triggered\<close>
  | SysEpollDel int int | SysGetSockName int | SysAccept int | SysNonBlocking int
  | SysNoDelay int | SysLinger int | SysClose int | SysPeerPort int

datatype sdk_call =
    InitSDK | ProcessReady int | AcceptPlayerSession "byte list" | RemovePlayerSession "byte list"
  | ActivateGameSession | TerminateGameSession | ProcessEnding | Destroy | GetTerminationTime

text \<open>\<^verbatim>\<open>Aws::GameLift::Outcome\<close>: a success, or an error with its type, name and message.\<close>

datatype gl_outcome =
    Success
  | GlError (GetErrorType: int) (GetErrorName: "byte list") (GetErrorMessage: "byte list")

definition IsSuccess :: "gl_outcome \<Rightarrow> bool" where
  "IsSuccess out \<longleftrightarrow> out = Success"

datatype read_result = Got "byte list" | ReadAgain | ReadError
datatype write_result = Sent nat | WriteAgain | WriteError

record 'w env =
  sys :: "syscall \<Rightarrow> 'w \<Rightarrow> int \<times> 'w"
  sdk :: "sdk_call \<Rightarrow> 'w \<Rightarrow> gl_outcome \<times> 'w"
  sys_read :: "int \<Rightarrow> nat \<Rightarrow> 'w \<Rightarrow> read_result \<times> 'w"
  sys_write :: "int \<Rightarrow> byte list \<Rightarrow> 'w \<Rightarrow> write_result \<times> 'w"
  epoll_wait :: "int \<Rightarrow> nat \<Rightarrow> nat \<Rightarrow> 'w \<Rightarrow> int list \<times> 'w"
  peer_addr :: "int \<Rightarrow> 'w \<Rightarrow> ip_addr \<times> 16 word"
  now_ms :: "'w \<Rightarrow> int"
  args_rtl :: bool \<comment> \<open>whether the compiler evaluates call arguments right to left\<close>

section \<open>Constants\<close>

definition POLL_INTERVAL :: nat where "POLL_INTERVAL = 100"
definition PLAYER_HEART_BEAT :: nat where "PLAYER_HEART_BEAT = 1000"
definition BUFSIZE :: nat where "BUFSIZE = 1024 * 10"
definition MAX_CONNECTION :: nat where "MAX_CONNECTION = 1024"

section \<open>State\<close>

record ClientSession =
  mPlayerSessionId :: "byte list"
  mConnected :: bool
  mLogon :: bool
  mSocket :: int
  mClientAddr :: "ip_addr \<times> 16 word"
  mSendBuffer :: cbuf
  mRecvBuffer :: cbuf

text \<open>The tasks the code puts on the scheduler: \<^verbatim>\<open>OnTick\<close> of a session.\<close>

datatype task = TaskOnTick nat

record 'w server =
  objs :: "nat \<Rightarrow> ClientSession option"
  next_obj :: nat
  mClientList :: "(int \<times> nat) list"
  mEpollFd :: int
  mListenSocket :: int
  mActivated :: bool
  mAcceptedCount :: int
  mRemovedCount :: int
  mPlayerSessions :: "nat list"
  mTaskQueue :: "task JobElement list"
  mCurrentTick :: int
  mBeginTickPoint :: int
  GConsoleLog :: ConsoleLog
  world :: 'w

definition ClientSession_new :: "int \<Rightarrow> ClientSession" where
  "ClientSession_new sock =
     \<lparr>mPlayerSessionId = [], mConnected = False, mLogon = False, mSocket = sock,
      mClientAddr = ((0, 0, 0, 0), 0), mSendBuffer = CircularBuffer_new BUFSIZE [],
      mRecvBuffer = CircularBuffer_new BUFSIZE []\<rparr>"

definition IsValid :: "ClientSession \<Rightarrow> bool" where
  "IsValid c \<longleftrightarrow> length (mPlayerSessionId c) > 0"

definition with_obj :: "nat \<Rightarrow> 'w server \<Rightarrow> (ClientSession \<Rightarrow> 'a outcome) \<Rightarrow> 'a outcome" where
  "with_obj sid s f = (case objs s sid of None \<Rightarrow> Fault DanglingRef | Some c \<Rightarrow> f c)"

definition upd_obj :: "nat \<Rightarrow> (ClientSession \<Rightarrow> ClientSession) \<Rightarrow> 'w server \<Rightarrow> 'w server" where
  "upd_obj sid f s = s\<lparr>objs := (objs s)(sid := map_option f (objs s sid))\<rparr>"

definition print_out :: "byte list \<Rightarrow> 'w server \<Rightarrow> 'w server outcome" where
  "print_out text s = bnd (PrintOut True text (GConsoleLog s)) (\<lambda>l. Ok (s\<lparr>GConsoleLog := l\<rparr>))"

definition do_sys :: "'w env \<Rightarrow> syscall \<Rightarrow> 'w server \<Rightarrow> int \<times> 'w server" where
  "do_sys e c s = (case sys e c (world s) of (r, w) \<Rightarrow> (r, s\<lparr>world := w\<rparr>))"

definition do_sdk :: "'w env \<Rightarrow> sdk_call \<Rightarrow> 'w server \<Rightarrow> gl_outcome \<times> 'w server" where
  "do_sdk e c s = (case sdk e c (world s) of (r, w) \<Rightarrow> (r, s\<lparr>world := w\<rparr>))"

text \<open>\<^verbatim>\<open>std::map\<close> and \<^verbatim>\<open>std::set\<close>, in the order of their keys; inserting keeps an entry.\<close>

fun map_insert :: "int \<Rightarrow> nat \<Rightarrow> (int \<times> nat) list \<Rightarrow> (int \<times> nat) list" where
  "map_insert k v [] = [(k, v)]"
| "map_insert k v ((k', v') # m) =
     (if k < k' then (k, v) # (k', v') # m
      else if k = k' then (k', v') # m else (k', v') # map_insert k v m)"

definition map_erase :: "int \<Rightarrow> (int \<times> nat) list \<Rightarrow> (int \<times> nat) list" where
  "map_erase k m = filter (\<lambda>(k', v). k' \<noteq> k) m"

section \<open>\<^verbatim>\<open>GameLiftManager\<close>\<close>

definition GLM_InitializeGameLift ::
  "'w env \<Rightarrow> int \<Rightarrow> 'w server \<Rightarrow> (bool \<times> 'w server) outcome" where
  "GLM_InitializeGameLift e listenPort s =
     (case do_sdk e InitSDK s of (initOutcome, s1) \<Rightarrow>
      if \<not> IsSuccess initOutcome then Ok (False, s1)
      else case do_sdk e (ProcessReady listenPort) s1 of (readyOutcome, s2) \<Rightarrow>
      if \<not> IsSuccess readyOutcome then Ok (False, s2)
      else bnd (print_out (lit ''[GAMELIFT] ProcessReady Success\<newline>'')
                  (s2\<lparr>mActivated := True, mAcceptedCount := 0, mRemovedCount := 0\<rparr>))
             (\<lambda>s3. Ok (True, s3)))"

definition GLM_FinalizeGameLift :: "'w env \<Rightarrow> 'w server \<Rightarrow> 'w server" where
  "GLM_FinalizeGameLift e s = snd (do_sdk e Destroy s)"

definition GLM_AcceptPlayerSession ::
  "'w env \<Rightarrow> nat \<Rightarrow> byte list \<Rightarrow> 'w server \<Rightarrow> (bool \<times> 'w server) outcome" where
  "GLM_AcceptPlayerSession e psess playerSessionId s =
     (case do_sdk e (AcceptPlayerSession playerSessionId) s of (outc, s1) \<Rightarrow>
      if IsSuccess outc
      then Ok (True, s1\<lparr>mAcceptedCount := mAcceptedCount s1 + 1,
                        mPlayerSessions := insort_insert psess (mPlayerSessions s1)\<rparr>)
      else bnd (print_out (lit ''[GAMELIFT] AcceptPlayerSession Fail: '' @ GetErrorMessage outc @
                           lit ''\<newline>'') s1) (\<lambda>s2. Ok (False, s2)))"

definition GLM_CheckTerminateGameSession :: "'w env \<Rightarrow> 'w server \<Rightarrow> 'w server outcome" where
  "GLM_CheckTerminateGameSession e s =
     (if mAcceptedCount s \<ge> MAX_PLAYER_PER_GAME \<and> mRemovedCount s \<ge> MAX_PLAYER_PER_GAME
      then bnd (print_out (lit ''[GAMELIFT] Terminate GameSession\<newline>'') s) (\<lambda>s1.
           let s2 = snd (do_sdk e TerminateGameSession s1);
               s3 = snd (do_sdk e ProcessEnding s2)
           in Ok (s3\<lparr>mActivated := False\<rparr>))
      else Ok s)"

definition GLM_RemovePlayerSession ::
  "'w env \<Rightarrow> nat \<Rightarrow> byte list \<Rightarrow> 'w server \<Rightarrow> 'w server outcome" where
  "GLM_RemovePlayerSession e psess playerSessionId s =
     (case do_sdk e (RemovePlayerSession playerSessionId) s of (outc, s1) \<Rightarrow>
      bnd (if IsSuccess outc
           then Ok (s1\<lparr>mPlayerSessions := filter (\<lambda>p. p \<noteq> psess) (mPlayerSessions s1),
                       mRemovedCount := mRemovedCount s1 + 1\<rparr>)
           else print_out (lit ''[GAMELIFT] RemovePlayerSession Fail: '' @
                           fmt_d (GetErrorType outc) @ lit '' '' @ GetErrorName outc @
                           lit ''\<newline>'') s1)
        (GLM_CheckTerminateGameSession e))"

definition GLM_OnStartGameSession :: "'w env \<Rightarrow> 'w server \<Rightarrow> 'w server outcome" where
  "GLM_OnStartGameSession e s =
     print_out (lit ''[GAMELIFT] OnStartGameSession Success\<newline>'')
       (snd (do_sdk e ActivateGameSession s))"

definition GLM_OnProcessTerminate :: "'w env \<Rightarrow> 'w server \<Rightarrow> 'w server outcome" where
  "GLM_OnProcessTerminate e s =
     (let s1 = snd (do_sdk e TerminateGameSession s);
          s2 = snd (do_sdk e ProcessEnding s1)
      in print_out (lit ''[GAMELIFT] OnProcessTerminate Success\<newline>'') (s2\<lparr>mActivated := False\<rparr>))"

definition GLM_OnHealthCheck :: "'w server \<Rightarrow> bool" where
  "GLM_OnHealthCheck s = mActivated s"

section \<open>\<^verbatim>\<open>ClientManager\<close>: the clients it owns\<close>

definition CM_CreateClient :: "int \<Rightarrow> 'w server \<Rightarrow> nat \<times> 'w server" where
  "CM_CreateClient sock s =
     (let client = next_obj s
      in (client, s\<lparr>objs := (objs s)(client \<mapsto> ClientSession_new sock), next_obj := client + 1,
                   mClientList := map_insert sock client (mClientList s)\<rparr>))"

definition CM_DeleteClient :: "'w env \<Rightarrow> nat \<Rightarrow> 'w server \<Rightarrow> 'w server outcome" where
  "CM_DeleteClient e client s =
     with_obj client s (\<lambda>c.
       let s1 = snd (do_sys e (SysEpollDel (mEpollFd s) (mSocket c)) s)
       in Ok (s1\<lparr>mClientList := map_erase (mSocket c) (mClientList s1)\<rparr>))"

section \<open>\<^verbatim>\<open>ClientSession\<close>: connecting, disconnecting, sending\<close>

definition CS_OnConnect :: "'w env \<Rightarrow> nat \<Rightarrow> ip_addr \<times> 16 word \<Rightarrow> 'w server \<Rightarrow> 'w server outcome" where
  "CS_OnConnect e sid addr s =
     with_obj sid s (\<lambda>c.
       let s1 = upd_obj sid (\<lambda>c. c\<lparr>mClientAddr := addr\<rparr>) s;
           s2 = snd (do_sys e (SysNonBlocking (mSocket c)) s1);
           s3 = snd (do_sys e (SysNoDelay (mSocket c)) s2)
       in bnd (print_out (lit ''Client Connected: IP='' @ inet_ntoa (fst addr) @ lit '', PORT='' @
                          decimal (unat (snd addr)) @ lit ''\<newline>'') s3)
            (\<lambda>s4. Ok (upd_obj sid (\<lambda>c. c\<lparr>mConnected := True\<rparr>) s4)))"

definition CS_OnDisconnect :: "'w env \<Rightarrow> nat \<Rightarrow> 'w server \<Rightarrow> 'w server outcome" where
  "CS_OnDisconnect e sid s =
     with_obj sid s (\<lambda>c.
       if IsValid c
       then bnd (GLM_RemovePlayerSession e sid (mPlayerSessionId c) s)
              (\<lambda>s1. Ok (upd_obj sid (\<lambda>c. c\<lparr>mPlayerSessionId := []\<rparr>) s1))
       else Ok s)"

definition CS_Disconnect :: "'w env \<Rightarrow> nat \<Rightarrow> 'w server \<Rightarrow> 'w server outcome" where
  "CS_Disconnect e sid s =
     with_obj sid s (\<lambda>c.
       if \<not> mConnected c then Ok s
       else case do_sys e (SysLinger (mSocket c)) s of (r, s1) \<Rightarrow>
            if r < 0 then print_out (lit ''setsockopt linger option error\<newline>'') s1
            else bnd (CS_OnDisconnect e sid (upd_obj sid (\<lambda>c. c\<lparr>mConnected := False\<rparr>) s1)) (\<lambda>s2.
                 bnd (print_out (lit ''Client Disconnected: IP='' @ inet_ntoa (fst (mClientAddr c)) @
                                 lit '', PORT='' @ decimal (unat (snd (mClientAddr c))) @
                                 lit ''\<newline>'') s2)
                   (CM_DeleteClient e sid)))"

definition CS_SendRequest ::
  "'w env \<Rightarrow> nat \<Rightarrow> byte list \<Rightarrow> 'w server \<Rightarrow> (bool \<times> 'w server) outcome" where
  "CS_SendRequest e sid pkt s =
     with_obj sid s (\<lambda>c.
       if \<not> mConnected c then Ok (False, s)
       else bnd (Write pkt (mSendBuffer c)) (\<lambda>(ok, b).
            let s1 = upd_obj sid (\<lambda>c. c\<lparr>mSendBuffer := b\<rparr>) s
            in if ok then Ok (True, s1)
               else bnd (CS_Disconnect e sid s1) (\<lambda>s2. Ok (False, s2))))"

definition CS_EchoBack :: "'w env \<Rightarrow> nat \<Rightarrow> 'w server \<Rightarrow> 'w server outcome" where
  "CS_EchoBack e sid s =
     with_obj sid s (\<lambda>c.
       let len = GetContiguiousBytes (mRecvBuffer c)
       in if len = 0 then Ok s
          else bnd (front len (mRecvBuffer c)) (\<lambda>data.
               bnd (Write data (mSendBuffer c)) (\<lambda>(ok, b).
               let s1 = upd_obj sid (\<lambda>c. c\<lparr>mSendBuffer := b\<rparr>) s
               in if ok
                  then bnd (Remove len (mRecvBuffer c)) (\<lambda>rb.
                       Ok (upd_obj sid (\<lambda>c. c\<lparr>mRecvBuffer := rb\<rparr>) s1))
                  else CS_Disconnect e sid s1)))"

text \<open>The loop of \<^verbatim>\<open>SendFlush\<close> over \<^verbatim>\<open>write\<close>; \<^verbatim>\<open>None\<close>: it does not end.\<close>

partial_function (option) CS_SendFlush_loop ::
  "'w env \<Rightarrow> nat \<Rightarrow> 'w server \<Rightarrow> (bool \<times> 'w server) outcome option" where
  "CS_SendFlush_loop e sid s =
     (case objs s sid of
        None \<Rightarrow> Some (Fault DanglingRef)
      | Some c \<Rightarrow>
          if GetContiguiousBytes (mSendBuffer c) = 0 then Some (Ok (True, s))
          else (case front (GetContiguiousBytes (mSendBuffer c)) (mSendBuffer c) of
                  Fault f \<Rightarrow> Some (Fault f)
                | Ok data \<Rightarrow>
                    (case sys_write e (mSocket c) data (world s) of (r, w) \<Rightarrow>
                     (case r of
                        WriteAgain \<Rightarrow> Some (Ok (True, s\<lparr>world := w\<rparr>))
                      | WriteError \<Rightarrow> Some (Ok (False, s\<lparr>world := w\<rparr>))
                      | Sent n \<Rightarrow>
                          (case Remove n (mSendBuffer c) of
                             Fault f \<Rightarrow> Some (Fault f)
                           | Ok b \<Rightarrow>
                               CS_SendFlush_loop e sid
                                 (upd_obj sid (\<lambda>c. c\<lparr>mSendBuffer := b\<rparr>) (s\<lparr>world := w\<rparr>)))))))"

definition CS_SendFlush ::
  "'w env \<Rightarrow> nat \<Rightarrow> 'w server \<Rightarrow> (bool \<times> 'w server) outcome option" where
  "CS_SendFlush e sid s =
     (case objs s sid of
        None \<Rightarrow> Some (Fault DanglingRef)
      | Some c \<Rightarrow>
          if \<not> mConnected c then Some (Ok (False, s))
          else if GetContiguiousBytes (mSendBuffer c) = 0 then Some (Ok (True, s))
          else CS_SendFlush_loop e sid s)"

definition Scheduler_PushTask :: "nat \<Rightarrow> task \<Rightarrow> nat \<Rightarrow> 'w server \<Rightarrow> 'w server" where
  "Scheduler_PushTask owner t after s =
     s\<lparr>mTaskQueue := push_after pq_push owner t after (mCurrentTick s) (mTaskQueue s)\<rparr>"

definition CS_OnTick :: "'w env \<Rightarrow> nat \<Rightarrow> 'w server \<Rightarrow> 'w server outcome" where
  "CS_OnTick e sid s =
     with_obj sid s (\<lambda>c.
       if \<not> mConnected c then Ok s
       else Ok (Scheduler_PushTask sid (TaskOnTick sid) PLAYER_HEART_BEAT s))"

fun run_task :: "'w env \<Rightarrow> task \<Rightarrow> 'w server \<Rightarrow> 'w server outcome" where
  "run_task e (TaskOnTick sid) s = CS_OnTick e sid s"

text \<open>
  A \<^verbatim>\<open>ClientSession\<close> lives as long as the client list, the player set or a task refers to
  it; when the last local \<^verbatim>\<open>shared_ptr\<close> goes too, its destructor closes the socket.
\<close>

definition referenced :: "nat \<Rightarrow> 'w server \<Rightarrow> bool" where
  "referenced sid s \<longleftrightarrow> sid \<in> snd ` set (mClientList s) \<or> sid \<in> set (mPlayerSessions s) \<or>
     sid \<in> mOwner ` set (mTaskQueue s)"

definition CS_release :: "'w env \<Rightarrow> nat \<Rightarrow> 'w server \<Rightarrow> 'w server" where
  "CS_release e sid s =
     (if referenced sid s then s
      else case objs s sid of None \<Rightarrow> s
           | Some c \<Rightarrow> (let s1 = snd (do_sys e (SysClose (mSocket c)) s)
                        in s1\<lparr>objs := (objs s1)(sid := None)\<rparr>))"

text \<open>
  The end of a turn of \<^verbatim>\<open>DoTasks\<close>: the queue is popped, and with the copy of its top, which had run, the last
  reference to the owner may go. (A task pushes only later elements, so the popped element is the one that was copied.)
\<close>

definition Scheduler_pop :: "'w env \<Rightarrow> task JobElement list \<Rightarrow> 'w server \<Rightarrow> 'w server" where
  "Scheduler_pop e q s =
     (case pq_top (mTaskQueue s) of
        None \<Rightarrow> s\<lparr>mTaskQueue := q\<rparr>
      | Some timerJobElem \<Rightarrow> CS_release e (mOwner timerJobElem) (s\<lparr>mTaskQueue := q\<rparr>))"

definition Scheduler_DoTasks :: "'w env \<Rightarrow> 'w server \<Rightarrow> 'w server outcome option" where
  "Scheduler_DoTasks e s =
     (let now = now_ms e (world s) - mBeginTickPoint s
      in run_due mTaskQueue (Scheduler_pop e) pq_top pq_pop (run_task e) now
           (s\<lparr>mCurrentTick := now\<rparr>))"

section \<open>Players\<close>

definition CS_PlayerLogin :: "'w env \<Rightarrow> nat \<Rightarrow> byte list \<Rightarrow> 'w server \<Rightarrow> 'w server outcome" where
  "CS_PlayerLogin e sid playerId s =
     bnd (GLM_AcceptPlayerSession e sid playerId s) (\<lambda>(accepted, s1).
     if accepted
     then bnd (print_out (lit ''[PLAYER] PlayerLogin: '' @ playerId @ lit '' \<newline>'')
                 (upd_obj sid (\<lambda>c. c\<lparr>mPlayerSessionId := playerId\<rparr>) s1)) (\<lambda>s2.
          bnd (strcpy (mPlayerId LoginResult_new) playerId) (\<lambda>arr.
          bnd (CS_SendRequest e sid (id_bytes (LoginResult_new\<lparr>mPlayerId := arr\<rparr>)) s2) (\<lambda>(sent, s3).
          if sent then Ok s3
          else bnd (print_out (lit ''send request error: '' @ playerId @ lit '' \<newline>'') s3)
                 (CS_Disconnect e sid))))
     else CS_Disconnect e sid s1)"

definition CS_PlayerLogout :: "'w env \<Rightarrow> nat \<Rightarrow> byte list \<Rightarrow> 'w server \<Rightarrow> 'w server outcome" where
  "CS_PlayerLogout e sid playerId s =
     bnd (GLM_RemovePlayerSession e sid playerId s) (\<lambda>s1.
     bnd (print_out (lit ''[PLAYER] PlayerLogout: '' @ playerId @ lit '' \<newline>'')
            (upd_obj sid (\<lambda>c. c\<lparr>mPlayerSessionId := []\<rparr>) s1))
       (CS_Disconnect e sid))"

text \<open>
  \<^verbatim>\<open>for (auto& it : mPlayerSessions)\<close>: \<^verbatim>\<open>it\<close> refers into the set, so when
  \<^verbatim>\<open>SendRequest\<close> has erased the element, \<^verbatim>\<open>it->Disconnect()\<close> goes through a
  freed node; when \<^verbatim>\<open>Disconnect\<close> erases it, the loop's increment does.
\<close>

fun GLM_Broadcast_loop ::
  "'w env \<Rightarrow> byte list \<Rightarrow> nat list \<Rightarrow> 'w server \<Rightarrow> 'w server outcome" where
  "GLM_Broadcast_loop e pkt [] s = Ok s"
| "GLM_Broadcast_loop e pkt (it # rest) s =
     bnd (CS_SendRequest e it pkt s) (\<lambda>(sent, s1).
     if sent then GLM_Broadcast_loop e pkt rest s1
     else if it \<notin> set (mPlayerSessions s1) then Fault DanglingRef
     else bnd (CS_Disconnect e it s1) (\<lambda>s2.
          if it \<notin> set (mPlayerSessions s2) then Fault IteratorInvalidated
          else GLM_Broadcast_loop e pkt rest s2))"

definition GLM_BroadcastMessage :: "'w env \<Rightarrow> byte list \<Rightarrow> 'w server \<Rightarrow> 'w server outcome" where
  "GLM_BroadcastMessage e pkt s = GLM_Broadcast_loop e pkt (mPlayerSessions s) s"

section \<open>Packet handlers\<close>

text \<open>\<^verbatim>\<open>ParsePacket\<close> reads the struct's own size, whatever size the header names.\<close>

definition CS_ParsePacket ::
  "nat \<Rightarrow> nat \<Rightarrow> 'w server \<Rightarrow> (byte list option \<times> 'w server) outcome" where
  "CS_ParsePacket bytes sid s =
     with_obj sid s (\<lambda>c.
       bnd (Read bytes (mRecvBuffer c)) (\<lambda>(r, b).
       Ok (r, upd_obj sid (\<lambda>c. c\<lparr>mRecvBuffer := b\<rparr>) s)))"

definition DefaultHandler :: "'w env \<Rightarrow> nat \<Rightarrow> 'w server \<Rightarrow> 'w server outcome" where
  "DefaultHandler e sid s =
     bnd (print_out (lit ''Invalid packet handler'') s) (CS_Disconnect e sid)"

definition Handler_PKT_CS_LOGIN :: "'w env \<Rightarrow> nat \<Rightarrow> 'w server \<Rightarrow> 'w server outcome" where
  "Handler_PKT_CS_LOGIN e sid s =
     bnd (CS_ParsePacket sizeof_IdPacket sid s) (\<lambda>(r, s1).
     case r of
       None \<Rightarrow> print_out (lit ''packet parsing error, Type: '' @ fmt_d (sint (pkt_value PKT_CS_LOGIN)) @
                          lit ''\<newline>'') s1
     | Some bs \<Rightarrow> bnd (c_str (mPlayerId (id_of bs))) (\<lambda>playerId. CS_PlayerLogin e sid playerId s1))"

definition Handler_PKT_CS_EXIT :: "'w env \<Rightarrow> nat \<Rightarrow> 'w server \<Rightarrow> 'w server outcome" where
  "Handler_PKT_CS_EXIT e sid s =
     bnd (CS_ParsePacket sizeof_IdPacket sid s) (\<lambda>(r, s1).
     case r of
       None \<Rightarrow> print_out (lit ''packet parsing error: '' @ fmt_d (sint (pkt_value PKT_CS_EXIT)) @
                          lit ''\<newline>'') s1
     | Some bs \<Rightarrow> bnd (c_str (mPlayerId (id_of bs))) (\<lambda>playerId. CS_PlayerLogout e sid playerId s1))"

definition Handler_PKT_CS_CHAT :: "'w env \<Rightarrow> nat \<Rightarrow> 'w server \<Rightarrow> 'w server outcome" where
  "Handler_PKT_CS_CHAT e sid s =
     bnd (CS_ParsePacket sizeof_ChatPacket sid s) (\<lambda>(r, s1).
     case r of
       None \<Rightarrow> print_out (lit ''[DEBUG] packet parsing error, Type: '' @
                          fmt_d (sint (pkt_value PKT_CS_CHAT)) @ lit ''\<newline>'') s1
     | Some bs \<Rightarrow>
         bnd (c_str (mPlayerId (chat_of bs))) (\<lambda>playerId.
         bnd (strcpy (mPlayerId ChatBroadcastResult_new) playerId) (\<lambda>idArr.
         bnd (c_str (mChat (chat_of bs))) (\<lambda>chat.
         bnd (strcpy (mChat ChatBroadcastResult_new) chat) (\<lambda>chatArr.
         GLM_BroadcastMessage e
           (chat_bytes (ChatBroadcastResult_new\<lparr>mPlayerId := idArr, mChat := chatArr\<rparr>)) s1)))))"

definition Handler_PKT_CS_MOVE :: "'w env \<Rightarrow> nat \<Rightarrow> 'w server \<Rightarrow> 'w server outcome" where
  "Handler_PKT_CS_MOVE e sid s =
     bnd (CS_ParsePacket sizeof_MovePacket sid s) (\<lambda>(r, s1).
     case r of
       None \<Rightarrow> print_out (lit ''[DEBUG] packet parsing error, Type: '' @
                          fmt_d (sint (pkt_value PKT_CS_MOVE)) @ lit ''\<newline>'') s1
     | Some bs \<Rightarrow>
         GLM_BroadcastMessage e
           (move_bytes (MoveBroadcastResult_new
              \<lparr>mPlayerIdx := mPlayerIdx (move_of bs), mPosX := mPosX (move_of bs),
               mPosY := mPosY (move_of bs)\<rparr>)) s1)"

text \<open>The table after the static initialisers: \<^verbatim>\<open>DefaultHandler\<close> but for the four registered types.\<close>

definition HandlerTable :: "'w env \<Rightarrow> 16 word \<Rightarrow> nat \<Rightarrow> 'w server \<Rightarrow> 'w server outcome" where
  "HandlerTable e t =
     (if t = pkt_value PKT_CS_LOGIN then Handler_PKT_CS_LOGIN e
      else if t = pkt_value PKT_CS_EXIT then Handler_PKT_CS_EXIT e
      else if t = pkt_value PKT_CS_CHAT then Handler_PKT_CS_CHAT e
      else if t = pkt_value PKT_CS_MOVE then Handler_PKT_CS_MOVE e
      else DefaultHandler e)"

partial_function (option) CS_DispatchPacket ::
  "'w env \<Rightarrow> nat \<Rightarrow> 'w server \<Rightarrow> 'w server outcome option" where
  "CS_DispatchPacket e sid s =
     (case objs s sid of
        None \<Rightarrow> Some (Fault DanglingRef)
      | Some c \<Rightarrow>
          (case Peek sizeof_PacketHeader (mRecvBuffer c) of
             Fault f \<Rightarrow> Some (Fault f)
           | Ok None \<Rightarrow> Some (Ok s)
           | Ok (Some hb) \<Rightarrow>
               (let header = header_of hb
                in if GetStoredSize (mRecvBuffer c) < size_of_short (mSize header) then Some (Ok s)
                   else if sint (mType header) \<ge> sint (pkt_value PKT_MAX) \<or>
                           sint (mType header) \<le> sint (pkt_value PKT_NONE)
                   then Some (bnd (print_out (lit ''Invalid packet type\<newline>'') s) (CS_Disconnect e sid))
                   else (case HandlerTable e (mType header) sid s of
                           Fault f \<Rightarrow> Some (Fault f)
                         | Ok s' \<Rightarrow> CS_DispatchPacket e sid s'))))"

section \<open>Receiving\<close>

text \<open>
  One \<^verbatim>\<open>read\<close>: \<^verbatim>\<open>GetBuffer()\<close> and \<^verbatim>\<open>GetFreeSpaceSize()\<close> are arguments of
  the same call, so the destination is taken before or after \<^verbatim>\<open>GetFreeSpaceSize\<close> may have
  allocated region B.
\<close>

definition recv_args :: "bool \<Rightarrow> cbuf \<Rightarrow> nat \<times> nat \<times> cbuf" where
  "recv_args rtl b =
     (case GetFreeSpaceSize b of (n, b') \<Rightarrow>
      if rtl then (GetBuffer b', n, b') else (GetBuffer b, n, b'))"

definition recv_store :: "nat \<Rightarrow> byte list \<Rightarrow> cbuf \<Rightarrow> cbuf outcome" where
  "recv_store dst data b =
     bnd (mem_write dst data (mBuffer b)) (\<lambda>m. Ok (Commit (length data) (b\<lparr>mBuffer := m\<rparr>)))"

partial_function (option) CS_OnReceive_loop ::
  "'w env \<Rightarrow> nat \<Rightarrow> 'w server \<Rightarrow> 'w server outcome option" where
  "CS_OnReceive_loop e sid s =
     (case objs s sid of
        None \<Rightarrow> Some (Fault DanglingRef)
      | Some c \<Rightarrow>
          (case recv_args (args_rtl e) (mRecvBuffer c) of (dst, n, b) \<Rightarrow>
           (case sys_read e (mSocket c) n (world s) of (r, w) \<Rightarrow>
            (let s1 = upd_obj sid (\<lambda>c. c\<lparr>mRecvBuffer := b\<rparr>) (s\<lparr>world := w\<rparr>)
             in (case r of
                   ReadAgain \<Rightarrow> Some (Ok s1)
                 | ReadError \<Rightarrow> Some (CS_Disconnect e sid s1)
                 | Got data \<Rightarrow>
                     (case recv_store dst data b of
                        Fault f \<Rightarrow> Some (Fault f)
                      | Ok b' \<Rightarrow>
                          Option.bind
                            (CS_DispatchPacket e sid (upd_obj sid (\<lambda>c. c\<lparr>mRecvBuffer := b'\<rparr>) s1))
                            (\<lambda>res. case res of
                               Fault f \<Rightarrow> Some (Fault f)
                             | Ok s2 \<Rightarrow> CS_OnReceive_loop e sid s2)))))))"

definition CS_OnReceive :: "'w env \<Rightarrow> nat \<Rightarrow> 'w server \<Rightarrow> 'w server outcome option" where
  "CS_OnReceive e sid s =
     (case objs s sid of
        None \<Rightarrow> Some (Fault DanglingRef)
      | Some c \<Rightarrow> if \<not> mConnected c then Some (Fault CrashAssert) else CS_OnReceive_loop e sid s)"

section \<open>The event loop\<close>

fun CM_Flush_loop :: "'w env \<Rightarrow> (int \<times> nat) list \<Rightarrow> 'w server \<Rightarrow> 'w server outcome option" where
  "CM_Flush_loop e [] s = Some (Ok s)"
| "CM_Flush_loop e ((fd, client) # rest) s =
     (case CS_SendFlush e client s of
        None \<Rightarrow> None
      | Some (Fault f) \<Rightarrow> Some (Fault f)
      | Some (Ok (flushed, s1)) \<Rightarrow>
          if flushed then CM_Flush_loop e rest s1
          else (case CS_Disconnect e client s1 of
                  Fault f \<Rightarrow> Some (Fault f)
                | Ok s2 \<Rightarrow>
                    if (fd, client) \<notin> set (mClientList s2) then Some (Fault IteratorInvalidated)
                    else CM_Flush_loop e rest s2))"

definition CM_FlushClientSend :: "'w env \<Rightarrow> 'w server \<Rightarrow> 'w server outcome option" where
  "CM_FlushClientSend e s = CM_Flush_loop e (mClientList s) s"

definition CM_accept :: "'w env \<Rightarrow> 'w server \<Rightarrow> 'w server outcome" where
  "CM_accept e s =
     (case do_sys e (SysAccept (mListenSocket s)) s of (client, s1) \<Rightarrow>
      let clientAddr = peer_addr e client (world s1)
      in if client < 0
         then print_out (lit ''accept error: IP='' @ inet_ntoa (fst clientAddr) @ lit '', PORT='' @
                         decimal (unat (snd clientAddr)) @ lit ''\<newline>'') s1
         else case CM_CreateClient client s1 of (newClient, s2) \<Rightarrow>
              bnd (CS_OnConnect e newClient clientAddr s2) (\<lambda>s3.
              Ok (snd (do_sys e (SysEpollAdd (mEpollFd s3) client True) s3))))"

text \<open>
  \<^verbatim>\<open>mClientList[client]\<close> makes a null entry for a descriptor it does not hold, and
  \<^verbatim>\<open>OnReceive\<close> is then called through it.
\<close>

definition CM_event :: "'w env \<Rightarrow> int \<Rightarrow> 'w server \<Rightarrow> 'w server outcome option" where
  "CM_event e fd s =
     (if fd = mListenSocket s then Some (CM_accept e s)
      else (case map_of (mClientList s) fd of
              None \<Rightarrow> Some (Fault NullDeref)
            | Some session \<Rightarrow>
                map_option (\<lambda>r. bnd r (\<lambda>s'. Ok (CS_release e session s'))) (CS_OnReceive e session s)))"

fun CM_events :: "'w env \<Rightarrow> int list \<Rightarrow> 'w server \<Rightarrow> 'w server outcome option" where
  "CM_events e [] s = Some (Ok s)"
| "CM_events e (fd # fds) s =
     (case CM_event e fd s of
        None \<Rightarrow> None
      | Some (Fault f) \<Rightarrow> Some (Fault f)
      | Some (Ok s') \<Rightarrow> CM_events e fds s')"

text \<open>One turn of the \<^verbatim>\<open>while (true)\<close> of \<^verbatim>\<open>EventLoop\<close>, and several.\<close>

definition CM_EventLoop_turn :: "'w env \<Rightarrow> 'w server \<Rightarrow> 'w server outcome option" where
  "CM_EventLoop_turn e s =
     (case epoll_wait e (mEpollFd s) MAX_CONNECTION POLL_INTERVAL (world s) of (events, w) \<Rightarrow>
      (case CM_events e events (s\<lparr>world := w\<rparr>) of
         None \<Rightarrow> None
       | Some (Fault f) \<Rightarrow> Some (Fault f)
       | Some (Ok s1) \<Rightarrow>
           (case CM_FlushClientSend e s1 of
              None \<Rightarrow> None
            | Some (Fault f) \<Rightarrow> Some (Fault f)
            | Some (Ok s2) \<Rightarrow> Scheduler_DoTasks e s2)))"

fun CM_EventLoop :: "nat \<Rightarrow> 'w env \<Rightarrow> 'w server \<Rightarrow> 'w server outcome option" where
  "CM_EventLoop 0 e s = Some (Ok s)"
| "CM_EventLoop (Suc turns) e s =
     (case CM_EventLoop_turn e s of
        None \<Rightarrow> None
      | Some (Fault f) \<Rightarrow> Some (Fault f)
      | Some (Ok s') \<Rightarrow> CM_EventLoop turns e s')"

section \<open>Start-up\<close>

definition CM_Initialize :: "'w env \<Rightarrow> int \<Rightarrow> 'w server \<Rightarrow> bool \<times> int \<times> 'w server" where
  "CM_Initialize e listenPort s0 =
     (case do_sys e SysSocket s0 of (sock, s1) \<Rightarrow>
      let s2 = s1\<lparr>mListenSocket := sock\<rparr>
      in if sock < 0 then (False, listenPort, s2)
      else let s3 = snd (do_sys e (SysReuseAddr sock) s2)
      in case do_sys e (SysBind sock listenPort) s3 of (ret, s4) \<Rightarrow>
      if ret < 0 then (False, listenPort, s4)
      else case do_sys e (SysListen sock) s4 of (ret, s5) \<Rightarrow>
      if ret < 0 then (False, listenPort, s5)
      else case do_sys e (SysEpollCreate (int MAX_CONNECTION)) s5 of (ep, s6) \<Rightarrow>
      let s7 = s6\<lparr>mEpollFd := ep\<rparr>
      in if ep < 0 then (False, listenPort, s7)
      else case do_sys e (SysEpollAdd ep sock False) s7 of (ret, s8) \<Rightarrow>
      if ret < 0 then (False, listenPort, s8)
      else case do_sys e (SysGetSockName sock) s8 of (ret, s9) \<Rightarrow>
      if ret < 0 then (False, listenPort, s9)
      else case do_sys e (SysPeerPort sock) s9 of (port, s10) \<Rightarrow> (True, port, s10))"

definition server_new :: "'w env \<Rightarrow> 'w \<Rightarrow> 'w server" where
  "server_new e w =
     \<lparr>objs = (\<lambda>_. None), next_obj = 0, mClientList = [], mEpollFd = -1, mListenSocket = -1,
      mActivated = False, mAcceptedCount = 0, mRemovedCount = 0, mPlayerSessions = [],
      mTaskQueue = [], mCurrentTick = 0, mBeginTickPoint = now_ms e w,
      GConsoleLog = ConsoleLog_new, world = w\<rparr>"

text \<open>\<^verbatim>\<open>main\<close> up to \<^verbatim>\<open>EventLoop\<close>: the exit code, or the server that is ready.\<close>

definition linux_main :: "'w env \<Rightarrow> int option \<Rightarrow> 'w \<Rightarrow> (int + 'w server) outcome" where
  "linux_main e arg w =
     (let portNum = (case arg of None \<Rightarrow> 0 | Some p \<Rightarrow> p)
      in case CM_Initialize e portNum (server_new e w) of (ok, port, s1) \<Rightarrow>
         if \<not> ok then Ok (Inl (- 1))
         else bnd (GLM_InitializeGameLift e port s1) (\<lambda>(ready, s2).
              Ok (if ready then Inr s2 else Inl (- 1))))"

end
