(* ===== verification/LinuxFrames.thy ===== *)
theory LinuxFrames
  imports LinuxServer
begin

text \<open>
  What the server's operations leave alone: no operation below \<^verbatim>\<open>DispatchPacket\<close>
  creates or destroys a session object or touches a receive buffer, and all of them keep every
  circular buffer in its invariant. Conditions under which they do not fault.
\<close>

section \<open>The frame relation\<close>

type_synonym store = "nat \<Rightarrow> ClientSession option"

definition good_objs :: "store \<Rightarrow> bool" where
  "good_objs m \<longleftrightarrow> (\<forall>sid c. m sid = Some c \<longrightarrow> cb_inv (mSendBuffer c) \<and> cb_inv (mRecvBuffer c))"

definition frames :: "store \<Rightarrow> store \<Rightarrow> bool" where
  "frames m m' \<longleftrightarrow>
     (\<forall>sid. map_option (\<lambda>c. (mRecvBuffer c, mSocket c)) (m' sid) =
            map_option (\<lambda>c. (mRecvBuffer c, mSocket c)) (m sid)) \<and>
     (good_objs m \<longrightarrow> good_objs m')"

abbreviation good :: "'w server \<Rightarrow> bool" where
  "good s \<equiv> good_objs (objs s)"

abbreviation safe :: "'w server \<Rightarrow> 'w server \<Rightarrow> bool" where
  "safe s s' \<equiv> frames (objs s) (objs s')"

lemma frames_refl [simp]: "frames m m"
  by (simp add: frames_def)

lemma frames_trans [trans]: "frames m m' \<Longrightarrow> frames m' m'' \<Longrightarrow> frames m m''"
  by (simp add: frames_def)

lemma frames_upd:
  assumes "\<And>c. m sid = Some c \<Longrightarrow> mRecvBuffer (f c) = mRecvBuffer c \<and> mSocket (f c) = mSocket c \<and>
      (cb_inv (mSendBuffer c) \<longrightarrow> cb_inv (mSendBuffer (f c)))"
  shows "frames m (m(sid := map_option f (m sid)))"
  using assms by (cases "m sid") (auto simp: frames_def good_objs_def)

lemma frames_put: "m sid = Some c \<Longrightarrow> mRecvBuffer c' = mRecvBuffer c \<Longrightarrow> mSocket c' = mSocket c \<Longrightarrow>
    (cb_inv (mSendBuffer c) \<Longrightarrow> cb_inv (mSendBuffer c')) \<Longrightarrow> frames m (m(sid \<mapsto> c'))"
  by (auto simp: frames_def good_objs_def)

lemma frames_upd_trans:
  assumes "frames m m'" and "\<And>c. mRecvBuffer (f c) = mRecvBuffer c \<and> mSocket (f c) = mSocket c \<and>
      mSendBuffer (f c) = mSendBuffer c"
  shows "frames m (m'(sid := map_option f (m' sid)))"
  by (rule frames_trans [OF assms(1) frames_upd]) (simp add: assms(2))

lemma frames_good: "frames m m' \<Longrightarrow> good_objs m \<Longrightarrow> good_objs m'"
  by (simp add: frames_def)

lemma objs_upd_obj [simp]: "objs (upd_obj sid f s) = (objs s)(sid := map_option f (objs s sid))"
  by (simp add: upd_obj_def)

lemma upd_obj_other [simp]:
  "mClientList (upd_obj sid f s) = mClientList s" "mPlayerSessions (upd_obj sid f s) = mPlayerSessions s"
  "world (upd_obj sid f s) = world s" "mEpollFd (upd_obj sid f s) = mEpollFd s"
  "GConsoleLog (upd_obj sid f s) = GConsoleLog s" "mAcceptedCount (upd_obj sid f s) = mAcceptedCount s"
  "mRemovedCount (upd_obj sid f s) = mRemovedCount s" "mActivated (upd_obj sid f s) = mActivated s"
  "mTaskQueue (upd_obj sid f s) = mTaskQueue s" "mListenSocket (upd_obj sid f s) = mListenSocket s"
  "next_obj (upd_obj sid f s) = next_obj s" "mCurrentTick (upd_obj sid f s) = mCurrentTick s"
  "mBeginTickPoint (upd_obj sid f s) = mBeginTickPoint s"
  by (simp_all add: upd_obj_def)

lemma frames_objD: "frames m m' \<Longrightarrow> m sid = Some c \<Longrightarrow>
    \<exists>c'. m' sid = Some c' \<and> mRecvBuffer c' = mRecvBuffer c \<and> mSocket c' = mSocket c"
  unfolding frames_def by (drule conjunct1, drule spec [of _ sid]) auto

lemma goodD: "good_objs m \<Longrightarrow> m sid = Some c \<Longrightarrow> cb_inv (mSendBuffer c) \<and> cb_inv (mRecvBuffer c)"
  by (auto simp: good_objs_def)

section \<open>Calls that touch no session\<close>

lemma print_out_Ok: "print_out t s = Ok s' \<longleftrightarrow> length t < 128 \<and> (\<exists>l. PrintOut True t (GConsoleLog s) = Ok l \<and> s' = s\<lparr>GConsoleLog := l\<rparr>)"
  by (auto simp: print_out_def PrintOut_def LOG_BUF_def split: if_splits)

lemma print_out_fits: "length t < 128 \<Longrightarrow> \<exists>l. print_out t s = Ok (s\<lparr>GConsoleLog := l\<rparr>)"
  by (auto simp: print_out_def PrintOut_def LOG_BUF_def)

lemma print_out_overrun: "128 \<le> length t \<Longrightarrow> print_out t s = Fault StackOverrun"
  by (simp add: print_out_def PrintOut_overrun)

lemma print_out_safe: "print_out t s = Ok s' \<Longrightarrow> safe s s'"
  by (auto simp: print_out_Ok)

lemma do_sdk_other [simp]:
  "objs (snd (do_sdk e c s)) = objs s" "mClientList (snd (do_sdk e c s)) = mClientList s"
  "mPlayerSessions (snd (do_sdk e c s)) = mPlayerSessions s"
  "mAcceptedCount (snd (do_sdk e c s)) = mAcceptedCount s"
  "mRemovedCount (snd (do_sdk e c s)) = mRemovedCount s"
  "GConsoleLog (snd (do_sdk e c s)) = GConsoleLog s" "mActivated (snd (do_sdk e c s)) = mActivated s"
  "mEpollFd (snd (do_sdk e c s)) = mEpollFd s" "mTaskQueue (snd (do_sdk e c s)) = mTaskQueue s"
  by (simp_all add: do_sdk_def split: prod.splits)

lemma do_sys_other [simp]:
  "objs (snd (do_sys e c s)) = objs s" "mClientList (snd (do_sys e c s)) = mClientList s"
  "mPlayerSessions (snd (do_sys e c s)) = mPlayerSessions s"
  "mAcceptedCount (snd (do_sys e c s)) = mAcceptedCount s"
  "mRemovedCount (snd (do_sys e c s)) = mRemovedCount s"
  "GConsoleLog (snd (do_sys e c s)) = GConsoleLog s" "mActivated (snd (do_sys e c s)) = mActivated s"
  "mEpollFd (snd (do_sys e c s)) = mEpollFd s" "mTaskQueue (snd (do_sys e c s)) = mTaskQueue s"
  by (simp_all add: do_sys_def split: prod.splits)

lemma do_sys_fst: "fst (do_sys e c s) = fst (sys e c (world s))"
  by (simp add: do_sys_def split: prod.splits)

lemma do_sdk_fst: "fst (do_sdk e c s) = fst (sdk e c (world s))"
  by (simp add: do_sdk_def split: prod.splits)

lemma CheckTerminate_safe: "GLM_CheckTerminateGameSession e s = Ok s' \<Longrightarrow> safe s s'"
  by (auto simp: GLM_CheckTerminateGameSession_def Let_def print_out_Ok split: if_splits)

lemma Remove_safe: "GLM_RemovePlayerSession e p i s = Ok s' \<Longrightarrow> safe s s'"
  by (auto simp: GLM_RemovePlayerSession_def case_prod_beta print_out_Ok
      dest!: CheckTerminate_safe split: if_splits)

lemma Accept_safe: "GLM_AcceptPlayerSession e p i s = Ok (b, s') \<Longrightarrow> safe s s'"
  by (auto simp: GLM_AcceptPlayerSession_def case_prod_beta print_out_Ok split: if_splits)

section \<open>Disconnecting, sending, broadcasting\<close>

lemma DeleteClient_safe: "CM_DeleteClient e i s = Ok s' \<Longrightarrow> safe s s'"
  by (auto simp: CM_DeleteClient_def with_obj_def Let_def split: option.splits)

lemma OnDisconnect_safe: "CS_OnDisconnect e i s = Ok s' \<Longrightarrow> safe s s'"
  by (auto simp: CS_OnDisconnect_def with_obj_def dest!: Remove_safe
      intro!: frames_upd_trans split: option.splits if_splits)

lemma Disconnect_safe:
  assumes "CS_Disconnect e i s = Ok s'"
  shows "safe s s'"
proof -
  have off: "frames (objs s) ((objs s)(i \<mapsto> c\<lparr>mConnected := False\<rparr>))" if "objs s i = Some c" for c
    using that by (rule frames_put) simp_all
  from assms show ?thesis
    by (auto simp: CS_Disconnect_def with_obj_def case_prod_beta
        dest!: OnDisconnect_safe print_out_safe DeleteClient_safe
        split: option.splits if_splits) (blast intro: frames_trans off)+
qed

lemma SendRequest_safe:
  assumes "CS_SendRequest e i pkt s = Ok (b, s')" and "good s"
  shows "safe s s'"
proof -
  from assms(1) obtain c where c: "objs s i = Some c"
    by (auto simp: CS_SendRequest_def with_obj_def split: option.splits)
  note inv = goodD [OF assms(2) c, THEN conjunct1]
  obtain sb where sb: "Write pkt (mSendBuffer c) = Ok (length pkt \<le> room (mSendBuffer c), sb)" "cb_inv sb"
    using cb.wr_cases [OF inv] by metis
  have 1: "safe s (upd_obj i (\<lambda>c. c\<lparr>mSendBuffer := sb\<rparr>) s)"
    using sb(2) by (simp add: frames_upd)
  from assms(1) c sb show ?thesis
    by (auto simp: CS_SendRequest_def with_obj_def Let_def split: if_splits
        dest!: Disconnect_safe intro: 1 frames_trans [OF 1])
qed

lemma Broadcast_safe: "GLM_Broadcast_loop e pkt ps s = Ok s' \<Longrightarrow> good s \<Longrightarrow> safe s s'"
proof (induction ps arbitrary: s)
  case (Cons p ps)
  from Cons.prems obtain b s1 where s1: "CS_SendRequest e p pkt s = Ok (b, s1)" by auto
  note sf = SendRequest_safe [OF s1 Cons.prems(2)]
  note g = frames_good [OF sf Cons.prems(2)]
  from Cons.prems(1) s1 show ?case
    by (auto split: if_splits dest!: Disconnect_safe
        intro: Cons.IH g frames_trans [OF sf] frames_trans frames_good)
qed simp

lemma BroadcastMessage_safe: "GLM_BroadcastMessage e pkt s = Ok s' \<Longrightarrow> good s \<Longrightarrow> safe s s'"
  by (simp add: GLM_BroadcastMessage_def Broadcast_safe)

lemma PlayerLogin_safe:
  assumes "CS_PlayerLogin e i pid s = Ok s'" and "good s"
  shows "safe s s'"
proof -
  from assms(1) obtain acc s1 where s1: "GLM_AcceptPlayerSession e i pid s = Ok (acc, s1)"
    by (auto simp: CS_PlayerLogin_def)
  note sf = Accept_safe [OF s1]
  have 1: "safe s (upd_obj i (\<lambda>c. c\<lparr>mPlayerSessionId := pid\<rparr>) s1)"
    by (rule frames_trans [OF sf]) (simp add: frames_upd)
  show ?thesis
  proof (cases acc)
    case False
    with assms(1) s1 show ?thesis
      by (auto simp: CS_PlayerLogin_def dest!: Disconnect_safe intro: frames_trans [OF sf])
  next
    case True
    from assms(1) s1 True obtain s2 arr sent s3 where
      s2: "print_out (lit ''[PLAYER] PlayerLogin: '' @ pid @ lit '' \<newline>'')
             (upd_obj i (\<lambda>c. c\<lparr>mPlayerSessionId := pid\<rparr>) s1) = Ok s2"
      and s3: "CS_SendRequest e i (id_bytes (LoginResult_new\<lparr>mPlayerId := arr\<rparr>)) s2 = Ok (sent, s3)"
      and rest: "if sent then s' = s3 else \<exists>s4. print_out (lit ''send request error: '' @ pid @
             lit '' \<newline>'') s3 = Ok s4 \<and> CS_Disconnect e i s4 = Ok s'"
      by (auto simp: CS_PlayerLogin_def split: if_splits)
    have 2: "safe s s2" by (rule frames_trans [OF 1 print_out_safe [OF s2]])
    have 3: "safe s s3"
      by (rule frames_trans [OF 2 SendRequest_safe [OF s3 frames_good [OF 2 assms(2)]]])
    from rest show ?thesis
      by (auto split: if_splits dest!: print_out_safe Disconnect_safe intro: 3 frames_trans [OF 3]
          frames_trans)
  qed
qed

lemma PlayerLogout_safe:
  assumes "CS_PlayerLogout e i pid s = Ok s'"
  shows "safe s s'"
proof -
  from assms obtain s1 s2 where s1: "GLM_RemovePlayerSession e i pid s = Ok s1"
    and s2: "print_out (lit ''[PLAYER] PlayerLogout: '' @ pid @ lit '' \<newline>'')
             (upd_obj i (\<lambda>c. c\<lparr>mPlayerSessionId := []\<rparr>) s1) = Ok s2"
    and s': "CS_Disconnect e i s2 = Ok s'"
    by (auto simp: CS_PlayerLogout_def)
  have "safe s (upd_obj i (\<lambda>c. c\<lparr>mPlayerSessionId := []\<rparr>) s1)"
    by (rule frames_trans [OF Remove_safe [OF s1]]) (simp add: frames_upd)
  also note print_out_safe [OF s2]
  also note Disconnect_safe [OF s']
  finally show ?thesis .
qed

section \<open>The outside world\<close>

text \<open>The world changes only through the calls an operation makes.\<close>

inductive world_call :: "'w env \<Rightarrow> 'w \<Rightarrow> 'w \<Rightarrow> bool" for e :: "'w env" where
  world_sys: "world_call e w (snd (sys e c w))"
| world_sdk: "world_call e w (snd (sdk e d w))"

abbreviation moved :: "'w env \<Rightarrow> 'w server \<Rightarrow> 'w server \<Rightarrow> bool" where
  "moved e s s' \<equiv> (world_call e)\<^sup>*\<^sup>* (world s) (world s')"

lemma world_do_sys:
  assumes "(world_call e)\<^sup>*\<^sup>* w (world s)"
  shows "(world_call e)\<^sup>*\<^sup>* w (world (snd (do_sys e c s)))"
proof -
  have "world (snd (do_sys e c s)) = snd (sys e c (world s))"
    by (simp add: do_sys_def split: prod.splits)
  with rtranclp.rtrancl_into_rtrancl [OF assms world_sys] show ?thesis by simp
qed

lemma world_do_sdk:
  assumes "(world_call e)\<^sup>*\<^sup>* w (world s)"
  shows "(world_call e)\<^sup>*\<^sup>* w (world (snd (do_sdk e c s)))"
proof -
  have "world (snd (do_sdk e c s)) = snd (sdk e c (world s))"
    by (simp add: do_sdk_def split: prod.splits)
  with rtranclp.rtrancl_into_rtrancl [OF assms world_sdk] show ?thesis by simp
qed

lemmas world_intros = world_do_sys world_do_sdk

lemma print_out_moved: "print_out t s = Ok s' \<Longrightarrow> moved e s s'"
  by (auto simp: print_out_Ok)

lemma CheckTerminate_moved: "GLM_CheckTerminateGameSession e s = Ok s' \<Longrightarrow> moved e s s'"
  by (auto simp: GLM_CheckTerminateGameSession_def Let_def print_out_Ok intro!: world_intros
      split: if_splits)

lemma Remove_moved: "GLM_RemovePlayerSession e p i s = Ok s' \<Longrightarrow> moved e s s'"
  by (auto simp: GLM_RemovePlayerSession_def case_prod_beta print_out_Ok
      dest!: CheckTerminate_moved intro: rtranclp_trans world_intros split: if_splits)

lemma Accept_moved: "GLM_AcceptPlayerSession e p i s = Ok (b, s') \<Longrightarrow> moved e s s'"
  by (auto simp: GLM_AcceptPlayerSession_def case_prod_beta print_out_Ok intro: world_intros
      split: if_splits)

lemma DeleteClient_moved: "CM_DeleteClient e i s = Ok s' \<Longrightarrow> moved e s s'"
  by (auto simp: CM_DeleteClient_def with_obj_def Let_def intro: world_intros split: option.splits)

lemma OnDisconnect_moved: "CS_OnDisconnect e i s = Ok s' \<Longrightarrow> moved e s s'"
  by (auto simp: CS_OnDisconnect_def with_obj_def dest!: Remove_moved split: option.splits if_splits)

lemma Disconnect_moved: "CS_Disconnect e i s = Ok s' \<Longrightarrow> moved e s s'"
  by (auto simp: CS_Disconnect_def with_obj_def case_prod_beta
      dest!: OnDisconnect_moved print_out_moved [where e = e] DeleteClient_moved
      split: option.splits if_splits)
    (blast intro: rtranclp_trans world_intros)+

lemma SendRequest_moved: "CS_SendRequest e i pkt s = Ok (b, s') \<Longrightarrow> moved e s s'"
  by (auto simp: CS_SendRequest_def with_obj_def Let_def split: option.splits if_splits
      dest!: Disconnect_moved)

lemma Broadcast_moved: "GLM_Broadcast_loop e pkt ps s = Ok s' \<Longrightarrow> moved e s s'"
proof (induction ps arbitrary: s)
  case (Cons p ps)
  then show ?case
    by (auto split: if_splits dest!: SendRequest_moved Disconnect_moved) (blast intro: rtranclp_trans)+
qed simp

lemma PlayerLogin_moved: "CS_PlayerLogin e i pid s = Ok s' \<Longrightarrow> moved e s s'"
  by (auto simp: CS_PlayerLogin_def split: if_splits
      dest!: Accept_moved print_out_moved [where e = e] SendRequest_moved Disconnect_moved)

lemma PlayerLogout_moved: "CS_PlayerLogout e i pid s = Ok s' \<Longrightarrow> moved e s s'"
  by (auto simp: CS_PlayerLogout_def
      dest!: Remove_moved print_out_moved [where e = e] Disconnect_moved)

end
