(* ===== verification/Framing.thy ===== *)
theory Framing
  imports Packets
begin

text \<open>
  Framing: every receiver of the program cuts the byte stream of a connection into packets by the size
  in the packet header. The locale \<^verbatim>\<open>framing\<close> holds what is common to them, for any set
  of messages whose headers name their own length; it is interpreted below on the messages of the clients
  and on those of the servers.
\<close>

section \<open>Incomplete packets\<close>

definition incomplete :: "byte list \<Rightarrow> bool" where
  "incomplete t \<longleftrightarrow> length t < sizeof_PacketHeader \<or> length t < size_of_short (mSize (header_of t))"

lemma dec16_append: "2 \<le> length xs \<Longrightarrow> dec16 (xs @ ys) = dec16 xs"
  by (auto simp: dec16_def nth_append)

lemma header_of_prefix: "4 \<le> length t \<Longrightarrow> header_of (t @ u) = header_of t"
  by (simp add: header_of_def dec16_append)

lemma header_of_take: "4 \<le> length t \<Longrightarrow> header_of (take 4 t) = header_of t"
  by (simp add: header_of_def dec16_def)

lemma incomplete_prefix: "incomplete (p @ q) \<Longrightarrow> incomplete p"
  by (cases "4 \<le> length p") (auto simp: incomplete_def header_of_prefix sizeof_defs)

locale framing =
  fixes msg_bytes :: "'m \<Rightarrow> byte list" and wf_msg :: "'m \<Rightarrow> bool" and longest :: nat
  assumes msg_length: "wf_msg m \<Longrightarrow> length (msg_bytes m) = size_of_short (mSize (header_of (msg_bytes m)))"
    and msg_bounds: "wf_msg m \<Longrightarrow> 4 \<le> length (msg_bytes m) \<and> length (msg_bytes m) \<le> longest"
begin

lemma incomplete_msg_prefix:
  assumes "wf_msg m" and "msg_bytes m = p @ q" and "q \<noteq> []"
  shows "incomplete p" and "length p < longest"
proof -
  have lt: "length p < length (msg_bytes m)" using assms(2,3) by simp
  with msg_bounds [OF assms(1)] show "length p < longest" by linarith
  show "incomplete p"
  proof (cases "4 \<le> length p")
    case True
    then have "header_of (msg_bytes m) = header_of p" by (simp add: assms(2) header_of_prefix)
    with msg_length [OF assms(1)] lt show ?thesis by (simp add: incomplete_def)
  qed (simp add: incomplete_def sizeof_defs)
qed

text \<open>Any cut of a stream of messages falls inside at most one of them.\<close>

lemma split_stream:
  assumes "p @ q = concat (map msg_bytes ms) @ t" and "\<forall>m\<in>set ms. wf_msg m" and "incomplete t"
  shows "\<exists>ms1 ms2 t1. ms = ms1 @ ms2 \<and> p = concat (map msg_bytes ms1) @ t1 \<and> incomplete t1 \<and>
    t1 @ q = concat (map msg_bytes ms2) @ t \<and> length t1 \<le> max longest (length t)"
  using assms
proof (induction ms arbitrary: p)
  case Nil
  then have "length p \<le> length t" "incomplete p"
    using incomplete_prefix [of p q] by auto
  with Nil show ?case
    by - (rule exI [of _ "[]"], rule exI [of _ "[]"], rule exI [of _ p], simp add: le_max_iff_disj)
next
  case (Cons m ms)
  let ?stream = "\<lambda>ms. concat (map msg_bytes ms)"
  have "p @ q = msg_bytes m @ (?stream ms @ t)"
    using Cons.prems(1) by simp
  then obtain u where "p = msg_bytes m @ u \<and> u @ q = ?stream ms @ t \<or>
      p @ u = msg_bytes m \<and> q = u @ ?stream ms @ t"
    unfolding append_eq_append_conv2 by blast
  then consider (whole) p' where "p = msg_bytes m @ p'" "p' @ q = ?stream ms @ t"
    | (part) u where "msg_bytes m = p @ u" "u \<noteq> []"
    by (metis append_Nil append_Nil2)
  then show ?case
  proof cases
    case whole
    from Cons.IH [OF whole(2)] Cons.prems obtain ms1 ms2 t1 where
      "ms = ms1 @ ms2" "p' = ?stream ms1 @ t1" "incomplete t1" "t1 @ q = ?stream ms2 @ t"
      "length t1 \<le> max longest (length t)" by auto
    with whole show ?thesis
      by (intro exI [of _ "m # ms1"] exI [of _ ms2] exI [of _ t1]) simp
  next
    case part
    with Cons.prems incomplete_msg_prefix [OF _ part] show ?thesis
      by (intro exI [of _ "[]"] exI [of _ "m # ms"] exI [of _ p]) (simp add: less_imp_le)
  qed
qed

lemma incomplete_stream:
  assumes "incomplete (concat (map msg_bytes ms) @ t)" and "\<forall>m\<in>set ms. wf_msg m"
  shows "ms = []"
proof (cases ms)
  case (Cons m ms')
  with assms have "wf_msg m" "incomplete (msg_bytes m)"
    using incomplete_prefix [of "msg_bytes m"] by simp_all
  with msg_length [of m] msg_bounds [of m] show ?thesis
    by (simp add: incomplete_def sizeof_defs)
qed simp

end

section \<open>The messages of a client\<close>

datatype wire_msg = MLogin IdPacket | MExit IdPacket | MChat ChatPacket | MMove MovePacket

fun msg_bytes :: "wire_msg \<Rightarrow> byte list" where
  "msg_bytes (MLogin p) = id_bytes p"
| "msg_bytes (MExit p) = id_bytes p"
| "msg_bytes (MChat p) = chat_bytes p"
| "msg_bytes (MMove p) = move_bytes p"

text \<open>The packets as the constructors of \<^verbatim>\<open>PacketType.h\<close> leave them.\<close>

fun wf_msg :: "wire_msg \<Rightarrow> bool" where
  "wf_msg (MLogin p) \<longleftrightarrow> mSize p = mSize LoginRequest_new \<and> mType p = mType LoginRequest_new \<and>
     length (mPlayerId p) = MAX_SESSION_LEN"
| "wf_msg (MExit p) \<longleftrightarrow> mSize p = mSize ExitRequest_new \<and> mType p = mType ExitRequest_new \<and>
     length (mPlayerId p) = MAX_SESSION_LEN"
| "wf_msg (MChat p) \<longleftrightarrow> mSize p = mSize ChatBroadcastRequest_new \<and>
     mType p = mType ChatBroadcastRequest_new \<and> length (mPlayerId p) = MAX_SESSION_LEN \<and>
     length (mChat p) = MAX_CHAT_LEN"
| "wf_msg (MMove p) \<longleftrightarrow> mSize p = mSize MoveRequest_new \<and> mType p = mType MoveRequest_new"

abbreviation stream :: "wire_msg list \<Rightarrow> byte list" where
  "stream ms \<equiv> concat (map msg_bytes ms)"

lemma size_of_short_sizes [simp]:
  "size_of_short (mSize LoginRequest_new) = 132" "size_of_short (mSize ExitRequest_new) = 132"
  "size_of_short (mSize ChatBroadcastRequest_new) = 260" "size_of_short (mSize MoveRequest_new) = 16"
  by (simp_all add: size_of_short_def packet_new_defs sizeof_defs)

lemma msg_length: "wf_msg m \<Longrightarrow>
    length (msg_bytes m) = size_of_short (mSize (header_of (msg_bytes m @ t)))"
  by (cases m) (simp_all add: id_bytes_def chat_bytes_def move_bytes_def sizeof_defs)

lemma msg_length_bounds: "wf_msg m \<Longrightarrow> 16 \<le> length (msg_bytes m) \<and> length (msg_bytes m) \<le> 260"
  by (cases m) (simp_all add: id_bytes_def chat_bytes_def sizeof_defs)

interpretation client: framing msg_bytes wf_msg 260
  using msg_length [of _ "[]"] msg_length_bounds by unfold_locales fastforce+

lemmas split_stream = client.split_stream
lemmas incomplete_stream = client.incomplete_stream

section \<open>The messages of a server\<close>

datatype server_msg = SLogin IdPacket | SChat ChatPacket | SMove MovePacket

fun server_bytes :: "server_msg \<Rightarrow> byte list" where
  "server_bytes (SLogin p) = id_bytes p"
| "server_bytes (SChat p) = chat_bytes p"
| "server_bytes (SMove p) = move_bytes p"

text \<open>The packets as the servers build them: sizes and types of the constructors, strings that end.\<close>

fun wf_server :: "server_msg \<Rightarrow> bool" where
  "wf_server (SLogin p) \<longleftrightarrow> mSize p = mSize LoginResult_new \<and> mType p = mType LoginResult_new \<and>
     length (mPlayerId p) = MAX_SESSION_LEN \<and> 0 \<in> set (mPlayerId p)"
| "wf_server (SChat p) \<longleftrightarrow> mSize p = mSize ChatBroadcastResult_new \<and>
     mType p = mType ChatBroadcastResult_new \<and> length (mPlayerId p) = MAX_SESSION_LEN \<and>
     length (mChat p) = MAX_CHAT_LEN \<and> 0 \<in> set (mPlayerId p) \<and> 0 \<in> set (mChat p)"
| "wf_server (SMove p) \<longleftrightarrow> mSize p = mSize MoveBroadcastResult_new \<and> mType p = mType MoveBroadcastResult_new"

lemma size_of_short_results [simp]:
  "size_of_short (mSize LoginResult_new) = 132" "size_of_short (mSize ChatBroadcastResult_new) = 260"
  "size_of_short (mSize MoveBroadcastResult_new) = 16"
  by (simp_all add: size_of_short_def packet_new_defs sizeof_defs)

lemma server_length: "wf_server m \<Longrightarrow>
    length (server_bytes m) = size_of_short (mSize (header_of (server_bytes m @ t)))"
  by (cases m) (simp_all add: id_bytes_def chat_bytes_def move_bytes_def sizeof_defs)

lemma server_bounds: "wf_server m \<Longrightarrow> 16 \<le> length (server_bytes m) \<and> length (server_bytes m) \<le> 260"
  by (cases m) (simp_all add: id_bytes_def chat_bytes_def sizeof_defs)

interpretation served: framing server_bytes wf_server 260
  using server_length [of _ "[]"] server_bounds by unfold_locales fastforce+

end
