(* ===== verification/LinuxProofs.thy ===== *)
theory LinuxProofs
  imports LinuxFrames Framing
begin

text \<open>
  What the Linux server's receive path does with a byte stream: every complete message is taken
  out of the buffer once and handled in order, however the stream was cut into reads; and the
  inputs on which \<^verbatim>\<open>DispatchPacket\<close> and \<^verbatim>\<open>OnReceive\<close> never return.
\<close>

section \<open>A concrete server to apply the theorems to\<close>

text \<open>A world of one socket, whose arrived bytes are the world; every call succeeds.\<close>

definition quiet_env :: "byte list env" where
  "quiet_env =
     \<lparr>sys = (\<lambda>c w. (0, w)), sdk = (\<lambda>c w. (Success, w)),
      sys_read = (\<lambda>fd n w. if w = [] then (ReadAgain, w) else (Got (take n w), drop n w)),
      sys_write = (\<lambda>fd d w. (Sent (length d), w)), epoll_wait = (\<lambda>fd n t w. ([], w)),
      peer_addr = (\<lambda>fd w. ((127, 0, 0, 1), 50000)), now_ms = (\<lambda>w. 0), args_rtl = True\<rparr>"

definition client_with :: "byte list \<Rightarrow> ClientSession" where
  "client_with received = (ClientSession_new 5)\<lparr>mConnected := True,
     mRecvBuffer := snd (result (Write received (CircularBuffer_new BUFSIZE [])))\<rparr>"

definition one_client :: "byte list \<Rightarrow> 'w \<Rightarrow> 'w server" where
  "one_client received w =
     \<lparr>objs = (\<lambda>_. None)(0 := Some (client_with received)), next_obj = 1, mClientList = [(5, 0)],
      mEpollFd = 4, mListenSocket = 3, mActivated = True, mAcceptedCount = 0, mRemovedCount = 0,
      mPlayerSessions = [], mTaskQueue = [], mCurrentTick = 0, mBeginTickPoint = 0,
      GConsoleLog = ConsoleLog_new, world = w\<rparr>"

lemma new_buffer: "cb_inv (CircularBuffer_new BUFSIZE [])" "contents (CircularBuffer_new BUFSIZE []) = []"
    "capacity (CircularBuffer_new BUFSIZE []) = BUFSIZE" "room (CircularBuffer_new BUFSIZE []) = BUFSIZE"
  using CircularBuffer_new_spec [of BUFSIZE "[]"] by (simp_all add: BUFSIZE_def)

lemma one_client_spec:
  assumes "length received \<le> 10240"
  shows "good (one_client received w)" and "objs (one_client received w) 0 = Some (client_with received)"
    and "contents (mRecvBuffer (client_with received)) = received"
    and "capacity (mRecvBuffer (client_with received)) = BUFSIZE"
    and "mConnected (client_with received)" and "mSocket (client_with received) = 5"
    and "world (one_client received w) = w"
proof -
  obtain b where b: "Write received (CircularBuffer_new BUFSIZE []) = Ok (True, b)" "cb_inv b"
      "contents b = received" "capacity b = BUFSIZE"
    using cb.wr_ok [OF new_buffer(1), of received] assms new_buffer by (auto simp: BUFSIZE_def)
  then show "good (one_client received w)" "objs (one_client received w) 0 = Some (client_with received)"
    "contents (mRecvBuffer (client_with received)) = received"
    "capacity (mRecvBuffer (client_with received)) = BUFSIZE"
    "mConnected (client_with received)" "mSocket (client_with received) = 5"
    "world (one_client received w) = w"
    using new_buffer(1) by (auto simp: one_client_def client_with_def good_objs_def ClientSession_new_def)
qed

section \<open>The order of the arguments of \<^verbatim>\<open>read\<close>\<close>

text \<open>
  The order in which \<^verbatim>\<open>GetBuffer()\<close> and \<^verbatim>\<open>GetFreeSpaceSize()\<close> are evaluated does not matter as long
  as no region B is opened: from right to left it never matters, and otherwise not while region A and the \<^verbatim>\<open>m\<close> bytes to
  come end in the front half of the buffer.
\<close>

definition order_free :: "bool \<Rightarrow> cbuf \<Rightarrow> nat \<Rightarrow> bool" where
  "order_free rtl b m \<longleftrightarrow>
     rtl \<or> mBRegionPointer b = None \<and> 2 * (mARegionPointer b + mARegionSize b + m) \<le> capacity b"

lemma order_free_args: "cb_inv b \<Longrightarrow> order_free rtl b m \<Longrightarrow> recv_args rtl b = recv_args True b"
  by (auto simp: order_free_def recv_args_def GetFreeSpaceSize_def free_A GetSpaceBeforeA_def capacity_def)

lemma order_free_stored:
  assumes "cb_inv b" and "order_free rtl b (length d + m)" and "recv_args True b = (dst, n, b1)"
    and "recv_store dst d b1 = Ok b2"
  shows "order_free rtl b2 m"
proof (cases rtl)
  case False
  with assms(1,2) have o: "mBRegionPointer b = None" "\<not> GetAFreeSpace b < GetSpaceBeforeA b"
    "2 * (mARegionPointer b + mARegionSize b + length d + m) \<le> capacity b"
    by (auto simp: order_free_def free_A GetSpaceBeforeA_def capacity_def)
  then have "b1 = b" using assms(3) by (simp add: recv_args_def GetFreeSpaceSize_def)
  with o assms(4) show ?thesis
    by (auto simp: order_free_def recv_store_def Commit_def capacity_def mem_write_def split: if_splits)
qed (simp add: order_free_def)

lemma order_free_read:
  assumes "cb_inv b" and "n \<le> length (contents b)" and "order_free rtl b m"
  shows "order_free rtl (after_read n b) m"
proof (cases rtl)
  case False
  with assms(3) have o: "mBRegionPointer b = None" "2 * (mARegionPointer b + mARegionSize b + m) \<le> capacity b"
    by (simp_all add: order_free_def)
  with assms(1) have s: "mBRegionSize b = 0" by (simp add: cb_inv_def)
  with assms(1,2) have n: "n \<le> mARegionSize b" by (simp add: length_contents)
  have "mem_read (mARegionPointer b) n (mBuffer b) = Ok (slice (mARegionPointer b) n (mBuffer b))"
    using assms(1) n by (simp add: mem_read_def cb_inv_def)
  then have "after_read n b = (if n = mARegionSize b
      then b\<lparr>mBRegionPointer := None, mBRegionSize := 0, mARegionPointer := 0, mARegionSize := 0\<rparr> else take_A n b)"
    using o(1) s n by (auto simp: after_read_def Read_def copy_from_B_def rebase_def take_A_def take_B_def mem_read_def Let_def)
  with o n s show ?thesis by (auto simp: order_free_def take_A_def capacity_def)
qed (simp add: order_free_def)

lemma order_free_empty:
  assumes "cb_inv b" and "contents b = []" and "2 * m \<le> capacity b"
  shows "order_free rtl b m"
proof -
  have "mARegionSize b = 0" using length_contents [OF assms(1)] assms(2) by simp
  with assms(1,3) show ?thesis by (simp add: order_free_def cb_inv_def)
qed

section \<open>The messages of a client and their effect\<close>

fun act :: "'w env \<Rightarrow> nat \<Rightarrow> wire_msg \<Rightarrow> 'w server \<Rightarrow> 'w server outcome" where
  "act e sid (MLogin p) s = bnd (c_str (mPlayerId p)) (\<lambda>i. CS_PlayerLogin e sid i s)"
| "act e sid (MExit p) s = bnd (c_str (mPlayerId p)) (\<lambda>i. CS_PlayerLogout e sid i s)"
| "act e sid (MChat p) s =
     bnd (c_str (mPlayerId p)) (\<lambda>i. bnd (strcpy (mPlayerId ChatBroadcastResult_new) i) (\<lambda>ia.
     bnd (c_str (mChat p)) (\<lambda>t. bnd (strcpy (mChat ChatBroadcastResult_new) t) (\<lambda>ta.
     GLM_BroadcastMessage e
       (chat_bytes (ChatBroadcastResult_new\<lparr>mPlayerId := ia, mChat := ta\<rparr>)) s))))"
| "act e sid (MMove p) s =
     GLM_BroadcastMessage e
       (move_bytes (MoveBroadcastResult_new
          \<lparr>mPlayerIdx := mPlayerIdx p, mPosX := mPosX p, mPosY := mPosY p\<rparr>)) s"

text \<open>A session whose receive buffer has lost its first bytes.\<close>

definition consumed :: "nat \<Rightarrow> nat \<Rightarrow> 'w server \<Rightarrow> 'w server" where
  "consumed n sid s = upd_obj sid (\<lambda>c. c\<lparr>mRecvBuffer := after_read n (mRecvBuffer c)\<rparr>) s"

fun serve :: "'w env \<Rightarrow> nat \<Rightarrow> wire_msg list \<Rightarrow> 'w server \<Rightarrow> 'w server outcome" where
  "serve e sid [] s = Ok s"
| "serve e sid (m # ms) s =
     bnd (act e sid m (consumed (length (msg_bytes m)) sid s)) (serve e sid ms)"

section \<open>One message\<close>

lemma act_safe: "act e sid m s = Ok s' \<Longrightarrow> good s \<Longrightarrow> safe s s'"
  by (cases m) (auto dest: PlayerLogin_safe PlayerLogout_safe BroadcastMessage_safe)

lemma ParsePacket_eq:
  assumes "good s" and "objs s sid = Some c" and "contents (mRecvBuffer c) = xs @ rest"
    and "n = length xs"
  shows "CS_ParsePacket n sid s = Ok (Some xs, consumed n sid s)"
  using assms after_read_spec [OF _ assms(3,4)] goodD [OF assms(1,2)]
  by (simp add: CS_ParsePacket_def with_obj_def consumed_def upd_obj_def)

lemma ParsePacket_short:
  assumes "good s" and "objs s sid = Some c" and "length (contents (mRecvBuffer c)) < n"
  shows "CS_ParsePacket n sid s = Ok (None, s)"
  using assms goodD [OF assms(1,2)]
  by (simp add: CS_ParsePacket_def with_obj_def cb.rd_short upd_obj_def fun_upd_idem)

lemma consumed_obj:
  assumes "good s" and "objs s sid = Some c" and "contents (mRecvBuffer c) = xs @ rest"
    and "n = length xs"
  shows "good (consumed n sid s)"
    and "objs (consumed n sid s) sid = Some (c\<lparr>mRecvBuffer := after_read n (mRecvBuffer c)\<rparr>)"
  using assms after_read_spec(2) [OF _ assms(3,4)] goodD [OF assms(1,2)]
  by (auto simp: consumed_def good_objs_def)

lemma handler_act:
  assumes "good s" and "objs s sid = Some c" and "contents (mRecvBuffer c) = msg_bytes m @ rest"
    and "wf_msg m"
  shows "HandlerTable e (mType (header_of (msg_bytes m))) sid s =
    act e sid m (consumed (length (msg_bytes m)) sid s)"
proof -
  note pp = ParsePacket_eq [OF assms(1-3) refl]
  show ?thesis
  proof (cases m)
    case (MLogin p)
    with pp assms(4) id_of_bytes [of p "[]"] header_of_bytes [of p] show ?thesis
      by (simp add: HandlerTable_def Handler_PKT_CS_LOGIN_def sizeof_defs packet_new_defs id_bytes_def)
  next
    case (MExit p)
    with pp assms(4) id_of_bytes [of p "[]"] header_of_bytes [of p] show ?thesis
      by (simp add: HandlerTable_def Handler_PKT_CS_EXIT_def sizeof_defs packet_new_defs id_bytes_def)
  next
    case (MChat p)
    with pp assms(4) chat_of_bytes [of p "[]"] header_of_bytes [of p] show ?thesis
      by (simp add: HandlerTable_def Handler_PKT_CS_CHAT_def sizeof_defs packet_new_defs chat_bytes_def)
  next
    case (MMove p)
    with pp assms(4) move_of_bytes [of p "[]"] header_of_bytes [of p] show ?thesis
      by (simp add: HandlerTable_def Handler_PKT_CS_MOVE_def sizeof_defs packet_new_defs move_bytes_def)
  qed
qed

section \<open>Dispatching\<close>

lemma dispatch_incomplete:
  assumes "good s" and "objs s sid = Some c" and "incomplete (contents (mRecvBuffer c))"
  shows "CS_DispatchPacket e sid s = Some (Ok s)"
  using assms goodD [OF assms(1,2)]
  by (subst CS_DispatchPacket.simps)
    (auto simp: cb.pk_eq GetStoredSize_eq incomplete_def header_of_take sizeof_defs Let_def)

lemma dispatch_message:
  assumes "good s" and "objs s sid = Some c" and "contents (mRecvBuffer c) = msg_bytes m @ rest"
    and "wf_msg m"
  shows "CS_DispatchPacket e sid s =
    (case act e sid m (consumed (length (msg_bytes m)) sid s) of
       Fault f \<Rightarrow> Some (Fault f) | Ok s' \<Rightarrow> CS_DispatchPacket e sid s')"
proof -
  note b = msg_length_bounds [OF assms(4)]
  have h: "header_of (take 4 (msg_bytes m @ rest)) = header_of (msg_bytes m)"
    using b by (simp add: header_of_take)
  have "mType (header_of (msg_bytes m)) \<in> {1, 11, 21, 31}"
    using assms(4) by (cases m) (auto simp: id_bytes_def chat_bytes_def move_bytes_def packet_new_defs
        header_of_bytes [of _ "[]", simplified])
  then have ty: "sint (mType (header_of (msg_bytes m))) < 1024" "0 < sint (mType (header_of (msg_bytes m)))"
    by auto
  show ?thesis
    using assms(1-3) goodD [OF assms(1,2)] b h ty msg_length [OF assms(4), of "[]"]
      handler_act [OF assms, of e]
    by (subst CS_DispatchPacket.simps)
      (simp add: cb.pk_eq GetStoredSize_eq sizeof_defs Let_def)
qed

lemma dispatch_serves:
  assumes "good s" and "objs s sid = Some c" and "\<forall>m\<in>set ms. wf_msg m" and "incomplete t"
    and "contents (mRecvBuffer c) = stream ms @ t"
  shows "CS_DispatchPacket e sid s = Some (serve e sid ms s) \<and>
    (\<forall>s'. serve e sid ms s = Ok s' \<longrightarrow> good s' \<and>
       (\<exists>c'. objs s' sid = Some c' \<and> contents (mRecvBuffer c') = t \<and> mSocket c' = mSocket c \<and>
          capacity (mRecvBuffer c') = capacity (mRecvBuffer c) \<and>
          (order_free rtl (mRecvBuffer c) m \<longrightarrow> order_free rtl (mRecvBuffer c') m)))"
  using assms
proof (induction ms arbitrary: s c)
  case Nil
  then show ?case by (simp add: dispatch_incomplete)
next
  case (Cons msg ms)
  have m: "contents (mRecvBuffer c) = msg_bytes msg @ (stream ms @ t)" "wf_msg msg"
    using Cons.prems by simp_all
  note dm = dispatch_message [OF Cons.prems(1,2) m]
  note co = consumed_obj [OF Cons.prems(1,2) m(1) refl]
  note rd = after_read_spec [OF goodD [OF Cons.prems(1,2), THEN conjunct2] m(1) refl]
    order_free_read [OF goodD [OF Cons.prems(1,2), THEN conjunct2], of "length (msg_bytes msg)"]
  show ?case
  proof (cases "act e sid msg (consumed (length (msg_bytes msg)) sid s)")
    case (Fault f)
    with dm show ?thesis by simp
  next
    case (Ok s1)
    note sf = act_safe [OF Ok co(1)]
    from frames_objD [OF sf co(2)] obtain c1 where c1: "objs s1 sid = Some c1"
        "mRecvBuffer c1 = after_read (length (msg_bytes msg)) (mRecvBuffer c)" "mSocket c1 = mSocket c"
      by auto
    from Cons.IH [OF frames_good [OF sf co(1)] c1(1)] Cons.prems(3,4) c1 rd m(1) dm Ok show ?thesis
      by auto
  qed
qed


section \<open>A whole \<^verbatim>\<open>OnReceive\<close>\<close>

text \<open>
  The contract of a non-blocking stream socket: the bytes that have arrived are read in order, at
  least one at a time and never more than asked for; when none are left, \<^verbatim>\<open>read\<close> says
  \<^verbatim>\<open>EAGAIN\<close>; no other call takes any of them.
\<close>

definition stream_socket :: "'w env \<Rightarrow> ('w \<Rightarrow> int \<Rightarrow> byte list) \<Rightarrow> bool" where
  "stream_socket e arrived \<longleftrightarrow>
     (\<forall>fd n w. 0 < n \<longrightarrow> (case sys_read e fd n w of (r, w') \<Rightarrow>
        if arrived w fd = [] then r = ReadAgain \<and> arrived w' fd = []
        else \<exists>d. r = Got d \<and> d \<noteq> [] \<and> length d \<le> n \<and> arrived w fd = d @ arrived w' fd)) \<and>
     (\<forall>w w'. world_call e w w' \<longrightarrow> arrived w' = arrived w)"

lemma stream_socketD:
  assumes "stream_socket e arrived" and "0 < n" and "sys_read e fd n w = (r, w')"
  shows "if arrived w fd = [] then r = ReadAgain \<and> arrived w' fd = []
    else \<exists>d. r = Got d \<and> d \<noteq> [] \<and> length d \<le> n \<and> arrived w fd = d @ arrived w' fd"
  using assms(1) [unfolded stream_socket_def, THEN conjunct1, THEN spec [of _ fd], THEN spec [of _ n],
      THEN spec [of _ w], THEN mp, OF assms(2)]
  by (simp only: assms(3) prod.case)

text \<open>
  The handling of a sequence of messages, with reads (which change the world and the receive
  buffer only) before, between and after them.
\<close>

definition took_in :: "nat \<Rightarrow> 'w server \<Rightarrow> 'w server \<Rightarrow> bool" where
  "took_in sid s s' \<longleftrightarrow> (\<exists>w b. s' = upd_obj sid (\<lambda>c. c\<lparr>mRecvBuffer := b\<rparr>) (s\<lparr>world := w\<rparr>))"

inductive handled :: "'w env \<Rightarrow> nat \<Rightarrow> wire_msg list \<Rightarrow> 'w server \<Rightarrow> 'w server outcome \<Rightarrow> bool"
  for e :: "'w env" and sid :: nat where
  handled_done: "handled e sid [] s (Ok s)"
| handled_read: "took_in sid s s1 \<Longrightarrow> handled e sid ms s1 r \<Longrightarrow> handled e sid ms s r"
| handled_msg: "act e sid m (consumed (length (msg_bytes m)) sid s) = Ok s1 \<Longrightarrow>
    handled e sid ms s1 r \<Longrightarrow> handled e sid (m # ms) s r"
| handled_fault: "act e sid m (consumed (length (msg_bytes m)) sid s) = Fault f \<Longrightarrow>
    handled e sid (m # ms) s (Fault f)"

lemma handled_serve:
  "(\<And>s'. serve e sid ms1 s = Ok s' \<Longrightarrow> handled e sid ms2 s' r) \<Longrightarrow>
   (\<And>f. serve e sid ms1 s = Fault f \<Longrightarrow> r = Fault f) \<Longrightarrow> handled e sid (ms1 @ ms2) s r"
proof (induction ms1 arbitrary: s)
  case (Cons m ms1)
  show ?case
  proof (cases "act e sid m (consumed (length (msg_bytes m)) sid s)")
    case (Ok s1)
    with Cons have "handled e sid (ms1 @ ms2) s1 r" by simp
    with Ok show ?thesis by (simp add: handled_msg)
  next
    case (Fault f)
    with Cons.prems(2) show ?thesis by (simp add: handled_fault)
  qed
qed simp

lemma act_moved: "act e sid m s = Ok s' \<Longrightarrow> moved e s s'"
  by (cases m) (auto simp: GLM_BroadcastMessage_def
      dest: PlayerLogin_moved PlayerLogout_moved Broadcast_moved)

lemma serve_moved: "serve e sid ms s = Ok s' \<Longrightarrow> moved e s s'"
proof (induction ms arbitrary: s)
  case (Cons m ms)
  then obtain s1 where s1: "act e sid m (consumed (length (msg_bytes m)) sid s) = Ok s1"
      "serve e sid ms s1 = Ok s'" by auto
  from act_moved [OF s1(1)] Cons.IH [OF s1(2)] show ?case
    by (auto simp: consumed_def)
qed simp

lemma moved_arrived: "stream_socket e arrived \<Longrightarrow> moved e s s' \<Longrightarrow> arrived (world s') = arrived (world s)"
  by (rotate_tac 1, induction rule: rtranclp_induct) (auto simp: stream_socket_def)

lemma recv_store_spec:
  assumes "cb_inv b" and "length d \<le> room b" and "recv_args True b = (dst, n, b1)"
  shows "n = room b" and "\<exists>b2. recv_store dst d b1 = Ok b2 \<and> cb_inv b2 \<and>
    contents b2 = contents b @ d \<and> capacity b2 = capacity b"
    and "cb_inv b1" and "contents b1 = contents b" and "capacity b1 = capacity b"
  using recv_spec [OF assms(1,2)] GetFreeSpaceSize_spec [OF assms(1)] assms(3)
  by (auto simp: recv_args_def recv_store_def recv_into_def case_prod_beta)


lemma OnReceive_again:
  assumes "objs s sid = Some c" and "recv_args (args_rtl e) (mRecvBuffer c) = (dst, n, b)"
    and "sys_read e (mSocket c) n (world s) = (ReadAgain, w)"
  shows "CS_OnReceive_loop e sid s =
    Some (Ok (upd_obj sid (\<lambda>c. c\<lparr>mRecvBuffer := b\<rparr>) (s\<lparr>world := w\<rparr>)))"
  using assms by (subst CS_OnReceive_loop.simps) (simp add: Let_def)

lemma recv_buffer_twice:
  "upd_obj sid (\<lambda>c. c\<lparr>mRecvBuffer := b'\<rparr>) (upd_obj sid (\<lambda>c. c\<lparr>mRecvBuffer := b\<rparr>) s) =
   upd_obj sid (\<lambda>c. c\<lparr>mRecvBuffer := b'\<rparr>) s"
  by (cases "objs s sid") (simp_all add: upd_obj_def)

lemma OnReceive_got:
  assumes "objs s sid = Some c" and "recv_args (args_rtl e) (mRecvBuffer c) = (dst, n, b)"
    and "sys_read e (mSocket c) n (world s) = (Got d, w)" and "recv_store dst d b = Ok b'"
  shows "CS_OnReceive_loop e sid s =
    Option.bind (CS_DispatchPacket e sid (upd_obj sid (\<lambda>c. c\<lparr>mRecvBuffer := b'\<rparr>) (s\<lparr>world := w\<rparr>)))
      (\<lambda>res. case res of Fault f \<Rightarrow> Some (Fault f) | Ok s2 \<Rightarrow> CS_OnReceive_loop e sid s2)"
  using assms by (subst CS_OnReceive_loop.simps) (simp add: Let_def recv_buffer_twice)

text \<open>A session in the middle of a stream: what is buffered is the beginning of a message, and with what has
  arrived at the socket it makes the messages \<^verbatim>\<open>ms\<close> and the beginning \<^verbatim>\<open>t\<close> of another one.\<close>

definition receiving ::
  "bool \<Rightarrow> ('w \<Rightarrow> int \<Rightarrow> byte list) \<Rightarrow> byte list \<Rightarrow> wire_msg list \<Rightarrow> nat \<Rightarrow> 'w server \<Rightarrow> ClientSession \<Rightarrow> bool" where
  "receiving rtl arrived t ms sid s c \<longleftrightarrow>
     order_free rtl (mRecvBuffer c) (length (arrived (world s) (mSocket c))) \<and>
     good s \<and> objs s sid = Some c \<and> capacity (mRecvBuffer c) = BUFSIZE \<and>
     2 * length (contents (mRecvBuffer c)) < BUFSIZE \<and> incomplete (contents (mRecvBuffer c)) \<and>
     contents (mRecvBuffer c) @ arrived (world s) (mSocket c) = stream ms @ t \<and> (\<forall>m\<in>set ms. wf_msg m)"

lemma receive_offer:
  assumes "stream_socket e arrived" and "receiving (args_rtl e) arrived t ms sid s c"
  obtains dst n b1 r w1 where "recv_args (args_rtl e) (mRecvBuffer c) = (dst, n, b1)"
    and "recv_args True (mRecvBuffer c) = (dst, n, b1)" and "0 < n" and "n = room (mRecvBuffer c)"
    and "sys_read e (mSocket c) n (world s) = (r, w1)" and "contents b1 = contents (mRecvBuffer c)"
proof -
  have c: "cb_inv (mRecvBuffer c)" "capacity (mRecvBuffer c) = BUFSIZE"
      "2 * length (contents (mRecvBuffer c)) < BUFSIZE"
    using assms(2) by (auto simp: receiving_def dest: goodD)
  have eq: "recv_args (args_rtl e) (mRecvBuffer c) = recv_args True (mRecvBuffer c)"
    using order_free_args [OF c(1)] assms(2) unfolding receiving_def by blast
  obtain dst n b1 where args: "recv_args True (mRecvBuffer c) = (dst, n, b1)"
    by (cases "recv_args True (mRecvBuffer c)") auto
  note a0 = recv_store_spec [OF c(1) _ args, of "[]", simplified]
  have "0 < n" using cb.space_half [OF c(1)] c(2,3) a0(1) by auto
  then show ?thesis
    using that [of dst n b1 "fst (sys_read e (mSocket c) n (world s))" "snd (sys_read e (mSocket c) n (world s))"]
      args a0 eq by simp
qed

lemma receive_nothing:
  assumes "stream_socket e arrived" and "receiving (args_rtl e) arrived t ms sid s c" and "incomplete t"
    and "arrived (world s) (mSocket c) = []"
  shows "\<exists>s1 c1. CS_OnReceive_loop e sid s = Some (Ok s1) \<and> took_in sid s s1 \<and> ms = [] \<and>
    objs s1 sid = Some c1 \<and> contents (mRecvBuffer c1) = t \<and> arrived (world s1) (mSocket c1) = []"
proof -
  obtain dst n b1 r w1 where o: "recv_args (args_rtl e) (mRecvBuffer c) = (dst, n, b1)" "0 < n"
      "sys_read e (mSocket c) n (world s) = (r, w1)" "contents b1 = contents (mRecvBuffer c)"
    using receive_offer [OF assms(1,2)] by metis
  note rc = assms(2) [unfolded receiving_def]
  have w: "r = ReadAgain \<and> arrived w1 (mSocket c) = []"
    using stream_socketD [OF assms(1) o(2,3)] assms(4) by auto
  let ?s1 = "upd_obj sid (\<lambda>c. c\<lparr>mRecvBuffer := b1\<rparr>) (s\<lparr>world := w1\<rparr>)"
  have "CS_OnReceive_loop e sid s = Some (Ok ?s1)"
    using OnReceive_again [of s sid c e, OF _ o(1)] o(3) w rc by simp
  moreover have "took_in sid s ?s1" by (auto simp: took_in_def)
  moreover have "contents (mRecvBuffer c) = t \<and> ms = []"
    using rc assms(4) incomplete_stream [of ms t] by auto
  ultimately show ?thesis using w o(4) rc by auto
qed

lemma receive_round:
  assumes net: "stream_socket e arrived" and rc: "receiving (args_rtl e) arrived t ms sid s c"
    and t: "incomplete t" "2 * length t < BUFSIZE" and ne: "arrived (world s) (mSocket c) \<noteq> []"
  shows "\<exists>s2 ms1 ms2. took_in sid s s2 \<and> ms = ms1 @ ms2 \<and>
    CS_OnReceive_loop e sid s = (case serve e sid ms1 s2 of
       Fault f \<Rightarrow> Some (Fault f) | Ok s3 \<Rightarrow> CS_OnReceive_loop e sid s3) \<and>
    (\<forall>s3. serve e sid ms1 s2 = Ok s3 \<longrightarrow> (\<exists>c3. receiving (args_rtl e) arrived t ms2 sid s3 c3 \<and>
       length (arrived (world s3) (mSocket c3)) < length (arrived (world s) (mSocket c))))"
proof -
  obtain dst n b1 r w1 where o: "recv_args (args_rtl e) (mRecvBuffer c) = (dst, n, b1)"
      "recv_args True (mRecvBuffer c) = (dst, n, b1)" "0 < n" "n = room (mRecvBuffer c)"
      "sys_read e (mSocket c) n (world s) = (r, w1)"
    using receive_offer [OF net rc] by metis
  note rc' = rc [unfolded receiving_def]
  have inv: "cb_inv (mRecvBuffer c)" using rc' by (auto dest: goodD)
  obtain d where d: "r = Got d" "d \<noteq> []" "length d \<le> n"
      "arrived (world s) (mSocket c) = d @ arrived w1 (mSocket c)"
    using stream_socketD [OF net o(3,5)] ne by auto
  obtain b2 where b2: "recv_store dst d b1 = Ok b2" "cb_inv b2"
      "contents b2 = contents (mRecvBuffer c) @ d" "capacity b2 = BUFSIZE"
    using recv_store_spec(2) [OF inv _ o(2)] d(3) o(4) rc' by metis
  have of: "order_free (args_rtl e) b2 (length (arrived w1 (mSocket c)))"
    using order_free_stored [OF inv _ o(2) b2(1)] rc' d(4) by simp
  define s2 where "s2 = upd_obj sid (\<lambda>c. c\<lparr>mRecvBuffer := b2\<rparr>) (s\<lparr>world := w1\<rparr>)"
  have o2: "objs s2 sid = Some (c\<lparr>mRecvBuffer := b2\<rparr>)" "good s2" "world s2 = w1" "took_in sid s s2"
    using rc' b2(2) by (auto simp: s2_def good_objs_def took_in_def)
  have "contents b2 @ arrived w1 (mSocket c) = stream ms @ t" using rc' d(4) b2(3) by simp
  from split_stream [OF this _ t(1)] rc' obtain ms1 ms2 t1 where
    sp: "ms = ms1 @ ms2" "contents b2 = stream ms1 @ t1" "incomplete t1"
      "t1 @ arrived w1 (mSocket c) = stream ms2 @ t" "length t1 \<le> max 260 (length t)" by blast
  have small: "2 * length t1 < BUFSIZE"
    using sp(5) t(2) by (simp add: BUFSIZE_def max_def split: if_splits)
  have wf: "\<forall>m\<in>set ms1. wf_msg m" "\<forall>m\<in>set ms2. wf_msg m" using rc' sp(1) by simp_all
  note ds = dispatch_serves [OF o2(2,1) wf(1) sp(3), of e "args_rtl e" "length (arrived w1 (mSocket c))", simplified,
      OF sp(2), unfolded b2(4)]
  have "CS_OnReceive_loop e sid s = (case serve e sid ms1 s2 of
      Fault f \<Rightarrow> Some (Fault f) | Ok s3 \<Rightarrow> CS_OnReceive_loop e sid s3)"
    using OnReceive_got [of s sid c e, OF _ o(1) o(5) [unfolded d(1)] b2(1), folded s2_def] ds rc' by simp
  moreover have "\<exists>c3. receiving (args_rtl e) arrived t ms2 sid s3 c3 \<and>
      length (arrived (world s3) (mSocket c3)) < length (arrived (world s) (mSocket c))"
    if s3: "serve e sid ms1 s2 = Ok s3" for s3
  proof -
    have "arrived (world s3) = arrived w1"
      using moved_arrived [OF net serve_moved [OF s3]] o2(3) by simp
    then show ?thesis using ds s3 d(2,4) sp(3,4) wf(2) small of by (fastforce simp: receiving_def)
  qed
  ultimately show ?thesis using o2(4) sp(1) by blast
qed

lemma receive_stream:
  assumes net: "stream_socket e arrived"
    and "receiving (args_rtl e) arrived t ms sid s c" and t: "incomplete t" "2 * length t < BUFSIZE"
  shows "\<exists>r. CS_OnReceive_loop e sid s = Some r \<and> handled e sid ms s r \<and>
    (\<forall>s'. r = Ok s' \<longrightarrow> (\<exists>c'. objs s' sid = Some c' \<and> contents (mRecvBuffer c') = t \<and>
       arrived (world s') (mSocket c') = []))"
  using assms(2)
proof (induction "length (arrived (world s) (mSocket c))" arbitrary: s c ms rule: less_induct)
  case less
  show ?case
  proof (cases "arrived (world s) (mSocket c) = []")
    case True
    from receive_nothing [OF net less.prems t(1) this] show ?thesis
      using handled_read [OF _ handled_done] by blast
  next
    case False
    from receive_round [OF net less.prems t this] obtain s2 ms1 ms2 where
      rd: "took_in sid s s2" "ms = ms1 @ ms2"
        "CS_OnReceive_loop e sid s = (case serve e sid ms1 s2 of
           Fault f \<Rightarrow> Some (Fault f) | Ok s3 \<Rightarrow> CS_OnReceive_loop e sid s3)"
      and next_round: "\<And>s3. serve e sid ms1 s2 = Ok s3 \<Longrightarrow> \<exists>c3. receiving (args_rtl e) arrived t ms2 sid s3 c3 \<and>
        length (arrived (world s3) (mSocket c3)) < length (arrived (world s) (mSocket c))"
      by blast
    note h = handled_read [OF rd(1) handled_serve, of e ms1 ms2, folded rd(2)]
    show ?thesis
    proof (cases "serve e sid ms1 s2")
      case (Fault f)
      have "handled e sid ms s (Fault f)" by (rule h) (simp_all add: Fault)
      then show ?thesis using rd(3) by (simp add: Fault)
    next
      case (Ok s3)
      from next_round [OF this] less.hyps obtain r where r: "CS_OnReceive_loop e sid s3 = Some r"
          "handled e sid ms2 s3 r"
          "\<forall>s'. r = Ok s' \<longrightarrow> (\<exists>c'. objs s' sid = Some c' \<and> contents (mRecvBuffer c') = t \<and>
             arrived (world s') (mSocket c') = [])" by blast
      have "handled e sid ms s r" by (rule h) (simp_all add: Ok r(2))
      moreover have "CS_OnReceive_loop e sid s = Some r" using rd(3) by (simp add: Ok r(1))
      ultimately show ?thesis using r(3) by blast
    qed
  qed
qed

section \<open>Inputs on which the server does not return\<close>

text \<open>
  A dispatch that leaves the buffer as it was runs again on the same header; the only way out is
  a fault.
\<close>

lemma dispatch_no_progress:
  assumes "CS_DispatchPacket e sid s = Some r" and "P s"
    and stuck: "\<And>s. P s \<Longrightarrow> \<exists>c. objs s sid = Some c \<and>
      Peek sizeof_PacketHeader (mRecvBuffer c) = Ok (Some hb) \<and>
      size_of_short (mSize (header_of hb)) \<le> GetStoredSize (mRecvBuffer c)"
    and ty: "sint (mType (header_of hb)) < 1024" "0 < sint (mType (header_of hb))"
    and keeps: "\<And>s s'. P s \<Longrightarrow> HandlerTable e (mType (header_of hb)) sid s = Ok s' \<Longrightarrow> P s'"
  shows "\<exists>f s'. r = Fault f \<and> P s' \<and> HandlerTable e (mType (header_of hb)) sid s' = Fault f"
proof -
  let ?Q = "\<lambda>e' sid' s r. e' = e \<and> sid' = sid \<and> P s \<longrightarrow>
    (\<exists>f s'. r = Fault f \<and> P s' \<and> HandlerTable e (mType (header_of hb)) sid s' = Fault f)"
  have "?Q e sid s r"
  proof (rule CS_DispatchPacket.raw_induct [where P = ?Q, OF _ assms(1)])
    fix D e' sid' s and r :: "'a server outcome"
    assume IH: "\<And>e s b y. D e s b = Some y \<Longrightarrow> ?Q e s b y"
      and eq: "(case objs s sid' of None \<Rightarrow> Some (Fault DanglingRef)
      | Some c \<Rightarrow>
          (case Peek sizeof_PacketHeader (mRecvBuffer c) of
             Fault f \<Rightarrow> Some (Fault f)
           | Ok None \<Rightarrow> Some (Ok s)
           | Ok (Some hb) \<Rightarrow>
               (let header = header_of hb
                in if GetStoredSize (mRecvBuffer c) < size_of_short (mSize header) then Some (Ok s)
                   else if sint (pkt_value PKT_MAX) \<le> sint (mType header) \<or>
                           sint (mType header) \<le> sint (pkt_value PKT_NONE)
                   then Some (bnd (print_out (lit ''Invalid packet type\<newline>'') s) (CS_Disconnect e' sid'))
                   else (case HandlerTable e' (mType header) sid' s of
                           Fault f \<Rightarrow> Some (Fault f)
                         | Ok s' \<Rightarrow> D e' sid' s')))) = Some r"
    show "?Q e' sid' s r"
    proof
      assume "e' = e \<and> sid' = sid \<and> P s"
      then have a: "e' = e" "sid' = sid" "P s" by simp_all
      then obtain c where "objs s sid = Some c" "Peek sizeof_PacketHeader (mRecvBuffer c) = Ok (Some hb)"
          "size_of_short (mSize (header_of hb)) \<le> GetStoredSize (mRecvBuffer c)"
        using stuck by blast
      with eq [unfolded a(1,2)] ty have "(case HandlerTable e (mType (header_of hb)) sid s of
          Fault f \<Rightarrow> Some (Fault f) | Ok s' \<Rightarrow> D e sid s') = Some r"
        by (simp add: Let_def)
      with a IH [of e sid] keeps [of s] show "\<exists>f s'. r = Fault f \<and> P s' \<and>
          HandlerTable e (mType (header_of hb)) sid s' = Fault f"
        by (cases "HandlerTable e (mType (header_of hb)) sid s") auto
    qed
  qed
  with assms(2) show ?thesis by simp
qed

lemma default_keeps: "DefaultHandler e sid s = Ok s' \<Longrightarrow> safe s s'"
  by (auto simp: DefaultHandler_def dest!: print_out_safe Disconnect_safe intro: frames_trans)

lemma default_disconnected: "objs s sid = Some c \<Longrightarrow> \<not> mConnected c \<Longrightarrow>
    \<exists>l. DefaultHandler e sid s = Ok (s\<lparr>GConsoleLog := l\<rparr>)"
  by (auto simp: DefaultHandler_def print_out_def PrintOut_def LOG_BUF_def CS_Disconnect_def with_obj_def)

text \<open>C2. Framing: a buffer that holds complete messages and an incomplete rest is taken apart
  into exactly these messages. \<^verbatim>\<open>DispatchPacket\<close> returns, with the result of handling each
  message once and in order, and, when no handler faults, with the rest left in the buffer.\<close>

theorem DispatchPacket_serves_messages:
  assumes "good s" and "objs s sid = Some c" and "\<forall>m\<in>set ms. wf_msg m" and "incomplete t"
    and "contents (mRecvBuffer c) = stream ms @ t"
  shows "CS_DispatchPacket e sid s = Some (serve e sid ms s) \<and>
    (\<forall>s'. serve e sid ms s = Ok s' \<longrightarrow> good s' \<and>
       (\<exists>c'. objs s' sid = Some c' \<and> contents (mRecvBuffer c') = t))"
  using dispatch_serves [OF assms] by blast

text \<open>C1. Reassembly: whatever the cuts the network makes, \<^verbatim>\<open>OnReceive\<close> on a connected
  session returns after the arrived bytes are used up, and has handled exactly the messages the
  byte stream is made of, each once and in order; an unfinished message stays in the buffer. The order in which the
  compiler evaluates the arguments of \<^verbatim>\<open>read\<close>, which C++ leaves open, must be right to left, or else what is buffered
  and what arrives must end in the front half of the 10240-byte buffer, so that no region B is opened between the two;
  otherwise the call can overrun the buffer.\<close>

theorem OnReceive_reassembles:
  assumes "stream_socket e arrived" and "order_free (args_rtl e) (mRecvBuffer c) (length (arrived (world s) (mSocket c)))"
    and "good s" and "objs s sid = Some c" and "mConnected c" and "capacity (mRecvBuffer c) = BUFSIZE"
    and "incomplete (contents (mRecvBuffer c))" and "2 * length (contents (mRecvBuffer c)) < BUFSIZE"
    and "contents (mRecvBuffer c) @ arrived (world s) (mSocket c) = stream ms @ t"
    and "\<forall>m\<in>set ms. wf_msg m" and "incomplete t" and "2 * length t < BUFSIZE"
  shows "\<exists>r. CS_OnReceive e sid s = Some r \<and> handled e sid ms s r \<and>
    (\<forall>s'. r = Ok s' \<longrightarrow> (\<exists>c'. objs s' sid = Some c' \<and> contents (mRecvBuffer c') = t \<and>
       arrived (world s') (mSocket c') = []))"
  using receive_stream [OF assms(1) _ assms(11,12), of ms sid s c] assms(2-10) by (simp add: CS_OnReceive_def receiving_def)

text \<open>C35. An unregistered packet type between \<^verbatim>\<open>PKT_NONE\<close> and
  \<^verbatim>\<open>PKT_MAX\<close> stops the server: \<^verbatim>\<open>DefaultHandler\<close> does not consume the
  packet, so \<^verbatim>\<open>DispatchPacket\<close> never returns normally, and does not return at all when the
  session is already disconnected.\<close>

theorem DispatchPacket_unregistered_type:
  assumes "good s" and "objs s sid = Some c" and "contents (mRecvBuffer c) = hb @ rest"
    and "length hb = 4" and "size_of_short (mSize (header_of hb)) \<le> length (hb @ rest)"
    and "0 < sint (mType (header_of hb))" and "sint (mType (header_of hb)) < 1024"
    and "mType (header_of hb) \<notin> pkt_value ` {PKT_CS_LOGIN, PKT_CS_EXIT, PKT_CS_CHAT, PKT_CS_MOVE}"
  shows "(\<forall>s'. CS_DispatchPacket e sid s \<noteq> Some (Ok s')) \<and>
    (\<not> mConnected c \<longrightarrow> CS_DispatchPacket e sid s = None)"
proof -
  let ?b = "mRecvBuffer c"
  note inv = goodD [OF assms(1,2), THEN conjunct2]
  have header: "Peek sizeof_PacketHeader ?b = Ok (Some hb)"
      "size_of_short (mSize (header_of hb)) \<le> GetStoredSize ?b"
    using inv assms(3,4,5) by (simp_all add: cb.pk_eq GetStoredSize_eq sizeof_defs)
  have tbl: "HandlerTable e (mType (header_of hb)) = DefaultHandler e"
    using assms(8) by (auto simp: HandlerTable_def)
  let ?P = "\<lambda>s. \<exists>c'. objs s sid = Some c' \<and> mRecvBuffer c' = ?b"
  let ?D = "\<lambda>s. \<exists>c'. objs s sid = Some c' \<and> mRecvBuffer c' = ?b \<and> \<not> mConnected c'"
  have "\<exists>f. r = Fault f" if r: "CS_DispatchPacket e sid s = Some r" for r
  proof -
    have keep: "?P s'" if "?P s" "DefaultHandler e sid s = Ok s'" for s s'
      using that by (auto dest!: default_keeps dest: frames_objD)
    have "\<exists>f s'. r = Fault f \<and> ?P s' \<and> HandlerTable e (mType (header_of hb)) sid s' = Fault f"
      by (rule dispatch_no_progress [where P = ?P, OF r _ _ assms(7,6)])
        (use assms(2) header keep in \<open>auto simp: tbl\<close>)
    then show ?thesis by blast
  qed
  moreover have False if d: "\<not> mConnected c" and r: "CS_DispatchPacket e sid s = Some r" for r
  proof -
    have ok: "\<exists>l. DefaultHandler e sid s = Ok (s\<lparr>GConsoleLog := l\<rparr>)" if "?D s" for s
      using that by (auto dest: default_disconnected)
    then have ok2: "?D s \<Longrightarrow> DefaultHandler e sid s = Ok s' \<Longrightarrow> ?D s'" for s s' by fastforce
    have "\<exists>f s'. r = Fault f \<and> ?D s' \<and> HandlerTable e (mType (header_of hb)) sid s' = Fault f"
      by (rule dispatch_no_progress [where P = ?D, OF r _ _ assms(7,6)])
        (use assms(2) d header ok2 in \<open>auto simp: tbl\<close>)
    with ok show ?thesis unfolding tbl by (metis outcome.distinct(1))
  qed
  ultimately show ?thesis by (cases "CS_DispatchPacket e sid s") auto
qed

text \<open>The size of the struct a registered handler reads.\<close>

definition struct_size :: "16 word \<Rightarrow> nat" where
  "struct_size t =
     (if t = pkt_value PKT_CS_LOGIN \<or> t = pkt_value PKT_CS_EXIT then sizeof_IdPacket
      else if t = pkt_value PKT_CS_CHAT then sizeof_ChatPacket
      else if t = pkt_value PKT_CS_MOVE then sizeof_MovePacket else 0)"

lemma fmt_short: "\<bar>i\<bar> < 100 \<Longrightarrow> length (fmt_d i) \<le> 3"
  using length_decimal [of "nat i" 2] length_decimal [of "nat (- i)" 2]
  by (auto simp: fmt_d_def nat_less_iff)

lemma handler_short:
  assumes "good s" and "objs s sid = Some c" and "length (contents (mRecvBuffer c)) < struct_size t"
  shows "\<exists>l. HandlerTable e t sid s = Ok (s\<lparr>GConsoleLog := l\<rparr>)"
proof -
  note short = ParsePacket_short [OF assms(1,2)]
  have log: "length x + length y + length (fmt_d i) < 120 \<Longrightarrow>
      \<exists>l. print_out (x @ fmt_d i @ y) s = Ok (s\<lparr>GConsoleLog := l\<rparr>)" for x y i
    by (rule print_out_fits) simp
  have "struct_size t \<noteq> 0" using assms(3) by simp
  then consider "t = pkt_value PKT_CS_LOGIN" | "t = pkt_value PKT_CS_EXIT" | "t = pkt_value PKT_CS_CHAT"
    | "t = pkt_value PKT_CS_MOVE" by (auto simp: struct_size_def split: if_splits)
  then show ?thesis
    by cases (use assms(3) short log fmt_short [of 1] fmt_short [of 31] fmt_short [of 11]
        fmt_short [of 21] in \<open>auto simp: HandlerTable_def struct_size_def Handler_PKT_CS_LOGIN_def
          Handler_PKT_CS_EXIT_def Handler_PKT_CS_CHAT_def Handler_PKT_CS_MOVE_def\<close>)
qed

text \<open>A registered type whose header names fewer bytes than its struct has stops the server
  as soon as the buffer holds the named bytes but not the struct: \<^verbatim>\<open>ParsePacket\<close> fails,
  nothing is consumed, and \<^verbatim>\<open>DispatchPacket\<close> does not return.\<close>

theorem DispatchPacket_short_struct:
  assumes "good s" and "objs s sid = Some c" and "contents (mRecvBuffer c) = hb @ rest"
    and "length hb = 4" and "size_of_short (mSize (header_of hb)) \<le> length (hb @ rest)"
    and "length (hb @ rest) < struct_size (mType (header_of hb))"
  shows "CS_DispatchPacket e sid s = None"
proof -
  let ?b = "mRecvBuffer c" and ?t = "mType (header_of hb)"
  let ?P = "\<lambda>s. good s \<and> (\<exists>c'. objs s sid = Some c' \<and> mRecvBuffer c' = ?b)"
  note inv = goodD [OF assms(1,2), THEN conjunct2]
  have header: "Peek sizeof_PacketHeader ?b = Ok (Some hb)"
      "size_of_short (mSize (header_of hb)) \<le> GetStoredSize ?b"
    using inv assms(3,4,5) by (simp_all add: cb.pk_eq GetStoredSize_eq sizeof_defs)
  have ty: "sint ?t < 1024" "0 < sint ?t"
    using assms(6) by (auto simp: struct_size_def split: if_splits)
  have ok: "\<exists>l. HandlerTable e ?t sid s = Ok (s\<lparr>GConsoleLog := l\<rparr>)" if "?P s" for s
    using that handler_short [of s sid _ ?t e] assms(3,6) by auto
  then have keep: "?P s'" if "?P s" "HandlerTable e ?t sid s = Ok s'" for s s'
    using that by fastforce
  have False if r: "CS_DispatchPacket e sid s = Some r" for r
  proof -
    have "\<exists>f s'. r = Fault f \<and> ?P s' \<and> HandlerTable e ?t sid s' = Fault f"
    proof (rule dispatch_no_progress [where P = ?P, OF r _ _ ty])
      show "?P s" using assms(1,2) by blast
      show "\<exists>c. objs s sid = Some c \<and> Peek sizeof_PacketHeader (mRecvBuffer c) = Ok (Some hb) \<and>
          size_of_short (mSize (header_of hb)) \<le> GetStoredSize (mRecvBuffer c)" if "?P s" for s
        using that header by auto
    qed (rule keep)
    with ok show ?thesis by (metis outcome.distinct(1))
  qed
  then show ?thesis by (cases "CS_DispatchPacket e sid s") auto
qed

lemma recv_store_nil:
  assumes "cb_inv b" and "recv_args rtl b = (dst, n, b1)"
  shows "recv_store dst [] b1 = Ok b1" and "cb_inv b1" and "contents b1 = contents b"
    and "capacity b1 = capacity b" and "n = room b"
proof -
  note sp = GetFreeSpaceSize_spec [OF assms(1)]
  have "GetBuffer x \<le> length (mBuffer x)" if "cb_inv x" for x
    using that by (auto simp: GetBuffer_def cb_inv_def split: option.splits)
  from this [OF assms(1)] this [OF sp(2)]
  have "GetBuffer b \<le> length (mBuffer b)" "GetBuffer (snd (GetFreeSpaceSize b)) \<le> length (mBuffer b)"
    using sp(4) by (simp_all add: capacity_def)
  moreover have "Commit 0 b1 = b1" by (simp add: Commit_def)
  moreover have "overwrite k [] m = m" for k and m :: "byte list" by (simp add: overwrite_def)
  moreover have "length (mBuffer b1) = length (mBuffer b)"
    using sp(4) assms(2) by (auto simp: recv_args_def case_prod_beta capacity_def split: if_splits)
  ultimately show "recv_store dst [] b1 = Ok b1"
    using assms sp(2) by (auto simp: recv_args_def recv_store_def mem_write_def case_prod_beta split: if_splits)
  show "cb_inv b1" "contents b1 = contents b" "capacity b1 = capacity b" "n = room b"
    using assms(2) sp by (auto simp: recv_args_def case_prod_beta split: if_splits)
qed

text \<open>C36. The peer's orderly shutdown stops the server: \<^verbatim>\<open>read\<close> then returns 0 on every
  call, which \<^verbatim>\<open>OnReceive\<close> takes for a successful read of no bytes, so its loop does not
  end.\<close>

theorem OnReceive_end_of_stream:
  assumes "good s" and "objs s sid = Some c" and "incomplete (contents (mRecvBuffer c))"
    and "world s \<in> W" and "\<forall>w\<in>W. \<forall>n. \<exists>w'\<in>W. sys_read e (mSocket c) n w = (Got [], w')"
  shows "CS_OnReceive_loop e sid s = None"
proof -
  let ?P = "\<lambda>s. good s \<and> world s \<in> W \<and>
    (\<exists>c'. objs s sid = Some c' \<and> mSocket c' = mSocket c \<and> incomplete (contents (mRecvBuffer c')))"
  have "CS_OnReceive_loop e' sid' s = Some r \<Longrightarrow> e' = e \<Longrightarrow> sid' = sid \<Longrightarrow> ?P s \<Longrightarrow> False" for e' sid' s r
  proof (induction rule: CS_OnReceive_loop.raw_induct [rotated, consumes 1, case_names step])
    case (step L e' sid' s r)
    from step.prems obtain c' where c': "objs s sid = Some c'" "mSocket c' = mSocket c"
        "incomplete (contents (mRecvBuffer c'))" "good s" "world s \<in> W" by blast
    note inv = goodD [OF c'(4,1), THEN conjunct2]
    obtain dst n b1 where ra: "recv_args (args_rtl e) (mRecvBuffer c') = (dst, n, b1)"
      by (cases "recv_args (args_rtl e) (mRecvBuffer c')") auto
    note rs = recv_store_nil [OF inv ra]
    obtain w' where w': "w' \<in> W" "sys_read e (mSocket c') n (world s) = (Got [], w')"
      using assms(5) c'(2,5) by metis
    define s1 where "s1 = upd_obj sid (\<lambda>c. c\<lparr>mRecvBuffer := b1\<rparr>) (s\<lparr>world := w'\<rparr>)"
    have s1: "?P s1" "objs s1 sid = Some (c'\<lparr>mRecvBuffer := b1\<rparr>)" "good s1"
      using c' rs(2,3) w'(1) inv by (auto simp: s1_def good_objs_def)
    then have "CS_DispatchPacket e sid s1 = Some (Ok s1)"
      using c'(3) rs(3) by (intro dispatch_incomplete [OF s1(3,2)]) simp
    with step.hyps step.prems(1,2) c'(1) ra rs(1) w'(2) have "L e sid s1 = Some r"
      by (simp add: Let_def recv_buffer_twice s1_def)
    with step.IH step.prems(1,2) s1(1) show False by blast
  qed
  with assms have False if "CS_OnReceive_loop e sid s = Some r" for r
    using that by blast
  then show ?thesis by (cases "CS_OnReceive_loop e sid s") auto
qed

section \<open>The theorems at concrete inputs\<close>

lemma quiet_stream: "stream_socket (quiet_env\<lparr>args_rtl := rtl\<rparr>) (\<lambda>w fd. w)"
proof -
  have "world_call (quiet_env\<lparr>args_rtl := rtl\<rparr>) w w' \<Longrightarrow> w' = w" for w w'
    by (auto simp: quiet_env_def elim: world_call.cases)
  then show ?thesis by (auto simp: stream_socket_def quiet_env_def)
qed

lemma DispatchPacket_serves_messages_witness:
  "CS_DispatchPacket quiet_env 0 (one_client (stream [MMove MoveRequest_new] @ [16]) []) =
     Some (serve quiet_env 0 [MMove MoveRequest_new] (one_client (stream [MMove MoveRequest_new] @ [16]) []))"
  by (rule DispatchPacket_serves_messages [of _ 0 "client_with (stream [MMove MoveRequest_new] @ [16])" _ "[16]",
        THEN conjunct1])
    (simp_all add: one_client_spec incomplete_def sizeof_defs)

text \<open>The order is the other one here.\<close>

lemma OnReceive_reassembles_witness:
  "\<exists>r. CS_OnReceive (quiet_env\<lparr>args_rtl := False\<rparr>) 0 (one_client [16] (tl (stream [MMove MoveRequest_new]) @ [16, 0])) = Some r \<and>
     handled (quiet_env\<lparr>args_rtl := False\<rparr>) 0 [MMove MoveRequest_new]
       (one_client [16] (tl (stream [MMove MoveRequest_new]) @ [16, 0])) r"
proof -
  have "[16] @ tl (stream [MMove MoveRequest_new]) @ [16, 0] = stream [MMove MoveRequest_new] @ [16, 0]"
    by (simp add: move_bytes_def header_bytes_def enc16_def packet_new_defs sizeof_defs)
  moreover have "mARegionPointer (mRecvBuffer (client_with [16])) = 0" "mARegionSize (mRecvBuffer (client_with [16])) = 1"
    "mBRegionPointer (mRecvBuffer (client_with [16])) = None"
    by (simp_all add: client_with_def Write_def CircularBuffer_new_def GetAFreeSpace_def GetSpaceBeforeA_def mem_write_def
        BUFSIZE_def size_sub_def)
  then have "order_free False (mRecvBuffer (client_with [16])) 17"
    by (simp add: order_free_def one_client_spec BUFSIZE_def)
  moreover have "length (tl (stream [MMove MoveRequest_new]) @ [16, 0]) = 17"
    by (simp add: move_bytes_def header_bytes_def enc16_def)
  ultimately show ?thesis
    using OnReceive_reassembles [OF quiet_stream [of False], of "client_with [16]" "one_client [16] (tl (stream [MMove MoveRequest_new]) @ [16, 0])"
      0 "[MMove MoveRequest_new]" "[16, 0]"]
    by (auto simp: one_client_spec incomplete_def sizeof_defs BUFSIZE_def)
qed

lemma DispatchPacket_unregistered_type_witness:
  "\<forall>s'. CS_DispatchPacket quiet_env 0 (one_client [4, 0, 99, 0] []) \<noteq> Some (Ok s')"
  by (rule DispatchPacket_unregistered_type [of _ 0 "client_with [4, 0, 99, 0]" "[4, 0, 99, 0]" "[]",
        THEN conjunct1])
    (simp_all add: one_client_spec header_of_def dec16_def size_of_short_def)

lemma DispatchPacket_short_struct_witness:
  "CS_DispatchPacket quiet_env 0 (one_client [4, 0, 1, 0] []) = None"
  by (rule DispatchPacket_short_struct [of _ 0 "client_with [4, 0, 1, 0]" "[4, 0, 1, 0]" "[]"])
    (simp_all add: one_client_spec header_of_def dec16_def size_of_short_def struct_size_def sizeof_defs)

lemma OnReceive_end_of_stream_witness:
  "CS_OnReceive_loop (quiet_env\<lparr>sys_read := (\<lambda>fd n w. (Got [], w))\<rparr>) 0 (one_client [] []) = None"
  by (rule OnReceive_end_of_stream [of _ 0 "client_with []" "{[]}"])
    (simp_all add: one_client_spec incomplete_def sizeof_defs)

end
