(* ===== verification/LinuxSend.thy ===== *)
theory LinuxSend
  imports LinuxProofs
begin

text \<open>
  The Linux server's sending side, broadcasts, disconnecting and the log buffer.
\<close>

section \<open>Receiving and the order of evaluation\<close>

text \<open>The \<^verbatim>\<open>read\<close> of \<^verbatim>\<open>OnReceive\<close> is sound when its arguments are evaluated
  right to left: whatever it stores within the offered size is inside the allocation and appended
  to the buffered bytes.\<close>

theorem receive_right_to_left:
  assumes "cb_inv b" and "recv_args True b = (dst, n, b1)" and "length d \<le> n"
  shows "\<exists>b2. recv_store dst d b1 = Ok b2 \<and> cb_inv b2 \<and> contents b2 = contents b @ d \<and>
    capacity b2 = capacity b"
  using recv_store_nil(5) [OF assms(1,2)] assms(3) recv_store_spec(2) [OF assms(1) _ assms(2)] by simp

lemma receive_right_to_left_witness:
  "\<exists>b2. recv_store 0 [7] (CircularBuffer_new BUFSIZE []) = Ok b2 \<and> contents b2 = [7]"
  using receive_right_to_left [OF new_buffer(1), of 0 BUFSIZE "CircularBuffer_new BUFSIZE []" "[7]"] new_buffer(2)
  by (auto simp: recv_args_def GetFreeSpaceSize_def GetAFreeSpace_def GetSpaceBeforeA_def GetBuffer_def
      CircularBuffer_new_def BUFSIZE_def)

text \<open>The order is unspecified in C++, and left to right is unsound: in a state the buffer
  reaches by its own operations, the destination is then still behind region A while the offered
  size is the space in front of it, and the kernel writes past the end of the allocation.\<close>

theorem receive_left_to_right_overruns:
  "\<exists>b b0 dst n b1.
     Write [1, 2, 3, 4] (CircularBuffer_new 4 []) = Ok (True, b0) \<and> Read 3 b0 = Ok (Some [1, 2, 3], b) \<and>
     recv_args False b = (dst, n, b1) \<and> n = room b \<and> recv_store dst [5] b1 = Fault OutOfBounds"
proof -
  let ?full = "\<lparr>mBuffer = [1, 2, 3, 4], mARegionPointer = 0, mARegionSize = 4, mBRegionPointer = None,
    mBRegionSize = 0\<rparr>"
  let ?left = "\<lparr>mBuffer = [1, 2, 3, 4], mARegionPointer = 3, mARegionSize = 1, mBRegionPointer = None,
    mBRegionSize = 0\<rparr>"
  have "Write [1, 2, 3, 4] (CircularBuffer_new 4 []) = Ok (True, ?full)"
    by (simp add: Write_def CircularBuffer_new_def GetAFreeSpace_def GetSpaceBeforeA_def mem_write_def
        overwrite_def)
  moreover have "Read 3 ?full = Ok (Some [1, 2, 3], ?left)"
    by (simp add: Read_def mem_read_def slice_def copy_from_B_def rebase_def take_A_def take_B_def)
  moreover have "recv_args False ?left = (4, 3, ?left\<lparr>mBRegionPointer := Some 0\<rparr>)"
    by (simp add: recv_args_def GetFreeSpaceSize_def GetAFreeSpace_def GetSpaceBeforeA_def AllocateB_def
        GetBFreeSpace_def GetBuffer_def)
  moreover have "room ?left = 3" by (simp add: room_def)
  moreover have "recv_store 4 [5] (?left\<lparr>mBRegionPointer := Some 0\<rparr>) = Fault OutOfBounds"
    by (simp add: recv_store_def mem_write_def)
  ultimately show ?thesis by metis
qed

text \<open>C40. The other order overruns. When a compiler evaluates the arguments of \<^verbatim>\<open>read\<close> from left to right,
  \<^verbatim>\<open>OnReceive\<close> of a session whose region A has more space in front of it than behind it gives the kernel the address
  behind region A with the size of the space in front; a read of more bytes than fit behind region A writes past the end of
  the allocation.\<close>

theorem OnReceive_left_to_right_overruns:
  assumes "\<not> args_rtl e" and "good s" and "objs s sid = Some c" and "mConnected c"
    and "mBRegionPointer (mRecvBuffer c) = None"
    and "sys_read e (mSocket c) (GetSpaceBeforeA (mRecvBuffer c)) (world s) = (Got d, w)"
    and "GetAFreeSpace (mRecvBuffer c) < length d" and "length d \<le> GetSpaceBeforeA (mRecvBuffer c)"
  shows "CS_OnReceive e sid s = Some (Fault OutOfBounds)"
proof -
  let ?b = "mRecvBuffer c"
  have inv: "cb_inv ?b" using goodD [OF assms(2,3)] by simp
  have "recv_args False ?b = (mARegionPointer ?b + mARegionSize ?b, GetSpaceBeforeA ?b, AllocateB ?b)"
    using inv assms(5,7,8)
    by (auto simp: recv_args_def GetFreeSpaceSize_def GetBFreeSpace_def GetBuffer_def AllocateB_def GetSpaceBeforeA_def
        cb_inv_def Let_def)
  moreover have "recv_store (mARegionPointer ?b + mARegionSize ?b) d (AllocateB ?b) = Fault OutOfBounds"
    using assms(7) free_A [OF inv] by (auto simp: recv_store_def mem_write_def AllocateB_def)
  ultimately have "CS_OnReceive_loop e sid s = Some (Fault OutOfBounds)"
    using assms(1,3,6) by (subst CS_OnReceive_loop.simps) (simp add: Let_def)
  with assms(3,4) show ?thesis by (simp add: CS_OnReceive_def)
qed

text \<open>One byte of an unfinished message is left at the end of the buffer, and one more arrives.\<close>

lemma OnReceive_left_to_right_overruns_witness:
  "CS_OnReceive (quiet_env\<lparr>args_rtl := False\<rparr>) 0 ((one_client [] [7])\<lparr>objs := [0 \<mapsto> (client_with [])\<lparr>mRecvBuffer :=
     \<lparr>mBuffer = replicate BUFSIZE 16, mARegionPointer = BUFSIZE - 1, mARegionSize = 1, mBRegionPointer = None,
      mBRegionSize = 0\<rparr>\<rparr>]\<rparr>) = Some (Fault OutOfBounds)"
proof -
  let ?b = "\<lparr>mBuffer = replicate BUFSIZE 16, mARegionPointer = BUFSIZE - 1, mARegionSize = 1, mBRegionPointer = None,
      mBRegionSize = 0\<rparr>"
  let ?c = "(client_with [])\<lparr>mRecvBuffer := ?b\<rparr>"
  let ?s = "(one_client [] ([7] :: byte list))\<lparr>objs := [0 \<mapsto> ?c]\<rparr>"
  have n: "1 < BUFSIZE" "BUFSIZE < 2 ^ 64" by (simp_all add: BUFSIZE_def)
  have "cb_inv ?b" using n by (simp add: cb_inv_def)
  then have "good ?s"
    using one_client_spec(1,2) [of "[]" "[7] :: byte list"] by (auto simp: good_objs_def)
  moreover have "GetAFreeSpace ?b = 0" "GetSpaceBeforeA ?b = BUFSIZE - 1"
    using n by (simp_all add: GetAFreeSpace_def GetSpaceBeforeA_def)
  ultimately show ?thesis
    using n one_client_spec(5) [of "[]"] one_client_spec(7) [of "[]" "[7] :: byte list"]
    by (intro OnReceive_left_to_right_overruns [where d = "[7]" and w = "[]" and c = ?c]) (simp_all add: quiet_env_def)
qed

section \<open>The log buffer\<close>

text \<open>C39. Logging out writes past \<^verbatim>\<open>PrintOut\<close>'s 128-byte stack buffer exactly when the
  player id in the packet has 103 bytes or more; the packet's array admits 127.\<close>

theorem PlayerLogout_log_overrun:
  assumes "GLM_RemovePlayerSession e sid pid s = Ok s1"
  shows "if length pid < 103
    then \<exists>l. CS_PlayerLogout e sid pid s =
      CS_Disconnect e sid (upd_obj sid (\<lambda>c. c\<lparr>mPlayerSessionId := []\<rparr>) s1 \<lparr>GConsoleLog := l\<rparr>)
    else CS_PlayerLogout e sid pid s = Fault StackOverrun"
proof (cases "length pid < 103")
  case True
  then have "length (lit ''[PLAYER] PlayerLogout: '' @ pid @ lit '' \<newline>'') < 128" by simp
  then obtain l where "print_out (lit ''[PLAYER] PlayerLogout: '' @ pid @ lit '' \<newline>'')
      (upd_obj sid (\<lambda>c. c\<lparr>mPlayerSessionId := []\<rparr>) s1) =
      Ok (upd_obj sid (\<lambda>c. c\<lparr>mPlayerSessionId := []\<rparr>) s1 \<lparr>GConsoleLog := l\<rparr>)"
    using print_out_fits by blast
  with True show ?thesis by (auto simp: CS_PlayerLogout_def assms)
next
  case False
  then have "128 \<le> length (lit ''[PLAYER] PlayerLogout: '' @ pid @ lit '' \<newline>'')" by simp
  with False show ?thesis
    by (simp add: CS_PlayerLogout_def assms print_out_overrun del: length_append)
qed

lemma PlayerLogout_log_overrun_witness:
  "CS_PlayerLogout quiet_env 0 (replicate 103 65) (one_client [] []) = Fault StackOverrun"
proof -
  have "\<exists>s1. GLM_RemovePlayerSession quiet_env 0 (replicate 103 65) (one_client [] []) = Ok s1"
    by (simp add: GLM_RemovePlayerSession_def do_sdk_def quiet_env_def IsSuccess_def one_client_def
        GLM_CheckTerminateGameSession_def MAX_PLAYER_PER_GAME_def)
  then show ?thesis using PlayerLogout_log_overrun [of quiet_env 0 "replicate 103 65" "one_client [] []"] by auto
qed

section \<open>Disconnecting\<close>

lemma CheckTerminate_objs: "GLM_CheckTerminateGameSession e s = Ok s' \<Longrightarrow> objs s' = objs s"
  by (auto simp: GLM_CheckTerminateGameSession_def Let_def print_out_Ok split: if_splits)

lemma Remove_objs: "GLM_RemovePlayerSession e p i s = Ok s' \<Longrightarrow> objs s' = objs s"
  by (auto simp: GLM_RemovePlayerSession_def case_prod_beta print_out_Ok
      dest!: CheckTerminate_objs split: if_splits)

lemma OnDisconnect_objs:
  assumes "CS_OnDisconnect e i s = Ok s'" and "objs s i = Some c"
  shows "objs s' = (objs s)(i \<mapsto> c\<lparr>mPlayerSessionId := []\<rparr>)"
proof (cases "IsValid c")
  case True
  with assms show ?thesis by (auto simp: CS_OnDisconnect_def with_obj_def dest!: Remove_objs)
next
  case False
  then have "c\<lparr>mPlayerSessionId := []\<rparr> = c" by (cases c) (simp add: IsValid_def)
  with False assms show ?thesis by (auto simp: CS_OnDisconnect_def with_obj_def)
qed

lemma Disconnect_again: "objs s i = Some c \<Longrightarrow> \<not> mConnected c \<Longrightarrow> CS_Disconnect e i s = Ok s"
  by (simp add: CS_Disconnect_def with_obj_def)

lemma disconnect_effect:
  assumes "CS_Disconnect e i s = Ok s'" and "objs s i = Some c" and "mConnected c"
    and "0 \<le> fst (sys e (SysLinger (mSocket c)) (world s))"
  shows "objs s' = (objs s)(i \<mapsto> c\<lparr>mConnected := False, mPlayerSessionId := []\<rparr>)"
    and "mSocket c \<notin> fst ` set (mClientList s')"
proof -
  define s1 where "s1 = upd_obj i (\<lambda>c. c\<lparr>mConnected := False\<rparr>) (snd (do_sys e (SysLinger (mSocket c)) s))"
  obtain s2 l where s2: "CS_OnDisconnect e i s1 = Ok s2"
      "CM_DeleteClient e i (s2\<lparr>GConsoleLog := l\<rparr>) = Ok s'"
    using assms by (auto simp: CS_Disconnect_def with_obj_def case_prod_beta do_sys_fst print_out_Ok s1_def)
  from OnDisconnect_objs [OF s2(1)] assms(2)
  have o2: "objs s2 = (objs s)(i \<mapsto> c\<lparr>mConnected := False, mPlayerSessionId := []\<rparr>)"
    by (simp add: s1_def)
  with s2(2) show "objs s' = (objs s)(i \<mapsto> c\<lparr>mConnected := False, mPlayerSessionId := []\<rparr>)"
      "mSocket c \<notin> fst ` set (mClientList s')"
    by (auto simp: CM_DeleteClient_def with_obj_def Let_def map_erase_def)
qed

text \<open>C26. Disconnecting a connected session marks it, forgets its player, takes it out of the
  client list, and leaves nothing for a second \<^verbatim>\<open>Disconnect\<close> to do.\<close>

theorem Disconnect_cleans_up:
  assumes "CS_Disconnect e i s = Ok s'" and "objs s i = Some c" and "mConnected c"
    and "0 \<le> fst (sys e (SysLinger (mSocket c)) (world s))"
  shows "\<exists>c'. objs s' i = Some c' \<and> \<not> mConnected c' \<and> \<not> IsValid c' \<and>
    mSocket c \<notin> fst ` set (mClientList s') \<and> CS_Disconnect e i s' = Ok s'"
  using disconnect_effect [OF assms] by (simp add: IsValid_def Disconnect_again)

lemma Disconnect_cleans_up_witness:
  "\<exists>s'. CS_Disconnect quiet_env 0 (one_client [] []) = Ok s' \<and> 5 \<notin> fst ` set (mClientList s')"
proof -
  obtain s' where s': "CS_Disconnect quiet_env 0 (one_client [] []) = Ok s'"
    by (simp add: CS_Disconnect_def with_obj_def one_client_def client_with_def ClientSession_new_def
        do_sys_def quiet_env_def CS_OnDisconnect_def upd_obj_def IsValid_def print_out_def PrintOut_def
        LOG_BUF_def CM_DeleteClient_def inet_ntoa.simps decimal.simps)
  have "0 \<le> fst (sys quiet_env (SysLinger (mSocket (client_with []))) (world (one_client [] [])))"
    by (simp add: quiet_env_def)
  from Disconnect_cleans_up [OF s' _ _ this] s' show ?thesis
    by (auto simp: one_client_spec)
qed

section \<open>Sending\<close>

text \<open>
  The contract of \<^verbatim>\<open>write\<close> on a stream socket: it takes a prefix of the data, not empty
  unless the data is, and appends it to what the peer will read; when it fails it takes nothing.
\<close>

definition stream_writer :: "'w env \<Rightarrow> ('w \<Rightarrow> int \<Rightarrow> byte list) \<Rightarrow> bool" where
  "stream_writer e wire \<longleftrightarrow>
     (\<forall>fd d w. case sys_write e fd d w of (r, w') \<Rightarrow>
        (case r of Sent n \<Rightarrow> n \<le> length d \<and> (d \<noteq> [] \<longrightarrow> 0 < n) \<and> wire w' fd = wire w fd @ take n d
         | _ \<Rightarrow> wire w' fd = wire w fd))"

lemma stream_writerD:
  assumes "stream_writer e wire" and "sys_write e fd d w = (r, w')"
  shows "case r of Sent n \<Rightarrow> n \<le> length d \<and> (d \<noteq> [] \<longrightarrow> 0 < n) \<and> wire w' fd = wire w fd @ take n d
         | _ \<Rightarrow> wire w' fd = wire w fd"
  using assms(1) [unfolded stream_writer_def, THEN spec [of _ fd], THEN spec [of _ d], THEN spec [of _ w]]
  by (simp only: assms(2) prod.case)

text \<open>One turn of the loop of \<^verbatim>\<open>SendFlush\<close>: it ends, or passes on to the socket a first part of what
  is buffered.\<close>

lemma flush_turn:
  assumes "stream_writer e wire" and "good s" and "objs s sid = Some c"
  shows "(\<exists>b w. CS_SendFlush_loop e sid s = Some (Ok (b, s\<lparr>world := w\<rparr>)) \<and>
      wire w (mSocket c) = wire (world s) (mSocket c)) \<or>
    (\<exists>w b' sent. CS_SendFlush_loop e sid s =
        CS_SendFlush_loop e sid (upd_obj sid (\<lambda>c. c\<lparr>mSendBuffer := b'\<rparr>) (s\<lparr>world := w\<rparr>)) \<and>
      cb_inv b' \<and> capacity b' = capacity (mSendBuffer c) \<and> sent \<noteq> [] \<and>
      contents (mSendBuffer c) = sent @ contents b' \<and>
      wire w (mSocket c) = wire (world s) (mSocket c) @ sent)"
proof (cases "GetContiguiousBytes (mSendBuffer c) = 0")
  case True
  then have "CS_SendFlush_loop e sid s = Some (Ok (True, s\<lparr>world := world s\<rparr>))"
    using assms(3) by (subst CS_SendFlush_loop.simps) simp
  then show ?thesis by blast
next
  case False
  let ?b = "mSendBuffer c"
  let ?d = "take (GetContiguiousBytes ?b) (contents ?b)"
  note inv = goodD [OF assms(2,3), THEN conjunct1]
  note cs = contiguous_spec [OF inv]
  have ne: "?d \<noteq> []" using cs(1,2) False by auto
  obtain r w where wr: "sys_write e (mSocket c) ?d (world s) = (r, w)"
    by (cases "sys_write e (mSocket c) ?d (world s)") auto
  note ct = stream_writerD [OF assms(1) wr]
  note turn = CS_SendFlush_loop.simps [of e sid s] assms(3) False cs(3) wr
  show ?thesis
  proof (cases r)
    case WriteAgain
    then have "CS_SendFlush_loop e sid s = Some (Ok (True, s\<lparr>world := w\<rparr>))"
      by (subst turn(1)) (use turn in simp)
    then show ?thesis using ct WriteAgain by auto
  next
    case WriteError
    then have "CS_SendFlush_loop e sid s = Some (Ok (False, s\<lparr>world := w\<rparr>))"
      by (subst turn(1)) (use turn in simp)
    then show ?thesis using ct WriteError by auto
  next
    case (Sent k)
    with ct ne have k: "0 < k" "k \<le> length ?d" "wire w (mSocket c) = wire (world s) (mSocket c) @ take k ?d"
      by auto
    obtain b' where b': "Remove k ?b = Ok b'" "cb_inv b'" "contents b' = drop k (contents ?b)"
        "capacity b' = capacity ?b"
      using cb.rm_ok [OF inv] by blast
    have "CS_SendFlush_loop e sid s =
        CS_SendFlush_loop e sid (upd_obj sid (\<lambda>c. c\<lparr>mSendBuffer := b'\<rparr>) (s\<lparr>world := w\<rparr>))"
      by (subst turn(1)) (use turn Sent b'(1) in simp)
    moreover have "take k ?d \<noteq> []" "contents ?b = take k ?d @ contents b'"
      using k(1,2) ne b'(3) by (auto simp: min_absorb1)
    ultimately show ?thesis using b'(2,4) k(3) by blast
  qed
qed

lemma flush_loop:
  assumes "stream_writer e wire" and "good s" and "objs s sid = Some c"
  shows "\<exists>b w sb. CS_SendFlush_loop e sid s =
      Some (Ok (b, upd_obj sid (\<lambda>c. c\<lparr>mSendBuffer := sb\<rparr>) (s\<lparr>world := w\<rparr>))) \<and> cb_inv sb \<and>
    capacity sb = capacity (mSendBuffer c) \<and>
    wire w (mSocket c) @ contents sb = wire (world s) (mSocket c) @ contents (mSendBuffer c)"
  using assms(2,3)
proof (induction "length (contents (mSendBuffer c))" arbitrary: s c rule: less_induct)
  case less
  let ?b = "mSendBuffer c"
  from flush_turn [OF assms(1) less.prems] show ?case
  proof (elim disjE exE conjE)
    fix b w
    assume "CS_SendFlush_loop e sid s = Some (Ok (b, s\<lparr>world := w\<rparr>))"
      "wire w (mSocket c) = wire (world s) (mSocket c)"
    moreover have "upd_obj sid (\<lambda>c. c\<lparr>mSendBuffer := ?b\<rparr>) (s\<lparr>world := w\<rparr>) = s\<lparr>world := w\<rparr>"
      using less.prems(2) by (simp add: upd_obj_def fun_upd_idem)
    ultimately show ?case
      using goodD [OF less.prems] by (intro exI [of _ b] exI [of _ w] exI [of _ ?b]) simp
  next
    fix w b' sent
    let ?s1 = "upd_obj sid (\<lambda>c. c\<lparr>mSendBuffer := b'\<rparr>) (s\<lparr>world := w\<rparr>)"
    assume turn: "CS_SendFlush_loop e sid s = CS_SendFlush_loop e sid ?s1" "cb_inv b'" "capacity b' = capacity ?b"
      "sent \<noteq> []" "contents ?b = sent @ contents b'" "wire w (mSocket c) = wire (world s) (mSocket c) @ sent"
    have "objs ?s1 sid = Some (c\<lparr>mSendBuffer := b'\<rparr>)" "good ?s1"
      using less.prems turn(2) by (auto simp: good_objs_def)
    moreover have "length (contents (mSendBuffer (c\<lparr>mSendBuffer := b'\<rparr>))) < length (contents ?b)"
      using turn(4,5) by simp
    ultimately obtain b w2 sb where
      IH: "CS_SendFlush_loop e sid ?s1 =
          Some (Ok (b, upd_obj sid (\<lambda>c. c\<lparr>mSendBuffer := sb\<rparr>) (?s1\<lparr>world := w2\<rparr>)))" "cb_inv sb"
        "capacity sb = capacity b'" "wire w2 (mSocket c) @ contents sb = wire w (mSocket c) @ contents b'"
      using less.hyps [of "c\<lparr>mSendBuffer := b'\<rparr>" ?s1] by auto
    have "upd_obj sid (\<lambda>c. c\<lparr>mSendBuffer := sb\<rparr>) (?s1\<lparr>world := w2\<rparr>) =
        upd_obj sid (\<lambda>c. c\<lparr>mSendBuffer := sb\<rparr>) (s\<lparr>world := w2\<rparr>)"
      by (simp add: upd_obj_def less.prems(2))
    with turn IH show ?case by (intro exI [of _ b] exI [of _ w2] exI [of _ sb]) simp
  qed
qed

text \<open>C11. \<^verbatim>\<open>SendFlush\<close> terminates, faults nowhere, and neither loses, duplicates nor
  reorders a byte: what the peer got and what is still buffered are together what they were, however
  the kernel cuts the writes and whichever of them fail.\<close>

theorem SendFlush_fifo:
  assumes "stream_writer e wire" and "good s" and "objs s sid = Some c"
  shows "\<exists>b s' c'. CS_SendFlush e sid s = Some (Ok (b, s')) \<and> good s' \<and> objs s' sid = Some c' \<and>
    wire (world s') (mSocket c) @ contents (mSendBuffer c') =
    wire (world s) (mSocket c) @ contents (mSendBuffer c)"
proof -
  obtain b w sb where fl: "CS_SendFlush_loop e sid s =
      Some (Ok (b, upd_obj sid (\<lambda>c. c\<lparr>mSendBuffer := sb\<rparr>) (s\<lparr>world := w\<rparr>)))" "cb_inv sb"
      "wire w (mSocket c) @ contents sb = wire (world s) (mSocket c) @ contents (mSendBuffer c)"
    using flush_loop [OF assms] by blast
  show ?thesis
  proof (cases "mConnected c \<and> GetContiguiousBytes (mSendBuffer c) \<noteq> 0")
    case True
    then have "CS_SendFlush e sid s =
        Some (Ok (b, upd_obj sid (\<lambda>c. c\<lparr>mSendBuffer := sb\<rparr>) (s\<lparr>world := w\<rparr>)))"
      using assms(3) fl(1) by (simp add: CS_SendFlush_def)
    moreover have "good (upd_obj sid (\<lambda>c. c\<lparr>mSendBuffer := sb\<rparr>) (s\<lparr>world := w\<rparr>))"
      using assms(2,3) fl(2) by (auto simp: good_objs_def)
    ultimately show ?thesis using fl(3) assms(3) by simp
  next
    case False
    then show ?thesis
      using assms by (cases "mConnected c") (auto simp: CS_SendFlush_def)
  qed
qed

lemma SendFlush_fifo_witness:
  "\<exists>b s'. CS_SendFlush (quiet_env\<lparr>sys_write := (\<lambda>fd d w. (Sent (length d), w @ d))\<rparr>) 0 (one_client [] []) =
     Some (Ok (b, s')) \<and> good s'"
proof -
  have "stream_writer (quiet_env\<lparr>sys_write := (\<lambda>fd d w. (Sent (length d), w @ d))\<rparr>) (\<lambda>w fd. w)"
    by (simp add: stream_writer_def)
  from SendFlush_fifo [OF this, of "one_client [] []" 0 "client_with []"] show ?thesis
    by (auto simp: one_client_spec)
qed

section \<open>Flushing every client\<close>

text \<open>C38. \<^verbatim>\<open>FlushClientSend\<close> removes a client from the map it is iterating over: when a
  flush fails, \<^verbatim>\<open>Disconnect\<close> erases the entry, and the loop goes on from an iterator to
  it.\<close>

theorem FlushClientSend_erases_under_iteration:
  assumes "mClientList s = (fd, client) # others" and "CS_SendFlush e client s = Some (Ok (False, s1))"
    and "objs s1 client = Some c" and "mConnected c" and "mSocket c = fd"
    and "0 \<le> fst (sys e (SysLinger fd) (world s1))" and "CS_Disconnect e client s1 = Ok s2"
  shows "CM_FlushClientSend e s = Some (Fault IteratorInvalidated)"
  using assms disconnect_effect(2) [OF assms(7,3,4)] by (force simp: CM_FlushClientSend_def)

lemma FlushClientSend_erases_under_iteration_witness:
  "CM_FlushClientSend (quiet_env\<lparr>sys_write := (\<lambda>fd d w. (WriteError, w))\<rparr>)
     (upd_obj 0 (\<lambda>c. c\<lparr>mSendBuffer := mRecvBuffer c\<rparr>) (one_client [7] [])) = Some (Fault IteratorInvalidated)"
proof -
  let ?e = "quiet_env\<lparr>sys_write := (\<lambda>fd d w. (WriteError, w))\<rparr>"
  let ?s = "upd_obj 0 (\<lambda>c. c\<lparr>mSendBuffer := mRecvBuffer c\<rparr>) (one_client [7] [])"
  let ?c = "client_with [7] \<lparr>mSendBuffer := mRecvBuffer (client_with [7])\<rparr>"
  have o: "objs ?s 0 = Some ?c" by (simp add: one_client_spec)
  have inv: "cb_inv (mRecvBuffer (client_with [7]))"
    using goodD [OF one_client_spec(1,2)] by simp
  have n: "GetContiguiousBytes (mRecvBuffer (client_with [7])) \<noteq> 0"
    using contiguous_spec(2) [OF inv] by (simp add: one_client_spec)
  have "CS_SendFlush ?e 0 ?s = Some (Ok (False, ?s\<lparr>world := []\<rparr>))"
    using n contiguous_spec(3) [OF inv]
    by (simp add: CS_SendFlush_def o one_client_spec, subst CS_SendFlush_loop.simps)
      (simp add: o one_client_spec)
  moreover have "\<exists>s2. CS_Disconnect ?e 0 (?s\<lparr>world := []\<rparr>) = Ok s2"
    by (simp add: CS_Disconnect_def with_obj_def one_client_def client_with_def ClientSession_new_def
        do_sys_def quiet_env_def CS_OnDisconnect_def upd_obj_def IsValid_def print_out_def PrintOut_def
        LOG_BUF_def CM_DeleteClient_def inet_ntoa.simps decimal.simps)
  ultimately show ?thesis
    using FlushClientSend_erases_under_iteration [of ?s 5 0 "[]" ?e "?s\<lparr>world := []\<rparr>" ?c] o
    by (auto simp: one_client_def client_with_def ClientSession_new_def quiet_env_def)
qed

section \<open>Broadcasting\<close>

lemma send_room:
  assumes "objs s p = Some c" and "mConnected c" and "length pkt \<le> room (mSendBuffer c)" and "cb_inv (mSendBuffer c)"
  shows "\<exists>sb. CS_SendRequest e p pkt s = Ok (True, upd_obj p (\<lambda>c. c\<lparr>mSendBuffer := sb\<rparr>) s) \<and>
    cb_inv sb \<and> contents sb = contents (mSendBuffer c) @ pkt"
proof -
  obtain sb where "Write pkt (mSendBuffer c) = Ok (True, sb)" "cb_inv sb"
      "contents sb = contents (mSendBuffer c) @ pkt"
    using cb.wr_ok [OF assms(4,3)] by blast
  then show ?thesis
    using assms(1,2) by (intro exI [of _ sb]) (simp add: CS_SendRequest_def with_obj_def del: bnd_eq_Ok)
qed

definition can_take :: "'w server \<Rightarrow> byte list \<Rightarrow> nat \<Rightarrow> bool" where
  "can_take s pkt p \<longleftrightarrow>
     (\<exists>c. objs s p = Some c \<and> mConnected c \<and> length pkt \<le> room (mSendBuffer c) \<and> cb_inv (mSendBuffer c))"

definition outgoing :: "'w server \<Rightarrow> nat \<Rightarrow> byte list" where
  "outgoing s p = (case objs s p of None \<Rightarrow> [] | Some c \<Rightarrow> contents (mSendBuffer c))"

lemma broadcast_loop:
  assumes "distinct ps" and "\<forall>p\<in>set ps. can_take s pkt p"
  shows "\<exists>s'. GLM_Broadcast_loop e pkt ps s = Ok s' \<and>
    mPlayerSessions s' = mPlayerSessions s \<and> mClientList s' = mClientList s \<and> world s' = world s \<and>
    (\<forall>p. outgoing s' p = outgoing s p @ (if p \<in> set ps then pkt else []))"
  using assms
proof (induction ps arbitrary: s)
  case (Cons p ps)
  then obtain c where c: "objs s p = Some c" "mConnected c" "length pkt \<le> room (mSendBuffer c)" "cb_inv (mSendBuffer c)"
    by (auto simp: can_take_def)
  obtain sb where sb: "CS_SendRequest e p pkt s = Ok (True, upd_obj p (\<lambda>c. c\<lparr>mSendBuffer := sb\<rparr>) s)"
      "cb_inv sb" "contents sb = contents (mSendBuffer c) @ pkt"
    using send_room [OF c] by blast
  define s1 where "s1 = upd_obj p (\<lambda>c. c\<lparr>mSendBuffer := sb\<rparr>) s"
  have ct: "\<forall>q\<in>set ps. can_take s1 pkt q" "distinct ps"
    using Cons.prems by (auto simp: s1_def can_take_def)
  obtain s' where s': "GLM_Broadcast_loop e pkt ps s1 = Ok s'"
      "mPlayerSessions s' = mPlayerSessions s1" "mClientList s' = mClientList s1" "world s' = world s1"
      "\<And>q. outgoing s' q = outgoing s1 q @ (if q \<in> set ps then pkt else [])"
    using Cons.IH [OF ct(2,1)] by blast
  have "outgoing s1 q = outgoing s q @ (if q = p then pkt else [])" for q
    using c(1) sb(3) by (simp add: s1_def outgoing_def)
  with s'(5) Cons.prems(1) have "\<forall>q. outgoing s' q = outgoing s q @ (if q \<in> set (p # ps) then pkt else [])"
    by auto
  moreover have "GLM_Broadcast_loop e pkt (p # ps) s = Ok s'"
    using sb(1) s'(1) by (simp add: s1_def del: bnd_eq_Ok)
  moreover have "mPlayerSessions s' = mPlayerSessions s" "mClientList s' = mClientList s" "world s' = world s"
    using s'(2-4) by (simp_all add: s1_def)
  ultimately show ?case by blast
qed simp

text \<open>C17. A broadcast to players that are connected and have room appends the packet exactly once
  to each player's send buffer, to no other session's, and changes nothing else.\<close>

theorem BroadcastMessage_delivers:
  assumes "good s" and "distinct (mPlayerSessions s)" and "\<forall>p\<in>set (mPlayerSessions s). can_take s pkt p"
  shows "\<exists>s'. GLM_BroadcastMessage e pkt s = Ok s' \<and> good s' \<and>
    mPlayerSessions s' = mPlayerSessions s \<and> world s' = world s \<and>
    (\<forall>p. outgoing s' p = outgoing s p @ (if p \<in> set (mPlayerSessions s) then pkt else []))"
  using broadcast_loop [OF assms(2,3), of e] BroadcastMessage_safe [of e pkt s] assms(1)
  by (auto simp: GLM_BroadcastMessage_def dest: frames_good)

lemma BroadcastMessage_delivers_witness:
  "\<exists>s'. GLM_BroadcastMessage quiet_env [1, 2] ((one_client [] [])\<lparr>mPlayerSessions := [0]\<rparr>) = Ok s' \<and>
     outgoing s' 0 = [1, 2]"
proof -
  let ?s = "(one_client [] ([]::byte list))\<lparr>mPlayerSessions := [0]\<rparr>"
  have o: "objs ?s 0 = Some (client_with [])" "good ?s" using one_client_spec [of "[]"] by simp_all
  have sb: "mSendBuffer (client_with []) = CircularBuffer_new BUFSIZE []" "mConnected (client_with [])"
    by (simp_all add: client_with_def ClientSession_new_def)
  have "2 \<le> BUFSIZE" by (simp add: BUFSIZE_def)
  then have "can_take ?s [1, 2] 0"
    using o(1) sb new_buffer by (simp add: can_take_def)
  with BroadcastMessage_delivers [of ?s "[1, 2]" quiet_env] o sb(1) new_buffer(2) show ?thesis
    by (auto simp: outgoing_def)
qed

section \<open>The scheduler\<close>

text \<open>The job that a session's tick schedules.\<close>

fun next_tick :: "store \<Rightarrow> int \<Rightarrow> task \<Rightarrow> task JobElement list" where
  "next_tick m now (TaskOnTick sid) =
     (case m sid of None \<Rightarrow> []
      | Some c \<Rightarrow> if mConnected c
                  then [\<lparr>mOwner = sid, mTask = TaskOnTick sid, mExecutionTick = now + int PLAYER_HEART_BEAT\<rparr>]
                  else [])"

lemma next_tick_later: "j \<in> set (next_tick m now t) \<Longrightarrow> now < mExecutionTick j"
  by (cases t) (auto simp: PLAYER_HEART_BEAT_def split: option.splits if_splits)

text \<open>What is left of the sessions when the queue of \<^verbatim>\<open>s\<close> has become that of \<^verbatim>\<open>s'\<close>: those whose last
  reference was their task are gone.\<close>

definition swept :: "'w server \<Rightarrow> 'w server \<Rightarrow> bool" where
  "swept s s' \<longleftrightarrow> mClientList s' = mClientList s \<and> mPlayerSessions s' = mPlayerSessions s \<and>
     (\<forall>sid. objs s' sid = (if sid \<in> mOwner ` set (mTaskQueue s) \<and> \<not> referenced sid s' then None else objs s sid))"

lemma release_fields [simp]:
  "mTaskQueue (CS_release e sid s) = mTaskQueue s" "mClientList (CS_release e sid s) = mClientList s"
  "mPlayerSessions (CS_release e sid s) = mPlayerSessions s" "mCurrentTick (CS_release e sid s) = mCurrentTick s"
  "objs (CS_release e sid s) = (if referenced sid s then objs s else (objs s)(sid := None))"
  by (auto simp: CS_release_def Let_def do_sys_def split: option.splits prod.splits)

lemma pop_fields [simp]:
  "mTaskQueue (Scheduler_pop e q s) = q" "mClientList (Scheduler_pop e q s) = mClientList s"
  "mPlayerSessions (Scheduler_pop e q s) = mPlayerSessions s" "mCurrentTick (Scheduler_pop e q s) = mCurrentTick s"
  by (simp_all add: Scheduler_pop_def split: option.splits)

text \<open>In the middle of a pass: everything in the queue is a tick of a session that the queue held at the start.\<close>

definition ticking :: "int \<Rightarrow> 'w server \<Rightarrow> 'w server \<Rightarrow> bool" where
  "ticking now s s' \<longleftrightarrow> swept s s' \<and> mCurrentTick s' = now \<and> (\<forall>j\<in>set (mTaskQueue s').
     mTask j = TaskOnTick (mOwner j) \<and> objs s (mOwner j) \<noteq> None \<and> mOwner j \<in> mOwner ` set (mTaskQueue s))"

lemma swept_release:
  assumes "swept s s'" and "sid \<in> mOwner ` set (mTaskQueue s)" and "objs s' sid \<noteq> None"
    and others: "\<And>t. t \<noteq> sid \<Longrightarrow> t \<in> mOwner ` set q \<longleftrightarrow> t \<in> mOwner ` set (mTaskQueue s')"
  shows "swept s (CS_release e sid (s'\<lparr>mTaskQueue := q\<rparr>))"
proof -
  have ref: "referenced t (CS_release e u v) = referenced t v" for t u and v :: "'a server"
    by (simp add: referenced_def)
  have "referenced t (s'\<lparr>mTaskQueue := q\<rparr>) = referenced t s'" if "t \<noteq> sid" for t
    using others [OF that] by (simp add: referenced_def)
  with assms(1-3) have "objs (CS_release e sid (s'\<lparr>mTaskQueue := q\<rparr>)) t = (if t \<in> mOwner ` set (mTaskQueue s) \<and>
      \<not> referenced t (s'\<lparr>mTaskQueue := q\<rparr>) then None else objs s t)" for t
    by (cases "t = sid") (auto simp: swept_def split: if_splits)
  with assms(1) show ?thesis by (simp add: swept_def ref)
qed

lemma tick_step:
  assumes I: "ticking now s s'" and inv: "pq_inv (mTaskQueue s')" and x: "x \<in># mset (mTaskQueue s')"
    and top: "pq_top (mTaskQueue s') = Some x" "mExecutionTick x \<le> now"
  defines "f \<equiv> next_tick (objs s) now (mTask x)"
  shows "\<exists>s''. run_task e (mTask x) s' = Ok s'' \<and> mTaskQueue s'' = fold pq_push f (mTaskQueue s') \<and>
    (mset (pq_pop (mTaskQueue s'')) = mset f + (mset (mTaskQueue s') - {#x#}) \<longrightarrow>
     ticking now s (Scheduler_pop e (pq_pop (mTaskQueue s'')) s''))"
proof -
  let ?o = "mOwner x" and ?s1 = "s'\<lparr>mTaskQueue := fold pq_push f (mTaskQueue s')\<rparr>"
  let ?q = "pq_pop (mTaskQueue ?s1)"
  have o: "mTask x = TaskOnTick ?o" "?o \<in> mOwner ` set (mTaskQueue s)" "objs s ?o \<noteq> None"
    using I x by (auto simp: ticking_def)
  have "referenced ?o s'" using x by (auto simp: referenced_def)
  with I o(3) obtain c where c: "objs s' ?o = Some c" "objs s ?o = Some c" by (auto simp: ticking_def swept_def)
  have run: "run_task e (mTask x) s' = Ok ?s1"
    using I c o(1) by (auto simp: ticking_def f_def CS_OnTick_def with_obj_def Scheduler_PushTask_def push_after_def add.commute)
  have "pq_top (mTaskQueue ?s1) = Some x"
    using pq.push_many [OF inv top(1) _ top(2), of f] next_tick_later by (auto simp: f_def)
  then have pop: "Scheduler_pop e ?q ?s1 = CS_release e ?o (s'\<lparr>mTaskQueue := ?q\<rparr>)" by (simp add: Scheduler_pop_def)
  have "f = (if mConnected c then [\<lparr>mOwner = ?o, mTask = TaskOnTick ?o, mExecutionTick = now + int PLAYER_HEART_BEAT\<rparr>] else [])"
    unfolding f_def by (subst o(1)) (simp add: c(2))
  then have mine: "mOwner j = ?o \<and> mTask j = TaskOnTick ?o" if "j \<in> set f" for j
    using that by (cases "mConnected c") simp_all
  have "ticking now s (Scheduler_pop e ?q ?s1)" if q: "mset ?q = mset f + (mset (mTaskQueue s') - {#x#})"
  proof -
    have sub: "j \<in> set f \<or> j \<in> set (mTaskQueue s')" if "j \<in> set ?q" for j
    proof -
      from that have "j \<in># mset f + (mset (mTaskQueue s') - {#x#})" by (simp flip: q)
      then show ?thesis by (auto dest: in_diffD)
    qed
    have sup: "j \<in> set ?q" if "j \<in> set (mTaskQueue s')" "j \<noteq> x" for j
    proof -
      from that have "j \<in># mset (mTaskQueue s') - {#x#}" by (simp add: in_diff_count)
      then have "j \<in># mset ?q" unfolding q by simp
      then show ?thesis by simp
    qed
    have "swept s (CS_release e ?o (s'\<lparr>mTaskQueue := ?q\<rparr>))"
    proof (rule swept_release)
      show "t \<in> mOwner ` set ?q \<longleftrightarrow> t \<in> mOwner ` set (mTaskQueue s')" if "t \<noteq> ?o" for t
        using that mine sub sup by (auto simp: image_iff)
    qed (use I o c in \<open>simp_all add: ticking_def\<close>)
    moreover have "mTask j = TaskOnTick (mOwner j) \<and> objs s (mOwner j) \<noteq> None \<and> mOwner j \<in> mOwner ` set (mTaskQueue s)"
      if "j \<in> set ?q" for j using sub [OF that] mine I o by (auto simp: ticking_def)
    ultimately show ?thesis using I unfolding pop by (simp add: ticking_def)
  qed
  with run show ?thesis by (intro exI [of _ ?s1]) simp
qed

text \<open>C19. \<^verbatim>\<open>DoTasks\<close> terminates without a fault, and its run is that of the due tasks, once each and
  one after the other in the order of their ticks. It keeps every task that is not due, schedules one next tick for
  each due session that is still connected, and destroys exactly the sessions whose last reference was a task it ran.\<close>

theorem DoTasks_runs_due_tasks:
  assumes "pq_inv (mTaskQueue s)" and "now = now_ms e (world s) - mBeginTickPoint s"
    and "\<forall>j\<in>set (mTaskQueue s). mTask j = TaskOnTick (mOwner j) \<and> objs s (mOwner j) \<noteq> None"
  shows "\<exists>s' jobs. Scheduler_DoTasks e s = Some (Ok s') \<and>
    mset jobs = due now (mset (mTaskQueue s)) \<and> sorted (map mExecutionTick jobs) \<and>
    run_list (\<lambda>s. Scheduler_pop e (pq_pop (mTaskQueue s)) s) (run_task e) (map mTask jobs) (s\<lparr>mCurrentTick := now\<rparr>) = Ok s' \<and>
    mset (mTaskQueue s') = pending now (mset (mTaskQueue s)) +
      mset (concat (map (next_tick (objs s) now \<circ> mTask) jobs)) \<and>
    pq_inv (mTaskQueue s') \<and> swept s s'"
proof -
  let ?s0 = "s\<lparr>mCurrentTick := now\<rparr>"
  have "\<exists>s' jobs. run_due mTaskQueue (Scheduler_pop e) pq_top pq_pop (run_task e) now ?s0 = Some (Ok s') \<and>
     run_list (\<lambda>s. Scheduler_pop e (pq_pop (mTaskQueue s)) s) (run_task e) (map mTask jobs) ?s0 = Ok s' \<and>
     mset jobs = due now (mset (mTaskQueue ?s0)) \<and> sorted (map mExecutionTick jobs) \<and>
     mset (mTaskQueue s') = pending now (mset (mTaskQueue ?s0)) +
       mset (concat (map (next_tick (objs s) now \<circ> mTask) jobs)) \<and>
     pq_inv (mTaskQueue s') \<and> ticking now s s'"
  proof (rule pq.run_due_spec [where I = "ticking now s" and follow = "next_tick (objs s) now"])
    show "ticking now s ?s0" using assms(3) by (auto simp: ticking_def swept_def referenced_def)
  qed (simp_all only: pop_fields, simp add: assms(1), rule tick_step, assumption+, erule next_tick_later)
  then show ?thesis by (auto simp: Scheduler_DoTasks_def Let_def assms(2) ticking_def)
qed

text \<open>Of two due sessions the second is connected and ticks again; the first, whose client has left, is destroyed.\<close>

lemma DoTasks_runs_due_tasks_witness:
  "\<exists>s' (jobs :: task JobElement list). Scheduler_DoTasks quiet_env ((one_client [] [])
       \<lparr>objs := [0 \<mapsto> client_with [], 1 \<mapsto> ClientSession_new 6], mBeginTickPoint := - 10, mTaskQueue :=
          [\<lparr>mOwner = 1, mTask = TaskOnTick 1, mExecutionTick = 3\<rparr>, \<lparr>mOwner = 0, mTask = TaskOnTick 0, mExecutionTick = 7\<rparr>]\<rparr>) = Some (Ok s') \<and>
     map mExecutionTick jobs = [3, 7] \<and> length (mTaskQueue s') = 1 \<and> objs s' 1 = None \<and> objs s' 0 = Some (client_with [])"
proof -
  let ?j1 = "\<lparr>mOwner = 1, mTask = TaskOnTick 1, mExecutionTick = 3\<rparr>" and ?j0 = "\<lparr>mOwner = 0, mTask = TaskOnTick 0, mExecutionTick = 7\<rparr>"
  let ?s = "(one_client [] ([]::byte list))\<lparr>objs := [0 \<mapsto> client_with [], 1 \<mapsto> ClientSession_new 6], mBeginTickPoint := - 10,
    mTaskQueue := [?j1, ?j0]\<rparr>"
  have q: "pq_inv (mTaskQueue ?s)" "10 = now_ms quiet_env (world ?s) - mBeginTickPoint ?s"
      "\<forall>j\<in>set (mTaskQueue ?s). mTask j = TaskOnTick (mOwner j) \<and> objs ?s (mOwner j) \<noteq> None"
    by (simp_all add: pq_inv_def one_client_def quiet_env_def)
  have d: "due 10 (mset (mTaskQueue ?s)) = {#?j1, ?j0#}" "pending 10 (mset (mTaskQueue ?s)) = {#}"
    by (simp_all add: due_def pending_def)
  obtain s' jobs where r: "Scheduler_DoTasks quiet_env ?s = Some (Ok s')"
    "mset jobs = {#?j1, ?j0#}" "sorted (map mExecutionTick jobs)"
    "mset (mTaskQueue s') = mset (concat (map (next_tick (objs ?s) 10 \<circ> mTask) jobs))" "swept ?s s'"
    using DoTasks_runs_due_tasks [OF q] by (elim exE conjE) (rule that, simp_all only: d add_0)
  have "mset (map mExecutionTick jobs) = mset [3, 7]" using r(2) by simp
  from properties_for_sort [OF this r(3)] have ticks: "map mExecutionTick jobs = [3, 7]" by simp
  have "mset (mTaskQueue s') = \<Sum>\<^sub># (image_mset (mset \<circ> next_tick (objs ?s) 10 \<circ> mTask) (mset jobs))"
    unfolding r(4) by (simp add: mset_concat comp_def flip: sum_mset_sum_list)
  also have "\<dots> = {#\<lparr>mOwner = 0, mTask = TaskOnTick 0, mExecutionTick = 10 + int PLAYER_HEART_BEAT\<rparr>#}"
    using one_client_spec(5) [of "[]"] unfolding r(2) by (simp add: ClientSession_new_def)
  finally have queue: "mTaskQueue s' = [\<lparr>mOwner = 0, mTask = TaskOnTick 0, mExecutionTick = 10 + int PLAYER_HEART_BEAT\<rparr>]"
    by simp
  have "mClientList s' = [(5, 0)]" "mPlayerSessions s' = []" using r(5) by (simp_all add: swept_def one_client_def)
  then have "objs s' 1 = None \<and> objs s' 0 = Some (client_with [])"
    using r(5) by (simp add: swept_def referenced_def queue)
  moreover have "length (mTaskQueue s') = 1" by (simp add: queue)
  ultimately show ?thesis using r(1) ticks by (intro exI conjI) (assumption | elim conjE)+
qed

end
