(* ===== verification/LinuxInvariant.thy ===== *)
theory LinuxInvariant
  imports LinuxSend
begin

text \<open>
  The Linux server as a whole: a well-formedness invariant of its state that \<^verbatim>\<open>main\<close>
  establishes and every turn of the event loop keeps. The client list and the player set are ordered
  and without duplicates, everything they and the timer refer to is alive, a client is listed under its own
  socket, and every circular buffer is in its invariant.
\<close>

section \<open>The invariant\<close>

definition players_ok :: "nat list \<Rightarrow> bool" where
  "players_ok ps \<longleftrightarrow> sorted ps \<and> distinct ps"

definition server_ok :: "'w server \<Rightarrow> bool" where
  "server_ok s \<longleftrightarrow> good s \<and> sorted_wrt (<) (map fst (mClientList s)) \<and>
     (\<forall>fd sid. (fd, sid) \<in> set (mClientList s) \<longrightarrow> map_option mSocket (objs s sid) = Some fd) \<and>
     players_ok (mPlayerSessions s) \<and> (\<forall>sid\<in>set (mPlayerSessions s). objs s sid \<noteq> None) \<and>
     pq_inv (mTaskQueue s) \<and>
     (\<forall>j\<in>set (mTaskQueue s). mTask j = TaskOnTick (mOwner j) \<and> objs s (mOwner j) \<noteq> None) \<and>
     (\<forall>sid\<ge>next_obj s. objs s sid = None)"

lemma wf_fields [simp]:
  "server_ok (s\<lparr>world := w\<rparr>) = server_ok s" "server_ok (s\<lparr>GConsoleLog := l\<rparr>) = server_ok s"
  "server_ok (s\<lparr>mCurrentTick := t\<rparr>) = server_ok s" "server_ok (s\<lparr>mListenSocket := fd\<rparr>) = server_ok s"
  "server_ok (s\<lparr>mEpollFd := fd\<rparr>) = server_ok s" "server_ok (s\<lparr>mActivated := b\<rparr>) = server_ok s"
  "server_ok (s\<lparr>mAcceptedCount := n\<rparr>) = server_ok s" "server_ok (s\<lparr>mRemovedCount := n\<rparr>) = server_ok s"
  by (simp_all add: server_ok_def)

lemma wf_calls [simp]:
  "server_ok (snd (do_sys e c s)) = server_ok s" "server_ok (snd (do_sdk e d s)) = server_ok s"
  by (simp_all add: do_sys_def do_sdk_def split: prod.splits)

section \<open>What an operation on a session may change\<close>

text \<open>The registers of the server: an operation on session \<^verbatim>\<open>i\<close> only takes clients and
  players out, but for \<^verbatim>\<open>i\<close>, which may become a player.\<close>

definition regs :: "nat \<Rightarrow> 'w server \<Rightarrow> 'w server \<Rightarrow> bool" where
  "regs i s s' \<longleftrightarrow> next_obj s' = next_obj s \<and> mTaskQueue s' = mTaskQueue s \<and>
     (\<exists>P. mClientList s' = filter P (mClientList s)) \<and>
     (players_ok (mPlayerSessions s) \<longrightarrow> players_ok (mPlayerSessions s')) \<and>
     set (mPlayerSessions s') \<subseteq> insert i (set (mPlayerSessions s))"

lemma regs_refl [simp]: "regs i s s"
  by (auto simp: regs_def intro: exI [of _ "\<lambda>_. True"])

lemma regs_trans [trans]:
  assumes "regs i s s'" and "regs i s' s''"
  shows "regs i s s''"
proof -
  from assms obtain P Q where "mClientList s' = filter P (mClientList s)" "mClientList s'' = filter Q (mClientList s')"
    by (auto simp: regs_def)
  then have "mClientList s'' = filter (\<lambda>x. P x \<and> Q x) (mClientList s)" by simp
  with assms show ?thesis unfolding regs_def by (metis insert_subset order_trans subset_insertI insert_absorb2 insert_mono)
qed

lemma regs_fields [simp]:
  "regs i s (s'\<lparr>world := w\<rparr>) = regs i s s'" "regs i s (s'\<lparr>GConsoleLog := l\<rparr>) = regs i s s'"
  "regs i s (s'\<lparr>mActivated := b\<rparr>) = regs i s s'" "regs i s (s'\<lparr>mAcceptedCount := n\<rparr>) = regs i s s'"
  "regs i s (s'\<lparr>mRemovedCount := n\<rparr>) = regs i s s'" "regs i s (upd_obj sid f s') = regs i s s'"
  by (simp_all add: regs_def)

lemma regs_calls [simp]:
  "regs i s (snd (do_sys e c s')) = regs i s s'" "regs i s (snd (do_sdk e d s')) = regs i s s'"
  by (simp_all add: do_sys_def do_sdk_def split: prod.splits)

lemma regs_from [simp]: "regs i (upd_obj sid f s) s' = regs i s s'" "regs i (snd (do_sys e c s)) s' = regs i s s'"
  by (simp_all add: regs_def do_sys_def split: prod.splits)

lemma next_obj_calls [simp]: "next_obj (snd (do_sys e c s)) = next_obj s" "next_obj (snd (do_sdk e d s)) = next_obj s"
  by (simp_all add: do_sys_def do_sdk_def split: prod.splits)

lemma print_out_regs: "print_out t s = Ok s' \<Longrightarrow> regs i s s'"
  by (auto simp: print_out_Ok)

lemma CheckTerminate_regs: "GLM_CheckTerminateGameSession e s = Ok s' \<Longrightarrow> regs i s s'"
  by (auto simp: GLM_CheckTerminateGameSession_def Let_def print_out_Ok split: if_splits)

lemma players_less: "regs i s (s'\<lparr>mPlayerSessions := filter P ps\<rparr>)" if "regs i s s'" "mPlayerSessions s' = ps"
  using that by (auto simp: regs_def players_ok_def intro: sorted_filter [of id, simplified])

lemma Remove_regs:
  assumes "GLM_RemovePlayerSession e p x s = Ok s'"
  shows "regs i s s'"
proof -
  from assms obtain s1 where "GLM_CheckTerminateGameSession e s1 = Ok s'" "regs i s s1"
    by (auto simp: GLM_RemovePlayerSession_def case_prod_beta print_out_Ok split: if_splits)
      (metis players_less regs_calls(2) regs_fields(5) regs_refl do_sdk_other(3))
  then show ?thesis by (blast intro: regs_trans CheckTerminate_regs)
qed

lemma Accept_regs: "GLM_AcceptPlayerSession e i x s = Ok (b, s') \<Longrightarrow> regs i s s'"
  by (auto simp: GLM_AcceptPlayerSession_def case_prod_beta print_out_Ok split: if_splits)
    (auto simp: regs_def players_ok_def set_insort_insert sorted_insort_insert distinct_insort_insert
      intro: exI [of _ "\<lambda>_. True"])

lemma clients_less: "regs i s (s'\<lparr>mClientList := map_erase k (mClientList s')\<rparr>)" if "regs i s s'"
proof -
  have "regs i s' (s'\<lparr>mClientList := map_erase k (mClientList s')\<rparr>)"
    by (auto simp: regs_def map_erase_def)
  with that show ?thesis by (rule regs_trans)
qed

lemma DeleteClient_regs: "CM_DeleteClient e p s = Ok s' \<Longrightarrow> regs i s s'"
  by (auto simp: CM_DeleteClient_def with_obj_def Let_def split: option.splits
      intro!: clients_less [of i s "snd (do_sys e c s)" for c, simplified])

lemma OnDisconnect_regs: "CS_OnDisconnect e p s = Ok s' \<Longrightarrow> regs i s s'"
  by (auto simp: CS_OnDisconnect_def with_obj_def dest!: Remove_regs [where i = i] split: option.splits if_splits)

lemma Disconnect_regs:
  assumes "CS_Disconnect e p s = Ok s'"
  shows "regs i s s'"
proof -
  from assms obtain c where c: "objs s p = Some c"
    by (auto simp: CS_Disconnect_def with_obj_def split: option.splits)
  let ?s1 = "snd (do_sys e (SysLinger (mSocket c)) s)"
  consider "s' = s" | l where "s' = ?s1\<lparr>GConsoleLog := l\<rparr>"
    | s2 t s3 where "CS_OnDisconnect e p (upd_obj p (\<lambda>c. c\<lparr>mConnected := False\<rparr>) ?s1) = Ok s2"
        "print_out t s2 = Ok s3" "CM_DeleteClient e p s3 = Ok s'"
  proof (cases "\<not> mConnected c \<or> fst (do_sys e (SysLinger (mSocket c)) s) < 0")
    case True
    with assms c that(1,2) show ?thesis
      by (auto simp: CS_Disconnect_def with_obj_def case_prod_beta print_out_Ok split: if_splits)
  next
    case False
    with assms c that(3) show ?thesis
      by (auto simp: CS_Disconnect_def with_obj_def case_prod_beta split: if_splits)
  qed
  then show ?thesis
  proof cases
    case 3
    note OnDisconnect_regs [OF 3(1), of i]
    also note print_out_regs [OF 3(2)]
    also note DeleteClient_regs [OF 3(3)]
    finally show ?thesis by simp
  qed simp_all
qed

lemma SendRequest_regs: "CS_SendRequest e p pkt s = Ok (b, s') \<Longrightarrow> regs i s s'"
  by (auto simp: CS_SendRequest_def with_obj_def Let_def split: option.splits if_splits
      dest!: Disconnect_regs [where i = i])

lemma Broadcast_regs: "GLM_Broadcast_loop e pkt ps s = Ok s' \<Longrightarrow> regs i s s'"
proof (induction ps arbitrary: s)
  case (Cons p ps)
  then show ?case
    by (auto split: if_splits dest!: SendRequest_regs [where i = i] Disconnect_regs [where i = i])
      (blast intro: regs_trans)+
qed simp

lemma PlayerLogin_regs:
  assumes "CS_PlayerLogin e i pid s = Ok s'"
  shows "regs i s s'"
proof -
  from assms obtain acc s1 where s1: "GLM_AcceptPlayerSession e i pid s = Ok (acc, s1)"
    by (auto simp: CS_PlayerLogin_def)
  have "regs i s1 s'"
    using assms s1
    by (auto simp: CS_PlayerLogin_def split: if_splits
        dest!: SendRequest_regs [where i = i] Disconnect_regs [where i = i] print_out_regs [where i = i])
      (blast intro: regs_trans)+
  with Accept_regs [OF s1] show ?thesis by (rule regs_trans)
qed

lemma PlayerLogout_regs:
  assumes "CS_PlayerLogout e p pid s = Ok s'"
  shows "regs i s s'"
  using assms
  by (auto simp: CS_PlayerLogout_def dest!: Remove_regs [where i = i] Disconnect_regs [where i = i]
      print_out_regs [where i = i]) (metis regs_from(1) regs_trans)

section \<open>Serving a client\<close>

text \<open>With the receive buffers, which serving changes too.\<close>

definition stays :: "nat \<Rightarrow> 'w server \<Rightarrow> 'w server \<Rightarrow> bool" where
  "stays i s s' \<longleftrightarrow> regs i s s' \<and> (\<forall>sid. map_option mSocket (objs s' sid) = map_option mSocket (objs s sid)) \<and>
     (good s \<longrightarrow> good s')"

lemma stays_refl [simp]: "stays i s s"
  by (simp add: stays_def)

lemma stays_trans [trans]: "stays i s s' \<Longrightarrow> stays i s' s'' \<Longrightarrow> stays i s s''"
  by (auto simp: stays_def intro: regs_trans)

lemma staysI: "regs i s s' \<Longrightarrow> safe s s' \<Longrightarrow> stays i s s'"
proof -
  assume r: "regs i s s'" and f: "safe s s'"
  have "map_option mSocket (objs s' sid) = map_option mSocket (objs s sid)" for sid
    using f unfolding frames_def
    by (cases "objs s sid"; cases "objs s' sid") (metis (no_types, lifting) option.map(1,2) option.distinct(1) option.inject prod.inject)+
  with r f show ?thesis by (auto simp: stays_def frames_def)
qed

lemma stays_upd:
  assumes "\<And>c. objs s sid = Some c \<Longrightarrow> mSocket (f c) = mSocket c \<and>
      (good s \<longrightarrow> cb_inv (mSendBuffer (f c)) \<and> cb_inv (mRecvBuffer (f c)))"
  shows "stays i s (upd_obj sid f s)"
  using assms by (cases "objs s sid") (auto simp: stays_def good_objs_def)

lemma stays_fields [simp]:
  "stays i s (s'\<lparr>world := w\<rparr>) = stays i s s'" "stays i s (s'\<lparr>GConsoleLog := l\<rparr>) = stays i s s'"
  by (simp_all add: stays_def)

lemma wf_stays:
  assumes "server_ok s" and "stays i s s'" and "objs s i \<noteq> None"
  shows "server_ok s'"
proof -
  from assms(2) obtain P where P: "mClientList s' = filter P (mClientList s)" by (auto simp: stays_def regs_def)
  have dom: "objs s' sid \<noteq> None \<longleftrightarrow> objs s sid \<noteq> None" for sid
    using assms(2) unfolding stays_def by (metis option.map_disc_iff)
  have "sorted_wrt (<) (map fst (filter P (mClientList s)))"
    using assms(1) by (auto simp: server_ok_def sorted_wrt_map intro: sorted_wrt_filter)
  moreover have "map_option mSocket (objs s' sid) = Some fd" if "(fd, sid) \<in> set (mClientList s')" for fd sid
    using that assms(1,2) by (auto simp: P server_ok_def stays_def)
  moreover have "objs s' sid \<noteq> None" if "sid \<in> set (mPlayerSessions s')" for sid
  proof -
    from that assms(2) have "sid \<in> insert i (set (mPlayerSessions s))" by (auto simp: stays_def regs_def)
    with assms(1,3) have "objs s sid \<noteq> None" by (auto simp: server_ok_def)
    with dom [of sid] show ?thesis by blast
  qed
  moreover have "objs s' sid = None" if "sid \<ge> next_obj s'" for sid
    using that assms(1,2) dom [of sid] by (auto simp: server_ok_def stays_def regs_def)
  ultimately show ?thesis using assms(1,2) dom
    unfolding server_ok_def by (simp add: P stays_def regs_def)
qed

lemma stays_start:
  assumes "stays i s s1" and "good s" and "good s1 \<Longrightarrow> stays i s1 s2"
  shows "stays i s s2"
  using assms by (auto simp: stays_def intro: regs_trans)

lemma ParsePacket_stays:
  assumes "CS_ParsePacket n sid s = Ok (r, s1)" and "good s"
  shows "stays i s s1"
proof -
  from assms(1) obtain c b where c: "objs s sid = Some c" "Read n (mRecvBuffer c) = Ok (r, b)"
    "s1 = upd_obj sid (\<lambda>c. c\<lparr>mRecvBuffer := b\<rparr>) s"
    by (auto simp: CS_ParsePacket_def with_obj_def split: option.splits)
  have inv: "cb_inv (mRecvBuffer c)" using goodD [OF assms(2) c(1)] by simp
  have "cb_inv b"
    using cb.rd_ok [OF inv, of n] cb.rd_short [OF inv, of n] c(2) inv
    by (cases "n \<le> length (contents (mRecvBuffer c))") auto
  with c(1) assms(2) show ?thesis unfolding c(3)
    by (intro stays_upd) (auto dest: goodD)
qed

lemma BroadcastMessage_stays: "GLM_BroadcastMessage e pkt s = Ok s' \<Longrightarrow> good s \<Longrightarrow> stays i s s'"
  by (rule staysI) (simp_all add: GLM_BroadcastMessage_def Broadcast_regs BroadcastMessage_safe [unfolded GLM_BroadcastMessage_def])

lemma Disconnect_stays: "CS_Disconnect e p s = Ok s' \<Longrightarrow> stays i s s'"
  by (rule staysI [OF Disconnect_regs Disconnect_safe])

lemma handler_stays:
  assumes "HandlerTable e t sid s = Ok s'" and "good s"
  shows "stays sid s s'"
proof -
  have login: "stays sid s1 s'" if "CS_PlayerLogin e sid p s1 = Ok s'" "good s1" for p s1
    by (rule staysI [OF PlayerLogin_regs [OF that(1)] PlayerLogin_safe [OF that]])
  have logout: "stays sid s1 s'" if "CS_PlayerLogout e sid p s1 = Ok s'" for p s1
    by (rule staysI [OF PlayerLogout_regs [OF that] PlayerLogout_safe [OF that]])
  have print: "stays sid s1 s'" if "print_out x s1 = Ok s'" for x s1
    by (rule staysI [OF print_out_regs [OF that] print_out_safe [OF that]])
  have default: "stays sid s s'" if "DefaultHandler e sid s = Ok s'"
  proof -
    from that obtain s1 where "print_out (lit ''Invalid packet handler'') s = Ok s1" "CS_Disconnect e sid s1 = Ok s'"
      by (auto simp: DefaultHandler_def)
    then show ?thesis by (blast intro: stays_trans Disconnect_stays staysI print_out_regs print_out_safe)
  qed
  have parsed: "stays sid s s'" if "CS_ParsePacket n sid s = Ok (r, s1)" "good s1 \<Longrightarrow> stays sid s1 s'" for n r s1
    by (rule stays_start [OF ParsePacket_stays [OF that(1) assms(2)] assms(2) that(2)])
  consider "Handler_PKT_CS_LOGIN e sid s = Ok s'" | "Handler_PKT_CS_EXIT e sid s = Ok s'"
    | "Handler_PKT_CS_CHAT e sid s = Ok s'" | "Handler_PKT_CS_MOVE e sid s = Ok s'"
    | "DefaultHandler e sid s = Ok s'"
    using assms(1) by (auto simp: HandlerTable_def split: if_splits)
  then show ?thesis
  proof cases
    case 1
    then show ?thesis
      by (auto simp: Handler_PKT_CS_LOGIN_def split: option.splits intro: parsed login print)
  next
    case 2
    then show ?thesis
      by (auto simp: Handler_PKT_CS_EXIT_def split: option.splits intro: parsed logout print)
  next
    case 3
    then show ?thesis
      by (auto simp: Handler_PKT_CS_CHAT_def split: option.splits intro: parsed BroadcastMessage_stays print)
  next
    case 4
    then show ?thesis
      by (auto simp: Handler_PKT_CS_MOVE_def split: option.splits intro: parsed BroadcastMessage_stays print)
  qed (rule default)
qed

lemma DispatchPacket_stays:
  assumes "CS_DispatchPacket e sid s = Some r"
  shows "good s \<longrightarrow> (\<forall>s'. r = Ok s' \<longrightarrow> stays sid s s')"
  using assms
proof (induction rule: CS_DispatchPacket.raw_induct [rotated, consumes 1, case_names 1])
  case (1 f e sid s r)
  show ?case
  proof (intro impI allI)
    fix s' assume g: "good s" and r: "r = Ok s'"
    with 1(2) obtain c where c: "objs s sid = Some c" by (auto split: option.splits)
    let ?peek = "Peek sizeof_PacketHeader (mRecvBuffer c)"
    let ?bad = "\<lambda>h. sint (mType h) \<ge> sint (pkt_value PKT_MAX) \<or> sint (mType h) \<le> sint (pkt_value PKT_NONE)"
    let ?short = "\<lambda>h. GetStoredSize (mRecvBuffer c) < size_of_short (mSize h)"
    consider "s' = s" | s1 where "print_out (lit ''Invalid packet type\<newline>'') s = Ok s1" "CS_Disconnect e sid s1 = Ok s'"
      | h :: PacketHeader and s1 where "HandlerTable e (mType h) sid s = Ok s1" "f e sid s1 = Some (Ok s')"
    proof (cases "\<exists>hb. ?peek = Ok (Some hb)")
      case False
      with 1(2) c r have "s' = s" by (auto split: outcome.splits option.splits)
      then show ?thesis by (rule that(1))
    next
      case True
      then obtain hb where hb: "?peek = Ok (Some hb)" by blast
      show ?thesis
      proof (cases "?short (header_of hb) \<or> ?bad (header_of hb)")
        case True
        with 1(2) c r hb have "s' = s \<or> (\<exists>s1. print_out (lit ''Invalid packet type\<newline>'') s = Ok s1 \<and> CS_Disconnect e sid s1 = Ok s')"
          by (auto simp: Let_def split: if_splits)
        with that(1,2) show ?thesis by blast
      next
        case False
        with 1(2) c r hb obtain s1 where "HandlerTable e (mType (header_of hb)) sid s = Ok s1" "f e sid s1 = Some (Ok s')"
          by (auto simp: Let_def split: if_splits outcome.splits)
        then show ?thesis by (rule that(3))
      qed
    qed
    then show "stays sid s s'"
    proof cases
      case 2
      have "stays sid s s1" by (rule staysI [OF print_out_regs [OF 2(1)] print_out_safe [OF 2(1)]])
      with Disconnect_stays [OF 2(2)] show ?thesis by (blast intro: stays_trans)
    next
      case 3
      note h = handler_stays [OF 3(1) g]
      with g have "good s1" by (simp add: stays_def)
      with 1(1) [OF 3(2)] h show ?thesis by (blast intro: stays_trans)
    qed simp
  qed
qed

text \<open>What \<^verbatim>\<open>read\<close> is documented to do: it stores no more than it was offered.\<close>

definition reads_bounded :: "'w env \<Rightarrow> bool" where
  "reads_bounded e \<longleftrightarrow> (\<forall>fd n w d w'. sys_read e fd n w = (Got d, w') \<longrightarrow> length d \<le> n)"

text \<open>Whatever the order of the arguments: when the store does not overrun, the regions stay in their bounds.\<close>

lemma recv_store_sizes:
  assumes "cb_inv b" and "recv_args rtl b = (dst, n, b1)"
  shows "cb_inv b1" and "length d \<le> n \<Longrightarrow> recv_store dst d b1 = Ok b2 \<Longrightarrow> cb_inv b2"
proof -
  note sp = GetFreeSpaceSize_spec [OF assms(1)]
  have b1: "b1 = snd (GetFreeSpaceSize b)" "n = room b1" using assms(2) sp by (auto simp: recv_args_def case_prod_beta split: if_splits)
  with sp(2) show "cb_inv b1" by simp
  show "cb_inv b2" if "length d \<le> n" "recv_store dst d b1 = Ok b2"
  proof -
    have "GetBuffer b1 + n \<le> length (mBuffer b1)" using sp(5,6) b1 by simp
    with that \<open>cb_inv b1\<close> b1(2) show ?thesis
      by (cases "mBRegionPointer b1") (auto simp: recv_store_def mem_write_def Commit_def cb_inv_def room_def GetBuffer_def split: if_splits)
  qed
qed

lemma OnReceive_loop_stays:
  assumes "CS_OnReceive_loop e sid s = Some r"
  shows "reads_bounded e \<longrightarrow> good s \<longrightarrow> (\<forall>s'. r = Ok s' \<longrightarrow> stays sid s s')"
  using assms
proof (induction rule: CS_OnReceive_loop.raw_induct [rotated, consumes 1, case_names 1])
  case (1 f e sid s r)
  show ?case
  proof (intro impI allI)
    fix s' assume env: "reads_bounded e" and g: "good s" and r: "r = Ok s'"
    with 1(2) obtain c where c: "objs s sid = Some c" by (auto split: option.splits)
    obtain dst n b where a: "recv_args (args_rtl e) (mRecvBuffer c) = (dst, n, b)"
      by (cases "recv_args (args_rtl e) (mRecvBuffer c)")
    obtain rd w where rd: "sys_read e (mSocket c) n (world s) = (rd, w)" by force
    let ?s1 = "upd_obj sid (\<lambda>c. c\<lparr>mRecvBuffer := b\<rparr>) (s\<lparr>world := w\<rparr>)"
    have inv: "cb_inv (mRecvBuffer c)" "cb_inv (mSendBuffer c)" using goodD [OF g c] by auto
    note rs = recv_store_sizes [OF inv(1) a]
    have st: "stays sid s (upd_obj sid (\<lambda>c. c\<lparr>mRecvBuffer := b'\<rparr>) (s\<lparr>world := w\<rparr>))" if "cb_inv b'" for b'
    proof -
      have "stays sid (s\<lparr>world := w\<rparr>) (upd_obj sid (\<lambda>c. c\<lparr>mRecvBuffer := b'\<rparr>) (s\<lparr>world := w\<rparr>))"
        using c that inv(2) by (intro stays_upd) simp
      then show ?thesis by (rule stays_trans [rotated]) simp
    qed
    show "stays sid s s'"
    proof (cases rd)
      case ReadAgain
      with 1(2) c a rd r env have "s' = ?s1" by (simp add: Let_def)
      with st [OF rs(1)] show ?thesis by simp
    next
      case ReadError
      with 1(2) c a rd r env have "CS_Disconnect e sid ?s1 = Ok s'" by (simp add: Let_def)
      with st [OF rs(1)] show ?thesis by (blast intro: stays_trans Disconnect_stays)
    next
      case (Got d)
      from 1(2) c a rd r Got obtain b' where b': "recv_store dst d b = Ok b'" by (auto simp: Let_def split: outcome.splits)
      have "length d \<le> n" using env rd Got unfolding reads_bounded_def by metis
      note inv' = rs(2) [OF this b']
      let ?s2 = "upd_obj sid (\<lambda>c. c\<lparr>mRecvBuffer := b'\<rparr>) ?s1"
      from 1(2) c a rd r env Got b' obtain y where "CS_DispatchPacket e sid ?s2 = Some y"
        "(case y of Fault x \<Rightarrow> Some (Fault x) | Ok s3 \<Rightarrow> f e sid s3) = Some (Ok s')"
        by (auto simp: Let_def bind_eq_Some_conv)
      then obtain s3 where
        s3: "CS_DispatchPacket e sid ?s2 = Some (Ok s3)" "f e sid s3 = Some (Ok s')"
        by (cases y) auto
      have 2: "stays sid s ?s2" using st [OF inv'] by (simp add: recv_buffer_twice)
      with g have "good ?s2" by (simp add: stays_def)
      with DispatchPacket_stays [OF s3(1)] 2 have 3: "stays sid s s3" by (blast intro: stays_trans)
      with g have "good s3" by (simp add: stays_def)
      with 1(1) [OF s3(2)] env 3 show ?thesis by (blast intro: stays_trans)
    qed
  qed
qed

lemma SendFlush_loop_stays:
  assumes "CS_SendFlush_loop e sid s = Some r"
  shows "good s \<longrightarrow> (\<forall>b s'. r = Ok (b, s') \<longrightarrow> stays sid s s')"
  using assms
proof (induction rule: CS_SendFlush_loop.raw_induct [rotated, consumes 1, case_names 1])
  case (1 f e sid s r)
  show ?case
  proof (intro impI allI)
    fix b s' assume g: "good s" and r: "r = Ok (b, s')"
    with 1(2) obtain c where c: "objs s sid = Some c" by (auto split: option.splits)
    have inv: "cb_inv (mRecvBuffer c)" "cb_inv (mSendBuffer c)" using goodD [OF g c] by auto
    show "stays sid s s'"
    proof (cases "GetContiguiousBytes (mSendBuffer c) = 0")
      case True
      with 1(2) c r show ?thesis by simp
    next
      case False
      with 1(2) c r obtain data where data: "front (GetContiguiousBytes (mSendBuffer c)) (mSendBuffer c) = Ok data"
        by (auto split: outcome.splits)
      obtain wr w where wr: "sys_write e (mSocket c) data (world s) = (wr, w)" by force
      show ?thesis
      proof (cases wr)
        case (Sent n)
        obtain q where q: "Remove n (mSendBuffer c) = Ok q" "cb_inv q" using cb.rm_ok [OF inv(2), of n] by blast
        let ?s1 = "upd_obj sid (\<lambda>c. c\<lparr>mSendBuffer := q\<rparr>) (s\<lparr>world := w\<rparr>)"
        have "stays sid (s\<lparr>world := w\<rparr>) ?s1" using c q(2) inv(1) by (intro stays_upd) simp
        then have 2: "stays sid s ?s1" by (rule stays_trans [rotated]) simp
        with g have "good ?s1" by (simp add: stays_def)
        moreover have "f e sid ?s1 = Some (Ok (b, s'))" using 1(2) c r False data wr Sent q(1) by simp
        ultimately show ?thesis using 1(1) 2 by (blast intro: stays_trans)
      qed (use 1(2) c r False data wr in auto)
    qed
  qed
qed

section \<open>The event loop\<close>

lemma wf_good: "server_ok s \<Longrightarrow> good s"
  by (simp add: server_ok_def)

lemma wf_client: "server_ok s \<Longrightarrow> (fd, sid) \<in> set (mClientList s) \<Longrightarrow> objs s sid \<noteq> None"
  unfolding server_ok_def by (metis option.map_disc_iff option.distinct(1))

lemma map_insert_set: "x \<in> set (map_insert k v m) \<Longrightarrow> x = (k, v) \<or> x \<in> set m"
  by (induction k v m rule: map_insert.induct) (auto split: if_splits)

lemma map_insert_sorted: "sorted_wrt (<) (map fst m) \<Longrightarrow> sorted_wrt (<) (map fst (map_insert k v m))"
proof (induction m)
  case (Cons x m)
  have "fst y = k \<or> y \<in> set m" if "y \<in> set (map_insert k v m)" for y
    using map_insert_set [OF that] by auto
  with Cons show ?case by (cases x) fastforce
qed simp

lemma CreateClient_wf:
  assumes "server_ok s"
  shows "server_ok (snd (CM_CreateClient sock s))" and "objs (snd (CM_CreateClient sock s)) (fst (CM_CreateClient sock s)) \<noteq> None"
proof -
  let ?s' = "snd (CM_CreateClient sock s)"
  have srt: "sorted_wrt (<) (map fst (mClientList s))" using assms by (simp add: server_ok_def)
  note m = map_insert_sorted [OF srt, of sock "next_obj s"]
  have o: "objs ?s' = (objs s)(next_obj s \<mapsto> ClientSession_new sock)" "next_obj ?s' = next_obj s + 1"
    "mClientList ?s' = map_insert sock (next_obj s) (mClientList s)" "mPlayerSessions ?s' = mPlayerSessions s"
    "mTaskQueue ?s' = mTaskQueue s" by (simp_all add: CM_CreateClient_def Let_def)
  have "cb_inv (CircularBuffer_new BUFSIZE [])" by (rule new_buffer)
  then have "good ?s'" using assms by (auto simp: server_ok_def good_objs_def o ClientSession_new_def)
  moreover have "map_option mSocket (objs ?s' sid) = Some fd" if "(fd, sid) \<in> set (mClientList ?s')" for fd sid
  proof -
    from that have "(fd, sid) = (sock, next_obj s) \<or> (fd, sid) \<in> set (mClientList s)"
      unfolding o by (rule map_insert_set)
    then show ?thesis
    proof
      assume "(fd, sid) \<in> set (mClientList s)"
      with assms have "map_option mSocket (objs s sid) = Some fd" by (auto simp: server_ok_def)
      moreover from this assms have "sid \<noteq> next_obj s" by (auto simp: server_ok_def)
      ultimately show ?thesis by (simp add: o)
    qed (simp add: o ClientSession_new_def)
  qed
  ultimately show "server_ok ?s'" using assms m by (auto simp: server_ok_def o)
  show "objs ?s' (fst (CM_CreateClient sock s)) \<noteq> None" by (simp add: CM_CreateClient_def Let_def)
qed

lemma OnConnect_stays:
  assumes "CS_OnConnect e sid a s = Ok s'"
  shows "stays sid s s'"
proof -
  from assms obtain c l where "objs s sid = Some c" and s': "s' = upd_obj sid (\<lambda>c. c\<lparr>mConnected := True\<rparr>)
    (snd (do_sys e (SysNoDelay (mSocket c)) (snd (do_sys e (SysNonBlocking (mSocket c))
      (upd_obj sid (\<lambda>c. c\<lparr>mClientAddr := a\<rparr>) s))))\<lparr>GConsoleLog := l\<rparr>)"
    by (auto simp: CS_OnConnect_def with_obj_def Let_def print_out_Ok split: option.splits)
  then show ?thesis by (auto simp: stays_def good_objs_def)
qed

lemma accept_wf:
  assumes "CM_accept e s = Ok s'" and "server_ok s"
  shows "server_ok s'"
proof -
  let ?r = "do_sys e (SysAccept (mListenSocket s)) s"
  let ?a = "peer_addr e (fst ?r) (world (snd ?r))"
  have wf1: "server_ok (snd ?r)" using assms(2) by simp
  show ?thesis
  proof (cases "fst ?r < 0")
    case True
    with assms show ?thesis by (auto simp: CM_accept_def case_prod_beta Let_def print_out_Ok)
  next
    case False
    obtain x s2 where x: "CM_CreateClient (fst ?r) (snd ?r) = (x, s2)" by force
    with assms(1) False obtain s3 where s3: "CS_OnConnect e x ?a s2 = Ok s3"
      "s' = snd (do_sys e (SysEpollAdd (mEpollFd s3) (fst ?r) True) s3)"
      by (auto simp: CM_accept_def case_prod_beta Let_def)
    have "server_ok s2" "objs s2 x \<noteq> None" using CreateClient_wf [OF wf1, of "fst ?r"] x by simp_all
    with OnConnect_stays [OF s3(1)] have "server_ok s3" by (blast intro: wf_stays)
    then show ?thesis by (simp add: s3(2))
  qed
qed

lemma release_wf: "server_ok s \<Longrightarrow> server_ok (CS_release e sid s)"
proof -
  assume ok: "server_ok s"
  show ?thesis
  proof (cases "referenced sid s \<or> objs s sid = None")
    case True
    with ok show ?thesis by (auto simp: CS_release_def)
  next
    case False
    then have free: "sid \<notin> snd ` set (mClientList s)" "sid \<notin> set (mPlayerSessions s)"
      "sid \<notin> mOwner ` set (mTaskQueue s)" by (auto simp: referenced_def)
    have "(fd, sid) \<notin> set (mClientList s)" for fd using free(1) by force
    moreover have "mOwner j \<noteq> sid" if "j \<in> set (mTaskQueue s)" for j using free(3) that by blast
    moreover have "p \<noteq> sid" if "p \<in> set (mPlayerSessions s)" for p using free(2) that by blast
    moreover obtain c where "objs s sid = Some c" using False by auto
    ultimately have "server_ok (s\<lparr>objs := (objs s)(sid := None)\<rparr>)"
      using ok by (auto simp: server_ok_def good_objs_def)
    moreover have "server_ok (snd (do_sys e d s)\<lparr>objs := m\<rparr>) = server_ok (s\<lparr>objs := m\<rparr>)" for d m
      by (simp add: do_sys_def server_ok_def split: prod.splits)
    ultimately show ?thesis using False by (auto simp: CS_release_def Let_def)
  qed
qed

text \<open>The events of one \<^verbatim>\<open>epoll_wait\<close>, the flush of every client, and the timer.\<close>

lemma OnReceive_stays:
  assumes "CS_OnReceive e sid s = Some (Ok s')" and "reads_bounded e" and "good s"
  shows "stays sid s s'"
proof -
  have "CS_OnReceive_loop e sid s = Some (Ok s')"
    using assms(1) by (simp add: CS_OnReceive_def split: option.splits if_splits)
  from OnReceive_loop_stays [OF this] assms(2,3) show ?thesis by simp
qed

lemma event_wf:
  assumes "CM_event e fd s = Some (Ok s')" and "reads_bounded e" and "server_ok s"
  shows "server_ok s'"
proof (cases "fd = mListenSocket s")
  case True
  with assms show ?thesis by (auto simp: CM_event_def intro: accept_wf)
next
  case False
  with assms(1) obtain sid s1 where r: "map_of (mClientList s) fd = Some sid"
    "CS_OnReceive e sid s = Some (Ok s1)" "s' = CS_release e sid s1"
    by (auto simp: CM_event_def split: option.splits)
  have "objs s sid \<noteq> None" using wf_client [OF assms(3) map_of_SomeD [OF r(1)]] .
  with wf_stays [OF assms(3) OnReceive_stays [OF r(2) assms(2) wf_good [OF assms(3)]]]
  show ?thesis by (simp add: r(3) release_wf)
qed

lemma events_wf: "CM_events e fds s = Some (Ok s') \<Longrightarrow> reads_bounded e \<Longrightarrow> server_ok s \<Longrightarrow> server_ok s'"
  by (induction e fds s rule: CM_events.induct) (auto split: option.splits outcome.splits intro: event_wf)

lemma SendFlush_stays: "CS_SendFlush e sid s = Some (Ok (b, s')) \<Longrightarrow> good s \<Longrightarrow> stays sid s s'"
  using SendFlush_loop_stays [of e sid s "Ok (b, s')"]
  by (auto simp: CS_SendFlush_def split: option.splits if_splits)

lemma SendFlush_live: "CS_SendFlush e sid s = Some (Ok r) \<Longrightarrow> objs s sid \<noteq> None"
  by (auto simp: CS_SendFlush_def split: option.splits)

lemma flush_wf: "CM_Flush_loop e cs s = Some (Ok s') \<Longrightarrow> server_ok s \<Longrightarrow> server_ok s'"
proof (induction e cs s rule: CM_Flush_loop.induct)
  case (2 e fd client rest s)
  from "2.prems"(1) obtain b s1 where s1: "CS_SendFlush e client s = Some (Ok (b, s1))"
    by (auto split: option.splits outcome.splits)
  note wf1 = wf_stays [OF "2.prems"(2) SendFlush_stays [OF s1 wf_good [OF "2.prems"(2)]] SendFlush_live [OF s1]]
  show ?case
  proof (cases b)
    case True
    with "2.prems"(1) s1 wf1 "2.IH"(1) show ?thesis by simp
  next
    case False
    with "2.prems"(1) s1 obtain s2 where s2: "CS_Disconnect e client s1 = Ok s2"
      "(fd, client) \<in> set (mClientList s2)" "CM_Flush_loop e rest s2 = Some (Ok s')"
      by (auto split: outcome.splits if_splits)
    have "objs s1 client \<noteq> None"
      using s2(1) by (auto simp: CS_Disconnect_def with_obj_def split: option.splits)
    from wf_stays [OF wf1 Disconnect_stays [OF s2(1)] this] have "server_ok s2" .
    with "2.IH"(2) [OF s1] s2 False show ?thesis by simp
  qed
qed simp

lemma tick_wf:
  assumes "server_ok s" and "pq_top (mTaskQueue s) = Some job" and "run_task e (mTask job) s = Ok s'"
  shows "server_ok (Scheduler_pop e (pq_pop (mTaskQueue s')) s')"
proof -
  have pop: "set (pq_pop q) \<subseteq> set q" for q :: "task JobElement list" by (cases q) (auto simp: pq_pop_def)
  have job: "job \<in> set (mTaskQueue s)" using assms(2) by (auto simp: pq_top_def split: list.splits)
  obtain sid where sid: "mTask job = TaskOnTick sid" by (cases "mTask job")
  with job assms(1) have live: "objs s sid \<noteq> None" by (auto simp: server_ok_def)
  have "server_ok s'"
    using assms(1,3) live
    by (auto simp: sid CS_OnTick_def with_obj_def Scheduler_PushTask_def push_after_def server_ok_def set_pq_push
        pq_push_inv split: if_splits)
  then have "server_ok (s'\<lparr>mTaskQueue := pq_pop (mTaskQueue s')\<rparr>)"
    using pop [of "mTaskQueue s'"] by (auto simp: server_ok_def pq.pop_inv)
  then show ?thesis by (simp add: Scheduler_pop_def release_wf split: option.splits)
qed

lemma DoTasks_wf:
  assumes "Scheduler_DoTasks e s = Some (Ok s')" and "server_ok s"
  shows "server_ok s'"
proof -
  have "\<forall>s''. Ok s' = Ok s'' \<longrightarrow> server_ok s''"
    by (rule run_due_keeps [OF assms(1) [unfolded Scheduler_DoTasks_def Let_def], of server_ok])
      (use assms(2) tick_wf in auto)
  then show ?thesis by simp
qed

lemma turn_wf:
  assumes "CM_EventLoop_turn e s = Some (Ok s')" and "reads_bounded e" and "server_ok s"
  shows "server_ok s'"
proof -
  obtain events w where ev: "epoll_wait e (mEpollFd s) MAX_CONNECTION POLL_INTERVAL (world s) = (events, w)" by force
  with assms(1) obtain s1 s2 where r: "CM_events e events (s\<lparr>world := w\<rparr>) = Some (Ok s1)"
    "CM_Flush_loop e (mClientList s1) s1 = Some (Ok s2)" "Scheduler_DoTasks e s2 = Some (Ok s')"
    by (auto simp: CM_EventLoop_turn_def CM_FlushClientSend_def split: option.splits outcome.splits)
  have "server_ok s1" using events_wf [OF r(1) assms(2)] assms(3) by simp
  from flush_wf [OF r(2) this] show ?thesis by (rule DoTasks_wf [OF r(3)])
qed

lemma loop_wf: "CM_EventLoop n e s = Some (Ok s') \<Longrightarrow> reads_bounded e \<Longrightarrow> server_ok s \<Longrightarrow> server_ok s'"
  by (induction n e s rule: CM_EventLoop.induct) (auto split: option.splits outcome.splits intro: turn_wf)

lemma Initialize_wf: "server_ok s \<Longrightarrow> server_ok (snd (snd (CM_Initialize e port s)))"
  by (simp add: CM_Initialize_def case_prod_beta Let_def)

lemma server_new_wf: "server_ok (server_new e w)"
  by (simp add: server_new_def server_ok_def good_objs_def players_ok_def pq_inv_def)

lemma main_wf:
  assumes "linux_main e arg w = Ok (Inr s)"
  shows "server_ok s"
proof -
  obtain ok port s1 where i: "CM_Initialize e (case arg of None \<Rightarrow> 0 | Some p \<Rightarrow> p) (server_new e w) = (ok, port, s1)"
    by (metis prod_cases3)
  with Initialize_wf [OF server_new_wf, of e "case arg of None \<Rightarrow> 0 | Some p \<Rightarrow> p" e w] have "server_ok s1" by simp
  moreover obtain ready s2 where "GLM_InitializeGameLift e port s1 = Ok (ready, s2)" "s = s2"
    using assms i by (auto simp: linux_main_def Let_def split: if_splits)
  ultimately show ?thesis
    by (auto simp: GLM_InitializeGameLift_def case_prod_beta Let_def print_out_Ok split: if_splits)
qed

text \<open>C4. From \<^verbatim>\<open>main\<close> on, after any number of turns of the event loop and whatever
  clients send and system calls answer, the server's state is well formed: the client list and the player
  set are ordered without duplicates, every client, player and timer task refers to a live session, a
  client is listed under its own socket, the addresses not yet given out are free, and both buffers of every session are in their
  invariant. \<^verbatim>\<open>read\<close> stores no more than it was offered, as documented; the order in which its arguments are
  evaluated does not matter here, since an overrun is a fault and so not among the results.\<close>

theorem EventLoop_well_formed:
  assumes "linux_main e arg w = Ok (Inr s)" and "reads_bounded e" and "CM_EventLoop n e s = Some (Ok s')"
  shows "server_ok s'"
  using loop_wf [OF assms(3,2) main_wf [OF assms(1)]] .

text \<open>A world in which the first turn of the loop finds a client waiting at the listening socket.\<close>

definition knocking_env :: "byte list env" where
  "knocking_env = quiet_env\<lparr>epoll_wait := \<lambda>fd n t w. ([0], w)\<rparr>"

lemma knocking_reads: "reads_bounded knocking_env"
  by (auto simp: reads_bounded_def knocking_env_def quiet_env_def split: if_splits)

lemma EventLoop_well_formed_witness:
  "\<exists>s s'. linux_main knocking_env None [] = Ok (Inr s) \<and> CM_EventLoop 1 knocking_env s = Some (Ok s') \<and>
     mClientList s' = [(0, 0)] \<and> server_ok s'"
proof -
  have "\<exists>s. linux_main knocking_env None [] = Ok (Inr s) \<and> mClientList s = [] \<and> next_obj s = 0 \<and>
      mListenSocket s = 0 \<and> mTaskQueue s = []"
    by (auto simp: IsSuccess_def linux_main_def CM_Initialize_def GLM_InitializeGameLift_def do_sys_def do_sdk_def knocking_env_def
        quiet_env_def print_out_def PrintOut_def LOG_BUF_def server_new_def ConsoleLog_new_def)
  then obtain s where s: "linux_main knocking_env None [] = Ok (Inr s)" "mClientList s = []" "next_obj s = 0"
    "mListenSocket s = 0" "mTaskQueue s = []" by blast
  have idle: "GetContiguiousBytes (CircularBuffer_new BUFSIZE []) = 0"
    using contiguous_spec(2) [OF new_buffer(1)] new_buffer(2) by simp
  let ?text = "lit ''Client Connected: IP='' @ inet_ntoa (127, 0, 0, 1) @ lit '', PORT='' @
    decimal (unat (50000 :: 16 word)) @ lit ''\<newline>''"
  have "length (decimal (unat (50000 :: 16 word))) \<le> 5" by (rule length_decimal) simp_all
  then have "length ?text < 128" using length_inet_ntoa [of "(127, 0, 0, 1)"] by simp
  note pr = print_out_fits [OF this]
  obtain s2 where cc: "CM_CreateClient 0 s = (0, s2)" using s(3) by (simp add: CM_CreateClient_def)
  obtain l where l: "print_out ?text (upd_obj 0 (\<lambda>c. c\<lparr>mClientAddr := ((127, 0, 0, 1), 50000)\<rparr>) s2) =
      Ok ((upd_obj 0 (\<lambda>c. c\<lparr>mClientAddr := ((127, 0, 0, 1), 50000)\<rparr>) s2)\<lparr>GConsoleLog := l\<rparr>)"
    using pr by blast
  let ?s3 = "upd_obj 0 (\<lambda>c. c\<lparr>mConnected := True\<rparr>)
      ((upd_obj 0 (\<lambda>c. c\<lparr>mClientAddr := ((127, 0, 0, 1), 50000)\<rparr>) s2)\<lparr>GConsoleLog := l\<rparr>)"
  have sys: "do_sys knocking_env c x = (0, x)" "epoll_wait knocking_env fd n t w = ([0], w)"
    "peer_addr knocking_env fd w = ((127, 0, 0, 1), 50000)" for c fd n t w and x :: "byte list server"
    by (simp_all add: do_sys_def knocking_env_def quiet_env_def)
  have new: "objs s2 0 = Some (ClientSession_new 0)" "mClientList s2 = [(0, 0)]" "mTaskQueue s2 = []"
    using cc s(2-5) by (auto simp: CM_CreateClient_def)
  have "CS_OnConnect knocking_env 0 ((127, 0, 0, 1), 50000) s2 = Ok ?s3"
    using l new(1) by (simp add: CS_OnConnect_def with_obj_def sys)
  then have acc: "CM_accept knocking_env s = Ok ?s3"
    by (simp add: CM_accept_def sys s(4) cc)
  have "CS_SendFlush knocking_env 0 ?s3 = Some (Ok (True, ?s3))"
    using new(1) idle by (simp add: CS_SendFlush_def ClientSession_new_def)
  then have "CM_FlushClientSend knocking_env ?s3 = Some (Ok ?s3)" using new(2) by (simp add: CM_FlushClientSend_def)
  moreover have "CM_events knocking_env [0] s = Some (Ok ?s3)" using acc s(4) by (simp add: CM_event_def)
  moreover have "\<exists>t. Scheduler_DoTasks knocking_env x = Some (Ok (x\<lparr>mCurrentTick := t\<rparr>))"
    if "mTaskQueue x = []" for x :: "byte list server"
  proof -
    let ?now = "now_ms knocking_env (world x) - mBeginTickPoint x"
    have "run_due mTaskQueue (Scheduler_pop knocking_env) pq_top pq_pop (run_task knocking_env) ?now
        (x\<lparr>mCurrentTick := ?now\<rparr>) = Some (Ok (x\<lparr>mCurrentTick := ?now\<rparr>))"
      by (rule pq.run_due_idle) (use that in \<open>simp_all add: pq_inv_def due_def\<close>)
    then show ?thesis by (auto simp: Scheduler_DoTasks_def)
  qed
  then obtain t where "Scheduler_DoTasks knocking_env ?s3 = Some (Ok (?s3\<lparr>mCurrentTick := t\<rparr>))"
    using new(3) by fastforce
  ultimately have "CM_EventLoop 1 knocking_env s = Some (Ok (?s3\<lparr>mCurrentTick := t\<rparr>))"
    by (simp add: CM_EventLoop_turn_def sys)
  moreover have "mClientList (?s3\<lparr>mCurrentTick := t\<rparr>) = [(0, 0)]" using new(2) by simp
  ultimately show ?thesis using s(1) EventLoop_well_formed [OF s(1) knocking_reads] by blast
qed

end
