(* ===== verification/CocosClient.thy ===== *)
theory CocosClient
  imports CircBuf Framing Console
begin

text \<open>
  The game client (\<^verbatim>\<open>Cocos2dxGameClient/Classes\<close>): \<^verbatim>\<open>TcpClient\<close>, which
  receives on its own thread and calls into the scene, and \<^verbatim>\<open>GameLiftManager\<close>, which
  finds a game session and a player session before it connects. Sockets and the AWS client are
  parameters. The calls queued for the Cocos thread are the list \<^verbatim>\<open>scene_calls\<close>. What
  is modelled is the Windows build.
\<close>

section \<open>State and environment\<close>

definition BUF_SIZE :: nat where "BUF_SIZE = 32768"

datatype scene_call =
    ChatDraw "byte list" "byte list"
  | UpdateMe "32 word" "32 word"
  | UpdatePeer "32 word" "32 word" "32 word"

record tcp_client =
  m_sock :: int
  m_recvBuffer :: cbuf
  m_loginId :: int

record game_info =
  GetPort :: int
  GetIpAddress :: "byte list"
  GetGameSessionId :: "byte list"

record client_config =
  cfg_connectTimeoutMs :: int
  cfg_requestTimeoutMs :: int
  cfg_region :: "byte list"
  cfg_scheme :: "byte list"

record 'w game_client =
  s_TcpClient :: "tcp_client option"
  scene_calls :: "scene_call list"
  mGLClient :: "client_config option"
  mAliasId :: "byte list"
  mPort :: int
  mServerIpAddress :: "byte list"
  mGameSessionId :: "byte list"
  mPlayerSessionId :: "byte list"
  gc_world :: 'w

record 'w gc_env =
  wsa_startup :: "'w \<Rightarrow> int \<times> 'w"
  make_socket :: "'w \<Rightarrow> int \<times> 'w"
  gethostbyname :: "byte list \<Rightarrow> 'w \<Rightarrow> ip_addr option \<times> 'w"
  sock_connect :: "int \<Rightarrow> ip_addr \<Rightarrow> 16 word \<Rightarrow> 'w \<Rightarrow> int \<times> 'w"
  sock_nodelay :: "int \<Rightarrow> 'w \<Rightarrow> 'w"
  sock_send :: "int \<Rightarrow> byte list \<Rightarrow> 'w \<Rightarrow> int \<times> 'w"
  sock_close :: "int \<Rightarrow> 'w \<Rightarrow> 'w"
  search_games :: "client_config \<Rightarrow> byte list \<Rightarrow> byte list \<Rightarrow> 'w \<Rightarrow> game_info list option \<times> 'w"
  create_player :: "client_config \<Rightarrow> byte list \<Rightarrow> byte list \<Rightarrow> 'w \<Rightarrow> byte list option \<times> 'w"

text \<open>A member call on the client, null included.\<close>

definition with_tcp :: "'w game_client \<Rightarrow> (tcp_client \<Rightarrow> 'a outcome) \<Rightarrow> 'a outcome" where
  "with_tcp s f = (case s_TcpClient s of None \<Rightarrow> Fault NullDeref | Some t \<Rightarrow> f t)"

definition upd_tcp :: "(tcp_client \<Rightarrow> tcp_client) \<Rightarrow> 'w game_client \<Rightarrow> 'w game_client" where
  "upd_tcp f s = s\<lparr>s_TcpClient := map_option f (s_TcpClient s)\<rparr>"

section \<open>\<^verbatim>\<open>TcpClient\<close>: starting and connecting\<close>

definition TcpClient_new :: tcp_client where
  "TcpClient_new = \<lparr>m_sock = 0, m_recvBuffer = CircularBuffer_new BUF_SIZE [], m_loginId = - 1\<rparr>"

definition TC_initialize :: "'w gc_env \<Rightarrow> 'w game_client \<Rightarrow> bool \<times> 'w game_client" where
  "TC_initialize e s =
     (case wsa_startup e (gc_world s) of (r, w1) \<Rightarrow>
      if r \<noteq> 0 then (False, s\<lparr>gc_world := w1\<rparr>)
      else case make_socket e w1 of (sock, w2) \<Rightarrow>
           (sock \<noteq> - 1, upd_tcp (\<lambda>t. t\<lparr>m_sock := sock\<rparr>) (s\<lparr>gc_world := w2\<rparr>)))"

text \<open>Whether the pointer returned is not null; the object stays in \<^verbatim>\<open>s_TcpClient\<close> even
  when \<^verbatim>\<open>initialize\<close> fails, and the next call returns it.\<close>

definition TC_getInstance :: "'w gc_env \<Rightarrow> 'w game_client \<Rightarrow> bool \<times> 'w game_client" where
  "TC_getInstance e s =
     (case s_TcpClient s of
        None \<Rightarrow> TC_initialize e (s\<lparr>s_TcpClient := Some TcpClient_new\<rparr>)
      | Some _ \<Rightarrow> (True, s))"

definition TC_destroyInstance :: "'w gc_env \<Rightarrow> 'w game_client \<Rightarrow> 'w game_client" where
  "TC_destroyInstance e s =
     (case s_TcpClient s of
        None \<Rightarrow> s
      | Some t \<Rightarrow> s\<lparr>s_TcpClient := None, gc_world := sock_close e (m_sock t) (gc_world s)\<rparr>)"

definition TC_connect ::
  "'w gc_env \<Rightarrow> byte list \<Rightarrow> int \<Rightarrow> 'w game_client \<Rightarrow> (bool \<times> 'w game_client) outcome" where
  "TC_connect e serverAddr port s =
     with_tcp s (\<lambda>t.
       case gethostbyname e serverAddr (gc_world s) of (host, w1) \<Rightarrow>
       (case host of
          None \<Rightarrow> Ok (False, s\<lparr>gc_world := w1\<rparr>)
        | Some addr \<Rightarrow>
            (case sock_connect e (m_sock t) addr (word_of_int port) w1 of (r, w2) \<Rightarrow>
             if r = - 1 then Ok (False, s\<lparr>gc_world := w2\<rparr>)
             else Ok (True, s\<lparr>gc_world := sock_nodelay e (m_sock t) w2\<rparr>))))"

section \<open>Sending\<close>

text \<open>
  \<^verbatim>\<open>TcpClient::send\<close>: \<^verbatim>\<open>count\<close> grows and \<^verbatim>\<open>length\<close> shrinks by what
  each \<^verbatim>\<open>::send\<close> took; its answer is \<^verbatim>\<open>-1\<close> or a number of bytes.
\<close>

partial_function (option) TC_send_loop ::
  "'w gc_env \<Rightarrow> int \<Rightarrow> byte list \<Rightarrow> nat \<Rightarrow> nat \<Rightarrow> 'w \<Rightarrow> (bool \<times> 'w) outcome option" where
  "TC_send_loop e sock data cnt len w =
     (if \<not> cnt < len then Some (Ok (True, w))
      else case mem_read cnt len data of
             Fault f \<Rightarrow> Some (Fault f)
           | Ok chunk \<Rightarrow>
               (case sock_send e sock chunk w of (n, w') \<Rightarrow>
                if n = - 1 then Some (Ok (False, w'))
                else TC_send_loop e sock data (cnt + nat n) (len - nat n) w'))"

definition TC_send :: "'w gc_env \<Rightarrow> byte list \<Rightarrow> 'w game_client \<Rightarrow> (bool \<times> 'w game_client) outcome option" where
  "TC_send e data s =
     (case s_TcpClient s of
        None \<Rightarrow> Some (Fault NullDeref)
      | Some t \<Rightarrow> map_option (\<lambda>r. bnd r (\<lambda>(ok, w). Ok (ok, s\<lparr>gc_world := w\<rparr>)))
                    (TC_send_loop e (m_sock t) data 0 (length data) (gc_world s)))"

text \<open>The requests, which ignore what \<^verbatim>\<open>send\<close> answers.\<close>

definition TC_request ::
  "'w gc_env \<Rightarrow> byte list \<Rightarrow> 'w game_client \<Rightarrow> 'w game_client outcome option" where
  "TC_request e data s = map_option (\<lambda>r. bnd r (\<lambda>(_, s'). Ok s')) (TC_send e data s)"

definition TC_loginRequest ::
  "'w gc_env \<Rightarrow> byte list \<Rightarrow> 'w game_client \<Rightarrow> 'w game_client outcome option" where
  "TC_loginRequest e playerSessionId s =
     (case s_TcpClient s of
        None \<Rightarrow> Some (Fault NullDeref)
      | Some t \<Rightarrow>
          if m_loginId t > 0 then Some (Ok s)
          else (case strcpy_s (mPlayerId LoginRequest_new) playerSessionId of
                  Fault f \<Rightarrow> Some (Fault f)
                | Ok arr \<Rightarrow> TC_request e (id_bytes (LoginRequest_new\<lparr>mPlayerId := arr\<rparr>)) s))"

text \<open>\<^verbatim>\<open>memcpy\<close> writes \<^verbatim>\<open>strlen(chat)\<close> bytes into the last array of the struct.\<close>

definition TC_chatRequest ::
  "'w gc_env \<Rightarrow> byte list \<Rightarrow> 'w game_client \<Rightarrow> 'w game_client outcome option" where
  "TC_chatRequest e chat s =
     (case s_TcpClient s of
        None \<Rightarrow> Some (Fault NullDeref)
      | Some t \<Rightarrow>
          if m_loginId t < 0 then Some (Ok s)
          else (case strcpy_s (mPlayerId ChatBroadcastRequest_new) (lit ''Player'' @ fmt_d (m_loginId t)) of
                  Fault f \<Rightarrow> Some (Fault f)
                | Ok arr \<Rightarrow>
                    (case mem_write 0 chat (mChat ChatBroadcastRequest_new) of
                       Fault f \<Rightarrow> Some (Fault f)
                     | Ok chatArr \<Rightarrow>
                         TC_request e (chat_bytes (ChatBroadcastRequest_new\<lparr>mPlayerId := arr, mChat := chatArr\<rparr>)) s)))"

definition TC_moveRequest ::
  "'w gc_env \<Rightarrow> 32 word \<Rightarrow> 32 word \<Rightarrow> 'w game_client \<Rightarrow> 'w game_client outcome option" where
  "TC_moveRequest e x y s =
     (case s_TcpClient s of
        None \<Rightarrow> Some (Fault NullDeref)
      | Some t \<Rightarrow>
          if m_loginId t < 0 then Some (Ok s)
          else TC_request e (move_bytes (MoveRequest_new
                 \<lparr>mPlayerIdx := word_of_int (m_loginId t), mPosX := x, mPosY := y\<rparr>)) s)"

section \<open>Receiving\<close>

definition tc_call :: "scene_call \<Rightarrow> 'w game_client \<Rightarrow> 'w game_client" where
  "tc_call c s = s\<lparr>scene_calls := scene_calls s @ [c]\<rparr>"

text \<open>\<^verbatim>\<open>Read\<close> into a packet of the given size, and the assertion on its result.\<close>

definition TC_read :: "nat \<Rightarrow> tcp_client \<Rightarrow> 'w game_client \<Rightarrow> (byte list \<times> 'w game_client) outcome" where
  "TC_read n t s =
     bnd (Read n (m_recvBuffer t)) (\<lambda>(r, b).
     case r of None \<Rightarrow> Fault AssertFailed
     | Some bs \<Rightarrow> Ok (bs, upd_tcp (\<lambda>t. t\<lparr>m_recvBuffer := b\<rparr>) s))"

definition TC_packet :: "16 word \<Rightarrow> tcp_client \<Rightarrow> 'w game_client \<Rightarrow> 'w game_client outcome" where
  "TC_packet t c s =
     (if t = pkt_value PKT_SC_LOGIN
      then bnd (TC_read sizeof_IdPacket c s) (\<lambda>(bs, s1).
           bnd (c_str (mPlayerId (id_of bs))) (\<lambda>_. Ok (upd_tcp (\<lambda>t. t\<lparr>m_loginId := 416\<rparr>) s1)))
      else if t = pkt_value PKT_SC_CHAT
      then bnd (TC_read sizeof_ChatPacket c s) (\<lambda>(bs, s1).
           bnd (c_str (mPlayerId (chat_of bs))) (\<lambda>from.
           bnd (c_str (mChat (chat_of bs))) (\<lambda>chat. Ok (tc_call (ChatDraw from chat) s1))))
      else if t = pkt_value PKT_SC_MOVE
      then bnd (TC_read sizeof_MovePacket c s) (\<lambda>(bs, s1).
           let p = move_of bs
           in Ok (tc_call (if sint (mPlayerIdx p) = m_loginId c then UpdateMe (mPosX p) (mPosY p)
                           else UpdatePeer (mPlayerIdx p) (mPosX p) (mPosY p)) s1))
      else Fault AssertFailed)"

partial_function (option) TC_processPacket :: "'w game_client \<Rightarrow> 'w game_client outcome option" where
  "TC_processPacket s =
     (case s_TcpClient s of
        None \<Rightarrow> Some (Fault DanglingRef)
      | Some t \<Rightarrow>
          (case Peek sizeof_PacketHeader (m_recvBuffer t) of
             Fault f \<Rightarrow> Some (Fault f)
           | Ok None \<Rightarrow> Some (Ok s)
           | Ok (Some hb) \<Rightarrow>
               (let header = header_of hb
                in if size_of_short (mSize header) > GetStoredSize (m_recvBuffer t) then Some (Ok s)
                   else (case TC_packet (mType header) t s of
                           Fault f \<Rightarrow> Some (Fault f)
                         | Ok s' \<Rightarrow> TC_processPacket s'))))"

text \<open>One turn of \<^verbatim>\<open>networkThread\<close>: the bytes that \<^verbatim>\<open>recv\<close> gave, none when it
  failed or the peer has closed.\<close>

definition TC_networkThread_turn :: "byte list \<Rightarrow> 'w game_client \<Rightarrow> 'w game_client outcome option" where
  "TC_networkThread_turn inBuf s =
     (if length inBuf < 1 then Some (Ok s)
      else case s_TcpClient s of
             None \<Rightarrow> Some (Fault DanglingRef)
           | Some t \<Rightarrow>
               (case Write inBuf (m_recvBuffer t) of
                  Fault f \<Rightarrow> Some (Fault f)
                | Ok (ok, b) \<Rightarrow>
                    if \<not> ok then Some (Fault AssertFailed)
                    else TC_processPacket (upd_tcp (\<lambda>t. t\<lparr>m_recvBuffer := b\<rparr>) s)))"

fun TC_networkThread :: "byte list list \<Rightarrow> 'w game_client \<Rightarrow> 'w game_client outcome option" where
  "TC_networkThread [] s = Some (Ok s)"
| "TC_networkThread (inBuf # bufs) s =
     (case TC_networkThread_turn inBuf s of
        None \<Rightarrow> None
      | Some (Fault f) \<Rightarrow> Some (Fault f)
      | Some (Ok s') \<Rightarrow> TC_networkThread bufs s')"

section \<open>\<^verbatim>\<open>GameLiftManager\<close>\<close>

definition CGL_new :: "byte list \<Rightarrow> 'w \<Rightarrow> 'w game_client" where
  "CGL_new alias w =
     \<lparr>s_TcpClient = None, scene_calls = [], mGLClient = None, mAliasId = alias, mPort = 0,
      mServerIpAddress = [], mGameSessionId = [], mPlayerSessionId = [], gc_world = w\<rparr>"

definition CGL_SetUpAwsClient :: "byte list \<Rightarrow> 'w game_client \<Rightarrow> 'w game_client" where
  "CGL_SetUpAwsClient region s =
     s\<lparr>mGLClient := Some \<lparr>cfg_connectTimeoutMs = 30000, cfg_requestTimeoutMs = 30000, cfg_region = region,
                     cfg_scheme = lit ''https''\<rparr>\<rparr>"

definition CGL_SearchGameSessions :: "'w gc_env \<Rightarrow> 'w game_client \<Rightarrow> (bool \<times> 'w game_client) outcome" where
  "CGL_SearchGameSessions e s =
     (case mGLClient s of
        None \<Rightarrow> Fault NullDeref
      | Some cl \<Rightarrow>
          (case search_games e cl (mAliasId s) (lit ''hasAvailablePlayerSessions=true'') (gc_world s) of (r, w) \<Rightarrow>
           (case r of
              None \<Rightarrow> Ok (False, s\<lparr>gc_world := w\<rparr>)
            | Some [] \<Rightarrow> Fault OutOfBounds
            | Some (gs # _) \<Rightarrow>
                Ok (True, s\<lparr>gc_world := w, mPort := GetPort gs, mServerIpAddress := GetIpAddress gs,
                            mGameSessionId := GetGameSessionId gs\<rparr>))))"

definition CGL_CreatePlayerSession :: "'w gc_env \<Rightarrow> 'w game_client \<Rightarrow> (bool \<times> 'w game_client) outcome" where
  "CGL_CreatePlayerSession e s =
     (case mGLClient s of
        None \<Rightarrow> Fault NullDeref
      | Some cl \<Rightarrow>
          (case create_player e cl (mGameSessionId s) (lit ''PlayerCoCos'') (gc_world s) of (r, w) \<Rightarrow>
           (case r of
              None \<Rightarrow> Ok (False, s\<lparr>gc_world := w\<rparr>)
            | Some i \<Rightarrow> Ok (True, s\<lparr>gc_world := w, mPlayerSessionId := i\<rparr>))))"

definition CGL_ConnectPlayerSession ::
  "'w gc_env \<Rightarrow> 'w game_client \<Rightarrow> (bool \<times> 'w game_client) outcome option" where
  "CGL_ConnectPlayerSession e s =
     (case TC_getInstance e s of (valid, s1) \<Rightarrow>
      if \<not> valid then Some (Fault NullDeref)
      else case TC_connect e (mServerIpAddress s1) (mPort s1) s1 of
             Fault f \<Rightarrow> Some (Fault f)
           | Ok (ok, s2) \<Rightarrow>
               if \<not> ok then Some (Ok (False, s2))
               else map_option (\<lambda>r. bnd r (\<lambda>s3. Ok (True, s3))) (TC_loginRequest e (mPlayerSessionId s2) s2))"

definition CGL_DoTestNow :: "'w gc_env \<Rightarrow> 'w game_client \<Rightarrow> 'w game_client outcome option" where
  "CGL_DoTestNow e s =
     (case CGL_SearchGameSessions e s of
        Fault f \<Rightarrow> Some (Fault f)
      | Ok (found, s1) \<Rightarrow>
          if \<not> found then Some (Ok s1)
          else case CGL_CreatePlayerSession e s1 of
                 Fault f \<Rightarrow> Some (Fault f)
               | Ok (created, s2) \<Rightarrow>
                   if \<not> created then Some (Ok s2)
                   else map_option (\<lambda>r. bnd r (\<lambda>(_, s3). Ok s3)) (CGL_ConnectPlayerSession e s2))"

end
