(* ===== verification/CocosProofs.thy ===== *)
theory CocosProofs
  imports CocosClient
begin

text \<open>
  The game client's receive path turns the server's byte stream, however it is cut, into the calls of
  the scene that its messages stand for; and what \<^verbatim>\<open>TcpClient::send\<close> transmits.
\<close>

section \<open>One packet\<close>

text \<open>The effect of a message on the login id and the scene.\<close>

abbreviation text_of :: "byte list \<Rightarrow> byte list" where
  "text_of arr \<equiv> takeWhile (\<lambda>x. x \<noteq> 0) arr"

fun scene_step :: "server_msg \<Rightarrow> int \<times> scene_call list \<Rightarrow> int \<times> scene_call list" where
  "scene_step (SLogin p) (i, cs) = (416, cs)"
| "scene_step (SChat p) (i, cs) = (i, cs @ [ChatDraw (text_of (mPlayerId p)) (text_of (mChat p))])"
| "scene_step (SMove p) (i, cs) =
     (i, cs @ [if sint (mPlayerIdx p) = i then UpdateMe (mPosX p) (mPosY p)
               else UpdatePeer (mPlayerIdx p) (mPosX p) (mPosY p)])"

definition showing :: "'w game_client \<Rightarrow> tcp_client \<Rightarrow> cbuf \<Rightarrow> int \<times> scene_call list \<Rightarrow> 'w game_client" where
  "showing s t b st = s\<lparr>s_TcpClient := Some (t\<lparr>m_recvBuffer := b, m_loginId := fst st\<rparr>), scene_calls := snd st\<rparr>"

lemma pkt_value_results [simp]:
  "mType LoginResult_new = pkt_value PKT_SC_LOGIN" "mType ChatBroadcastResult_new = pkt_value PKT_SC_CHAT"
  "mType MoveBroadcastResult_new = pkt_value PKT_SC_MOVE"
  by (simp_all add: packet_new_defs)

lemma pkt_value_distinct [simp]:
  "pkt_value PKT_SC_CHAT \<noteq> pkt_value PKT_SC_LOGIN" "pkt_value PKT_SC_MOVE \<noteq> pkt_value PKT_SC_LOGIN"
  "pkt_value PKT_SC_MOVE \<noteq> pkt_value PKT_SC_CHAT"
  by simp_all

lemma header_of_bytes_append [simp]:
  "header_of (id_bytes p @ rest) = \<lparr>mSize = mSize p, mType = mType p\<rparr>"
  "header_of (chat_bytes q @ rest) = \<lparr>mSize = mSize q, mType = mType q\<rparr>"
  "header_of (move_bytes m @ rest) = \<lparr>mSize = mSize m, mType = mType m\<rparr>"
  by (simp_all add: id_bytes_def chat_bytes_def move_bytes_def)

lemma packet_spec:
  assumes "s_TcpClient s = Some t" and "cb_inv (m_recvBuffer t)" and "wf_server m"
    and "contents (m_recvBuffer t) = server_bytes m @ rest"
  shows "\<exists>b. TC_packet (mType (header_of (server_bytes m @ rest))) t s =
      Ok (showing s t b (scene_step m (m_loginId t, scene_calls s))) \<and>
    cb_inv b \<and> contents b = rest \<and> capacity b = capacity (m_recvBuffer t)"
proof -
  let ?n = "length (server_bytes m)"
  have "?n \<le> length (contents (m_recvBuffer t))" by (simp add: assms(4))
  from Read_ok [OF assms(2) this] obtain b where
    r: "Read ?n (m_recvBuffer t) = Ok (Some (server_bytes m), b)"
    and b: "cb_inv b" "contents b = rest" "capacity b = capacity (m_recvBuffer t)"
    by (auto simp: assms(4))
  have rd: "TC_read ?n t s = Ok (server_bytes m, upd_tcp (\<lambda>t. t\<lparr>m_recvBuffer := b\<rparr>) s)"
    by (simp add: TC_read_def r del: bnd_eq_Ok)
  show ?thesis
  proof (intro exI [of _ b] conjI)
    show "TC_packet (mType (header_of (server_bytes m @ rest))) t s =
        Ok (showing s t b (scene_step m (m_loginId t, scene_calls s)))"
    proof (cases m)
      case (SLogin p)
      with assms(3) have n: "?n = sizeof_IdPacket" by (simp add: id_bytes_def sizeof_defs)
      have "id_of (id_bytes p) = p" using SLogin assms(3) id_of_bytes [of p "[]"] by (simp add: sizeof_defs)
      with SLogin assms(1,3) rd [unfolded n] show ?thesis
        by (simp add: TC_packet_def c_str_def showing_def upd_tcp_def del: bnd_eq_Ok)
    next
      case (SChat p)
      with assms(3) have n: "?n = sizeof_ChatPacket" by (simp add: chat_bytes_def sizeof_defs)
      have "chat_of (chat_bytes p) = p" using SChat assms(3) chat_of_bytes [of p "[]"] by (simp add: sizeof_defs)
      with SChat assms(1,3) rd [unfolded n] show ?thesis
        by (simp add: TC_packet_def c_str_def showing_def upd_tcp_def tc_call_def del: bnd_eq_Ok)
    next
      case (SMove p)
      with assms(3) have n: "?n = sizeof_MovePacket" by (simp add: sizeof_defs)
      have "move_of (move_bytes p) = p" using move_of_bytes [of p "[]"] by simp
      with SMove assms(1,3) rd [unfolded n] show ?thesis
        by (simp add: TC_packet_def showing_def upd_tcp_def tc_call_def Let_def del: bnd_eq_Ok)
    qed
  qed (use b in auto)
qed

section \<open>The receiving thread\<close>

abbreviation scene_run :: "server_msg list \<Rightarrow> int \<times> scene_call list \<Rightarrow> int \<times> scene_call list" where
  "scene_run ms st \<equiv> fold scene_step ms st"

abbreviation server_stream :: "server_msg list \<Rightarrow> byte list" where
  "server_stream ms \<equiv> concat (map server_bytes ms)"

lemma showing_sel [simp]:
  "s_TcpClient (showing s t b st) = Some (t\<lparr>m_recvBuffer := b, m_loginId := fst st\<rparr>)"
  "scene_calls (showing s t b st) = snd st"
  by (simp_all add: showing_def)

lemma showing_again:
  "showing (showing s t b st) (t\<lparr>m_recvBuffer := b, m_loginId := fst st\<rparr>) b' st' = showing s t b' st'"
  by (simp add: showing_def)

lemma showing_same: "s_TcpClient s = Some t \<Longrightarrow> m_recvBuffer t = b \<Longrightarrow>
    showing s t b (m_loginId t, scene_calls s) = s"
  by (cases t; cases s) (simp add: showing_def)

lemma process_stop:
  assumes "s_TcpClient s = Some t" and "cb_inv (m_recvBuffer t)" and "incomplete (contents (m_recvBuffer t))"
  shows "TC_processPacket s = Some (Ok s)"
  using assms cb.pk_eq [OF assms(2), of sizeof_PacketHeader]
  by (subst TC_processPacket.simps)
    (auto simp: GetStoredSize_eq incomplete_def header_of_take sizeof_defs Let_def)

lemma process_next:
  assumes "s_TcpClient s = Some t" and "cb_inv (m_recvBuffer t)" and "wf_server m"
    and "contents (m_recvBuffer t) = server_bytes m @ rest"
    and "TC_packet (mType (header_of (server_bytes m @ rest))) t s = Ok s'"
  shows "TC_processPacket s = TC_processPacket s'"
proof -
  have n: "4 \<le> length (server_bytes m)" using server_bounds [OF assms(3)] by linarith
  have pk: "Peek sizeof_PacketHeader (m_recvBuffer t) = Ok (Some (take 4 (server_bytes m @ rest)))"
    using n by (simp add: cb.pk_eq [OF assms(2)] assms(4) sizeof_defs)
  have h: "header_of (take 4 (server_bytes m @ rest)) = header_of (server_bytes m @ rest)"
    using n by (intro header_of_take) simp
  have st: "GetStoredSize (m_recvBuffer t) = length (server_bytes m @ rest)"
    by (simp add: GetStoredSize_eq assms(2,4))
  have le: "\<not> size_of_short (mSize (header_of (server_bytes m @ rest))) > length (server_bytes m @ rest)"
    using server_length [OF assms(3), of rest] by simp
  show ?thesis
    by (subst TC_processPacket.simps) (simp only: assms(1,5) pk h st le Let_def option.case outcome.case if_False)
qed

lemma process_stream:
  assumes "s_TcpClient s = Some t" and "cb_inv (m_recvBuffer t)" and "\<forall>m\<in>set ms. wf_server m"
    and "contents (m_recvBuffer t) = server_stream ms @ rest" and "incomplete rest"
  shows "\<exists>b. TC_processPacket s = Some (Ok (showing s t b (scene_run ms (m_loginId t, scene_calls s)))) \<and>
    cb_inv b \<and> contents b = rest \<and> capacity b = capacity (m_recvBuffer t)"
  using assms
proof (induction ms arbitrary: s t)
  case Nil
  then show ?case
    using process_stop [OF Nil.prems(1,2)] showing_same [OF Nil.prems(1) refl]
    by (intro exI [of _ "m_recvBuffer t"]) simp
next
  case (Cons m ms)
  from Cons.prems(3,4) have m: "wf_server m" "\<forall>m\<in>set ms. wf_server m"
    "contents (m_recvBuffer t) = server_bytes m @ server_stream ms @ rest" by simp_all
  from packet_spec [OF Cons.prems(1,2) m(1,3)] obtain b where
    b: "TC_packet (mType (header_of (server_bytes m @ server_stream ms @ rest))) t s =
      Ok (showing s t b (scene_step m (m_loginId t, scene_calls s)))"
      "cb_inv b" "contents b = server_stream ms @ rest" "capacity b = capacity (m_recvBuffer t)" by blast
  let ?st = "scene_step m (m_loginId t, scene_calls s)"
  let ?t = "t\<lparr>m_recvBuffer := b, m_loginId := fst ?st\<rparr>"
  from Cons.IH [of "showing s t b ?st" ?t] b m(2) Cons.prems(5) obtain b' where
    "TC_processPacket (showing s t b ?st) = Some (Ok (showing (showing s t b ?st) ?t b' (scene_run ms ?st)))"
    "cb_inv b'" "contents b' = rest" "capacity b' = capacity (m_recvBuffer t)" by auto
  with process_next [OF Cons.prems(1,2) m(1,3) b(1)] show ?case
    by (auto simp: showing_again)
qed

text \<open>A turn of the thread never overruns the receive buffer: an incomplete packet and what
  \<^verbatim>\<open>recv\<close> gives at most fill half of it.\<close>

lemma turn_spec:
  assumes "s_TcpClient s = Some t" and "cb_inv (m_recvBuffer t)" and "capacity (m_recvBuffer t) = BUF_SIZE"
    and "\<forall>m\<in>set ms. wf_server m" and "contents (m_recvBuffer t) @ d = server_stream ms @ rest"
    and "incomplete rest" and "d \<noteq> []" and "length d \<le> 4096" and "length (contents (m_recvBuffer t)) \<le> 260"
  shows "\<exists>b. TC_networkThread_turn d s =
      Some (Ok (showing s t b (scene_run ms (m_loginId t, scene_calls s)))) \<and>
    cb_inv b \<and> contents b = rest \<and> capacity b = BUF_SIZE"
proof -
  have "length d \<le> room (m_recvBuffer t)"
    using assms(3,8,9) by (intro cb.space_enough [OF assms(2)]) (simp add: BUF_SIZE_def)
  then obtain b where b: "Write d (m_recvBuffer t) = Ok (True, b)" "cb_inv b"
      "contents b = server_stream ms @ rest" "capacity b = BUF_SIZE"
    using Write_ok [OF assms(2), of d] assms(3,5) by auto
  let ?s = "upd_tcp (\<lambda>t. t\<lparr>m_recvBuffer := b\<rparr>) s" and ?t = "t\<lparr>m_recvBuffer := b\<rparr>"
  have "s_TcpClient ?s = Some ?t" by (simp add: upd_tcp_def assms(1))
  from process_stream [OF this _ assms(4) _ assms(6)] b obtain b' where
    b': "TC_processPacket ?s = Some (Ok (showing ?s ?t b' (scene_run ms (m_loginId t, scene_calls s))))"
      "cb_inv b'" "contents b' = rest" "capacity b' = BUF_SIZE" by (auto simp: upd_tcp_def)
  have "showing ?s ?t b' st = showing s t b' st" for st by (simp add: showing_def upd_tcp_def)
  with b b' assms(1,7) show ?thesis
    by (intro exI [of _ b']) (simp add: TC_networkThread_turn_def Suc_le_eq)
qed

lemma thread_spec:
  assumes "s_TcpClient s = Some t" and "cb_inv (m_recvBuffer t)" and "capacity (m_recvBuffer t) = BUF_SIZE"
    and "\<forall>m\<in>set ms. wf_server m" and "contents (m_recvBuffer t) @ concat ds = server_stream ms @ rest"
    and "incomplete rest" and "length rest \<le> 260" and "\<forall>d\<in>set ds. d \<noteq> [] \<and> length d \<le> 4096"
    and "length (contents (m_recvBuffer t)) \<le> 260" and "incomplete (contents (m_recvBuffer t))"
  shows "\<exists>b. TC_networkThread ds s = Some (Ok (showing s t b (scene_run ms (m_loginId t, scene_calls s)))) \<and>
    cb_inv b \<and> contents b = rest"
  using assms
proof (induction ds arbitrary: s t ms)
  case Nil
  then have "ms = []" using served.incomplete_stream [of ms rest] by simp
  with Nil show ?case
    by (intro exI [of _ "m_recvBuffer t"]) (simp add: showing_same)
next
  case (Cons d ds)
  have "(contents (m_recvBuffer t) @ d) @ concat ds = server_stream ms @ rest" using Cons.prems(5) by simp
  from served.split_stream [OF this Cons.prems(4,6)] obtain ms1 ms2 t1 where
    sp: "ms = ms1 @ ms2" "contents (m_recvBuffer t) @ d = server_stream ms1 @ t1" "incomplete t1"
      "t1 @ concat ds = server_stream ms2 @ rest" "length t1 \<le> 260"
    using Cons.prems(7) by auto
  from turn_spec [OF Cons.prems(1-3) _ sp(2,3)] Cons.prems(4,8,9) sp(1) obtain b where
    b: "TC_networkThread_turn d s = Some (Ok (showing s t b (scene_run ms1 (m_loginId t, scene_calls s))))"
      "cb_inv b" "contents b = t1" "capacity b = BUF_SIZE" by auto
  let ?st = "scene_run ms1 (m_loginId t, scene_calls s)"
  from Cons.IH [of "showing s t b ?st" "t\<lparr>m_recvBuffer := b, m_loginId := fst ?st\<rparr>" ms2]
    b sp Cons.prems(4,6,7,8) obtain b' where
    "TC_networkThread ds (showing s t b ?st) = Some (Ok (showing (showing s t b ?st)
       (t\<lparr>m_recvBuffer := b, m_loginId := fst ?st\<rparr>) b' (scene_run ms2 ?st)))"
    "cb_inv b'" "contents b' = rest" by auto
  then show ?case
    by (intro exI [of _ b']) (simp add: b(1) sp(1) showing_again)
qed

text \<open>The game client shows what the server says: whenever the bytes that \<^verbatim>\<open>recv\<close>
  delivers in pieces of at most 4096 bytes, cut anywhere, make up a sequence of complete server packets,
  the network thread never trips an assertion, calls the scene once per chat or move packet in the order
  of the packets, and ends with an empty buffer.\<close>

theorem networkThread_shows_stream:
  assumes "s_TcpClient s = Some t" and "m_recvBuffer t = CircularBuffer_new BUF_SIZE cells"
    and "\<forall>m\<in>set ms. wf_server m" and "concat inBufs = concat (map server_bytes ms)"
    and "\<forall>inBuf\<in>set inBufs. inBuf \<noteq> [] \<and> length inBuf \<le> 4096"
  shows "\<exists>b. cb_inv b \<and> contents b = [] \<and>
    TC_networkThread inBufs s =
      Some (Ok (showing s t b (fold scene_step ms (m_loginId t, scene_calls s))))"
proof -
  have "BUF_SIZE < 2 ^ 64" by (simp add: BUF_SIZE_def)
  note b = CircularBuffer_new_spec [OF this, of cells]
  from thread_spec [OF assms(1) _ _ assms(3), of inBufs "[]"] assms(2,4,5) b show ?thesis
    by (auto simp: incomplete_def sizeof_defs)
qed

definition moved :: "32 word \<Rightarrow> server_msg" where
  "moved i = SMove (MoveBroadcastResult_new\<lparr>mPlayerIdx := i, mPosX := 7, mPosY := 8\<rparr>)"

lemma networkThread_shows_stream_witness:
  "\<exists>b. TC_networkThread [take 9 (server_bytes (moved 5)), drop 9 (server_bytes (moved 5)) @ server_bytes (moved 6)]
      (CGL_new [] ()\<lparr>s_TcpClient := Some TcpClient_new\<rparr>) =
    Some (Ok (showing (CGL_new [] ()\<lparr>s_TcpClient := Some TcpClient_new\<rparr>) TcpClient_new b
      (- 1, [UpdatePeer 5 7 8, UpdatePeer 6 7 8])))"
proof -
  have len: "length (server_bytes (moved i)) = 16" for i by (simp add: moved_def)
  have wf: "wf_server (moved i)" for i by (simp add: moved_def packet_new_defs)
  let ?s = "CGL_new [] ()\<lparr>s_TcpClient := Some TcpClient_new\<rparr>"
  let ?bufs = "[take 9 (server_bytes (moved 5)), drop 9 (server_bytes (moved 5)) @ server_bytes (moved 6)]"
  have "\<forall>inBuf\<in>set ?bufs. inBuf \<noteq> [] \<and> length inBuf \<le> 4096"
    using len [of 5] len [of 6] by auto
  moreover have "fold scene_step [moved 5, moved 6] (m_loginId TcpClient_new, scene_calls ?s) =
      (- 1, [UpdatePeer 5 7 8, UpdatePeer 6 7 8])"
    by (simp add: moved_def CGL_new_def TcpClient_new_def)
  ultimately show ?thesis
    using networkThread_shows_stream [of ?s TcpClient_new "[]" "[moved 5, moved 6]" ?bufs] wf
    by (auto simp: TcpClient_new_def simp del: TC_networkThread.simps)
qed

section \<open>What \<^verbatim>\<open>send\<close> transmits\<close>

text \<open>The kernel takes at least one byte, or answers \<^verbatim>\<open>-1\<close>; \<^verbatim>\<open>log\<close> reads
  what it has taken so far from the state of the world.\<close>

definition kernel_takes :: "'w gc_env \<Rightarrow> ('w \<Rightarrow> byte list) \<Rightarrow> bool" where
  "kernel_takes e log \<longleftrightarrow> (\<forall>sock chunk w. chunk \<noteq> [] \<longrightarrow>
     (case sock_send e sock chunk w of (n, w') \<Rightarrow>
        n = - 1 \<and> log w' = log w \<or>
        1 \<le> n \<and> n \<le> int (length chunk) \<and> log w' = log w @ take (nat n) chunk))"

lemma kernel_takesD:
  assumes "kernel_takes e log" and "chunk \<noteq> []" and "sock_send e sock chunk w = (n, w')"
  shows "n = - 1 \<and> log w' = log w \<or>
    1 \<le> n \<and> n \<le> int (length chunk) \<and> log w' = log w @ take (nat n) chunk"
proof -
  note all = assms(1) [unfolded kernel_takes_def]
  have "chunk \<noteq> [] \<longrightarrow> (case sock_send e sock chunk w of (n, w') \<Rightarrow> n = - 1 \<and> log w' = log w \<or>
      1 \<le> n \<and> n \<le> int (length chunk) \<and> log w' = log w @ take (nat n) chunk)"
    by (rule all [THEN spec, THEN spec, THEN spec])
  then show ?thesis by (simp only: assms(2,3) prod.case not_False_eq_True simp_thms)
qed

lemma send_loop_spec:
  assumes "kernel_takes e log" and "cnt \<le> length data" and "log w = before @ take cnt data"
  shows "\<exists>ok w' k. TC_send_loop e sock data cnt (length data - cnt) w = Some (Ok (ok, w')) \<and>
    k \<le> length data \<and> log w' = before @ take k data \<and> (ok \<longrightarrow> length data \<le> 2 * k)"
  using assms(2,3)
proof (induction "length data - cnt" arbitrary: cnt w rule: less_induct)
  case less
  show ?case
  proof (cases "cnt < length data - cnt")
    case False
    then have "TC_send_loop e sock data cnt (length data - cnt) w = Some (Ok (True, w))"
      by (subst TC_send_loop.simps) (simp only: not_False_eq_True if_True)
    moreover from False have "length data \<le> 2 * cnt" by linarith
    ultimately show ?thesis
      using less.prems by (intro exI [of _ True] exI [of _ w] exI [of _ cnt]) simp
  next
    case True
    have chunk: "mem_read cnt (length data - cnt) data = Ok (drop cnt data)"
      using less.prems(1) by (simp add: mem_read_def slice_def)
    obtain n w1 where call: "sock_send e sock (drop cnt data) w = (n, w1)" by force
    have "drop cnt data \<noteq> []" using True by simp
    from kernel_takesD [OF assms(1) this call] consider "n = - 1" "log w1 = log w"
      | "1 \<le> n" "n \<le> int (length data - cnt)" "log w1 = log w @ take (nat n) (drop cnt data)"
      by (simp only: length_drop) blast
    then show ?thesis
    proof cases
      case 1
      have "TC_send_loop e sock data cnt (length data - cnt) w = Some (Ok (False, w1))"
        using True by (subst TC_send_loop.simps) (simp only: chunk call 1(1) simp_thms if_True if_False
            not_False_eq_True outcome.case prod.case)
      then show ?thesis using 1(2) less.prems by (intro exI [of _ False] exI [of _ w1] exI [of _ cnt]) simp
    next
      case 2
      then have n: "n \<noteq> - 1" by simp
      from 2 have "length data - (cnt + nat n) < length data - cnt" "cnt + nat n \<le> length data"
        "log w1 = before @ take (cnt + nat n) data"
        using True less.prems by (auto simp: take_add)
      from less.hyps [OF this] obtain ok w' k where
        "TC_send_loop e sock data (cnt + nat n) (length data - cnt - nat n) w1 = Some (Ok (ok, w'))"
        "k \<le> length data" "log w' = before @ take k data" "ok \<longrightarrow> length data \<le> 2 * k"
        by (auto simp: diff_diff_left)
      moreover have "TC_send_loop e sock data cnt (length data - cnt) w =
          TC_send_loop e sock data (cnt + nat n) (length data - cnt - nat n) w1"
        using True by (subst TC_send_loop.simps) (simp only: chunk call n simp_thms if_True if_False
            not_False_eq_True outcome.case prod.case)
      ultimately show ?thesis by auto
    qed
  qed
qed

text \<open>C30. \<^verbatim>\<open>TcpClient::send\<close> returns for every kernel that takes at least one byte or
  fails, never reads outside the packet, transmits a prefix of it, and answers true only after at
  least half of it was taken.\<close>

theorem TcpClient_send_returns:
  assumes "kernel_takes e log" and "s_TcpClient s = Some t"
  shows "\<exists>ok s' k. TC_send e data s = Some (Ok (ok, s')) \<and> k \<le> length data \<and>
    log (gc_world s') = log (gc_world s) @ take k data \<and> (ok \<longrightarrow> length data \<le> 2 * k)"
proof -
  from send_loop_spec [OF assms(1), of 0 data "gc_world s" "log (gc_world s)" "m_sock t"]
  obtain ok w' k where "TC_send_loop e (m_sock t) data 0 (length data) (gc_world s) = Some (Ok (ok, w'))"
    "k \<le> length data" "log w' = log (gc_world s) @ take k data" "ok \<longrightarrow> length data \<le> 2 * k" by auto
  then show ?thesis
    by (intro exI [of _ ok] exI [of _ "s\<lparr>gc_world := w'\<rparr>"] exI [of _ k]) (simp add: TC_send_def assms(2))
qed

text \<open>A kernel whose socket buffer has room for three bytes at a time; the world is what it took.\<close>

definition slow_env :: "byte list gc_env" where
  "slow_env = \<lparr>wsa_startup = \<lambda>w. (0, w), make_socket = \<lambda>w. (3, w), gethostbyname = \<lambda>_ w. (None, w),
     sock_connect = \<lambda>_ _ _ w. (0, w), sock_nodelay = \<lambda>_ w. w,
     sock_send = \<lambda>_ chunk w. (int (min 3 (length chunk)), w @ take 3 chunk), sock_close = \<lambda>_ w. w,
     search_games = \<lambda>_ _ _ w. (None, w), create_player = \<lambda>_ _ _ w. (None, w)\<rparr>"

lemma slow_env_takes: "kernel_takes slow_env (\<lambda>w. w)"
  by (auto simp: kernel_takes_def slow_env_def min_def Suc_le_eq not_le)

lemma TcpClient_send_returns_witness:
  "\<exists>ok s' k. TC_send slow_env [1, 2, 3, 4, 5, 6, 7, 8] (CGL_new [] []\<lparr>s_TcpClient := Some TcpClient_new\<rparr>) =
     Some (Ok (ok, s')) \<and> gc_world s' = take k [1, 2, 3, 4, 5, 6, 7, 8] \<and> (ok \<longrightarrow> 4 \<le> k)"
proof -
  let ?s = "CGL_new [] []\<lparr>s_TcpClient := Some TcpClient_new\<rparr>"
  have "s_TcpClient ?s = Some TcpClient_new" "gc_world ?s = []" by (simp_all add: CGL_new_def)
  with TcpClient_send_returns [OF slow_env_takes this(1), of "[1, 2, 3, 4, 5, 6, 7, 8]"]
  obtain ok s' k where "TC_send slow_env [1, 2, 3, 4, 5, 6, 7, 8] ?s = Some (Ok (ok, s'))"
    "gc_world s' = take k [1, 2, 3, 4, 5, 6, 7, 8]" "ok \<longrightarrow> length [1, 2, 3, 4, 5, 6, 7, 8 :: byte] \<le> 2 * k"
    by (metis append_Nil)
  then show ?thesis by (intro exI [of _ ok] exI [of _ s'] exI [of _ k]) auto
qed

text \<open>C37. The loop of \<^verbatim>\<open>send\<close> compares the bytes taken with the bytes left: when the first
  call takes at least half of the packet but not all of it, \<^verbatim>\<open>send\<close> answers true and the rest of
  the packet is never transmitted.\<close>

theorem TcpClient_send_drops_rest:
  assumes "s_TcpClient s = Some t" and "sock_send e (m_sock t) data (gc_world s) = (int n, w')"
    and "length data \<le> 2 * n" and "n < length data"
  shows "TC_send e data s = Some (Ok (True, s\<lparr>gc_world := w'\<rparr>))"
proof -
  have "mem_read 0 (length data) data = Ok data" by (simp add: mem_read_def slice_def)
  moreover have "data \<noteq> []" using assms(4) by auto
  ultimately have "TC_send_loop e (m_sock t) data 0 (length data) (gc_world s) =
      TC_send_loop e (m_sock t) data n (length data - n) w'"
    using assms(2,4) by (subst TC_send_loop.simps) simp
  also have "\<dots> = Some (Ok (True, w'))"
  proof -
    from assms(3) have "\<not> n < length data - n" by linarith
    then show ?thesis by (subst TC_send_loop.simps) (simp only: simp_thms if_True)
  qed
  finally show ?thesis by (simp add: TC_send_def assms(1))
qed

lemma TcpClient_send_drops_rest_witness:
  "\<exists>s'. TC_send slow_env [1, 2, 3, 4, 5] (CGL_new [] []\<lparr>s_TcpClient := Some TcpClient_new\<rparr>) =
     Some (Ok (True, s')) \<and> gc_world s' = [1, 2, 3]"
  using TcpClient_send_drops_rest [of "CGL_new [] []\<lparr>s_TcpClient := Some TcpClient_new\<rparr>" TcpClient_new slow_env
      "[1, 2, 3, 4, 5]" 3 "[1, 2, 3]"]
  by (auto simp: CGL_new_def slow_env_def)

end
