(* ===== verification/Float32.thy ===== *)
theory Float32
  imports Prelude
begin

text \<open>
  \<^verbatim>\<open>float\<close>: the IEEE 754 binary32 numbers as their 32 bits, with the operations the clients
  use (conversion from \<^verbatim>\<open>int\<close>, addition, subtraction, division), rounding to nearest, ties
  to even. Whole numbers up to \<open>2 ^ 24\<close> are exact under addition and subtraction.
\<close>

section \<open>Fields and values\<close>

type_synonym float32 = "32 word"

definition f32_sign :: "float32 \<Rightarrow> bool" where
  "f32_sign w \<longleftrightarrow> 2 ^ 31 \<le> unat w"

definition f32_exponent :: "float32 \<Rightarrow> nat" where
  "f32_exponent w = unat w div 2 ^ 23 mod 2 ^ 8"

definition f32_fraction :: "float32 \<Rightarrow> nat" where
  "f32_fraction w = unat w mod 2 ^ 23"

definition f32_nan :: "float32 \<Rightarrow> bool" where
  "f32_nan w \<longleftrightarrow> f32_exponent w = 255 \<and> f32_fraction w \<noteq> 0"

definition f32_infinite :: "float32 \<Rightarrow> bool" where
  "f32_infinite w \<longleftrightarrow> f32_exponent w = 255 \<and> f32_fraction w = 0"

text \<open>The magnitude of a finite number, in units of the smallest one, \<open>2 ^ -149\<close>.\<close>

definition f32_magnitude :: "float32 \<Rightarrow> nat" where
  "f32_magnitude w =
     (if f32_exponent w = 0 then f32_fraction w
      else (2 ^ 23 + f32_fraction w) * 2 ^ (f32_exponent w - 1))"

definition f32_units :: "float32 \<Rightarrow> int" where
  "f32_units w = (if f32_sign w then - int (f32_magnitude w) else int (f32_magnitude w))"

section \<open>Rounding\<close>

fun log2 :: "nat \<Rightarrow> nat" where
  "log2 n = (if n < 2 then 0 else Suc (log2 (n div 2)))"

declare log2.simps [simp del]

text \<open>
  The bits, without sign, nearest to \<open>n / d\<close> units: the 24 leading bits of the quotient, rounded by the
  rest, then exponent and fraction in one number, into which a carry of the rounding goes by itself.
\<close>

definition f32_round :: "nat \<Rightarrow> nat \<Rightarrow> nat" where
  "f32_round n d =
     (let k = log2 (n div d) - 23;
          m = d * 2 ^ k;
          q = n div m;
          r = n mod m;
          q' = (if m < 2 * r \<or> m = 2 * r \<and> odd q then q + 1 else q)
      in min (k * 2 ^ 23 + q') (255 * 2 ^ 23))"

definition f32_pack :: "bool \<Rightarrow> nat \<Rightarrow> float32" where
  "f32_pack neg bits = of_nat ((if neg then 2 ^ 31 else 0) + bits)"

definition f32_NaN :: float32 where "f32_NaN = 0x7FC00000"

section \<open>Operations\<close>

text \<open>The number of units in 1.\<close>

definition f32_one :: nat where "f32_one = 2 ^ 149"

definition f32_of_int :: "int \<Rightarrow> float32" where
  "f32_of_int i = f32_pack (i < 0) (f32_round (nat \<bar>i\<bar> * f32_one) 1)"

definition f32_neg :: "float32 \<Rightarrow> float32" where
  "f32_neg w = w + 2 ^ 31"

definition f32_add :: "float32 \<Rightarrow> float32 \<Rightarrow> float32" where
  "f32_add a b =
     (if f32_nan a \<or> f32_nan b then f32_NaN
      else if f32_infinite a then (if f32_infinite b \<and> f32_sign a \<noteq> f32_sign b then f32_NaN else a)
      else if f32_infinite b then b
      else let z = f32_units a + f32_units b
           in if z = 0 then f32_pack (f32_sign a \<and> f32_sign b) 0
              else f32_pack (z < 0) (f32_round (nat \<bar>z\<bar>) 1))"

definition f32_sub :: "float32 \<Rightarrow> float32 \<Rightarrow> float32" where
  "f32_sub a b = f32_add a (f32_neg b)"

definition f32_div :: "float32 \<Rightarrow> float32 \<Rightarrow> float32" where
  "f32_div a b =
     (let neg = (f32_sign a \<noteq> f32_sign b)
      in if f32_nan a \<or> f32_nan b then f32_NaN
         else if f32_infinite a then (if f32_infinite b then f32_NaN else f32_pack neg (255 * 2 ^ 23))
         else if f32_infinite b then f32_pack neg 0
         else if f32_magnitude b = 0
         then (if f32_magnitude a = 0 then f32_NaN else f32_pack neg (255 * 2 ^ 23))
         else f32_pack neg (f32_round (f32_magnitude a * f32_one) (f32_magnitude b)))"

section \<open>Whole numbers are exact\<close>

lemma log2_bounds: "0 < n \<Longrightarrow> 2 ^ log2 n \<le> n \<and> n < 2 ^ Suc (log2 n)"
proof (induction n rule: log2.induct)
  case (1 n)
  then show ?case
    by (cases "n < 2") (subst (1 2) log2.simps; force)+
qed

definition bits_magnitude :: "nat \<Rightarrow> nat" where
  "bits_magnitude b = (if b div 2 ^ 23 = 0 then b mod 2 ^ 23 else (2 ^ 23 + b mod 2 ^ 23) * 2 ^ (b div 2 ^ 23 - 1))"

lemma bits_magnitude_pack: "2 ^ 23 \<le> q \<Longrightarrow> q < 2 ^ 24 \<Longrightarrow> bits_magnitude (k * 2 ^ 23 + q) = q * 2 ^ k"
proof -
  assume q: "2 ^ 23 \<le> q" "q < 2 ^ 24"
  then obtain f where f: "q = 2 ^ 23 + f" "f < 2 ^ 23" using le_Suc_ex by fastforce
  have "(k * 2 ^ 23 + q) div 2 ^ 23 = Suc k" "(k * 2 ^ 23 + q) mod 2 ^ 23 = f"
    using f by (simp_all add: div_add1_eq)
  then show ?thesis using f(1) by (simp add: bits_magnitude_def)
qed

lemma bits_magnitude_small: "n < 2 ^ 24 \<Longrightarrow> bits_magnitude n = n"
  using bits_magnitude_pack [of n 0] by (cases "n < 2 ^ 23") (simp_all add: bits_magnitude_def)

lemma f32_round_exact:
  assumes "n = q * 2 ^ j" and "q < 2 ^ 24" and "j \<le> 200"
  shows "bits_magnitude (f32_round n 1) = n" and "f32_round n 1 < 255 * 2 ^ 23"
proof -
  have "bits_magnitude (f32_round n 1) = n \<and> f32_round n 1 < 255 * 2 ^ 23"
  proof (cases "log2 n \<le> 23")
    case True
    then have "n < 2 ^ 24"
      using log2_bounds [of n] power_increasing [of "Suc (log2 n)" 24 "2 :: nat"] by (cases "n = 0") auto
    with True show ?thesis by (simp add: f32_round_def bits_magnitude_small min_def)
  next
    case False
    define k where "k = log2 n - 23"
    have n: "0 < n" using False by (cases "n = 0") (simp_all add: log2.simps)
    have L: "log2 n = 23 + k" using False by (simp add: k_def)
    have b: "2 ^ 23 * 2 ^ k \<le> n" "n < 2 ^ 24 * 2 ^ k"
      using log2_bounds [OF n] unfolding L by (simp_all add: power_add)
    have "2 ^ 23 * 2 ^ k < 2 ^ 24 * (2 :: nat) ^ j"
      by (rule le_less_trans [OF b(1)]) (use assms(2) in \<open>simp add: assms(1)\<close>)
    then have "(2 :: nat) ^ (23 + k) < 2 ^ (24 + j)" by (simp only: power_add)
    then have "23 + k < 24 + j" by (rule power_less_imp_less_exp [rotated]) simp
    then have kj: "k \<le> j" by linarith
    then obtain p where p: "n = p * 2 ^ k"
      using assms(1) by (metis le_Suc_ex mult.assoc mult.commute power_add)
    have pq: "2 ^ 23 \<le> p" "p < 2 ^ 24" using b unfolding p by simp_all
    have small: "k * 2 ^ 23 + p < 255 * 2 ^ 23" using kj assms(3) pq(2) by simp
    have kn: "log2 n - 23 = k" using L by simp
    have "f32_round n 1 = k * 2 ^ 23 + p"
      using small by (simp add: f32_round_def kn) (simp add: p)
    with small show ?thesis using bits_magnitude_pack [OF pq, of k] by (simp add: p)
  qed
  then show "bits_magnitude (f32_round n 1) = n" "f32_round n 1 < 255 * 2 ^ 23" by simp_all
qed

lemma f32_pack_finite:
  assumes "b < 255 * 2 ^ 23"
  shows "f32_sign (f32_pack neg b) = neg" and "\<not> f32_nan (f32_pack neg b)" and "\<not> f32_infinite (f32_pack neg b)"
    and "f32_magnitude (f32_pack neg b) = bits_magnitude b"
proof -
  have u: "unat (f32_pack neg b) = (if neg then 2 ^ 31 else 0) + b"
    using assms by (simp add: f32_pack_def unat_of_nat take_bit_nat_eq_self del: of_nat_add)
  have d: "b div 2 ^ 23 < 255" using assms by (simp add: less_mult_imp_div_less)
  have e: "f32_exponent (f32_pack neg b) = b div 2 ^ 23" "f32_fraction (f32_pack neg b) = b mod 2 ^ 23"
    using d by (simp_all add: f32_exponent_def f32_fraction_def u div_add1_eq mod_add_eq [symmetric])
  show "f32_sign (f32_pack neg b) = neg" using assms by (simp add: f32_sign_def u)
  show "\<not> f32_nan (f32_pack neg b)" "\<not> f32_infinite (f32_pack neg b)"
    using d by (simp_all add: f32_nan_def f32_infinite_def e(1))
  show "f32_magnitude (f32_pack neg b) = bits_magnitude b"
    by (simp add: f32_magnitude_def bits_magnitude_def e)
qed

lemma f32_one_pos [simp]: "0 < f32_one" "f32_one \<noteq> 0"
  unfolding f32_one_def by simp_all

lemma f32_of_int_round:
  assumes "\<bar>i\<bar> \<le> 2 ^ 24"
  shows "bits_magnitude (f32_round (nat \<bar>i\<bar> * f32_one) 1) = nat \<bar>i\<bar> * f32_one"
    and "f32_round (nat \<bar>i\<bar> * f32_one) 1 < 255 * 2 ^ 23"
proof -
  define M :: nat where "M = 149"
  have one: "f32_one = 2 ^ M" "Suc M \<le> 200" by (simp_all only: f32_one_def M_def)
  have "\<exists>q j. nat \<bar>i\<bar> * f32_one = q * 2 ^ j \<and> q < 2 ^ 24 \<and> j \<le> 200"
  proof (cases "\<bar>i\<bar> = 2 ^ 24")
    case True
    then have "nat \<bar>i\<bar> * f32_one = 2 ^ 23 * 2 ^ Suc M" by (simp add: one(1))
    moreover have "(2 :: nat) ^ 23 < 2 ^ 24" by simp
    ultimately show ?thesis using one(2) by blast
  next
    case False
    with assms have "nat \<bar>i\<bar> < 2 ^ 24" by simp
    moreover have "M \<le> 200" using one(2) by simp
    ultimately show ?thesis unfolding one(1) by blast
  qed
  then obtain q j where q: "nat \<bar>i\<bar> * f32_one = q * 2 ^ j" "q < 2 ^ 24" "j \<le> 200" by blast
  show "bits_magnitude (f32_round (nat \<bar>i\<bar> * f32_one) 1) = nat \<bar>i\<bar> * f32_one"
      "f32_round (nat \<bar>i\<bar> * f32_one) 1 < 255 * 2 ^ 23"
    by (rule f32_round_exact [OF q])+
qed

lemma f32_of_int_exact:
  assumes "\<bar>i\<bar> \<le> 2 ^ 24"
  shows "f32_units (f32_of_int i) = i * int f32_one" and "f32_sign (f32_of_int i) \<longleftrightarrow> i < 0"
    and "\<not> f32_nan (f32_of_int i)" and "\<not> f32_infinite (f32_of_int i)"
proof -
  note r = f32_of_int_round [OF assms]
  note p = f32_pack_finite [OF r(2), of "i < 0", folded f32_of_int_def]
  show "f32_sign (f32_of_int i) \<longleftrightarrow> i < 0" "\<not> f32_nan (f32_of_int i)" "\<not> f32_infinite (f32_of_int i)"
    by (rule p)+
  show "f32_units (f32_of_int i) = i * int f32_one"
    unfolding f32_units_def p(1,4) r(1) by simp
qed

lemma f32_round_0: "f32_round 0 (Suc 0) = 0"
  by (simp add: f32_round_def log2.simps)

text \<open>Addition and subtraction of whole numbers are those of the numbers.\<close>

lemma f32_add_of_int:
  assumes "\<bar>i\<bar> \<le> 2 ^ 24" and "\<bar>j\<bar> \<le> 2 ^ 24"
  shows "f32_add (f32_of_int i) (f32_of_int j) = f32_of_int (i + j)"
proof -
  let ?z = "(i + j) * int f32_one"
  note ex = f32_of_int_exact [OF assms(1)] f32_of_int_exact [OF assms(2)]
  have z: "f32_units (f32_of_int i) + f32_units (f32_of_int j) = ?z"
    by (simp add: ex distrib_right)
  have m: "nat \<bar>?z\<bar> = nat \<bar>i + j\<bar> * f32_one" "?z = 0 \<longleftrightarrow> i + j = 0" "?z < 0 \<longleftrightarrow> i + j < 0"
    by (auto simp: abs_mult nat_mult_distrib mult_less_0_iff)
  have "f32_add (f32_of_int i) (f32_of_int j) =
      (if i + j = 0 then f32_pack (i < 0 \<and> j < 0) 0 else f32_of_int (i + j))"
    unfolding f32_add_def Let_def z m by (simp only: ex simp_thms if_False) (simp only: f32_of_int_def)
  moreover have "f32_of_int 0 = f32_pack False 0" by (simp add: f32_of_int_def f32_round_0)
  moreover have "\<not> (i < 0 \<and> j < 0)" if "i + j = 0" using that by linarith
  ultimately show ?thesis by (cases "i + j = 0") simp_all
qed

lemma f32_neg_pack: "b < 2 ^ 31 \<Longrightarrow> f32_neg (f32_pack neg b) = f32_pack (\<not> neg) b"
  by (simp add: f32_neg_def f32_pack_def)

lemma f32_sub_of_int:
  assumes "\<bar>i\<bar> \<le> 2 ^ 24" and "0 < j" and "j \<le> 2 ^ 24"
  shows "f32_sub (f32_of_int i) (f32_of_int j) = f32_of_int (i - j)"
proof -
  have j: "\<bar>j\<bar> \<le> 2 ^ 24" "\<bar>- j\<bar> \<le> 2 ^ 24" using assms(2,3) by simp_all
  have "f32_neg (f32_of_int j) = f32_of_int (- j)"
    using assms(2) f32_of_int_round(2) [OF j(1)] by (simp add: f32_of_int_def f32_neg_pack)
  then show ?thesis using f32_add_of_int [OF assms(1) j(2)] by (simp add: f32_sub_def)
qed

lemma f32_of_int_inj:
  assumes "\<bar>i\<bar> \<le> 2 ^ 24" and "\<bar>j\<bar> \<le> 2 ^ 24" and "f32_of_int i = f32_of_int j"
  shows "i = j"
proof -
  have "i * int f32_one = j * int f32_one"
    unfolding f32_of_int_exact(1) [OF assms(1), symmetric] f32_of_int_exact(1) [OF assms(2), symmetric] assms(3) ..
  then show ?thesis by simp
qed

end
