(* ===== verification/CocosScene.thy ===== *)
theory CocosScene
  imports CocosClient Float32
begin

text \<open>
  The game client's scene (\<^verbatim>\<open>HelloWorldScene\<close>) and start (\<^verbatim>\<open>AppDelegate\<close>,
  \<^verbatim>\<open>proj.win32/main.cpp\<close>): the sprites of the players, the keys, and the calls the network
  thread has posted to the Cocos thread. What the engine decides (window and image sizes, whether an image
  loads) is the record \<^verbatim>\<open>scene_env\<close>; sprites are objects in a store, by address.
\<close>

section \<open>State\<close>

record scene_env =
  layer_initialised :: bool
  visible_width :: float32
  visible_origin :: "float32 \<times> float32"
  close_item_size :: "float32 \<times> float32"
  window_size :: "float32 \<times> float32"
  image_loads :: "byte list \<Rightarrow> bool"

record CCSprite =
  sp_image :: "byte list"
  sp_position :: "float32 \<times> float32"

record HelloWorld =
  mPlayerSprite :: "nat option"
  mPeerMap :: "int \<Rightarrow> nat option"
  hw_sprites :: "nat \<Rightarrow> CCSprite option"
  hw_next :: nat
  hw_children :: "nat list"
  hw_close_item :: "(float32 \<times> float32) option"
  hw_scheduled :: bool
  hw_keyboard :: bool
  hw_log :: "byte list list"
  hw_ended :: bool

definition HelloWorld_new :: HelloWorld where
  "HelloWorld_new =
     \<lparr>mPlayerSprite = None, mPeerMap = (\<lambda>_. None), hw_sprites = (\<lambda>_. None), hw_next = 0, hw_children = [],
      hw_close_item = None, hw_scheduled = False, hw_keyboard = False, hw_log = [], hw_ended = False\<rparr>"

text \<open>\<^verbatim>\<open>CCSprite::create\<close>, null when the image does not load, and calls on a sprite.\<close>

definition sprite_create :: "scene_env \<Rightarrow> byte list \<Rightarrow> HelloWorld \<Rightarrow> nat option \<times> HelloWorld" where
  "sprite_create v file h =
     (if image_loads v file
      then (Some (hw_next h), h\<lparr>hw_sprites := (hw_sprites h)(hw_next h \<mapsto> \<lparr>sp_image = file, sp_position = (0, 0)\<rparr>),
                                hw_next := hw_next h + 1\<rparr>)
      else (None, h))"

definition with_sprite :: "nat option \<Rightarrow> HelloWorld \<Rightarrow> (nat \<Rightarrow> CCSprite \<Rightarrow> 'a outcome) \<Rightarrow> 'a outcome" where
  "with_sprite p h f =
     (case p of None \<Rightarrow> Fault NullDeref
      | Some i \<Rightarrow> (case hw_sprites h i of None \<Rightarrow> Fault DanglingRef | Some sp \<Rightarrow> f i sp))"

definition setPosition :: "nat option \<Rightarrow> float32 \<times> float32 \<Rightarrow> HelloWorld \<Rightarrow> HelloWorld outcome" where
  "setPosition p xy h =
     with_sprite p h (\<lambda>i sp. Ok (h\<lparr>hw_sprites := (hw_sprites h)(i \<mapsto> sp\<lparr>sp_position := xy\<rparr>)\<rparr>))"

definition addChild :: "nat option \<Rightarrow> HelloWorld \<Rightarrow> HelloWorld outcome" where
  "addChild p h = with_sprite p h (\<lambda>i _. Ok (h\<lparr>hw_children := hw_children h @ [i]\<rparr>))"

section \<open>\<^verbatim>\<open>HelloWorld\<close>\<close>

definition HW_init :: "scene_env \<Rightarrow> HelloWorld \<Rightarrow> (bool \<times> HelloWorld) outcome" where
  "HW_init v h =
     (if \<not> layer_initialised v then Ok (False, h)
      else let half = (\<lambda>x. f32_div x (f32_of_int 2));
               close = (f32_sub (f32_add (fst (visible_origin v)) (visible_width v)) (half (fst (close_item_size v))),
                        f32_add (snd (visible_origin v)) (half (snd (close_item_size v))));
               winSize = window_size v
           in case sprite_create v (lit ''Player.png'') (h\<lparr>hw_close_item := Some close\<rparr>) of (sprite, h1) \<Rightarrow>
              let h2 = h1\<lparr>mPlayerSprite := sprite\<rparr>
              in bnd (setPosition sprite (half (fst winSize), half (snd winSize)) h2) (\<lambda>h3.
                 bnd (addChild sprite h3) (\<lambda>h4. Ok (True, h4\<lparr>hw_scheduled := True, hw_keyboard := True\<rparr>))))"

text \<open>\<^verbatim>\<open>createScene\<close>: \<^verbatim>\<open>create\<close> answers null when \<^verbatim>\<open>init\<close> fails, and the
  scene's \<^verbatim>\<open>addChild\<close> asserts that its argument is not.\<close>

definition HW_createScene :: "scene_env \<Rightarrow> HelloWorld outcome" where
  "HW_createScene v = bnd (HW_init v HelloWorld_new) (\<lambda>(ok, h). if ok then Ok h else Fault AssertFailed)"

definition HW_menuCloseCallback :: "HelloWorld \<Rightarrow> HelloWorld" where
  "HW_menuCloseCallback h = h\<lparr>hw_ended := True\<rparr>"

text \<open>\<^verbatim>\<open>removeChild\<close> ignores a node that is no child; it gives up the scene's reference, the only
  one to a peer, whereas \<^verbatim>\<open>init\<close> has retained the player's sprite.\<close>

definition HW_spriteMoveFinished :: "nat \<Rightarrow> HelloWorld \<Rightarrow> HelloWorld" where
  "HW_spriteMoveFinished sprite h =
     (if sprite \<notin> set (hw_children h) then h
      else let h1 = h\<lparr>hw_children := remove1 sprite (hw_children h)\<rparr>
           in if mPlayerSprite h = Some sprite then h1
              else h1\<lparr>hw_sprites := (hw_sprites h1)(sprite := None)\<rparr>)"

definition HW_updateMe :: "float32 \<Rightarrow> float32 \<Rightarrow> HelloWorld \<Rightarrow> HelloWorld outcome" where
  "HW_updateMe x y h = setPosition (mPlayerSprite h) (x, y) h"

definition HW_updatePeer :: "scene_env \<Rightarrow> int \<Rightarrow> float32 \<Rightarrow> float32 \<Rightarrow> HelloWorld \<Rightarrow> HelloWorld outcome" where
  "HW_updatePeer v i x y h =
     (case mPeerMap h i of
        None \<Rightarrow>
          (case sprite_create v (lit ''Target.png'') h of (newPeer, h1) \<Rightarrow>
           bnd (setPosition newPeer (x, y) h1) (\<lambda>h2.
           bnd (addChild newPeer h2) (\<lambda>h3. Ok (h3\<lparr>mPeerMap := (mPeerMap h3)(i := newPeer)\<rparr>))))
      | Some p \<Rightarrow> setPosition (Some p) (x, y) h)"

definition chat_line :: "byte list \<Rightarrow> byte list \<Rightarrow> byte list" where
  "chat_line sender chat = lit ''CHAT FROM ID['' @ sender @ lit ''] Chat['' @ chat @ lit '']''"

definition HW_chatDraw :: "byte list \<Rightarrow> byte list \<Rightarrow> HelloWorld \<Rightarrow> HelloWorld" where
  "HW_chatDraw sender chat h = h\<lparr>hw_log := hw_log h @ [chat_line sender chat]\<rparr>"

text \<open>The calls the network thread has posted, performed in order on the Cocos thread.\<close>

fun HW_call :: "scene_env \<Rightarrow> scene_call \<Rightarrow> HelloWorld \<Rightarrow> HelloWorld outcome" where
  "HW_call v (ChatDraw sender chat) h = Ok (HW_chatDraw sender chat h)"
| "HW_call v (UpdateMe x y) h = HW_updateMe x y h"
| "HW_call v (UpdatePeer i x y) h = HW_updatePeer v (sint i) x y h"

fun HW_calls :: "scene_env \<Rightarrow> scene_call list \<Rightarrow> HelloWorld \<Rightarrow> HelloWorld outcome" where
  "HW_calls v [] h = Ok h"
| "HW_calls v (c # cs) h = bnd (HW_call v c h) (HW_calls v cs)"

section \<open>The application\<close>

record 'w cocos_app =
  app_scene :: HelloWorld
  app_client :: "'w game_client"

datatype key = KEY_UP_ARROW | KEY_DOWN_ARROW | KEY_LEFT_ARROW | KEY_RIGHT_ARROW | KEY_L | KEY_C | OtherKey

definition with_client :: "'w cocos_app \<Rightarrow> 'w game_client outcome option \<Rightarrow> 'w cocos_app outcome option" where
  "with_client a r = map_option (\<lambda>x. bnd x (\<lambda>c. Ok (a\<lparr>app_client := c\<rparr>))) r"

text \<open>\<^verbatim>\<open>TcpClient::getInstance()->moveRequest\<close> with the player's position and the step of the key.\<close>

definition HW_step ::
  "'w gc_env \<Rightarrow> (float32 \<times> float32 \<Rightarrow> float32 \<times> float32) \<Rightarrow> 'w cocos_app \<Rightarrow> 'w cocos_app outcome option" where
  "HW_step e f a =
     (case TC_getInstance e (app_client a) of (valid, c) \<Rightarrow>
      if \<not> valid then Some (Fault NullDeref)
      else case with_sprite (mPlayerSprite (app_scene a)) (app_scene a) (\<lambda>_ sp. Ok (f (sp_position sp))) of
             Fault x \<Rightarrow> Some (Fault x)
           | Ok (x, y) \<Rightarrow> with_client a (TC_moveRequest e x y c))"

definition HW_onKeyReleased :: "'w gc_env \<Rightarrow> key \<Rightarrow> 'w cocos_app \<Rightarrow> 'w cocos_app outcome option" where
  "HW_onKeyReleased e k a =
     (let ten = f32_of_int 10
      in case k of
           KEY_UP_ARROW \<Rightarrow> HW_step e (\<lambda>(x, y). (x, f32_add y ten)) a
         | KEY_DOWN_ARROW \<Rightarrow> HW_step e (\<lambda>(x, y). (x, f32_sub y ten)) a
         | KEY_LEFT_ARROW \<Rightarrow> HW_step e (\<lambda>(x, y). (f32_sub x ten, y)) a
         | KEY_RIGHT_ARROW \<Rightarrow> HW_step e (\<lambda>(x, y). (f32_add x ten, y)) a
         | KEY_L \<Rightarrow> with_client a (CGL_DoTestNow e (app_client a))
         | KEY_C \<Rightarrow>
             (case TC_getInstance e (app_client a) of (valid, c) \<Rightarrow>
              if \<not> valid then Some (Fault NullDeref)
              else with_client a (TC_chatRequest e (lit '' - HELLO~~ THIS IS TEST...'') c))
         | OtherKey \<Rightarrow> Some (Ok a))"

text \<open>A frame performs the posted calls.\<close>

definition app_frame :: "scene_env \<Rightarrow> 'w cocos_app \<Rightarrow> 'w cocos_app outcome" where
  "app_frame v a =
     bnd (HW_calls v (scene_calls (app_client a)) (app_scene a)) (\<lambda>h.
     Ok (a\<lparr>app_scene := h, app_client := (app_client a)\<lparr>scene_calls := []\<rparr>\<rparr>))"

text \<open>\<^verbatim>\<open>_tWinMain\<close> and \<^verbatim>\<open>applicationDidFinishLaunching\<close>, up to the engine's loop.\<close>

definition app_start :: "scene_env \<Rightarrow> byte list \<Rightarrow> byte list \<Rightarrow> 'w \<Rightarrow> 'w cocos_app outcome" where
  "app_start v alias region w =
     bnd (HW_createScene v) (\<lambda>h.
     Ok \<lparr>app_scene = h, app_client = CGL_SetUpAwsClient region (CGL_new alias w)\<rparr>)"

end
