(* ===== verification/SceneProofs.thy ===== *)
theory SceneProofs
  imports CocosProofs CocosScene
begin

text \<open>
  The scene shows what the server has said: from the bytes of the socket to the sprites, the client
  refines a picture that maps every player to its last position.
\<close>

section \<open>The picture\<close>

record picture =
  viewer :: int
  me :: "(float32 \<times> float32) option"
  others :: "int \<Rightarrow> (float32 \<times> float32) option"
  heard :: "byte list list"

fun see :: "server_msg \<Rightarrow> picture \<Rightarrow> picture" where
  "see (SLogin p) v = v\<lparr>viewer := 416\<rparr>"
| "see (SChat p) v = v\<lparr>heard := heard v @ [chat_line (text_of (mPlayerId p)) (text_of (mChat p))]\<rparr>"
| "see (SMove p) v =
     (if sint (mPlayerIdx p) = viewer v then v\<lparr>me := Some (mPosX p, mPosY p)\<rparr>
      else v\<lparr>others := (others v)(sint (mPlayerIdx p) \<mapsto> (mPosX p, mPosY p))\<rparr>)"

definition drawn :: "int \<Rightarrow> HelloWorld \<Rightarrow> picture" where
  "drawn i h =
     (let place = (\<lambda>p. Option.bind p (\<lambda>k. map_option sp_position (hw_sprites h k)))
      in \<lparr>viewer = i, me = place (mPlayerSprite h), others = (\<lambda>j. place (mPeerMap h j)), heard = hw_log h\<rparr>)"

text \<open>
  A scene in order: the player and every peer have a sprite of their own, and exactly these sprites
  are on the screen, each once.
\<close>

definition scene_ok :: "HelloWorld \<Rightarrow> bool" where
  "scene_ok h \<longleftrightarrow> (\<exists>p. mPlayerSprite h = Some p \<and> hw_sprites h p \<noteq> None \<and>
     (\<forall>i k. mPeerMap h i = Some k \<longrightarrow> k \<noteq> p \<and> hw_sprites h k \<noteq> None) \<and>
     (\<forall>i j k. mPeerMap h i = Some k \<longrightarrow> mPeerMap h j = Some k \<longrightarrow> i = j) \<and>
     (\<forall>k. hw_sprites h k \<noteq> None \<longrightarrow> k < hw_next h) \<and>
     distinct (hw_children h) \<and> set (hw_children h) = insert p (ran (mPeerMap h)))"

lemma scene_okE:
  assumes "scene_ok h"
  obtains p sp where "mPlayerSprite h = Some p" and "hw_sprites h p = Some sp"
    and "\<forall>i k. mPeerMap h i = Some k \<longrightarrow> k \<noteq> p \<and> hw_sprites h k \<noteq> None"
    and "\<forall>i j k. mPeerMap h i = Some k \<longrightarrow> mPeerMap h j = Some k \<longrightarrow> i = j"
    and "\<forall>k. hw_sprites h k \<noteq> None \<longrightarrow> k < hw_next h"
    and "distinct (hw_children h)" and "set (hw_children h) = insert p (ran (mPeerMap h))"
  using assms unfolding scene_ok_def by blast

section \<open>The calls\<close>

lemma move_sprite:
  assumes "scene_ok h" and "hw_sprites h k = Some sp"
  shows "\<exists>h'. setPosition (Some k) xy h = Ok h' \<and> scene_ok h' \<and> mPeerMap h' = mPeerMap h \<and>
    mPlayerSprite h' = mPlayerSprite h \<and> hw_log h' = hw_log h \<and>
    (\<forall>j. map_option sp_position (hw_sprites h' j) =
       (if j = k then Some xy else map_option sp_position (hw_sprites h j)))"
proof -
  from assms(1) obtain p where "mPlayerSprite h = Some p" "hw_sprites h p \<noteq> None"
    "\<forall>i k. mPeerMap h i = Some k \<longrightarrow> k \<noteq> p \<and> hw_sprites h k \<noteq> None"
    "\<forall>i j k. mPeerMap h i = Some k \<longrightarrow> mPeerMap h j = Some k \<longrightarrow> i = j"
    "\<forall>k. hw_sprites h k \<noteq> None \<longrightarrow> k < hw_next h"
    "distinct (hw_children h)" "set (hw_children h) = insert p (ran (mPeerMap h))"
    unfolding scene_ok_def by blast
  then have "scene_ok (h\<lparr>hw_sprites := (hw_sprites h)(k \<mapsto> sp\<lparr>sp_position := xy\<rparr>)\<rparr>)"
    using assms(2) unfolding scene_ok_def by (intro exI [of _ p]) simp
  with assms(2) show ?thesis by (simp add: setPosition_def with_sprite_def)
qed

lemma updateMe_draws:
  assumes "scene_ok h"
  shows "\<exists>h'. HW_updateMe x y h = Ok h' \<and> scene_ok h' \<and> drawn i h' = (drawn i h)\<lparr>me := Some (x, y)\<rparr>"
proof -
  from assms obtain p sp where p: "mPlayerSprite h = Some p" "hw_sprites h p = Some sp"
    "\<forall>i k. mPeerMap h i = Some k \<longrightarrow> k \<noteq> p \<and> hw_sprites h k \<noteq> None" by (rule scene_okE)
  from move_sprite [OF assms p(2), of "(x, y)"] obtain h' where
    h': "setPosition (Some p) (x, y) h = Ok h'" "scene_ok h'" "mPeerMap h' = mPeerMap h"
      "mPlayerSprite h' = Some p" "hw_log h' = hw_log h"
      "\<forall>j. map_option sp_position (hw_sprites h' j) =
         (if j = p then Some (x, y) else map_option sp_position (hw_sprites h j))" by (auto simp: p(1))
  have "Option.bind (mPeerMap h j) (\<lambda>k. map_option sp_position (hw_sprites h' k)) =
      Option.bind (mPeerMap h j) (\<lambda>k. map_option sp_position (hw_sprites h k))" for j
    using h'(6) p(3) by (cases "mPeerMap h j") auto
  then show ?thesis using h' p(1) by (simp add: HW_updateMe_def drawn_def)
qed

lemma updatePeer_known:
  assumes "scene_ok h" and "mPeerMap h j = Some k"
  shows "\<exists>h'. HW_updatePeer v j x y h = Ok h' \<and> scene_ok h' \<and>
    drawn i h' = (drawn i h)\<lparr>others := (others (drawn i h))(j \<mapsto> (x, y))\<rparr>"
proof -
  from assms(1) obtain p sp where p: "mPlayerSprite h = Some p"
    "\<forall>i k. mPeerMap h i = Some k \<longrightarrow> k \<noteq> p \<and> hw_sprites h k \<noteq> None"
    "\<forall>i j k. mPeerMap h i = Some k \<longrightarrow> mPeerMap h j = Some k \<longrightarrow> i = j" by (rule scene_okE)
  obtain sk where sk: "hw_sprites h k = Some sk" using p(2) assms(2) by blast
  from move_sprite [OF assms(1) this, of "(x, y)"] obtain h' where
    h': "setPosition (Some k) (x, y) h = Ok h'" "scene_ok h'" "mPeerMap h' = mPeerMap h"
      "mPlayerSprite h' = Some p" "hw_log h' = hw_log h"
      "\<forall>l. map_option sp_position (hw_sprites h' l) =
         (if l = k then Some (x, y) else map_option sp_position (hw_sprites h l))" by (auto simp: p(1))
  have "Option.bind (mPeerMap h l) (\<lambda>k. map_option sp_position (hw_sprites h' k)) =
      (if l = j then Some (x, y) else Option.bind (mPeerMap h l) (\<lambda>k. map_option sp_position (hw_sprites h k)))" for l
    using h'(6) p(3) assms(2) by (cases "mPeerMap h l") auto
  moreover have "map_option sp_position (hw_sprites h' p) = map_option sp_position (hw_sprites h p)"
    using h'(6) p(2) assms(2) by auto
  ultimately show ?thesis using h' p(1) assms(2) by (auto simp: HW_updatePeer_def drawn_def)
qed

lemma updatePeer_new:
  assumes "scene_ok h" and "mPeerMap h j = None" and "image_loads v (lit ''Target.png'')"
  shows "\<exists>h'. HW_updatePeer v j x y h = Ok h' \<and> scene_ok h' \<and>
    drawn i h' = (drawn i h)\<lparr>others := (others (drawn i h))(j \<mapsto> (x, y))\<rparr>"
proof -
  from assms(1) obtain p sp where p: "mPlayerSprite h = Some p" "hw_sprites h p = Some sp"
    "\<forall>i k. mPeerMap h i = Some k \<longrightarrow> k \<noteq> p \<and> hw_sprites h k \<noteq> None"
    "\<forall>i j k. mPeerMap h i = Some k \<longrightarrow> mPeerMap h j = Some k \<longrightarrow> i = j"
    "\<forall>k. hw_sprites h k \<noteq> None \<longrightarrow> k < hw_next h"
    "distinct (hw_children h)" "set (hw_children h) = insert p (ran (mPeerMap h))" by (rule scene_okE)
  let ?n = "hw_next h" and ?sp = "\<lparr>sp_image = lit ''Target.png'', sp_position = (x, y)\<rparr>"
  define h' where "h' = h\<lparr>hw_sprites := (hw_sprites h)(?n \<mapsto> ?sp), hw_next := ?n + 1,
    hw_children := hw_children h @ [?n], mPeerMap := (mPeerMap h)(j \<mapsto> ?n)\<rparr>"
  have up: "HW_updatePeer v j x y h = Ok h'"
    using assms(2,3) by (simp add: HW_updatePeer_def sprite_create_def setPosition_def addChild_def
        with_sprite_def h'_def)
  have old: "k < ?n" if "mPeerMap h i = Some k" for i k using p(3,5) that by blast
  have pn: "p < ?n" using p(2,5) by blast
  have "?n \<notin> set (hw_children h)" using old pn p(7) by (auto simp: ran_def)
  moreover have "set (hw_children h') = insert p (ran (mPeerMap h'))"
    using p(7) assms(2) by (auto simp: h'_def)
  ultimately have "scene_ok h'"
    unfolding scene_ok_def using p pn old
    by (intro exI [of _ p]) (auto simp: h'_def less_SucI split: if_splits dest: old)
  moreover have "Option.bind (mPeerMap h l) (\<lambda>k. map_option sp_position (hw_sprites h' k)) =
      Option.bind (mPeerMap h l) (\<lambda>k. map_option sp_position (hw_sprites h k))" for l
    using old [of l] by (cases "mPeerMap h l") (auto simp: h'_def)
  then have "drawn i h' = (drawn i h)\<lparr>others := (others (drawn i h))(j \<mapsto> (x, y))\<rparr>"
    using p(1) pn by (auto simp: drawn_def h'_def)
  ultimately show ?thesis using up by blast
qed

lemma updatePeer_draws:
  assumes "scene_ok h" and "image_loads v (lit ''Target.png'')"
  shows "\<exists>h'. HW_updatePeer v j x y h = Ok h' \<and> scene_ok h' \<and>
    drawn i h' = (drawn i h)\<lparr>others := (others (drawn i h))(j \<mapsto> (x, y))\<rparr>"
  using updatePeer_known [OF assms(1)] updatePeer_new [OF assms(1) _ assms(2)] by (cases "mPeerMap h j") blast+

lemma chatDraw_draws: "scene_ok h \<Longrightarrow> scene_ok (HW_chatDraw f c h) \<and>
    drawn i (HW_chatDraw f c h) = (drawn i h)\<lparr>heard := heard (drawn i h) @ [chat_line f c]\<rparr>"
  by (simp add: scene_ok_def HW_chatDraw_def drawn_def)

lemma HW_calls_append: "HW_calls v (cs @ ds) h = bnd (HW_calls v cs h) (HW_calls v ds)"
proof (induction cs arbitrary: h)
  case (Cons c cs)
  then show ?case by (cases "HW_call v c h") simp_all
qed simp

text \<open>The calls that a message stands for draw what it says.\<close>

lemma message_drawn:
  assumes "scene_ok h" and "image_loads v (lit ''Target.png'')"
  shows "\<exists>i' new h'. (\<forall>cs. scene_step m (i, cs) = (i', cs @ new)) \<and> HW_calls v new h = Ok h' \<and> scene_ok h' \<and>
    drawn i' h' = see m (drawn i h)"
proof (cases m)
  case (SLogin p)
  then show ?thesis
    using assms(1) by (intro exI [of _ 416] exI [of _ "[]"] exI [of _ h]) (simp add: drawn_def)
next
  case (SChat p)
  then show ?thesis
    using chatDraw_draws [OF assms(1)] by (intro exI [of _ i] exI [of _ "[ChatDraw (text_of (mPlayerId p)) (text_of (mChat p))]"] exI) auto
next
  case (SMove p)
  have viewer: "viewer (drawn i h) = i" by (simp add: drawn_def)
  show ?thesis
  proof (cases "sint (mPlayerIdx p) = i")
    case True
    from updateMe_draws [OF assms(1)] obtain h' where
      "HW_updateMe (mPosX p) (mPosY p) h = Ok h'" "scene_ok h'"
      "drawn i h' = (drawn i h)\<lparr>me := Some (mPosX p, mPosY p)\<rparr>" by blast
    with SMove True viewer show ?thesis
      by (intro exI [of _ i] exI [of _ "[UpdateMe (mPosX p) (mPosY p)]"] exI [of _ h']) simp
  next
    case False
    from updatePeer_draws [OF assms] obtain h' where
      "HW_updatePeer v (sint (mPlayerIdx p)) (mPosX p) (mPosY p) h = Ok h'" "scene_ok h'"
      "drawn i h' = (drawn i h)\<lparr>others := (others (drawn i h))(sint (mPlayerIdx p) \<mapsto> (mPosX p, mPosY p))\<rparr>"
      by blast
    with SMove False viewer show ?thesis
      by (intro exI [of _ i] exI [of _ "[UpdatePeer (mPlayerIdx p) (mPosX p) (mPosY p)]"] exI [of _ h']) simp
  qed
qed

lemma stream_drawn:
  assumes "scene_ok h" and "image_loads v (lit ''Target.png'')"
  shows "\<exists>i' new h'. (\<forall>cs. scene_run ms (i, cs) = (i', cs @ new)) \<and> HW_calls v new h = Ok h' \<and> scene_ok h' \<and>
    drawn i' h' = fold see ms (drawn i h)"
  using assms(1)
proof (induction ms arbitrary: i h)
  case Nil
  then show ?case by (intro exI [of _ i] exI [of _ "[]"] exI [of _ h]) simp
next
  case (Cons m ms)
  from message_drawn [OF Cons.prems assms(2)] obtain i1 new1 h1 where
    one: "\<forall>cs. scene_step m (i, cs) = (i1, cs @ new1)" "HW_calls v new1 h = Ok h1" "scene_ok h1"
      "drawn i1 h1 = see m (drawn i h)" by blast
  from Cons.IH [OF one(3), of i1] obtain i2 new2 h2 where
    "\<forall>cs. scene_run ms (i1, cs) = (i2, cs @ new2)" "HW_calls v new2 h1 = Ok h2" "scene_ok h2"
      "drawn i2 h2 = fold see ms (drawn i1 h1)" by blast
  with one show ?case
    by (intro exI [of _ i2] exI [of _ "new1 @ new2"] exI [of _ h2]) (simp add: HW_calls_append)
qed

section \<open>From the socket to the screen\<close>

definition picture_of :: "'w cocos_app \<Rightarrow> picture" where
  "picture_of a = drawn (case s_TcpClient (app_client a) of None \<Rightarrow> - 1 | Some t \<Rightarrow> m_loginId t) (app_scene a)"

lemma stream_on_screen:
  assumes "s_TcpClient (app_client a) = Some t" and "m_recvBuffer t = CircularBuffer_new BUF_SIZE cells"
    and "scene_calls (app_client a) = []" and "scene_ok (app_scene a)" and "image_loads v (lit ''Target.png'')"
    and "\<forall>m\<in>set ms. wf_server m" and "concat inBufs = concat (map server_bytes ms)"
    and "\<forall>inBuf\<in>set inBufs. inBuf \<noteq> [] \<and> length inBuf \<le> 4096"
  shows "\<exists>c a'. TC_networkThread inBufs (app_client a) = Some (Ok c) \<and> app_frame v (a\<lparr>app_client := c\<rparr>) = Ok a' \<and>
    scene_ok (app_scene a') \<and> picture_of a' = fold see ms (picture_of a)"
proof -
  have "BUF_SIZE < 2 ^ 64" by (simp add: BUF_SIZE_def)
  note b = CircularBuffer_new_spec [OF this, of cells]
  from thread_spec [OF assms(1) _ _ assms(6), of inBufs "[]"] assms(2,7,8) b obtain b' where
    th: "TC_networkThread inBufs (app_client a) =
      Some (Ok (showing (app_client a) t b' (scene_run ms (m_loginId t, []))))"
    by (auto simp: incomplete_def sizeof_defs assms(3))
  from stream_drawn [OF assms(4,5), of ms "m_loginId t"] obtain i' new h' where
    dr: "scene_run ms (m_loginId t, []) = (i', new)" "HW_calls v new (app_scene a) = Ok h'" "scene_ok h'"
      "drawn i' h' = fold see ms (drawn (m_loginId t) (app_scene a))" by auto
  let ?c = "showing (app_client a) t b' (i', new)"
  have "app_frame v (a\<lparr>app_client := ?c\<rparr>) = Ok (a\<lparr>app_scene := h', app_client := ?c\<lparr>scene_calls := []\<rparr>\<rparr>)"
    by (simp add: app_frame_def dr(2))
  moreover have "s_TcpClient (?c\<lparr>scene_calls := []\<rparr>) = Some (t\<lparr>m_recvBuffer := b', m_loginId := i'\<rparr>)" by simp
  then have "picture_of (a\<lparr>app_scene := h', app_client := ?c\<lparr>scene_calls := []\<rparr>\<rparr>) = fold see ms (picture_of a)"
    using dr(4) by (simp add: picture_of_def assms(1))
  ultimately show ?thesis
    using th dr(1,3) by (intro exI [of _ ?c] exI [of _ "a\<lparr>app_scene := h', app_client := ?c\<lparr>scene_calls := []\<rparr>\<rparr>"]) simp
qed

text \<open>C5. The game client draws what the server says. Whenever the bytes that \<^verbatim>\<open>recv\<close>
  delivers in pieces of at most 4096 bytes, cut anywhere, make up a sequence of complete server packets,
  the network thread trips no assertion; once the next frame has performed its calls, every player
  that has moved stands at its last position with exactly one sprite, the own player included after
  the login, and each chat has been shown once, in order.\<close>

theorem scene_follows_stream:
  assumes "s_TcpClient (app_client a) = Some t" and "m_recvBuffer t = CircularBuffer_new BUF_SIZE cells"
    and "scene_calls (app_client a) = []" and "scene_ok (app_scene a)" and "image_loads v (lit ''Target.png'')"
    and "\<forall>m\<in>set ms. wf_server m" and "concat inBufs = concat (map server_bytes ms)"
    and "\<forall>inBuf\<in>set inBufs. inBuf \<noteq> [] \<and> length inBuf \<le> 4096"
  shows "\<exists>c a'. TC_networkThread inBufs (app_client a) = Some (Ok c) \<and> app_frame v (a\<lparr>app_client := c\<rparr>) = Ok a' \<and>
    scene_ok (app_scene a') \<and> picture_of a' = fold see ms (picture_of a)"
  by (rule stream_on_screen [OF assms])

lemma app_start_ok:
  assumes "layer_initialised v" and "image_loads v (lit ''Player.png'')"
  shows "\<exists>a. app_start v alias region w = Ok a \<and> scene_ok (app_scene a) \<and> s_TcpClient (app_client a) = None \<and>
    scene_calls (app_client a) = [] \<and> mPeerMap (app_scene a) = (\<lambda>_. None) \<and> hw_log (app_scene a) = []"
  using assms
  by (simp add: app_start_def HW_createScene_def HW_init_def HelloWorld_new_def sprite_create_def setPosition_def
      addChild_def with_sprite_def Let_def scene_ok_def CGL_SetUpAwsClient_def CGL_new_def)

definition desktop :: scene_env where
  "desktop = \<lparr>layer_initialised = True, visible_width = f32_of_int 960, visible_origin = (0, 0),
     close_item_size = (f32_of_int 40, f32_of_int 40), window_size = (f32_of_int 960, f32_of_int 640),
     image_loads = (\<lambda>_. True)\<rparr>"

lemma scene_follows_stream_witness:
  "\<exists>(a :: unit cocos_app) c a'. scene_ok (app_scene a) \<and>
     TC_networkThread [concat (map server_bytes [SLogin LoginResult_new, moved 416, moved 5])] (app_client a) = Some (Ok c) \<and>
     app_frame desktop (a\<lparr>app_client := c\<rparr>) = Ok a' \<and> me (picture_of a') = Some (7, 8) \<and>
     others (picture_of a') 5 = Some (7, 8)"
proof -
  let ?ms = "[SLogin LoginResult_new, moved 416, moved 5]"
  let ?buf = "concat (map server_bytes ?ms)"
  obtain a0 :: "unit cocos_app" where a0: "scene_ok (app_scene a0)" "scene_calls (app_client a0) = []"
    using app_start_ok [of desktop "[]" "[]" "()"] by (auto simp: desktop_def)
  define a where "a = a0\<lparr>app_client := (app_client a0)\<lparr>s_TcpClient := Some TcpClient_new\<rparr>\<rparr>"
  have a: "s_TcpClient (app_client a) = Some TcpClient_new" "scene_calls (app_client a) = []" "scene_ok (app_scene a)"
    using a0 by (simp_all add: a_def)
  have wf: "\<forall>m\<in>set ?ms. wf_server m" by (simp add: moved_def packet_new_defs sizeof_defs)
  have "length ?buf = 164" by (simp add: moved_def id_bytes_def packet_new_defs sizeof_defs)
  then have "?buf \<noteq> []" "length ?buf \<le> 4096" by (fastforce, linarith)
  then have "\<forall>inBuf\<in>set [?buf]. inBuf \<noteq> [] \<and> length inBuf \<le> 4096" by (simp only: list.set ball_simps simp_thms)
  from scene_follows_stream [OF a(1) _ a(2,3) _ wf _ this, of "[]" desktop] obtain c a' where
    r: "TC_networkThread [?buf] (app_client a) = Some (Ok c)" "app_frame desktop (a\<lparr>app_client := c\<rparr>) = Ok a'"
      "picture_of a' = fold see ?ms (picture_of a)"
    by (auto simp: TcpClient_new_def desktop_def)
  have "me (fold see ?ms q) = Some (7, 8) \<and> others (fold see ?ms q) 5 = Some (7, 8)" for q
    by (simp add: moved_def)
  then show ?thesis using a(3) r by (intro exI [of _ a] exI [of _ c] exI [of _ a']) (simp only: simp_thms)
qed

end
