(* ===== verification/EndToEnd.thy ===== *)
theory EndToEnd
  imports LinuxSend SceneProofs
begin

text \<open>
  A chat from one game client to another: the lemmas that lead from the request the client sends,
  through the Linux server's receive path and broadcast, to the scene of a client that gets the reply.
\<close>

section \<open>The two packets\<close>

definition player_name :: "byte list" where
  "player_name = lit ''Player416''"

definition padded :: "nat \<Rightarrow> byte list \<Rightarrow> byte list" where
  "padded n xs = xs @ replicate (n - length xs) 0"

definition player_chat :: "ChatPacket \<Rightarrow> byte list \<Rightarrow> ChatPacket" where
  "player_chat p chat = p\<lparr>mPlayerId := padded MAX_SESSION_LEN player_name, mChat := padded MAX_CHAT_LEN chat\<rparr>"

lemma length_player_name [simp]: "length player_name = 9"
  by (simp add: player_name_def)

lemma player_name_nonzero [simp]: "0 \<notin> set player_name"
  by (simp add: player_name_def lit_def)

lemma fill_zeros:
  assumes "length xs < n"
  shows "xs @ 0 # replicate (n - Suc (length xs)) 0 = padded n xs"
proof -
  have "n - length xs = Suc (n - Suc (length xs))" using assms by simp
  then show ?thesis by (simp add: padded_def)
qed

lemma c_str_padded:
  assumes "length xs < n" and "0 \<notin> set xs"
  shows "c_str (padded n xs) = Ok xs" and "takeWhile (\<lambda>x. x \<noteq> 0) (padded n xs) = xs"
    and "length (padded n xs) = n" and "0 \<in> set (padded n xs)"
  using assms by (auto simp: c_str_def fill_zeros [symmetric])

lemma strcpy_zeros: "length xs < n \<Longrightarrow> strcpy (replicate n 0) xs = Ok (padded n xs)"
  by (simp add: strcpy_def fill_zeros)

section \<open>The request\<close>

text \<open>A kernel that takes a whole packet at a time; \<^verbatim>\<open>log\<close> reads what it has taken.\<close>

definition takes_all :: "'w gc_env \<Rightarrow> ('w \<Rightarrow> byte list) \<Rightarrow> bool" where
  "takes_all e log \<longleftrightarrow> (\<forall>sock data w. fst (sock_send e sock data w) = int (length data) \<and>
     log (snd (sock_send e sock data w)) = log w @ data)"

lemma send_all:
  assumes "takes_all e log" and "s_TcpClient c = Some t" and "data \<noteq> []"
  shows "\<exists>c'. TC_request e data c = Some (Ok c') \<and> log (gc_world c') = log (gc_world c) @ data"
proof -
  obtain n w' where call: "sock_send e (m_sock t) data (gc_world c) = (n, w')" by force
  with assms(1) have n: "n = int (length data)" "log w' = log (gc_world c) @ data"
    unfolding takes_all_def by (metis fst_conv, metis snd_conv)
  have chunk: "mem_read 0 (length data) data = Ok data" by (simp add: mem_read_def slice_def)
  have "TC_send_loop e (m_sock t) data (length data) 0 w' = Some (Ok (True, w'))"
    by (subst TC_send_loop.simps) simp
  then have "TC_send_loop e (m_sock t) data 0 (length data) (gc_world c) = Some (Ok (True, w'))"
    using assms(3) by (subst TC_send_loop.simps) (simp add: chunk call n(1))
  then show ?thesis
    using n(2) by (intro exI [of _ "c\<lparr>gc_world := w'\<rparr>"]) (simp add: TC_request_def TC_send_def assms(2))
qed

lemma chat_request_sent:
  assumes "takes_all e log" and "s_TcpClient c = Some t" and "m_loginId t = 416"
    and "length chat < MAX_CHAT_LEN"
  shows "\<exists>c'. TC_chatRequest e chat c = Some (Ok c') \<and>
    log (gc_world c') = log (gc_world c) @ chat_bytes (player_chat ChatBroadcastRequest_new chat)"
proof -
  have name: "lit ''Player'' @ fmt_d 416 = player_name"
    by (simp add: player_name_def fmt_d_def decimal.simps lit_def)
  have "strcpy_s (mPlayerId ChatBroadcastRequest_new) player_name = Ok (padded MAX_SESSION_LEN player_name)"
    by (simp add: strcpy_eq strcpy_zeros packet_new_defs sizeof_defs)
  moreover have "mem_write 0 chat (mChat ChatBroadcastRequest_new) = Ok (padded MAX_CHAT_LEN chat)"
    using assms(4) by (simp add: mem_write_def overwrite_def padded_def packet_new_defs)
  moreover have "length (chat_bytes p) \<noteq> 0" for p by (simp add: chat_bytes_def)
  then have "chat_bytes p \<noteq> []" for p by fastforce
  ultimately show ?thesis
    using send_all [OF assms(1,2)] assms(2,3) by (simp add: TC_chatRequest_def name player_chat_def)
qed

section \<open>The server\<close>

lemma request_wf: "length chat < MAX_CHAT_LEN \<Longrightarrow> wf_msg (MChat (player_chat ChatBroadcastRequest_new chat))"
  by (simp add: player_chat_def padded_def sizeof_defs)

lemma chat_act:
  assumes "length chat < MAX_CHAT_LEN" and "0 \<notin> set chat"
  shows "act e sid (MChat (player_chat ChatBroadcastRequest_new chat)) s =
    GLM_BroadcastMessage e (chat_bytes (player_chat ChatBroadcastResult_new chat)) s"
proof -
  have n: "length player_name < MAX_SESSION_LEN" by (simp add: sizeof_defs)
  show ?thesis
    using strcpy_zeros [OF n] strcpy_zeros [OF assms(1)] c_str_padded(1) [OF n] c_str_padded(1) [OF assms]
    by (simp add: player_chat_def packet_new_defs)
qed

definition delivered :: "'w server \<Rightarrow> byte list \<Rightarrow> 'w server outcome \<Rightarrow> bool" where
  "delivered s pkt r \<longleftrightarrow> (\<exists>s'. r = Ok s' \<and> (\<forall>p. outgoing s' p = outgoing s p @ (if p \<in> set (mPlayerSessions s) then pkt else [])))"

lemma recv_update_sends:
  "outgoing (upd_obj sid (\<lambda>c. c\<lparr>mRecvBuffer := f c\<rparr>) s) p = outgoing s p"
  "can_take (upd_obj sid (\<lambda>c. c\<lparr>mRecvBuffer := f c\<rparr>) s) pkt p = can_take s pkt p"
  "mPlayerSessions (upd_obj sid (\<lambda>c. c\<lparr>mRecvBuffer := f c\<rparr>) s) = mPlayerSessions s"
  by (cases "p = sid"; cases "objs s sid"; simp add: outgoing_def can_take_def upd_obj_def)+

lemma world_update_sends:
  "outgoing (s\<lparr>world := w\<rparr>) p = outgoing s p" "can_take (s\<lparr>world := w\<rparr>) pkt p = can_take s pkt p"
  by (simp_all add: outgoing_def can_take_def)

lemma took_in_sends:
  assumes "took_in sid s s1"
  shows "mPlayerSessions s1 = mPlayerSessions s" and "outgoing s1 p = outgoing s p"
    and "can_take s1 pkt p = can_take s pkt p"
  using assms by (auto simp: took_in_def recv_update_sends world_update_sends)

lemma consumed_sends:
  shows "mPlayerSessions (consumed n sid s) = mPlayerSessions s" and "outgoing (consumed n sid s) p = outgoing s p"
    and "can_take (consumed n sid s) pkt p = can_take s pkt p"
  by (simp_all add: consumed_def recv_update_sends)

text \<open>Nothing more to handle: only reads follow.\<close>

lemma handled_none: "handled e sid ms s r \<Longrightarrow> ms = [] \<Longrightarrow> \<exists>s'. r = Ok s' \<and> (\<forall>p. outgoing s' p = outgoing s p)"
  by (induction rule: handled.induct) (auto simp: took_in_sends)

text \<open>One message whose handler does nothing but broadcast a reply.\<close>

lemma handled_broadcast:
  assumes "handled e sid ms s r" and "ms = [m]" and reply: "\<And>s. act e sid m s = GLM_BroadcastMessage e pkt s"
    and "distinct (mPlayerSessions s)" and "\<forall>p\<in>set (mPlayerSessions s). can_take s pkt p"
  shows "delivered s pkt r"
  using assms(1,2,4,5)
proof (induction rule: handled.induct)
  case (handled_read s s1 ms r)
  then show ?case by (simp add: took_in_sends delivered_def)
next
  case (handled_msg m' s s1 ms r)
  let ?s = "consumed (length (msg_bytes m')) sid s"
  have "distinct (mPlayerSessions ?s)" "\<forall>p\<in>set (mPlayerSessions ?s). can_take ?s pkt p"
    using handled_msg.prems by (simp_all add: consumed_sends)
  from broadcast_loop [OF this, of e] obtain s2 where s2:
    "GLM_BroadcastMessage e pkt ?s = Ok s2"
    "\<forall>p. outgoing s2 p = outgoing ?s p @ (if p \<in> set (mPlayerSessions ?s) then pkt else [])"
    unfolding GLM_BroadcastMessage_def by blast
  then have "s2 = s1" using handled_msg.hyps(1) handled_msg.prems(1) reply [of ?s] by (simp del: act.simps)
  then show ?case
    using s2(2) handled_none [OF handled_msg.hyps(2)] handled_msg.prems(1) by (auto simp: delivered_def consumed_sends)
next
  case (handled_fault m' s f ms)
  let ?s = "consumed (length (msg_bytes m')) sid s"
  have "distinct (mPlayerSessions ?s)" "\<forall>p\<in>set (mPlayerSessions ?s). can_take ?s pkt p"
    using handled_fault.prems by (simp_all add: consumed_sends)
  from broadcast_loop [OF this, of e] obtain s2 where "GLM_BroadcastMessage e pkt ?s = Ok s2"
    unfolding GLM_BroadcastMessage_def by blast
  then show ?case using handled_fault.hyps(1) handled_fault.prems(1) reply [of ?s] by (simp del: act.simps)
qed simp

lemma server_delivers:
  assumes "stream_socket e arrived" and "good s" and "objs s sid = Some k" and "mConnected k"
    and "capacity (mRecvBuffer k) = BUFSIZE" and "contents (mRecvBuffer k) = []"
    and "wf_msg m" and reply: "\<And>s. act e sid m s = GLM_BroadcastMessage e pkt s" and "distinct (mPlayerSessions s)"
    and "\<forall>p\<in>set (mPlayerSessions s). can_take s pkt p"
    and "arrived (world s) (mSocket k) = msg_bytes m"
  shows "\<exists>s'. CS_OnReceive e sid s = Some (Ok s') \<and>
    (\<forall>p. outgoing s' p = outgoing s p @ (if p \<in> set (mPlayerSessions s) then pkt else []))"
proof -
  have "2 * length (msg_bytes m) \<le> capacity (mRecvBuffer k)"
    using msg_length_bounds [OF assms(7)] assms(5) by (simp add: BUFSIZE_def)
  from order_free_empty [OF _ assms(6) this] goodD [OF assms(2,3)]
  have "receiving (args_rtl e) arrived [] [m] sid s k"
    using assms(2-7,11) by (simp add: receiving_def incomplete_def sizeof_defs BUFSIZE_def)
  from receive_stream [OF assms(1) this] obtain r where
    r: "CS_OnReceive_loop e sid s = Some r" "handled e sid [m] s r"
    by (auto simp: incomplete_def sizeof_defs BUFSIZE_def)
  from handled_broadcast [OF r(2) refl reply assms(9,10)] r(1) show ?thesis
    using assms(3,4) by (auto simp: delivered_def CS_OnReceive_def)
qed

lemma server_delivers_chat:
  assumes "stream_socket e arrived" and "good s" and "objs s sid = Some k" and "mConnected k"
    and "capacity (mRecvBuffer k) = BUFSIZE" and "contents (mRecvBuffer k) = []"
    and "length chat < MAX_CHAT_LEN" and "0 \<notin> set chat" and "distinct (mPlayerSessions s)"
    and "\<forall>p\<in>set (mPlayerSessions s). can_take s (chat_bytes (player_chat ChatBroadcastResult_new chat)) p"
    and "arrived (world s) (mSocket k) = chat_bytes (player_chat ChatBroadcastRequest_new chat)"
  shows "\<exists>s'. CS_OnReceive e sid s = Some (Ok s') \<and> (\<forall>p. outgoing s' p = outgoing s p @
    (if p \<in> set (mPlayerSessions s) then chat_bytes (player_chat ChatBroadcastResult_new chat) else []))"
  by (rule server_delivers [OF assms(1-6) request_wf [OF assms(7)] chat_act [OF assms(7,8)] assms(9,10)])
    (simp add: assms(11))

section \<open>A move\<close>

definition player_move :: "MovePacket \<Rightarrow> float32 \<times> float32 \<Rightarrow> MovePacket" where
  "player_move p xy = p\<lparr>mPlayerIdx := 416, mPosX := fst xy, mPosY := snd xy\<rparr>"

lemma key_sends_move:
  assumes "takes_all e log" and "s_TcpClient (app_client a) = Some t" and "m_loginId t = 416"
    and "me (picture_of a) = Some (x, y)"
  shows "\<exists>a'. HW_onKeyReleased e KEY_UP_ARROW a = Some (Ok a') \<and> log (gc_world (app_client a')) =
    log (gc_world (app_client a)) @ move_bytes (player_move MoveRequest_new (x, f32_add y (f32_of_int 10)))"
proof -
  let ?pkt = "move_bytes (player_move MoveRequest_new (x, f32_add y (f32_of_int 10)))"
  from assms(4) obtain p sp where p: "mPlayerSprite (app_scene a) = Some p" "hw_sprites (app_scene a) p = Some sp"
    "sp_position sp = (x, y)"
    by (auto simp: picture_of_def drawn_def Let_def split: bind_splits)
  have "?pkt \<noteq> []" by (simp add: move_bytes_def header_bytes_def enc16_def)
  from send_all [OF assms(1,2) this] obtain c' where
    "TC_request e ?pkt (app_client a) = Some (Ok c')" "log (gc_world c') = log (gc_world (app_client a)) @ ?pkt"
    by blast
  then show ?thesis
    using p assms(2,3) by (simp add: HW_onKeyReleased_def HW_step_def TC_getInstance_def with_sprite_def
        TC_moveRequest_def player_move_def with_client_def)
qed

lemma move_wf: "wf_msg (MMove (player_move MoveRequest_new xy))" "wf_server (SMove (player_move MoveBroadcastResult_new xy))"
  by (simp_all add: player_move_def)

lemma move_act:
  "act e sid (MMove (player_move MoveRequest_new xy)) s =
    GLM_BroadcastMessage e (move_bytes (player_move MoveBroadcastResult_new xy)) s"
  by (simp add: player_move_def)

lemma move_seen:
  "viewer v = 416 \<Longrightarrow> see (SMove (player_move MoveBroadcastResult_new xy)) v = v\<lparr>me := Some xy\<rparr>"
  by (simp add: player_move_def)

section \<open>The client that gets the reply\<close>

lemma reply_wf: "length chat < MAX_CHAT_LEN \<Longrightarrow> wf_server (SChat (player_chat ChatBroadcastResult_new chat))"
  by (simp add: player_chat_def padded_def sizeof_defs)

lemma reply_seen:
  assumes "length chat < MAX_CHAT_LEN" and "0 \<notin> set chat"
  shows "see (SChat (player_chat ChatBroadcastResult_new chat)) v = v\<lparr>heard := heard v @ [chat_line player_name chat]\<rparr>"
proof -
  have "length player_name < MAX_SESSION_LEN" by (simp add: sizeof_defs)
  then show ?thesis
    using c_str_padded(2) [OF _ player_name_nonzero] c_str_padded(2) [OF assms] by (simp add: player_chat_def)
qed

section \<open>Concrete states\<close>

definition eager_env :: "byte list gc_env" where
  "eager_env = slow_env\<lparr>sock_send := \<lambda>_ d w. (int (length d), w @ d)\<rparr>"

lemma eager_takes_all: "takes_all eager_env (\<lambda>w. w)"
  by (simp add: takes_all_def eager_env_def slow_env_def)

text \<open>A game client after its login, before anything has been shown.\<close>

lemma logged_in_app:
  fixes w :: 'w
  shows "\<exists>a. s_TcpClient (app_client a) = Some (TcpClient_new\<lparr>m_loginId := 416\<rparr>) \<and> scene_calls (app_client a) = [] \<and>
    scene_ok (app_scene a) \<and> gc_world (app_client a) = w \<and> heard (picture_of a) = [] \<and> (\<exists>x y. me (picture_of a) = Some (x, y))"
proof -
  obtain a0 :: "'w cocos_app" where a0: "scene_ok (app_scene a0)" "scene_calls (app_client a0) = []" "hw_log (app_scene a0) = []"
    using app_start_ok [of desktop "[]" "[]" w] by (auto simp: desktop_def)
  let ?a = "a0\<lparr>app_client := (app_client a0)\<lparr>s_TcpClient := Some (TcpClient_new\<lparr>m_loginId := 416\<rparr>), gc_world := w\<rparr>\<rparr>"
  from a0(1) obtain p sp where "mPlayerSprite (app_scene a0) = Some p" "hw_sprites (app_scene a0) p = Some sp"
    by (rule scene_okE)
  then have "me (picture_of ?a) = Some (sp_position sp)" by (simp add: picture_of_def drawn_def Let_def)
  then show ?thesis
    using a0 by (intro exI [of _ ?a]) (cases "sp_position sp", simp add: picture_of_def drawn_def Let_def)
qed

lemma quiet_net: "stream_socket quiet_env (\<lambda>w fd. w)"
  using quiet_stream [of True] by (simp add: quiet_env_def)

lemma fresh_client:
  "mConnected (client_with [])" "capacity (mRecvBuffer (client_with [])) = BUFSIZE" "contents (mRecvBuffer (client_with [])) = []"
  using one_client_spec [of "[]"] by simp_all

lemma one_player_server:
  fixes req :: "byte list"
  defines "s \<equiv> (one_client [] req)\<lparr>mPlayerSessions := [0]\<rparr>"
  assumes "length pkt < BUFSIZE"
  shows "good s" and "objs s 0 = Some (client_with [])"
    and "distinct (mPlayerSessions s)" and "world s = req" and "outgoing s 0 = []"
    and "\<forall>p\<in>set (mPlayerSessions s). can_take s pkt p"
proof -
  have oc: "good (one_client [] req)" "objs (one_client [] req) 0 = Some (client_with [])"
    "mConnected (client_with [])" "world (one_client [] req) = req"
    using one_client_spec [of "[]"] by simp_all
  then show "good s" "objs s 0 = Some (client_with [])"
    "distinct (mPlayerSessions s)" "world s = req" by (simp_all add: s_def)
  have "mSendBuffer (client_with []) = CircularBuffer_new BUFSIZE []"
    by (simp add: client_with_def ClientSession_new_def)
  with oc new_buffer show "outgoing s 0 = []" and "\<forall>p\<in>set (mPlayerSessions s). can_take s pkt p"
    using assms(2) by (simp_all add: s_def outgoing_def can_take_def BUFSIZE_def)
qed

end
