(* ===== verification/Spinlock.thy ===== *)
theory Spinlock
  imports Prelude
begin

text \<open>
  The two spin locks: the reader-writer lock of the Windows server
  (\<^verbatim>\<open>GameLiftGameServer/FastSpinlock.cpp\<close>), whose one 32-bit flag counts writers in its
  upper and readers in its lower bits, and the exchange lock of the dummy clients
  (\<^verbatim>\<open>DummyClients/FastSpinlock.cpp\<close>). A thread is its program counter in the lock's code;
  every interlocked operation and every read of the flag is one step, so all interleavings are covered.
\<close>

unbundle bit_operations_syntax

section \<open>The reader-writer lock\<close>

definition LF_WRITE_MASK :: "32 word" where "LF_WRITE_MASK = 0x7FF00000"
definition LF_WRITE_FLAG :: "32 word" where "LF_WRITE_FLAG = 0x00100000"
definition LF_READ_MASK :: "32 word" where "LF_READ_MASK = 0x000FFFFF"

datatype rw_pc =
    RwIdle
  | WCheck | WAdd | WUndo | WWait | WHeld \<comment> \<open>in \<open>EnterWriteLock\<close>, and after it\<close>
  | RCheck | RAdd | RUndo | RHeld \<comment> \<open>in \<open>EnterReadLock\<close>, and after it\<close>

record rw_state =
  mLockFlag :: "32 word"
  threads :: "rw_pc list"

definition FastSpinlock_new :: "nat \<Rightarrow> rw_state" where
  "FastSpinlock_new n = \<lparr>mLockFlag = 0, threads = replicate n RwIdle\<rparr>"

text \<open>One step of a thread at a program counter: the new flag and program counter.\<close>

definition EnterWriteLock_step :: "rw_pc \<Rightarrow> 32 word \<Rightarrow> 32 word \<times> rw_pc" where
  "EnterWriteLock_step pc flag =
     (case pc of
        WCheck \<Rightarrow> (flag, if flag AND LF_WRITE_MASK \<noteq> 0 then WCheck else WAdd)
      | WAdd \<Rightarrow> (flag + LF_WRITE_FLAG,
                 if (flag + LF_WRITE_FLAG) AND LF_WRITE_MASK = LF_WRITE_FLAG then WWait else WUndo)
      | WUndo \<Rightarrow> (flag - LF_WRITE_FLAG, WCheck)
      | WWait \<Rightarrow> (flag, if flag AND LF_READ_MASK \<noteq> 0 then WWait else WHeld)
      | _ \<Rightarrow> (flag, pc))"

definition LeaveWriteLock_step :: "32 word \<Rightarrow> 32 word \<times> rw_pc" where
  "LeaveWriteLock_step flag = (flag - LF_WRITE_FLAG, RwIdle)"

definition EnterReadLock_step :: "rw_pc \<Rightarrow> 32 word \<Rightarrow> 32 word \<times> rw_pc" where
  "EnterReadLock_step pc flag =
     (case pc of
        RCheck \<Rightarrow> (flag, if flag AND LF_WRITE_MASK \<noteq> 0 then RCheck else RAdd)
      | RAdd \<Rightarrow> (flag + 1, if (flag + 1) AND LF_WRITE_MASK = 0 then RHeld else RUndo)
      | RUndo \<Rightarrow> (flag - 1, RCheck)
      | _ \<Rightarrow> (flag, pc))"

definition LeaveReadLock_step :: "32 word \<Rightarrow> 32 word \<times> rw_pc" where
  "LeaveReadLock_step flag = (flag - 1, RwIdle)"

text \<open>
  What a thread may do next: \<^verbatim>\<open>FastSpinlockGuard\<close> enters in one of the modes and leaves
  in the same.
\<close>

inductive rw_thread :: "rw_pc \<Rightarrow> 32 word \<Rightarrow> 32 word \<times> rw_pc \<Rightarrow> bool" where
  want_write: "rw_thread RwIdle flag (flag, WCheck)"
| want_read: "rw_thread RwIdle flag (flag, RCheck)"
| enter_write: "pc \<in> {WCheck, WAdd, WUndo, WWait} \<Longrightarrow> rw_thread pc flag (EnterWriteLock_step pc flag)"
| leave_write: "rw_thread WHeld flag (LeaveWriteLock_step flag)"
| enter_read: "pc \<in> {RCheck, RAdd, RUndo} \<Longrightarrow> rw_thread pc flag (EnterReadLock_step pc flag)"
| leave_read: "rw_thread RHeld flag (LeaveReadLock_step flag)"

inductive_cases rw_threadE: "rw_thread pc flag r"

inductive rw_step :: "rw_state \<Rightarrow> rw_state \<Rightarrow> bool" where
  rw_step: "t < length (threads s) \<Longrightarrow> rw_thread (threads s ! t) (mLockFlag s) (flag, pc) \<Longrightarrow>
    rw_step s (s\<lparr>mLockFlag := flag, threads := (threads s)[t := pc]\<rparr>)"

inductive_cases rw_stepE: "rw_step s s'"

section \<open>The flag as two counters\<close>

definition counted_w :: "rw_pc \<Rightarrow> bool" where
  "counted_w pc \<longleftrightarrow> pc \<in> {WUndo, WWait, WHeld}"

definition counted_r :: "rw_pc \<Rightarrow> bool" where
  "counted_r pc \<longleftrightarrow> pc \<in> {RUndo, RHeld}"

definition flag_of :: "nat \<Rightarrow> nat \<Rightarrow> 32 word" where
  "flag_of w r = of_nat (w * 2 ^ 20 + r)"

lemma flag_of_read:
  assumes "r < 2 ^ 20"
  shows "flag_of w r AND LF_READ_MASK = of_nat r"
proof -
  have "LF_READ_MASK = mask 20"
    by (simp add: LF_READ_MASK_def mask_eq_exp_minus_1)
  then have "flag_of w r AND LF_READ_MASK = take_bit 20 (flag_of w r)"
    by (simp add: take_bit_eq_mask)
  also have "\<dots> = of_nat (take_bit 20 (w * 2 ^ 20 + r))"
    by (simp only: flag_of_def of_nat_take_bit)
  also have "take_bit 20 (w * 2 ^ 20 + r) = r"
    using assms by (simp add: take_bit_eq_mod)
  finally show ?thesis .
qed

lemma unat_flag_of: "w < 2 ^ 11 \<Longrightarrow> r < 2 ^ 20 \<Longrightarrow> unat (flag_of w r) = w * 2 ^ 20 + r"
  by (simp only: flag_of_def unat_of_nat) simp

lemma flag_of_write:
  assumes "w < 2 ^ 11" and "r < 2 ^ 20"
  shows "unat (flag_of w r AND LF_WRITE_MASK) = w * 2 ^ 20"
proof -
  have "LF_WRITE_MASK = push_bit 20 (mask 11)"
    by (simp add: LF_WRITE_MASK_def mask_eq_exp_minus_1 push_bit_eq_mult)
  then have "flag_of w r AND LF_WRITE_MASK = push_bit 20 (take_bit 11 (drop_bit 20 (flag_of w r)))"
    by (simp add: bit_eq_iff bit_simps) (auto simp: bit_simps)
  also have "drop_bit 20 (flag_of w r) = of_nat w"
  proof -
    have "unat (drop_bit 20 (flag_of w r)) = unat (of_nat w :: 32 word)"
      using assms by (simp only: unat_drop_bit_eq unat_flag_of) (simp add: drop_bit_eq_div unat_of_nat)
    then show ?thesis by (simp only: word_unat_eq_iff)
  qed
  also have "push_bit 20 (take_bit 11 (of_nat w :: 32 word)) = of_nat (push_bit 20 (take_bit 11 w))"
    by (simp only: of_nat_take_bit of_nat_push_bit)
  also have "push_bit 20 (take_bit 11 w) = w * 2 ^ 20"
    using assms(1) by (simp add: take_bit_eq_mod push_bit_eq_mult)
  finally show ?thesis
    using assms(1) by (simp only: unat_of_nat) simp
qed

lemma flag_of_no_writer:
  assumes "w < 2 ^ 11" and "r < 2 ^ 20"
  shows "flag_of w r AND LF_WRITE_MASK = 0 \<longleftrightarrow> w = 0"
    and "flag_of w r AND LF_WRITE_MASK = LF_WRITE_FLAG \<longleftrightarrow> w = 1"
  using flag_of_write [OF assms] by (auto simp: word_unat_eq_iff LF_WRITE_FLAG_def)

lemma flag_of_no_reader:
  assumes "r < 2 ^ 20"
  shows "flag_of w r AND LF_READ_MASK = 0 \<longleftrightarrow> r = 0"
  using assms by (simp add: flag_of_read word_unat_eq_iff unat_of_nat)

lemma flag_of_arith:
  "flag_of w r + LF_WRITE_FLAG = flag_of (w + 1) r" "flag_of w r + 1 = flag_of w (r + 1)"
  "0 < w \<Longrightarrow> flag_of w r - LF_WRITE_FLAG = flag_of (w - 1) r" "0 < r \<Longrightarrow> flag_of w r - 1 = flag_of w (r - 1)"
  by (simp_all add: flag_of_def LF_WRITE_FLAG_def algebra_simps of_nat_diff)

section \<open>The lock's invariant\<close>

definition holds_w :: "rw_pc \<Rightarrow> bool" where
  "holds_w pc \<longleftrightarrow> pc \<in> {WWait, WHeld}"

definition rw_inv :: "rw_state \<Rightarrow> bool" where
  "rw_inv s \<longleftrightarrow> length (threads s) < 2 ^ 11 \<and>
     mLockFlag s = flag_of (count_if counted_w (threads s)) (count_if counted_r (threads s)) \<and>
     count_if holds_w (threads s) \<le> 1 \<and>
     (count_if ((=) WHeld) (threads s) = 0 \<or> count_if ((=) RHeld) (threads s) = 0)"

text \<open>The counts that the invariant speaks of, before and after an instruction of thread \<^verbatim>\<open>t\<close>.\<close>

definition rw_counts :: "32 word \<Rightarrow> rw_pc list \<Rightarrow> bool" where
  "rw_counts flag ts \<longleftrightarrow> flag = flag_of (count_if counted_w ts) (count_if counted_r ts) \<and> count_if holds_w ts \<le> 1 \<and>
     (count_if ((=) WHeld) ts = 0 \<or> count_if ((=) RHeld) ts = 0)"

lemma rw_count_facts:
  assumes "length ts < 2 ^ 11" and t: "t < length ts"
  shows "ts ! t = WAdd \<Longrightarrow> count_if counted_w ts + 1 < 2 ^ 11" and "ts ! t = RAdd \<Longrightarrow> count_if counted_r ts + 1 < 2 ^ 20"
    and "count_if counted_w ts < 2 ^ 11" and "count_if counted_r ts < 2 ^ 20"
    and "count_if holds_w ts \<le> count_if counted_w ts" and "count_if ((=) WHeld) ts \<le> count_if holds_w ts"
    and "count_if ((=) RHeld) ts \<le> count_if counted_r ts" and "P (ts ! t) \<Longrightarrow> 0 < count_if P ts"
proof -
  have bound: "count_if P (xs :: rw_pc list) < 2 ^ 11" if "length xs = length ts" for P xs
    using count_if_le [of P xs] that assms(1) by simp
  note lt = bound [of ts counted_w, OF refl] bound [of ts counted_r, OF refl]
    bound [of "ts[t := WUndo]" counted_w, simplified] bound [of "ts[t := RUndo]" counted_r, simplified]
  show "ts ! t = WAdd \<Longrightarrow> count_if counted_w ts + 1 < 2 ^ 11" "ts ! t = RAdd \<Longrightarrow> count_if counted_r ts + 1 < 2 ^ 20"
    using count_if_update [OF t, of counted_w WUndo] count_if_update [OF t, of counted_r RUndo] lt
    by (auto simp: counted_w_def counted_r_def)
  show "count_if counted_w ts < 2 ^ 11" "count_if counted_r ts < 2 ^ 20" using lt by simp_all
  show "count_if holds_w ts \<le> count_if counted_w ts" "count_if ((=) WHeld) ts \<le> count_if holds_w ts"
      "count_if ((=) RHeld) ts \<le> count_if counted_r ts"
    by (auto intro!: count_if_mono simp: holds_w_def counted_w_def counted_r_def)
  show "P (ts ! t) \<Longrightarrow> 0 < count_if P ts"
    using count_if_zero [of P ts] nth_mem [OF t] by (auto intro: gr0I)
qed

lemma rw_counts_writer:
  assumes "length ts < 2 ^ 11" and t: "t < length ts" and c: "rw_counts flag0 ts" and "rw_thread (ts ! t) flag0 (flag, pc)"
    and "ts ! t \<in> {WCheck, WAdd, WUndo, WWait, WHeld}"
  shows "rw_counts flag (ts[t := pc])"
proof -
  let ?w = "count_if counted_w ts" and ?r = "count_if counted_r ts"
  note f = rw_count_facts [OF assms(1) t] and i = c [unfolded rw_counts_def]
  note mono = f(5-7)
  note st = assms(4) [unfolded conjunct1 [OF i]]
  note upd = count_if_update [OF t, of _ pc]
  note u = upd [of counted_w] upd [of counted_r] upd [of holds_w] upd [of "(=) WHeld"] upd [of "(=) RHeld"]
  note defs = counted_w_def counted_r_def holds_w_def rw_counts_def
  from assms(5) consider "ts ! t = WCheck" | "ts ! t = WAdd" | "ts ! t = WUndo" | "ts ! t = WWait" | "ts ! t = WHeld" by blast
  then show ?thesis
  proof cases
    case 1
    with st u i show ?thesis
      by (auto simp: defs EnterWriteLock_step_def elim!: rw_threadE split: if_splits)
  next
    case 2
    with st have "flag = flag_of (?w + 1) ?r \<and> pc = (if ?w = 0 then WWait else WUndo)"
      using f(1,4) flag_of_no_writer(2) [of "?w + 1" ?r]
      by (auto simp: EnterWriteLock_step_def flag_of_arith elim!: rw_threadE)
    with 2 u i mono show ?thesis by (auto simp: defs split: if_splits)
  next
    case 3
    with st u i mono f(8) [of counted_w] show ?thesis
      by (auto simp: defs EnterWriteLock_step_def flag_of_arith elim!: rw_threadE) (metis diff_Suc_Suc diff_zero)+
  next
    case 4
    with st have "flag = flag_of ?w ?r \<and> pc = (if ?r = 0 then WHeld else WWait)"
      using flag_of_no_reader [OF f(4), of ?w] by (auto simp: EnterWriteLock_step_def elim!: rw_threadE)
    with 4 u i mono show ?thesis by (auto simp: defs split: if_splits)
  next
    case 5
    with st u i mono f(8) [of counted_w] show ?thesis
      by (auto simp: defs LeaveWriteLock_step_def flag_of_arith elim!: rw_threadE) (metis diff_Suc_Suc diff_zero)+
  qed
qed

lemma rw_counts_reader:
  assumes "length ts < 2 ^ 11" and t: "t < length ts" and c: "rw_counts flag0 ts" and "rw_thread (ts ! t) flag0 (flag, pc)"
    and "ts ! t \<in> {RwIdle, RCheck, RAdd, RUndo, RHeld}"
  shows "rw_counts flag (ts[t := pc])"
proof -
  let ?w = "count_if counted_w ts" and ?r = "count_if counted_r ts"
  note f = rw_count_facts [OF assms(1) t] and i = c [unfolded rw_counts_def]
  note mono = f(5-7)
  note st = assms(4) [unfolded conjunct1 [OF i]]
  note upd = count_if_update [OF t, of _ pc]
  note u = upd [of counted_w] upd [of counted_r] upd [of holds_w] upd [of "(=) WHeld"] upd [of "(=) RHeld"]
  note defs = counted_w_def counted_r_def holds_w_def rw_counts_def
  from assms(5) consider "ts ! t = RwIdle" | "ts ! t = RCheck" | "ts ! t = RAdd" | "ts ! t = RUndo" | "ts ! t = RHeld" by blast
  then show ?thesis
  proof cases
    case 1
    with st u i show ?thesis by (auto simp: defs elim!: rw_threadE)
  next
    case 2
    with st u i show ?thesis
      by (auto simp: defs EnterReadLock_step_def elim!: rw_threadE split: if_splits)
  next
    case 3
    with st have "flag = flag_of ?w (?r + 1) \<and> pc = (if ?w = 0 then RHeld else RUndo)"
      using f(2,3) flag_of_no_writer(1) [of ?w "?r + 1"]
      by (auto simp: EnterReadLock_step_def flag_of_arith elim!: rw_threadE)
    with 3 u i mono show ?thesis by (auto simp: defs split: if_splits)
  next
    case 4
    with st u i mono f(8) [of counted_r] show ?thesis
      by (auto simp: defs EnterReadLock_step_def flag_of_arith elim!: rw_threadE) (metis diff_Suc_Suc diff_zero)+
  next
    case 5
    with st u i mono f(8) [of counted_r] show ?thesis
      by (auto simp: defs LeaveReadLock_step_def flag_of_arith elim!: rw_threadE) (metis diff_Suc_Suc diff_zero)+
  qed
qed

lemma rw_thread_inv:
  assumes inv: "rw_inv s" and t: "t < length (threads s)"
    and st: "rw_thread (threads s ! t) (mLockFlag s) (flag, pc)"
  shows "rw_inv (s\<lparr>mLockFlag := flag, threads := (threads s)[t := pc]\<rparr>)"
proof -
  have c: "length (threads s) < 2 ^ 11" "rw_counts (mLockFlag s) (threads s)"
    using inv by (simp_all add: rw_inv_def rw_counts_def)
  have "rw_counts flag ((threads s)[t := pc])"
    using rw_counts_writer [OF c(1) t c(2) st] rw_counts_reader [OF c(1) t c(2) st] by (cases "threads s ! t") auto
  with c(1) show ?thesis by (simp add: rw_inv_def rw_counts_def)
qed

definition rw_init :: "rw_state \<Rightarrow> bool" where
  "rw_init s \<longleftrightarrow> (\<exists>n<2 ^ 11. s = FastSpinlock_new n)"

lemma cnt_replicate_zero: "\<not> P x \<Longrightarrow> count_if P (replicate n x) = 0"
  by (simp add: count_if_zero)

lemma flag_of_0 [simp]: "flag_of 0 0 = 0"
  by (simp add: flag_of_def)

interpretation rw: invariant_system rw_init rw_step rw_inv
proof unfold_locales
  show "rw_inv s" if "rw_init s" for s
    using that by (auto simp: rw_init_def FastSpinlock_new_def rw_inv_def cnt_replicate_zero counted_w_def
        counted_r_def holds_w_def)
  show "rw_inv t" if "rw_inv s" "rw_step s t" for s t
    using that by (auto elim!: rw_stepE intro: rw_thread_inv)
qed

text \<open>C22. Mutual exclusion of the reader-writer lock: in every state that any interleaving of up to
  2047 threads reaches, a thread inside the write lock excludes every other writer and every reader.\<close>

theorem rw_lock_exclusion:
  assumes "reach rw_init rw_step s" and "i < length (threads s)" and "j < length (threads s)" and "i \<noteq> j"
    and "threads s ! i = WHeld"
  shows "threads s ! j \<noteq> WHeld \<and> threads s ! j \<noteq> RHeld"
proof -
  have inv: "rw_inv s" by (rule rw.inv_reach [OF assms(1)])
  have "threads s ! j \<noteq> WHeld"
    using count_if_two [OF assms(2-4), of holds_w] inv assms(5) by (auto simp: rw_inv_def holds_w_def)
  moreover have "0 < count_if ((=) WHeld) (threads s)"
    using assms(5) nth_mem [OF assms(2)] count_if_zero [of "(=) WHeld" "threads s"] by (metis gr0I)
  then have "RHeld \<notin> set (threads s)"
    using inv count_if_zero [of "(=) RHeld" "threads s"] by (auto simp: rw_inv_def)
  then have "threads s ! j \<noteq> RHeld"
    using nth_mem [OF assms(3)] by metis
  ultimately show ?thesis ..
qed

lemma rw_run:
  assumes "t < length (threads s)" and "rw_thread (threads s ! t) (mLockFlag s) (flag, pc)"
  shows "rw_step s (s\<lparr>mLockFlag := flag, threads := (threads s)[t := pc]\<rparr>)"
  using assms by (rule rw_step.intros)

lemma rw_lock_exclusion_witness:
  "\<exists>s. reach rw_init rw_step s \<and> threads s = [WHeld, RCheck] \<and> threads s ! 1 \<noteq> RHeld"
proof -
  let ?s = "\<lambda>f a b. \<lparr>mLockFlag = f, threads = [a, b]\<rparr>"
  have "FastSpinlock_new 2 = ?s 0 RwIdle RwIdle" by (simp add: FastSpinlock_new_def numeral_2_eq_2)
  then have "reach rw_init rw_step (?s 0 RwIdle RwIdle)"
    by (intro reach_init) (auto simp: rw_init_def intro!: exI [of _ 2])
  then have "reach rw_init rw_step (?s 0 WCheck RwIdle)"
    by (rule reach_step) (use rw_run [of 0 "?s 0 RwIdle RwIdle" 0 WCheck] in \<open>simp add: rw_thread.simps\<close>)
  then have "reach rw_init rw_step (?s 0 WCheck RCheck)"
    by (rule reach_step) (use rw_run [of 1 "?s 0 WCheck RwIdle" 0 RCheck] in \<open>simp add: rw_thread.simps\<close>)
  then have "reach rw_init rw_step (?s 0 WAdd RCheck)"
    by (rule reach_step) (use rw_run [of 0 "?s 0 WCheck RCheck" 0 WAdd] in
        \<open>simp add: rw_thread.simps EnterWriteLock_step_def\<close>)
  then have "reach rw_init rw_step (?s LF_WRITE_FLAG WWait RCheck)"
    by (rule reach_step) (use rw_run [of 0 "?s 0 WAdd RCheck" LF_WRITE_FLAG WWait] in
        \<open>simp add: rw_thread.simps EnterWriteLock_step_def LF_WRITE_FLAG_def LF_WRITE_MASK_def\<close>)
  then have r: "reach rw_init rw_step (?s LF_WRITE_FLAG WHeld RCheck)"
    by (rule reach_step) (use rw_run [of 0 "?s LF_WRITE_FLAG WWait RCheck" LF_WRITE_FLAG WHeld] in
        \<open>simp add: rw_thread.simps EnterWriteLock_step_def LF_WRITE_FLAG_def LF_READ_MASK_def\<close>)
  have "threads (?s LF_WRITE_FLAG WHeld RCheck) ! 1 \<noteq> RHeld"
    by (rule rw_lock_exclusion [OF r, of 0 1, THEN conjunct2]) simp_all
  with r show ?thesis by (intro exI [of _ "?s LF_WRITE_FLAG WHeld RCheck"] conjI) (assumption | simp)+
qed

text \<open>The instructions of one thread, and the state in which it has come to \<^verbatim>\<open>pc\<close>.\<close>

definition rw_own :: "nat \<Rightarrow> rw_state \<Rightarrow> rw_state \<Rightarrow> bool" where
  "rw_own t s s' \<longleftrightarrow> (\<exists>flag pc. t < length (threads s) \<and> rw_thread (threads s ! t) (mLockFlag s) (flag, pc) \<and>
     s' = s\<lparr>mLockFlag := flag, threads := (threads s)[t := pc]\<rparr>)"

definition rw_at :: "rw_state \<Rightarrow> nat \<Rightarrow> 32 word \<Rightarrow> rw_pc \<Rightarrow> rw_state" where
  "rw_at s t flag pc = s\<lparr>mLockFlag := flag, threads := (threads s)[t := pc]\<rparr>"

lemma rw_own_step: "rw_own t s s' \<Longrightarrow> rw_step s s'"
  by (auto simp: rw_own_def intro: rw_step.intros)

lemma rw_at_self: "rw_at s t (mLockFlag s) (threads s ! t) = s"
  by (simp add: rw_at_def)

lemma rw_own_first:
  "t < length (threads s) \<Longrightarrow> rw_thread pc f (f', pc') \<Longrightarrow> (rw_own t ^^ n) (rw_at s t f' pc') s' \<Longrightarrow>
    (rw_own t ^^ Suc n) (rw_at s t f pc) s'"
  by (rule relpowp_Suc_I2 [of _ _ "rw_at s t f' pc'"]) (auto simp: rw_own_def rw_at_def)

lemma write_path:
  assumes "t < length (threads s)" and "pc \<in> {WCheck, WAdd, WUndo, WWait}"
  shows "\<exists>n\<le>4. (rw_own t ^^ n) (rw_at s t (if pc \<in> {WUndo, WWait} then LF_WRITE_FLAG else 0) pc) (rw_at s t LF_WRITE_FLAG WHeld)"
proof -
  define to where "to = (\<lambda>n f pc. (rw_own t ^^ n) (rw_at s t f pc) (rw_at s t LF_WRITE_FLAG WHeld))"
  have go: "to m f pc" if "to n f' pc'" "rw_thread pc f (f', pc')" "m = Suc n" for m n f pc f' pc'
    unfolding to_def that(3) by (rule rw_own_first [OF assms(1) that(2) that(1) [unfolded to_def]])
  have "to 0 LF_WRITE_FLAG WHeld" by (simp add: to_def)
  then have 1: "to 1 LF_WRITE_FLAG WWait"
    by (rule go) (simp_all add: rw_thread.simps EnterWriteLock_step_def LF_WRITE_FLAG_def LF_READ_MASK_def)
  then have 2: "to 2 0 WAdd"
    by (rule go) (simp_all add: rw_thread.simps EnterWriteLock_step_def LF_WRITE_FLAG_def LF_WRITE_MASK_def)
  then have 3: "to 3 0 WCheck"
    by (rule go) (simp_all add: rw_thread.simps EnterWriteLock_step_def)
  then have 4: "to 4 LF_WRITE_FLAG WUndo"
    by (rule go) (simp_all add: rw_thread.simps EnterWriteLock_step_def)
  have "\<exists>n\<le>4. to n f pc" if "to m f pc" "m \<le> 4" for m f pc using that by blast
  note found = this [OF 1] this [OF 2] this [OF 3] this [OF 4]
  have "\<exists>n\<le>4. to n (if pc \<in> {WUndo, WWait} then LF_WRITE_FLAG else 0) pc" using assms(2) found by auto
  then show ?thesis by (simp only: to_def)
qed

lemma read_path:
  assumes "t < length (threads s)" and "r < 2 ^ 11" and "pc \<in> {RCheck, RAdd, RUndo}"
  shows "\<exists>n\<le>3. (rw_own t ^^ n) (rw_at s t (flag_of 0 (if pc = RUndo then r + 1 else r)) pc) (rw_at s t (flag_of 0 (r + 1)) RHeld)"
proof -
  define to where "to = (\<lambda>n f pc. (rw_own t ^^ n) (rw_at s t f pc) (rw_at s t (flag_of 0 (r + 1)) RHeld))"
  have go: "to m f pc" if "to n f' pc'" "rw_thread pc f (f', pc')" "m = Suc n" for m n f pc f' pc'
    unfolding to_def that(3) by (rule rw_own_first [OF assms(1) that(2) that(1) [unfolded to_def]])
  have free: "flag_of 0 r AND LF_WRITE_MASK = 0" "flag_of 0 (r + 1) AND LF_WRITE_MASK = 0"
    using flag_of_no_writer(1) [of 0 r] flag_of_no_writer(1) [of 0 "r + 1"] assms(2) by simp_all
  have "to 0 (flag_of 0 (r + 1)) RHeld" by (simp add: to_def)
  then have 1: "to 1 (flag_of 0 r) RAdd"
    by (rule go) (use free in \<open>simp_all add: rw_thread.simps EnterReadLock_step_def flag_of_arith\<close>)
  then have 2: "to 2 (flag_of 0 r) RCheck"
    by (rule go) (simp_all add: rw_thread.simps EnterReadLock_step_def free)
  then have 3: "to 3 (flag_of 0 (r + 1)) RUndo"
    by (rule go) (simp_all add: rw_thread.simps EnterReadLock_step_def flag_of_arith(4))
  have "\<exists>n\<le>3. to n f pc" if "to m f pc" "m \<le> 3" for m f pc using that by blast
  note found = this [OF 1] this [OF 2] this [OF 3]
  have "\<exists>n\<le>3. to n (flag_of 0 (if pc = RUndo then r + 1 else r)) pc" using assms(3) found by auto
  then show ?thesis by (simp only: to_def)
qed

text \<open>C31. The lock leaks nothing, and whoever asks for it gets it: whatever happened before, a thread
  anywhere inside \<^verbatim>\<open>EnterWriteLock\<close> holds the write lock after at most four instructions
  of its own if no other thread is counted in the flag, a thread anywhere inside
  \<^verbatim>\<open>EnterReadLock\<close> holds the read lock after at most three if no other thread is
  counted as a writer, however many read, and the flag is zero when all are outside.\<close>

theorem rw_lock_available:
  assumes "reach rw_init rw_step s" and "t < length (threads s)"
  shows "(set (threads s) \<subseteq> {RwIdle} \<longrightarrow> mLockFlag s = 0) \<and>
    (threads s ! t \<in> {WCheck, WAdd, WUndo, WWait} \<and>
      (\<forall>u<length (threads s). u \<noteq> t \<longrightarrow> threads s ! u \<notin> {WUndo, WWait, WHeld, RUndo, RHeld}) \<longrightarrow>
      (\<exists>n\<le>4. \<exists>s'. (rw_own t ^^ n) s s' \<and> threads s' = (threads s)[t := WHeld] \<and> mLockFlag s' = LF_WRITE_FLAG)) \<and>
    (threads s ! t \<in> {RCheck, RAdd, RUndo} \<and>
      (\<forall>u<length (threads s). u \<noteq> t \<longrightarrow> threads s ! u \<notin> {WUndo, WWait, WHeld}) \<longrightarrow>
      (\<exists>n\<le>3. \<exists>s'. (rw_own t ^^ n) s s' \<and> threads s' = (threads s)[t := RHeld] \<and> mLockFlag s' AND LF_WRITE_MASK = 0))"
proof -
  let ?ts = "threads s" and ?f = "mLockFlag s"
  have inv: "length ?ts < 2 ^ 11" "?f = flag_of (count_if counted_w ?ts) (count_if counted_r ?ts)"
    using rw.inv_reach [OF assms(1)] by (simp_all add: rw_inv_def)
  have alone: "count_if P ?ts = (if P (?ts ! t) then 1 else 0)"
    if "\<forall>u<length ?ts. u \<noteq> t \<longrightarrow> \<not> P (?ts ! u)" "\<not> P RwIdle" for P
  proof -
    have "count_if P (?ts[t := RwIdle]) = 0"
      using that assms(2) by (auto simp: count_if_zero in_set_conv_nth nth_list_update split: if_splits)
    then show ?thesis using count_if_update [OF assms(2), of P RwIdle] that(2) by (simp split: if_splits)
  qed
  have idle: "?f = 0" if "set ?ts \<subseteq> {RwIdle}"
  proof -
    have "count_if counted_w ?ts = 0" "count_if counted_r ?ts = 0"
      using that by (auto simp: count_if_zero counted_w_def counted_r_def)
    then show ?thesis using inv(2) by simp
  qed
  have writer: "\<exists>n\<le>4. \<exists>s'. (rw_own t ^^ n) s s' \<and> threads s' = ?ts[t := WHeld] \<and> mLockFlag s' = LF_WRITE_FLAG"
    if w: "?ts ! t \<in> {WCheck, WAdd, WUndo, WWait}"
      and others: "\<forall>u<length ?ts. u \<noteq> t \<longrightarrow> ?ts ! u \<notin> {WUndo, WWait, WHeld, RUndo, RHeld}"
  proof -
    have "?f = (if ?ts ! t \<in> {WUndo, WWait} then LF_WRITE_FLAG else 0)"
      using inv(2) alone [of counted_w] alone [of counted_r] others w flag_of_arith(1) [of 0 0]
      by (auto simp: counted_w_def counted_r_def)
    then have "\<exists>n\<le>4. (rw_own t ^^ n) (rw_at s t ?f (?ts ! t)) (rw_at s t LF_WRITE_FLAG WHeld)"
      using write_path [OF assms(2) w] by simp
    then obtain n where "n \<le> 4" "(rw_own t ^^ n) s (rw_at s t LF_WRITE_FLAG WHeld)" unfolding rw_at_self by blast
    then show ?thesis by (intro exI [of _ n] exI [of _ "rw_at s t LF_WRITE_FLAG WHeld"] conjI) (simp_all add: rw_at_def)
  qed
  have reader: "\<exists>n\<le>3. \<exists>s'. (rw_own t ^^ n) s s' \<and> threads s' = ?ts[t := RHeld] \<and> mLockFlag s' AND LF_WRITE_MASK = 0"
    if p: "?ts ! t \<in> {RCheck, RAdd, RUndo}"
      and others: "\<forall>u<length ?ts. u \<noteq> t \<longrightarrow> ?ts ! u \<notin> {WUndo, WWait, WHeld}"
  proof -
    have w: "count_if counted_w ?ts = 0" using alone [of counted_w] others p by (auto simp: counted_w_def)
    define r where "r = count_if counted_r (?ts[t := RwIdle])"
    have r: "r < 2 ^ 11" using count_if_le [of counted_r "?ts[t := RwIdle]"] inv(1) by (simp add: r_def)
    have "?f = flag_of 0 (if ?ts ! t = RUndo then r + 1 else r)"
      using inv(2) w count_if_update [OF assms(2), of counted_r RwIdle] p by (auto simp: r_def counted_r_def)
    then have run: "\<exists>n\<le>3. (rw_own t ^^ n) (rw_at s t ?f (?ts ! t)) (rw_at s t (flag_of 0 (r + 1)) RHeld)"
      using read_path [OF assms(2) r p] by simp
    have free: "flag_of 0 (r + 1) AND LF_WRITE_MASK = 0"
      using flag_of_no_writer(1) [of 0 "r + 1"] r by simp
    from run obtain n where "n \<le> 3" "(rw_own t ^^ n) s (rw_at s t (flag_of 0 (r + 1)) RHeld)" unfolding rw_at_self by blast
    with free show ?thesis
      by (intro exI [of _ n] exI [of _ "rw_at s t (flag_of 0 (r + 1)) RHeld"] conjI) (simp_all add: rw_at_def)
  qed
  show ?thesis using idle writer reader by blast
qed

text \<open>A reader beside a reader, and a writer after both.\<close>

lemma reach_second_reader: "reach rw_init rw_step \<lparr>mLockFlag = 1, threads = [RCheck, RHeld]\<rparr>"
  and reach_lone_writer: "reach rw_init rw_step \<lparr>mLockFlag = 0, threads = [WCheck, RwIdle]\<rparr>"
proof -
  let ?s = "\<lambda>f a b. \<lparr>mLockFlag = f, threads = [a, b]\<rparr>"
  have step: "reach rw_init rw_step (?s f' a' b')"
    if "reach rw_init rw_step (?s f a b)" "a' = a \<and> rw_thread b f (f', b') \<or> b' = b \<and> rw_thread a f (f', a')" for f a b f' a' b'
    using that rw_run [of 0 "?s f a b" f' a'] rw_run [of 1 "?s f a b" f' b'] by (auto intro: reach_step)
  have "FastSpinlock_new 2 = ?s 0 RwIdle RwIdle" by (simp add: FastSpinlock_new_def numeral_2_eq_2)
  then have "reach rw_init rw_step (?s 0 RwIdle RwIdle)"
    by (intro reach_init) (auto simp: rw_init_def intro!: exI [of _ 2])
  then have "reach rw_init rw_step (?s 0 RwIdle RCheck)" by (rule step) (simp add: rw_thread.simps)
  then have "reach rw_init rw_step (?s 0 RwIdle RAdd)" by (rule step) (simp add: rw_thread.simps EnterReadLock_step_def)
  then have held: "reach rw_init rw_step (?s 1 RwIdle RHeld)"
    by (rule step) (simp add: rw_thread.simps EnterReadLock_step_def LF_WRITE_MASK_def)
  then show "reach rw_init rw_step (?s 1 RCheck RHeld)" by (rule step) (simp add: rw_thread.simps)
  from held have "reach rw_init rw_step (?s 0 RwIdle RwIdle)" by (rule step) (simp add: rw_thread.simps LeaveReadLock_step_def)
  then show "reach rw_init rw_step (?s 0 WCheck RwIdle)" by (rule step) (simp add: rw_thread.simps)
qed

lemma rw_lock_available_witness:
  "(\<exists>n s'. n \<le> 3 \<and> (rw_own 0 ^^ n) \<lparr>mLockFlag = 1, threads = [RCheck, RHeld]\<rparr> s' \<and> threads s' = [RHeld, RHeld]) \<and>
    (\<exists>n s'. n \<le> 4 \<and> (rw_own 0 ^^ n) \<lparr>mLockFlag = 0, threads = [WCheck, RwIdle]\<rparr> s' \<and> threads s' = [WHeld, RwIdle])"
proof
  show "\<exists>n s'. n \<le> 3 \<and> (rw_own 0 ^^ n) \<lparr>mLockFlag = 1, threads = [RCheck, RHeld]\<rparr> s' \<and> threads s' = [RHeld, RHeld]"
    using rw_lock_available [OF reach_second_reader, of 0] by (auto simp: less_Suc_eq numeral_2_eq_2)
  show "\<exists>n s'. n \<le> 4 \<and> (rw_own 0 ^^ n) \<lparr>mLockFlag = 0, threads = [WCheck, RwIdle]\<rparr> s' \<and> threads s' = [WHeld, RwIdle]"
    using rw_lock_available [OF reach_lone_writer, of 0] by (auto simp: less_Suc_eq numeral_2_eq_2)
qed

section \<open>The exchange lock of the dummy clients\<close>

datatype spin_pc = SpIdle | SpTry | SpHeld

record spin_state =
  spin_flag :: int
  spinners :: "spin_pc list"

definition SpinLock_new :: "nat \<Rightarrow> spin_state" where
  "SpinLock_new n = \<lparr>spin_flag = 0, spinners = replicate n SpIdle\<rparr>"

text \<open>\<^verbatim>\<open>EnterLock\<close>: one exchange per turn of its loop; the sleep changes no state.\<close>

definition EnterLock_step :: "int \<Rightarrow> int \<times> spin_pc" where
  "EnterLock_step flag = (1, if flag = 0 then SpHeld else SpTry)"

definition LeaveLock_step :: "int \<Rightarrow> int \<times> spin_pc" where
  "LeaveLock_step flag = (0, SpIdle)"

inductive spin_step :: "spin_state \<Rightarrow> spin_state \<Rightarrow> bool" where
  spin_want: "t < length (spinners s) \<Longrightarrow> spinners s ! t = SpIdle \<Longrightarrow>
    spin_step s (s\<lparr>spinners := (spinners s)[t := SpTry]\<rparr>)"
| spin_enter: "t < length (spinners s) \<Longrightarrow> spinners s ! t = SpTry \<Longrightarrow>
    EnterLock_step (spin_flag s) = (f, pc) \<Longrightarrow>
    spin_step s (s\<lparr>spin_flag := f, spinners := (spinners s)[t := pc]\<rparr>)"
| spin_leave: "t < length (spinners s) \<Longrightarrow> spinners s ! t = SpHeld \<Longrightarrow>
    LeaveLock_step (spin_flag s) = (f, pc) \<Longrightarrow>
    spin_step s (s\<lparr>spin_flag := f, spinners := (spinners s)[t := pc]\<rparr>)"

inductive_cases spin_stepE: "spin_step s s'"

definition spin_inv :: "spin_state \<Rightarrow> bool" where
  "spin_inv s \<longleftrightarrow> spin_flag s \<in> {0, 1} \<and> count_if ((=) SpHeld) (spinners s) = nat (spin_flag s)"

definition spin_init :: "spin_state \<Rightarrow> bool" where
  "spin_init s \<longleftrightarrow> (\<exists>n. s = SpinLock_new n)"

interpretation spin: invariant_system spin_init spin_step spin_inv
proof unfold_locales
  show "spin_inv s" if "spin_init s" for s
    using that by (auto simp: spin_init_def SpinLock_new_def spin_inv_def cnt_replicate_zero)
  show "spin_inv s'" if inv: "spin_inv s" and st: "spin_step s s'" for s s'
    using st
  proof cases
    case (spin_want t)
    with inv count_if_update [of t "spinners s" "(=) SpHeld" SpTry] show ?thesis by (simp add: spin_inv_def)
  next
    case (spin_enter t f pc)
    with inv count_if_update [of t "spinners s" "(=) SpHeld" pc] show ?thesis
      by (auto simp: spin_inv_def EnterLock_step_def split: if_splits)
  next
    case (spin_leave t f pc)
    with inv count_if_update [of t "spinners s" "(=) SpHeld" pc] show ?thesis
      by (auto simp: spin_inv_def LeaveLock_step_def)
  qed
qed

text \<open>Mutual exclusion of the exchange lock, for any number of threads: at most one is inside,
  and the flag is 1 exactly while one is.\<close>

theorem spin_lock_exclusion:
  assumes "reach spin_init spin_step s"
  shows "(\<forall>i<length (spinners s). \<forall>j<length (spinners s).
      spinners s ! i = SpHeld \<and> spinners s ! j = SpHeld \<longrightarrow> i = j) \<and>
    (spin_flag s = 1 \<longleftrightarrow> SpHeld \<in> set (spinners s))"
proof -
  have inv: "spin_inv s" by (rule spin.inv_reach [OF assms])
  then have "count_if ((=) SpHeld) (spinners s) \<le> 1" by (auto simp: spin_inv_def)
  then have "i = j" if "i < length (spinners s)" "j < length (spinners s)" "spinners s ! i = SpHeld"
      "spinners s ! j = SpHeld" for i j
    using count_if_two [OF that(1,2), of "(=) SpHeld"] that(3,4) by fastforce
  moreover have "spin_flag s = 1 \<longleftrightarrow> SpHeld \<in> set (spinners s)"
    using inv count_if_zero [of "(=) SpHeld" "spinners s"] by (auto simp: spin_inv_def)
  ultimately show ?thesis by blast
qed

lemma spin_lock_exclusion_witness:
  "\<exists>s. reach spin_init spin_step s \<and> spinners s = [SpHeld, SpIdle] \<and> spin_flag s = 1"
proof -
  let ?s = "\<lambda>f a. \<lparr>spin_flag = f, spinners = [a, SpIdle]\<rparr>"
  have "reach spin_init spin_step (?s 0 SpIdle)"
    by (rule reach_init) (auto simp: spin_init_def SpinLock_new_def numeral_2_eq_2 intro!: exI [of _ 2])
  then have "reach spin_init spin_step (?s 0 SpTry)"
    by (rule reach_step) (use spin_want [of 0 "?s 0 SpIdle"] in simp)
  then have r: "reach spin_init spin_step (?s 1 SpHeld)"
    by (rule reach_step) (use spin_enter [of 0 "?s 0 SpTry" 1 SpHeld] in \<open>simp add: EnterLock_step_def\<close>)
  from spin_lock_exclusion [OF r] r show ?thesis by (intro exI [of _ "?s 1 SpHeld"]) simp
qed

end
