(* ===== verification/ObjPool.thy ===== *)
theory ObjPool
  imports Prelude
begin

text \<open>
  \<^verbatim>\<open>ObjectPool\<close>, the lock-free free list of the Windows server and of the dummy
  clients: an array of pointers, a head position for \<^verbatim>\<open>operator new\<close> and a tail position
  for \<^verbatim>\<open>operator delete\<close>. Each operator is two interlocked instructions with other
  threads' instructions between them. A block is a number; \<^verbatim>\<open>_aligned_malloc\<close> gives any
  block that is not allocated. The pool has \<^verbatim>\<open>2 ^ k\<close> cells (\<^verbatim>\<open>k = 10\<close>
  and \<^verbatim>\<open>k = 12\<close> in the two programs).
\<close>

unbundle bit_operations_syntax

definition POOL_MAX_SIZE :: nat where "POOL_MAX_SIZE = 1024"

record object_pool =
  mPool :: "nat option list"
  mHeadPos :: "64 word"
  mTailPos :: "64 word"
  allocated :: "nat set"

definition ObjectPool_new :: "nat \<Rightarrow> object_pool" where
  "ObjectPool_new k = \<lparr>mPool = replicate (2 ^ k) None, mHeadPos = 0, mTailPos = 0, allocated = {}\<rparr>"

text \<open>\<^verbatim>\<open>pos & POOL_SIZE_MASK\<close>.\<close>

definition pool_cell :: "nat \<Rightarrow> 64 word \<Rightarrow> nat" where
  "pool_cell k pos = unat (pos AND mask k)"

definition PrepareAllocation :: "nat \<Rightarrow> nat list \<Rightarrow> object_pool \<Rightarrow> object_pool" where
  \<comment> \<open>\<open>blocks\<close>: what \<open>_aligned_malloc\<close> returns, one for each cell\<close>
  "PrepareAllocation k blocks p =
     p\<lparr>mPool := map Some (take (2 ^ k) blocks), mTailPos := mTailPos p + 2 ^ k,
       allocated := allocated p \<union> set (take (2 ^ k) blocks)\<rparr>"

section \<open>The two instructions of each operator\<close>

definition new_claim :: "object_pool \<Rightarrow> 64 word \<times> object_pool" where
  "new_claim p = (mHeadPos p, p\<lparr>mHeadPos := mHeadPos p + 1\<rparr>)"

definition new_take :: "nat \<Rightarrow> nat \<Rightarrow> 64 word \<Rightarrow> object_pool \<Rightarrow> nat \<times> object_pool" where
  \<comment> \<open>\<open>fresh\<close>: what \<open>_aligned_malloc\<close> would return\<close>
  "new_take k fresh popPos p =
     (let popVal = mPool p ! pool_cell k popPos;
          p' = p\<lparr>mPool := (mPool p)[pool_cell k popPos := None]\<rparr>
      in case popVal of Some v \<Rightarrow> (v, p') | None \<Rightarrow> (fresh, p'\<lparr>allocated := insert fresh (allocated p)\<rparr>))"

definition delete_claim :: "object_pool \<Rightarrow> 64 word \<times> object_pool" where
  "delete_claim p = (mTailPos p, p\<lparr>mTailPos := mTailPos p + 1\<rparr>)"

definition delete_put :: "nat \<Rightarrow> nat \<Rightarrow> 64 word \<Rightarrow> object_pool \<Rightarrow> object_pool" where
  "delete_put k obj insPos p =
     (let prevVal = mPool p ! pool_cell k insPos;
          p' = p\<lparr>mPool := (mPool p)[pool_cell k insPos := Some obj]\<rparr>
      in case prevVal of None \<Rightarrow> p' | Some v \<Rightarrow> p'\<lparr>allocated := allocated p - {v}\<rparr>)"

definition operator_new :: "nat \<Rightarrow> nat \<Rightarrow> object_pool \<Rightarrow> nat \<times> object_pool" where
  "operator_new k fresh p = (case new_claim p of (popPos, p1) \<Rightarrow> new_take k fresh popPos p1)"

definition operator_delete :: "nat \<Rightarrow> nat \<Rightarrow> object_pool \<Rightarrow> object_pool" where
  "operator_delete k obj p = (case delete_claim p of (insPos, p1) \<Rightarrow> delete_put k obj insPos p1)"

section \<open>Threads that use the pool\<close>

text \<open>
  The blocks the program holds, the positions of the threads inside \<^verbatim>\<open>operator new\<close>, and
  the positions and blocks of those inside \<^verbatim>\<open>operator delete\<close>.
\<close>

record pool_system =
  pool :: object_pool
  held :: "nat list"
  in_new :: "64 word list"
  in_delete :: "(64 word \<times> nat) list"

inductive pool_step :: "nat \<Rightarrow> pool_system \<Rightarrow> pool_system \<Rightarrow> bool" for k :: nat where
  step_new_claim: "new_claim (pool s) = (pos, p) \<Longrightarrow>
    pool_step k s (s\<lparr>pool := p, in_new := pos # in_new s\<rparr>)"
| step_new_take: "pos \<in> set (in_new s) \<Longrightarrow> fresh \<notin> allocated (pool s) \<Longrightarrow>
    new_take k fresh pos (pool s) = (v, p) \<Longrightarrow>
    pool_step k s (s\<lparr>pool := p, in_new := remove1 pos (in_new s), held := v # held s\<rparr>)"
| step_delete_claim: "v \<in> set (held s) \<Longrightarrow> delete_claim (pool s) = (pos, p) \<Longrightarrow>
    pool_step k s (s\<lparr>pool := p, held := remove1 v (held s), in_delete := (pos, v) # in_delete s\<rparr>)"
| step_delete_put: "(pos, v) \<in> set (in_delete s) \<Longrightarrow>
    pool_step k s (s\<lparr>pool := delete_put k v pos (pool s), in_delete := remove1 (pos, v) (in_delete s)\<rparr>)"

definition pool_init :: "nat \<Rightarrow> pool_system \<Rightarrow> bool" where
  "pool_init k s \<longleftrightarrow> held s = [] \<and> in_new s = [] \<and> in_delete s = [] \<and>
     (pool s = ObjectPool_new k \<or>
      (\<exists>blocks. distinct blocks \<and> length blocks = 2 ^ k \<and>
         pool s = PrepareAllocation k blocks (ObjectPool_new k)))"

section \<open>Every block has one owner\<close>

definition cell_blocks :: "nat option \<Rightarrow> nat multiset" where
  "cell_blocks c = (case c of None \<Rightarrow> {#} | Some v \<Rightarrow> {#v#})"

definition pool_blocks :: "nat option list \<Rightarrow> nat multiset" where
  "pool_blocks cells = sum_list (map cell_blocks cells)"

lemma cell_blocks_simps [simp]: "cell_blocks None = {#}" "cell_blocks (Some v) = {#v#}"
  by (simp_all add: cell_blocks_def)

lemma pool_blocks_simps [simp]: "pool_blocks [] = {#}"
    "pool_blocks (c # cs) = cell_blocks c + pool_blocks cs"
  by (simp_all add: pool_blocks_def)

lemma pool_blocks_update: "i < length cs \<Longrightarrow>
    pool_blocks (cs[i := c]) + cell_blocks (cs ! i) = pool_blocks cs + cell_blocks c"
proof (induction cs arbitrary: i)
  case (Cons d ds)
  then show ?case by (cases i) (simp_all add: ac_simps)
qed simp

lemma pool_cell_less: "length cells = 2 ^ k \<Longrightarrow> k < 64 \<Longrightarrow> pool_cell k pos < length cells"
  by (simp add: pool_cell_def flip: take_bit_eq_mask) (simp add: unsigned_take_bit_eq take_bit_nat_less_exp)

definition pool_inv :: "nat \<Rightarrow> pool_system \<Rightarrow> bool" where
  "pool_inv k s \<longleftrightarrow> k < 64 \<longrightarrow> length (mPool (pool s)) = 2 ^ k \<and> finite (allocated (pool s)) \<and>
     pool_blocks (mPool (pool s)) + mset (held s) + image_mset snd (mset (in_delete s)) =
     mset_set (allocated (pool s))"

lemma pool_blocks_map_Some: "pool_blocks (map Some xs) = mset xs"
  by (induction xs) simp_all

lemma pool_blocks_replicate [simp]: "pool_blocks (replicate n None) = {#}"
  by (induction n) simp_all

lemma pool_invD:
  assumes "pool_inv k s" and "k < 64"
  shows "length (mPool (pool s)) = 2 ^ k" and "finite (allocated (pool s))"
    and "pool_blocks (mPool (pool s)) + mset (held s) + image_mset snd (mset (in_delete s)) = mset_set (allocated (pool s))"
  using assms by (simp_all add: pool_inv_def)

lemma pool_init_inv: "pool_init k s \<Longrightarrow> pool_inv k s"
  by (auto simp: pool_init_def pool_inv_def ObjectPool_new_def PrepareAllocation_def pool_blocks_map_Some mset_set_set)

text \<open>What the interlocked exchange of each operator does to the blocks of the pool.\<close>

lemma new_take_blocks:
  assumes "pool_inv k s" and "k < 64" and "fresh \<notin> allocated (pool s)" and "new_take k fresh pos (pool s) = (v, p)"
  shows "length (mPool p) = 2 ^ k" and "finite (allocated p)"
    and "pool_blocks (mPool p) + add_mset v (mset (held s)) + image_mset snd (mset (in_delete s)) = mset_set (allocated p)"
proof -
  note i = pool_invD [OF assms(1,2)]
  note u = pool_blocks_update [OF pool_cell_less [OF i(1) assms(2), of pos], of None]
  have "length (mPool p) = 2 ^ k \<and> finite (allocated p) \<and>
    pool_blocks (mPool p) + add_mset v (mset (held s)) + image_mset snd (mset (in_delete s)) = mset_set (allocated p)"
  proof (cases "mPool (pool s) ! pool_cell k pos")
    case None
    with assms(3,4) i u show ?thesis by (auto simp: new_take_def)
  next
    case (Some w)
    then have w: "v = w" "p = (pool s)\<lparr>mPool := (mPool (pool s))[pool_cell k pos := None]\<rparr>"
      using assms(4) by (simp_all add: new_take_def Let_def)
    have "add_mset w (pool_blocks ((mPool (pool s))[pool_cell k pos := None])) = pool_blocks (mPool (pool s))"
      using u Some by simp
    with w i(1,2) show ?thesis by (simp flip: i(3))
  qed
  then show "length (mPool p) = 2 ^ k" "finite (allocated p)"
    "pool_blocks (mPool p) + add_mset v (mset (held s)) + image_mset snd (mset (in_delete s)) = mset_set (allocated p)"
    by blast+
qed

lemma remove_block:
  assumes "finite A" and "add_mset w M = mset_set A"
  shows "M = mset_set (A - {w})"
proof -
  have "w \<in> A" using assms by (metis finite_set_mset_mset_set union_single_eq_member)
  then have "mset_set A = add_mset w (mset_set (A - {w}))" using assms(1) by (simp add: mset_set.remove)
  with assms(2) show ?thesis by simp
qed

lemma delete_put_blocks:
  assumes "pool_inv k s" and "k < 64" and "image_mset snd (mset (in_delete s)) = add_mset v D"
  shows "length (mPool (delete_put k v pos (pool s))) = 2 ^ k" and "finite (allocated (delete_put k v pos (pool s)))"
    and "pool_blocks (mPool (delete_put k v pos (pool s))) + mset (held s) + D =
      mset_set (allocated (delete_put k v pos (pool s)))"
proof -
  note i = pool_invD [OF assms(1,2)]
  let ?c = "(mPool (pool s))[pool_cell k pos := Some v]"
  note u = pool_blocks_update [OF pool_cell_less [OF i(1) assms(2), of pos], of "Some v"]
  show "length (mPool (delete_put k v pos (pool s))) = 2 ^ k" "finite (allocated (delete_put k v pos (pool s)))"
    using i(1,2) by (simp_all add: delete_put_def Let_def split: option.splits)
  show "pool_blocks (mPool (delete_put k v pos (pool s))) + mset (held s) + D =
      mset_set (allocated (delete_put k v pos (pool s)))"
  proof (cases "mPool (pool s) ! pool_cell k pos")
    case None
    with i(3) u assms(3) show ?thesis by (simp add: delete_put_def ac_simps)
  next
    case (Some w)
    have "add_mset w (pool_blocks ?c + mset (held s) + D) = add_mset w (pool_blocks ?c) + mset (held s) + D" by simp
    also have "add_mset w (pool_blocks ?c) = add_mset v (pool_blocks (mPool (pool s)))" using u Some by simp
    also have "\<dots> + mset (held s) + D = mset_set (allocated (pool s))" using i(3) unfolding assms(3) by simp
    finally have "add_mset w (pool_blocks ?c + mset (held s) + D) = mset_set (allocated (pool s))" .
    from remove_block [OF i(2) this] Some show ?thesis by (simp add: delete_put_def)
  qed
qed

lemma pool_step_inv:
  assumes inv: "pool_inv k s" and st: "pool_step k s t"
  shows "pool_inv k t"
  using st
proof cases
  case (step_new_claim pos p)
  with inv show ?thesis by (auto simp: new_claim_def pool_inv_def)
next
  case (step_new_take pos fresh v p)
  with new_take_blocks [OF inv _ step_new_take(3,4)] show ?thesis by (simp add: pool_inv_def)
next
  case (step_delete_claim v pos p)
  then obtain H where H: "mset (held s) = add_mset v H"
    by (metis insert_DiffM set_mset_mset)
  with step_delete_claim inv show ?thesis
    by (auto simp: delete_claim_def pool_inv_def)
next
  case (step_delete_put pos v)
  have "image_mset snd (mset (in_delete s)) = add_mset v (image_mset snd (mset (remove1 (pos, v) (in_delete s))))"
    using step_delete_put(2) by (metis image_mset_add_mset insert_DiffM mset_remove1 set_mset_mset snd_conv)
  from delete_put_blocks [OF inv _ this] step_delete_put(1) show ?thesis by (simp add: pool_inv_def)
qed

interpretation op: invariant_system "pool_init k" "pool_step k" "pool_inv k" for k
  by unfold_locales (fact pool_init_inv, rule pool_step_inv)

text \<open>C23. The pool hands no block to two owners and loses none: under every interleaving of
  threads inside \<^verbatim>\<open>operator new\<close> and \<^verbatim>\<open>operator delete\<close>, the
  blocks the program holds are distinct and allocated, none of them is in the pool or being deleted,
  and every allocated block is in exactly one of these places.\<close>

theorem ObjectPool_ownership:
  assumes "reach (pool_init k) (pool_step k) s" and "k < 64"
  shows "distinct (held s) \<and> set (held s) \<subseteq> allocated (pool s) \<and>
    (\<forall>v\<in>set (held s). Some v \<notin> set (mPool (pool s)) \<and> v \<notin> snd ` set (in_delete s)) \<and>
    (\<forall>v\<in>allocated (pool s). v \<in> set (held s) \<or> Some v \<in> set (mPool (pool s)) \<or> v \<in> snd ` set (in_delete s))"
proof -
  have i: "finite (allocated (pool s))" "pool_blocks (mPool (pool s)) + mset (held s) +
      image_mset snd (mset (in_delete s)) = mset_set (allocated (pool s))"
    using op.inv_reach [OF assms(1)] assms(2) by (auto simp: pool_inv_def)
  have in_pool: "v \<in># pool_blocks cs \<longleftrightarrow> Some v \<in> set cs" for v cs
    by (induction cs) (auto simp: cell_blocks_def split: option.splits)
  have one: "Multiset.count (pool_blocks (mPool (pool s))) v + Multiset.count (mset (held s)) v +
      Multiset.count (image_mset snd (mset (in_delete s))) v = (if v \<in> allocated (pool s) then 1 else 0)" for v
    using arg_cong [OF i(2), of "\<lambda>m. Multiset.count m v"] i(1) by simp
  have in_held: "v \<in> set (held s) \<longleftrightarrow> 0 < Multiset.count (mset (held s)) v" for v
    by simp
  have in_del: "v \<in> snd ` set (in_delete s) \<longleftrightarrow>
      0 < Multiset.count (image_mset snd (mset (in_delete s))) v" for v
    by (simp only: count_greater_zero_iff) simp
  have in_cells: "Some v \<in> set (mPool (pool s)) \<longleftrightarrow>
      0 < Multiset.count (pool_blocks (mPool (pool s))) v" for v
    by (simp only: count_greater_zero_iff in_pool)
  have arith: "a + n + b = (if P then 1 else 0) \<Longrightarrow>
      (0 < n \<longrightarrow> P \<and> n = 1 \<and> \<not> 0 < a \<and> \<not> 0 < b) \<and> (P \<longrightarrow> 0 < a \<or> 0 < n \<or> 0 < b)" for a b n :: nat and P
    by (auto split: if_splits)
  note o = arith [OF one]
  have "distinct (held s)"
    unfolding distinct_count_atmost_1
  proof
    show "Multiset.count (mset (held s)) v = (if v \<in> set (held s) then 1 else 0)" for v
      using o [of v] in_held [of v] by (metis gr0I)
  qed
  moreover have "v \<in> allocated (pool s) \<and> Some v \<notin> set (mPool (pool s)) \<and> v \<notin> snd ` set (in_delete s)"
    if "v \<in> set (held s)" for v
    using o [of v] that unfolding in_held in_del in_cells by meson
  moreover have "v \<in> set (held s) \<or> Some v \<in> set (mPool (pool s)) \<or> v \<in> snd ` set (in_delete s)"
    if "v \<in> allocated (pool s)" for v
    using o [of v] that unfolding in_held in_del in_cells by meson
  ultimately show ?thesis by blast
qed

lemma ObjectPool_ownership_witness:
  "\<exists>s. reach (pool_init 1) (pool_step 1) s \<and> held s = [7] \<and> distinct (held s) \<and> 7 \<in> allocated (pool s)"
proof -
  let ?s0 = "\<lparr>pool = ObjectPool_new 1, held = [], in_new = [], in_delete = []\<rparr>"
  let ?p1 = "(ObjectPool_new 1)\<lparr>mHeadPos := 1\<rparr>"
  let ?s1 = "?s0\<lparr>pool := ?p1, in_new := [0]\<rparr>"
  have "reach (pool_init 1) (pool_step 1) ?s0"
    by (rule reach_init) (simp add: pool_init_def)
  then have r1: "reach (pool_init 1) (pool_step 1) ?s1"
    by (rule reach_step) (use step_new_claim [of ?s0 0 ?p1 1] in
        \<open>simp add: new_claim_def ObjectPool_new_def\<close>)
  obtain v p where vp: "new_take 1 7 0 ?p1 = (v, p)" by (cases "new_take 1 7 0 ?p1") auto
  have "pool_cell 1 0 = 0" by (simp add: pool_cell_def)
  then have v: "v = 7" using vp by (simp add: new_take_def ObjectPool_new_def Let_def)
  have "pool_step 1 ?s1 (?s1\<lparr>pool := p, in_new := remove1 0 (in_new ?s1), held := v # held ?s1\<rparr>)"
    by (rule step_new_take [where fresh = 7]) (use vp in \<open>simp_all add: ObjectPool_new_def\<close>)
  from reach_step [OF r1 this] v ObjectPool_ownership [OF reach_step [OF r1 this]] show ?thesis by auto
qed

end
