(* ===== verification/WinServer.thy ===== *)
theory WinServer
  imports CircBuf Packets Console LinuxServer
begin

text \<open>
  The Windows server (\<^verbatim>\<open>GameLiftGameServer\<close>): overlapped sessions on an I/O completion
  port, the game session and the GameLift manager. An operation runs in one thread; the locks that
  this thread holds are part of the state, and entering one of them again blocks the thread for ever
  (\<^verbatim>\<open>FastSpinlock\<close> is not re-entrant). Names that the Linux server has too carry the
  prefix of their class: \<^verbatim>\<open>WS\<close> Session, \<^verbatim>\<open>PS\<close> PlayerSession,
  \<^verbatim>\<open>GS\<close> GameSession, \<^verbatim>\<open>WGL\<close> GameLiftManager,
  \<^verbatim>\<open>IOT\<close> IOThread, \<^verbatim>\<open>IM\<close> IocpManager.
\<close>

section \<open>The environment\<close>

datatype wincall =
    WsaStartup | CreatePort | WinSocket | WinReuseAddr int | WinBind int int | WinGetSockName int
  | WinSockPort int | WinListen int | WinAccept int | WinNonBlocking int | WinNoDelay int
  | WinRcvBufZero int | AssociatePort int int | WinLinger int | WinCloseSocket int
  | BeginThread nat | ResumeThread nat | CloseThread nat | ClosePort int | WsaCleanup

text \<open>\<^verbatim>\<open>WSARecv\<close> and \<^verbatim>\<open>WSASend\<close>: started (at once or pending), or the error code.\<close>

datatype wsa_result = WsaStarted | WsaError int

record 'w win_env =
  win_sys :: "wincall \<Rightarrow> 'w \<Rightarrow> int \<times> 'w"
  win_sdk :: "sdk_call \<Rightarrow> 'w \<Rightarrow> gl_outcome \<times> 'w"
  wsa_recv :: "int \<Rightarrow> nat \<Rightarrow> 'w \<Rightarrow> wsa_result \<times> 'w"
  wsa_send :: "int \<Rightarrow> byte list \<Rightarrow> 'w \<Rightarrow> wsa_result \<times> 'w"
  win_peer :: "int \<Rightarrow> 'w \<Rightarrow> ip_addr \<times> 16 word"
  last_error :: "'w \<Rightarrow> int"
  wall_clock :: "'w \<Rightarrow> int"
  termination_time :: "'w \<Rightarrow> int"

section \<open>Constants and data\<close>

definition CLIENT_BUFSIZE :: nat where "CLIENT_BUFSIZE = 65536"
definition MAX_WORKER_THREAD :: nat where "MAX_WORKER_THREAD = 8"

datatype IOType = IO_NONE | IO_SEND | IO_RECV | IO_RECV_ZERO

datatype DisconnectReason =
    DR_NONE | DR_ACTIVE | DR_ONCONNECT_ERROR | DR_IO_REQUEST_ERROR | DR_COMPLETION_ERROR
  | DR_SENDFLUSH_ERROR | DR_SENDBUFFER_ERROR | DR_UNAUTH | DR_LOGOUT

fun reason_value :: "DisconnectReason \<Rightarrow> int" where
  "reason_value DR_NONE = 0"
| "reason_value DR_ACTIVE = 1"
| "reason_value DR_ONCONNECT_ERROR = 2"
| "reason_value DR_IO_REQUEST_ERROR = 3"
| "reason_value DR_COMPLETION_ERROR = 4"
| "reason_value DR_SENDFLUSH_ERROR = 5"
| "reason_value DR_SENDBUFFER_ERROR = 6"
| "reason_value DR_UNAUTH = 7"
| "reason_value DR_LOGOUT = 8"

datatype THREAD_TYPE = THREAD_MAIN | THREAD_IO_WORKER

record OverlappedIOContext =
  mSessionObject :: nat
  mIoType :: IOType
  mWsaLen :: nat
  mWsaBuf :: "nat option"

record WinSession =
  wsSocket :: int
  wsRecvBuffer :: cbuf
  wsSendBuffer :: cbuf
  wsSendPendingCount :: int
  wsConnected :: bool
  wsClientAddr :: "ip_addr \<times> 16 word"
  wsPlayerSessionId :: "byte list"

datatype lock_id = LockGameLift | LockLog | LockSend nat

record 'w win_server =
  sessions :: "nat \<Rightarrow> WinSession option"
  next_session :: nat
  contexts :: "nat \<Rightarrow> OverlappedIOContext option"
  next_context :: nat
  mGameSession :: "nat list option"
  wglActivated :: bool
  wglAcceptedCount :: int
  wglRemovedCount :: int
  imCompletionPort :: int
  imListenSocket :: int
  LThreadType :: THREAD_TYPE
  locks :: "lock_id set"
  winLog :: ConsoleLog
  win_world :: 'w

definition with_session :: "nat \<Rightarrow> 'w win_server \<Rightarrow> (WinSession \<Rightarrow> 'a outcome) \<Rightarrow> 'a outcome" where
  "with_session sid s f = (case sessions s sid of None \<Rightarrow> Fault DanglingRef | Some c \<Rightarrow> f c)"

definition upd_session :: "nat \<Rightarrow> (WinSession \<Rightarrow> WinSession) \<Rightarrow> 'w win_server \<Rightarrow> 'w win_server" where
  "upd_session sid f s = s\<lparr>sessions := (sessions s)(sid := map_option f (sessions s sid))\<rparr>"

text \<open>\<^verbatim>\<open>FastSpinlockGuard\<close>: the lock is held for the rest of the block.\<close>

definition guarded ::
  "lock_id \<Rightarrow> ('w win_server \<Rightarrow> ('a \<times> 'w win_server) outcome) \<Rightarrow> 'w win_server \<Rightarrow>
   ('a \<times> 'w win_server) outcome" where
  "guarded l body s =
     (if l \<in> locks s then Fault SelfDeadlock
      else bnd (body (s\<lparr>locks := insert l (locks s)\<rparr>)) (\<lambda>(r, s'). Ok (r, s'\<lparr>locks := locks s' - {l}\<rparr>)))"

definition guarded_void ::
  "lock_id \<Rightarrow> ('w win_server \<Rightarrow> 'w win_server outcome) \<Rightarrow> 'w win_server \<Rightarrow> 'w win_server outcome" where
  "guarded_void l body s = bnd (guarded l (\<lambda>s. bnd (body s) (\<lambda>s'. Ok ((), s'))) s) (\<lambda>(_, s'). Ok s')"

definition win_do :: "'w win_env \<Rightarrow> wincall \<Rightarrow> 'w win_server \<Rightarrow> int \<times> 'w win_server" where
  "win_do e c s = (case win_sys e c (win_world s) of (r, w) \<Rightarrow> (r, s\<lparr>win_world := w\<rparr>))"

definition win_do_sdk :: "'w win_env \<Rightarrow> sdk_call \<Rightarrow> 'w win_server \<Rightarrow> gl_outcome \<times> 'w win_server" where
  "win_do_sdk e c s = (case win_sdk e c (win_world s) of (r, w) \<Rightarrow> (r, s\<lparr>win_world := w\<rparr>))"

text \<open>\<^verbatim>\<open>PrintOut\<close> formats with \<^verbatim>\<open>vsprintf_s\<close>, whose parameter check ends the
  process when the text does not fit.\<close>

definition win_PrintOut :: "bool \<Rightarrow> byte list \<Rightarrow> ConsoleLog \<Rightarrow> ConsoleLog outcome" where
  "win_PrintOut fileOut buf l =
     (if length buf < 128
      then Ok (if fileOut
               then l\<lparr>console := console l @ [buf], mLogFileStream := mLogFileStream l @ [buf]\<rparr>
               else l\<lparr>console := console l @ [buf]\<rparr>)
      else Fault InvalidParameter)"

definition win_print :: "byte list \<Rightarrow> 'w win_server \<Rightarrow> 'w win_server outcome" where
  "win_print text = guarded_void LockLog (\<lambda>s.
     bnd (win_PrintOut True text (winLog s)) (\<lambda>l. Ok (s\<lparr>winLog := l\<rparr>)))"

section \<open>I/O contexts\<close>

definition new_context :: "OverlappedIOContext \<Rightarrow> 'w win_server \<Rightarrow> nat \<times> 'w win_server" where
  "new_context c s =
     (next_context s, s\<lparr>contexts := (contexts s)(next_context s \<mapsto> c), next_context := next_context s + 1\<rparr>)"

definition OverlappedSendContext_new :: "nat \<Rightarrow> OverlappedIOContext" where
  "OverlappedSendContext_new owner = \<lparr>mSessionObject = owner, mIoType = IO_SEND, mWsaLen = 0, mWsaBuf = None\<rparr>"

definition OverlappedRecvContext_new :: "nat \<Rightarrow> OverlappedIOContext" where
  "OverlappedRecvContext_new owner = \<lparr>mSessionObject = owner, mIoType = IO_RECV, mWsaLen = 0, mWsaBuf = None\<rparr>"

definition OverlappedPreRecvContext_new :: "nat \<Rightarrow> OverlappedIOContext" where
  "OverlappedPreRecvContext_new owner =
     \<lparr>mSessionObject = owner, mIoType = IO_RECV_ZERO, mWsaLen = 0, mWsaBuf = None\<rparr>"

definition DeleteIoContext :: "nat option \<Rightarrow> 'w win_server \<Rightarrow> 'w win_server outcome" where
  "DeleteIoContext context s =
     (case context of None \<Rightarrow> Ok s
      | Some x \<Rightarrow>
          (case contexts s x of None \<Rightarrow> Fault DanglingRef
           | Some c \<Rightarrow> if mIoType c \<in> {IO_SEND, IO_RECV_ZERO, IO_RECV}
                      then Ok (s\<lparr>contexts := (contexts s)(x := None)\<rparr>)
                      else Fault CrashAssert))"

section \<open>\<^verbatim>\<open>GameSession\<close> and \<^verbatim>\<open>GameLiftManager\<close>\<close>

definition GS_PlayerEnter :: "nat \<Rightarrow> nat list \<Rightarrow> nat list" where
  "GS_PlayerEnter psess players = insort_insert psess players"

definition GS_PlayerLeave :: "nat \<Rightarrow> nat list \<Rightarrow> nat list" where
  "GS_PlayerLeave psess players = filter (\<lambda>p. p \<noteq> psess) players"

text \<open>A member call through the null \<^verbatim>\<open>mGameSession\<close> is a fault.\<close>

definition on_game ::
  "(nat list \<Rightarrow> nat list) \<Rightarrow> 'w win_server \<Rightarrow> 'w win_server outcome" where
  "on_game f s =
     (case mGameSession s of None \<Rightarrow> Fault NullDeref
      | Some players \<Rightarrow> Ok (s\<lparr>mGameSession := Some (f players)\<rparr>))"

definition WGL_InitializeGameLift ::
  "'w win_env \<Rightarrow> int \<Rightarrow> 'w win_server \<Rightarrow> (bool \<times> 'w win_server) outcome" where
  "WGL_InitializeGameLift e listenPort s =
     (case win_do_sdk e InitSDK s of (initOutcome, s1) \<Rightarrow>
      if \<not> IsSuccess initOutcome then Ok (False, s1)
      else case win_do_sdk e (ProcessReady listenPort) s1 of (readyOutcome, s2) \<Rightarrow>
      if \<not> IsSuccess readyOutcome then Ok (False, s2)
      else bnd (win_print (lit ''[GAMELIFT] ProcessReady Success\<newline>'')
                  (s2\<lparr>wglActivated := True, wglAcceptedCount := 0, wglRemovedCount := 0\<rparr>))
             (\<lambda>s3. Ok (True, s3)))"

definition WGL_FinalizeGameLift :: "'w win_env \<Rightarrow> 'w win_server \<Rightarrow> 'w win_server" where
  "WGL_FinalizeGameLift e s = snd (win_do_sdk e Destroy s)"

definition WGL_AcceptPlayerSession ::
  "'w win_env \<Rightarrow> nat \<Rightarrow> byte list \<Rightarrow> 'w win_server \<Rightarrow> (bool \<times> 'w win_server) outcome" where
  "WGL_AcceptPlayerSession e psess playerSessionId = guarded LockGameLift (\<lambda>s.
     case win_do_sdk e (AcceptPlayerSession playerSessionId) s of (outc, s1) \<Rightarrow>
     if IsSuccess outc
     then bnd (on_game (GS_PlayerEnter psess) (s1\<lparr>wglAcceptedCount := wglAcceptedCount s1 + 1\<rparr>))
            (\<lambda>s2. Ok (True, s2))
     else bnd (win_print (lit ''[GAMELIFT] AcceptPlayerSession Fail: '' @ GetErrorMessage outc @
                          lit ''\<newline>'') s1) (\<lambda>s2. Ok (False, s2)))"

text \<open>
  \<^verbatim>\<open>TerminateGameSession\<close> up to its \<^verbatim>\<open>TerminateProcess\<close>, which ends the
  run with an exit code.
\<close>

definition WGL_before_exit :: "'w win_env \<Rightarrow> 'w win_server \<Rightarrow> 'w win_server" where
  "WGL_before_exit e s =
     (let s1 = s\<lparr>mGameSession := None\<rparr>;
          s2 = snd (win_do_sdk e TerminateGameSession s1);
          s3 = snd (win_do_sdk e ProcessEnding s2)
      in s3\<lparr>wglActivated := False\<rparr>)"

definition exit_process :: "int \<Rightarrow> 'w win_server \<Rightarrow> 'w win_server outcome" where
  "exit_process exitCode s = Fault (ProcessTerminated exitCode)"

definition WGL_TerminateGameSession :: "'w win_env \<Rightarrow> int \<Rightarrow> 'w win_server \<Rightarrow> 'w win_server outcome" where
  "WGL_TerminateGameSession e exitCode s = exit_process exitCode (WGL_before_exit e s)"

definition WGL_CheckTerminateGameSession :: "'w win_env \<Rightarrow> 'w win_server \<Rightarrow> 'w win_server outcome" where
  "WGL_CheckTerminateGameSession e s =
     (if wglAcceptedCount s \<ge> MAX_PLAYER_PER_GAME \<and> wglRemovedCount s \<ge> MAX_PLAYER_PER_GAME \<and>
         wglActivated s
      then bnd (win_print (lit ''[GAMELIFT] Terminate GameSession\<newline>'') s) (WGL_TerminateGameSession e 37)
      else Ok s)"

definition WGL_RemovePlayerSession ::
  "'w win_env \<Rightarrow> nat \<Rightarrow> byte list \<Rightarrow> 'w win_server \<Rightarrow> 'w win_server outcome" where
  "WGL_RemovePlayerSession e psess playerSessionId = guarded_void LockGameLift (\<lambda>s.
     case win_do_sdk e (RemovePlayerSession playerSessionId) s of (outc, s1) \<Rightarrow>
     bnd (if IsSuccess outc
          then bnd (on_game (GS_PlayerLeave psess) s1)
                 (\<lambda>s2. Ok (s2\<lparr>wglRemovedCount := wglRemovedCount s2 + 1\<rparr>))
          else win_print (lit ''[GAMELIFT] RemovePlayerSession Fail: '' @ fmt_d (GetErrorType outc) @
                          lit '' '' @ GetErrorName outc @ lit ''\<newline>'') s1)
       (WGL_CheckTerminateGameSession e))"

definition WGL_OnStartGameSession :: "'w win_env \<Rightarrow> 'w win_server \<Rightarrow> 'w win_server outcome" where
  "WGL_OnStartGameSession e = guarded_void LockGameLift (\<lambda>s.
     win_print (lit ''[GAMELIFT] OnStartGameSession Success\<newline>'')
       ((snd (win_do_sdk e ActivateGameSession s))\<lparr>mGameSession := Some []\<rparr>))"

definition WGL_OnProcessTerminate :: "'w win_env \<Rightarrow> 'w win_server \<Rightarrow> 'w win_server outcome" where
  "WGL_OnProcessTerminate e = guarded_void LockGameLift (\<lambda>s.
     if wglActivated s
     then let currentTime = wall_clock e (win_world s);
              s1 = snd (win_do_sdk e GetTerminationTime s);
              termTime = termination_time e (win_world s1)
          in bnd (win_print (lit ''[GAMELIFT] OnProcessTerminate Success: after ['' @
                             fmt_d (termTime - currentTime) @ lit '']\<newline>'') s1)
               (WGL_TerminateGameSession e 0xDEAD)
     else Ok s)"

definition WGL_OnHealthCheck :: "'w win_server \<Rightarrow> bool" where
  "WGL_OnHealthCheck s = wglActivated s"

section \<open>\<^verbatim>\<open>Session\<close> and \<^verbatim>\<open>PlayerSession\<close>: disconnecting\<close>

definition WS_new :: "int \<Rightarrow> WinSession" where
  "WS_new sock =
     \<lparr>wsSocket = sock, wsRecvBuffer = CircularBuffer_new CLIENT_BUFSIZE [],
      wsSendBuffer = CircularBuffer_new CLIENT_BUFSIZE [], wsSendPendingCount = 0, wsConnected = False,
      wsClientAddr = ((0, 0, 0, 0), 0), wsPlayerSessionId = []\<rparr>"

definition PS_IsValid :: "WinSession \<Rightarrow> bool" where
  "PS_IsValid c \<longleftrightarrow> length (wsPlayerSessionId c) > 0"

definition PS_OnDisconnect ::
  "'w win_env \<Rightarrow> nat \<Rightarrow> DisconnectReason \<Rightarrow> 'w win_server \<Rightarrow> 'w win_server outcome" where
  "PS_OnDisconnect e sid dr s =
     with_session sid s (\<lambda>c.
       if PS_IsValid c
       then bnd (WGL_RemovePlayerSession e sid (wsPlayerSessionId c) s)
              (\<lambda>s1. Ok (upd_session sid (\<lambda>c. c\<lparr>wsPlayerSessionId := []\<rparr>) s1))
       else Ok s)"

definition WS_Disconnect ::
  "'w win_env \<Rightarrow> nat \<Rightarrow> DisconnectReason \<Rightarrow> 'w win_server \<Rightarrow> 'w win_server outcome" where
  "WS_Disconnect e sid dr s =
     with_session sid s (\<lambda>c.
       if \<not> wsConnected c then Ok s
       else case win_do e (WinLinger (wsSocket c)) (upd_session sid (\<lambda>c. c\<lparr>wsConnected := False\<rparr>) s) of (r, s1) \<Rightarrow>
            bnd (if r = - 1
                 then win_print (lit ''[DEBUG] setsockopt linger option error: '' @
                                 fmt_d (last_error e (win_world s1)) @ lit ''\<newline>'') s1
                 else Ok s1) (\<lambda>s2.
            bnd (win_print (lit ''[DEBUG] Client Disconnected: Reason='' @ fmt_d (reason_value dr) @
                            lit '' IP='' @ inet_ntoa (fst (wsClientAddr c)) @ lit '', PORT='' @
                            decimal (unat (snd (wsClientAddr c))) @ lit '' \<newline>'') s2) (\<lambda>s3.
            bnd (PS_OnDisconnect e sid dr s3) (\<lambda>s4.
            Ok (snd (win_do e (WinCloseSocket (wsSocket c)) s4))))))"

section \<open>\<^verbatim>\<open>Session\<close>: receiving and sending\<close>

definition WS_PreRecv :: "'w win_env \<Rightarrow> nat \<Rightarrow> 'w win_server \<Rightarrow> (bool \<times> 'w win_server) outcome" where
  "WS_PreRecv e sid s =
     with_session sid s (\<lambda>c.
       if \<not> wsConnected c then Ok (False, s)
       else case new_context (OverlappedPreRecvContext_new sid) s of (recvContext, s1) \<Rightarrow>
            case wsa_recv e (wsSocket c) 0 (win_world s1) of (r, w) \<Rightarrow>
            (let s2 = s1\<lparr>win_world := w\<rparr>
             in case r of
                  WsaStarted \<Rightarrow> Ok (True, s2)
                | WsaError _ \<Rightarrow>
                    bnd (DeleteIoContext (Some recvContext) s2) (\<lambda>s3.
                    bnd (win_print (lit ''Session::PreRecv Error : '' @ fmt_d (last_error e (win_world s3)) @
                                    lit ''\<newline>'') s3) (\<lambda>s4. Ok (False, s4)))))"

text \<open>
  \<^verbatim>\<open>PostRecv\<close> has asked for the free space before it reads \<^verbatim>\<open>GetBuffer\<close>,
  so size and destination speak of the same region.
\<close>

definition WS_PostRecv :: "'w win_env \<Rightarrow> nat \<Rightarrow> 'w win_server \<Rightarrow> (bool \<times> 'w win_server) outcome" where
  "WS_PostRecv e sid s =
     with_session sid s (\<lambda>c.
       if \<not> wsConnected c then Ok (False, s)
       else case GetFreeSpaceSize (wsRecvBuffer c) of (free, b) \<Rightarrow>
       let s0 = upd_session sid (\<lambda>c. c\<lparr>wsRecvBuffer := b\<rparr>) s
       in if free = 0 then Ok (False, s0)
       else case GetFreeSpaceSize b of (len, b') \<Rightarrow>
       let context = (OverlappedRecvContext_new sid)\<lparr>mWsaLen := len, mWsaBuf := Some (GetBuffer b')\<rparr>
       in case new_context context (upd_session sid (\<lambda>c. c\<lparr>wsRecvBuffer := b'\<rparr>) s0) of (recvContext, s1) \<Rightarrow>
       case wsa_recv e (wsSocket c) len (win_world s1) of (r, w) \<Rightarrow>
       let s2 = s1\<lparr>win_world := w\<rparr>
       in case r of
            WsaStarted \<Rightarrow> Ok (True, s2)
          | WsaError _ \<Rightarrow>
              bnd (DeleteIoContext (Some recvContext) s2) (\<lambda>s3.
              bnd (win_print (lit ''Session::PostRecv Error : '' @ fmt_d (last_error e (win_world s3)) @
                              lit ''\<newline>'') s3) (\<lambda>s4. Ok (False, s4))))"

definition WS_FlushSend :: "'w win_env \<Rightarrow> nat \<Rightarrow> 'w win_server \<Rightarrow> (bool \<times> 'w win_server) outcome" where
  "WS_FlushSend e sid s =
     with_session sid s (\<lambda>c.
       let len = GetContiguiousBytes (wsSendBuffer c);
           context = (OverlappedSendContext_new sid)\<lparr>mWsaLen := len, mWsaBuf := GetBufferStart (wsSendBuffer c)\<rparr>
       in bnd (front len (wsSendBuffer c)) (\<lambda>data.
       case new_context context s of (sendContext, s1) \<Rightarrow>
       case wsa_send e (wsSocket c) data (win_world s1) of (r, w) \<Rightarrow>
       let s2 = s1\<lparr>win_world := w\<rparr>
       in case r of
            WsaStarted \<Rightarrow>
              let n = wsSendPendingCount c + 1;
                  s3 = upd_session sid (\<lambda>c. c\<lparr>wsSendPendingCount := n\<rparr>) s2
              in if n = 1 then Ok (True, s3) else Fault CrashAssert
          | WsaError _ \<Rightarrow>
              bnd (DeleteIoContext (Some sendContext) s2) (\<lambda>s3.
              bnd (win_print (lit ''Session::FlushSend Error : '' @ fmt_d (last_error e (win_world s3)) @
                              lit ''\<newline>'') s3) (\<lambda>s4.
              bnd (WS_Disconnect e sid DR_SENDFLUSH_ERROR s4) (\<lambda>s5. Ok (False, s5))))))"

definition WS_PostSend ::
  "'w win_env \<Rightarrow> nat \<Rightarrow> byte list \<Rightarrow> 'w win_server \<Rightarrow> (bool \<times> 'w win_server) outcome" where
  "WS_PostSend e sid data s =
     with_session sid s (\<lambda>c.
       if \<not> wsConnected c then Ok (False, s)
       else guarded (LockSend sid) (\<lambda>s.
            bnd (Write data (wsSendBuffer c)) (\<lambda>(ok, b).
            let s1 = upd_session sid (\<lambda>c. c\<lparr>wsSendBuffer := b\<rparr>) s
            in if \<not> ok then Ok (False, s1)
               else if wsSendPendingCount c > 0 then Ok (True, s1)
               else WS_FlushSend e sid s1)) s)"

definition WS_SendCompletion :: "'w win_env \<Rightarrow> nat \<Rightarrow> nat \<Rightarrow> 'w win_server \<Rightarrow> 'w win_server outcome" where
  "WS_SendCompletion e sid transferred = guarded_void (LockSend sid) (\<lambda>s.
     with_session sid s (\<lambda>c.
       if \<not> wsSendPendingCount c > 0 then Fault CrashAssert
       else bnd (Remove transferred (wsSendBuffer c)) (\<lambda>b.
            let n = wsSendPendingCount c - 1;
                s1 = upd_session sid (\<lambda>c. c\<lparr>wsSendBuffer := b, wsSendPendingCount := n\<rparr>) s
            in if n \<noteq> 0 then Fault CrashAssert
               else if GetContiguiousBytes b > 0
               then bnd (WS_FlushSend e sid s1) (\<lambda>(_, s2). Ok s2)
               else Ok s1)))"

definition WS_EchoBack :: "'w win_env \<Rightarrow> nat \<Rightarrow> 'w win_server \<Rightarrow> 'w win_server outcome" where
  "WS_EchoBack e sid s =
     with_session sid s (\<lambda>c.
       let len = GetContiguiousBytes (wsRecvBuffer c)
       in if len = 0 then Ok s
          else bnd (front len (wsRecvBuffer c)) (\<lambda>data.
               bnd (WS_PostSend e sid data s) (\<lambda>(ok, s1).
               if \<not> ok then Ok s1
               else bnd (Remove len (wsRecvBuffer c)) (\<lambda>b.
                    Ok (upd_session sid (\<lambda>c. c\<lparr>wsRecvBuffer := b\<rparr>) s1)))))"

definition WS_OnConnect :: "'w win_env \<Rightarrow> nat \<Rightarrow> 'w win_server \<Rightarrow> (bool \<times> 'w win_server) outcome" where
  "WS_OnConnect e sid s =
     with_session sid s (\<lambda>c.
       if LThreadType s \<noteq> THREAD_MAIN then Fault CrashAssert
       else let addr = win_peer e (wsSocket c) (win_world s);
                s1 = upd_session sid (\<lambda>c. c\<lparr>wsClientAddr := addr\<rparr>) s;
                s2 = snd (win_do e (WinNonBlocking (wsSocket c)) s1);
                s3 = snd (win_do e (WinNoDelay (wsSocket c)) s2)
            in case win_do e (WinRcvBufZero (wsSocket c)) s3 of (r, s4) \<Rightarrow>
            if r = - 1
            then bnd (win_print (lit ''[DEBUG] SO_RCVBUF change error: '' @
                                 fmt_d (last_error e (win_world s4)) @ lit ''\<newline>'') s4) (\<lambda>s5. Ok (False, s5))
            else case win_do e (AssociatePort (wsSocket c) (imCompletionPort s4)) s4 of (handle, s5) \<Rightarrow>
            if handle \<noteq> imCompletionPort s5
            then bnd (win_print (lit ''[DEBUG] CreateIoCompletionPort error: '' @
                                 fmt_d (last_error e (win_world s5)) @ lit ''\<newline>'') s5) (\<lambda>s6. Ok (False, s6))
            else bnd (win_print (lit ''[DEBUG] Client Connected: IP='' @ inet_ntoa (fst addr) @ lit '', PORT='' @
                                 decimal (unat (snd addr)) @ lit ''\<newline>'')
                        (upd_session sid (\<lambda>c. c\<lparr>wsConnected := True\<rparr>) s5))
                   (WS_PreRecv e sid))"

section \<open>\<^verbatim>\<open>PlayerSession\<close> and broadcasts\<close>

definition PS_PlayerLogin :: "'w win_env \<Rightarrow> nat \<Rightarrow> byte list \<Rightarrow> 'w win_server \<Rightarrow> 'w win_server outcome" where
  "PS_PlayerLogin e sid playerId s =
     bnd (WGL_AcceptPlayerSession e sid playerId s) (\<lambda>(accepted, s1).
     if accepted
     then bnd (strcpy_s (mPlayerId LoginResult_new) playerId) (\<lambda>arr.
          bnd (WS_PostSend e sid (id_bytes (LoginResult_new\<lparr>mPlayerId := arr\<rparr>))
                 (upd_session sid (\<lambda>c. c\<lparr>wsPlayerSessionId := playerId\<rparr>) s1)) (\<lambda>(_, s2). Ok s2))
     else WS_Disconnect e sid DR_UNAUTH s1)"

definition PS_PlayerLogout :: "'w win_env \<Rightarrow> nat \<Rightarrow> byte list \<Rightarrow> 'w win_server \<Rightarrow> 'w win_server outcome" where
  "PS_PlayerLogout e sid playerId s =
     bnd (WGL_RemovePlayerSession e sid playerId s) (\<lambda>s1.
     bnd (win_print (lit ''[PLAYER] PlayerLogout: '' @ playerId @ lit '' \<newline>'')
            (upd_session sid (\<lambda>c. c\<lparr>wsPlayerSessionId := []\<rparr>) s1))
       (WS_Disconnect e sid DR_LOGOUT))"

text \<open>
  The range-for of \<^verbatim>\<open>GameSession::BroadcastMessage\<close>; when \<^verbatim>\<open>it\<close>'s
  element is erased under it, the increment goes through a freed node.
\<close>

fun GS_Broadcast_loop ::
  "'w win_env \<Rightarrow> byte list \<Rightarrow> nat list \<Rightarrow> 'w win_server \<Rightarrow> 'w win_server outcome" where
  "GS_Broadcast_loop e pkt [] s = Ok s"
| "GS_Broadcast_loop e pkt (it # rest) s =
     bnd (WS_PostSend e it pkt s) (\<lambda>(sent, s1).
     bnd (if sent then Ok s1 else WS_Disconnect e it DR_SENDBUFFER_ERROR s1) (\<lambda>s2.
     case mGameSession s2 of
       None \<Rightarrow> Fault DanglingRef
     | Some players \<Rightarrow> if it \<notin> set players then Fault IteratorInvalidated
                       else GS_Broadcast_loop e pkt rest s2))"

definition GS_BroadcastMessage :: "'w win_env \<Rightarrow> byte list \<Rightarrow> 'w win_server \<Rightarrow> 'w win_server outcome" where
  "GS_BroadcastMessage e pkt s =
     (case mGameSession s of None \<Rightarrow> Fault NullDeref
      | Some players \<Rightarrow> GS_Broadcast_loop e pkt players s)"

definition WGL_BroadcastMessage :: "'w win_env \<Rightarrow> byte list \<Rightarrow> 'w win_server \<Rightarrow> 'w win_server outcome" where
  "WGL_BroadcastMessage e pkt = guarded_void LockGameLift (GS_BroadcastMessage e pkt)"

section \<open>Packet handlers\<close>

definition WS_ParsePacket ::
  "nat \<Rightarrow> nat \<Rightarrow> 'w win_server \<Rightarrow> (byte list option \<times> 'w win_server) outcome" where
  "WS_ParsePacket bytes sid s =
     with_session sid s (\<lambda>c.
       bnd (Read bytes (wsRecvBuffer c)) (\<lambda>(r, b).
       Ok (r, upd_session sid (\<lambda>c. c\<lparr>wsRecvBuffer := b\<rparr>) s)))"

definition win_DefaultHandler :: "'w win_env \<Rightarrow> nat \<Rightarrow> 'w win_server \<Rightarrow> 'w win_server outcome" where
  "win_DefaultHandler e sid s = WS_Disconnect e sid DR_ACTIVE s"

definition parsing_error :: "PacketTypes \<Rightarrow> 'w win_server \<Rightarrow> 'w win_server outcome" where
  "parsing_error t = win_print (lit ''packet parsing error: '' @ fmt_d (sint (pkt_value t)) @ lit ''\<newline>'')"

definition win_Handler_PKT_CS_LOGIN :: "'w win_env \<Rightarrow> nat \<Rightarrow> 'w win_server \<Rightarrow> 'w win_server outcome" where
  "win_Handler_PKT_CS_LOGIN e sid s =
     bnd (WS_ParsePacket sizeof_IdPacket sid s) (\<lambda>(r, s1).
     case r of None \<Rightarrow> parsing_error PKT_CS_LOGIN s1
     | Some bs \<Rightarrow> bnd (c_str (mPlayerId (id_of bs))) (\<lambda>playerId. PS_PlayerLogin e sid playerId s1))"

definition win_Handler_PKT_CS_EXIT :: "'w win_env \<Rightarrow> nat \<Rightarrow> 'w win_server \<Rightarrow> 'w win_server outcome" where
  "win_Handler_PKT_CS_EXIT e sid s =
     bnd (WS_ParsePacket sizeof_IdPacket sid s) (\<lambda>(r, s1).
     case r of None \<Rightarrow> parsing_error PKT_CS_EXIT s1
     | Some bs \<Rightarrow> bnd (c_str (mPlayerId (id_of bs))) (\<lambda>playerId. PS_PlayerLogout e sid playerId s1))"

definition win_Handler_PKT_CS_CHAT :: "'w win_env \<Rightarrow> nat \<Rightarrow> 'w win_server \<Rightarrow> 'w win_server outcome" where
  "win_Handler_PKT_CS_CHAT e sid s =
     bnd (WS_ParsePacket sizeof_ChatPacket sid s) (\<lambda>(r, s1).
     case r of None \<Rightarrow> parsing_error PKT_CS_CHAT s1
     | Some bs \<Rightarrow>
         \<comment> \<open>\<open>strcpy_s\<close> looks for the terminator within the destination's size only\<close>
         bnd (strcpy_s (mPlayerId ChatBroadcastResult_new) (takeWhile (\<lambda>x. x \<noteq> 0) (mPlayerId (chat_of bs)))) (\<lambda>idArr.
         bnd (strcpy_s (mChat ChatBroadcastResult_new) (takeWhile (\<lambda>x. x \<noteq> 0) (mChat (chat_of bs)))) (\<lambda>chatArr.
         WGL_BroadcastMessage e
           (chat_bytes (ChatBroadcastResult_new\<lparr>mPlayerId := idArr, mChat := chatArr\<rparr>)) s1)))"

definition win_Handler_PKT_CS_MOVE :: "'w win_env \<Rightarrow> nat \<Rightarrow> 'w win_server \<Rightarrow> 'w win_server outcome" where
  "win_Handler_PKT_CS_MOVE e sid s =
     bnd (WS_ParsePacket sizeof_MovePacket sid s) (\<lambda>(r, s1).
     case r of None \<Rightarrow> parsing_error PKT_CS_MOVE s1
     | Some bs \<Rightarrow>
         WGL_BroadcastMessage e
           (move_bytes (MoveBroadcastResult_new
              \<lparr>mPlayerIdx := mPlayerIdx (move_of bs), mPosX := mPosX (move_of bs),
               mPosY := mPosY (move_of bs)\<rparr>)) s1)"

definition win_HandlerTable :: "'w win_env \<Rightarrow> 16 word \<Rightarrow> nat \<Rightarrow> 'w win_server \<Rightarrow> 'w win_server outcome" where
  "win_HandlerTable e t =
     (if t = pkt_value PKT_CS_LOGIN then win_Handler_PKT_CS_LOGIN e
      else if t = pkt_value PKT_CS_EXIT then win_Handler_PKT_CS_EXIT e
      else if t = pkt_value PKT_CS_CHAT then win_Handler_PKT_CS_CHAT e
      else if t = pkt_value PKT_CS_MOVE then win_Handler_PKT_CS_MOVE e
      else win_DefaultHandler e)"

partial_function (option) PS_OnRead ::
  "'w win_env \<Rightarrow> nat \<Rightarrow> 'w win_server \<Rightarrow> 'w win_server outcome option" where
  "PS_OnRead e sid s =
     (case sessions s sid of
        None \<Rightarrow> Some (Fault DanglingRef)
      | Some c \<Rightarrow>
          (case Peek sizeof_PacketHeader (wsRecvBuffer c) of
             Fault f \<Rightarrow> Some (Fault f)
           | Ok None \<Rightarrow> Some (Ok s)
           | Ok (Some hb) \<Rightarrow>
               (let header = header_of hb
                in if GetStoredSize (wsRecvBuffer c) < size_of_short (mSize header) then Some (Ok s)
                   else if sint (mType header) \<ge> sint (pkt_value PKT_MAX) \<or>
                           sint (mType header) \<le> sint (pkt_value PKT_NONE)
                   then Some (WS_Disconnect e sid DR_ACTIVE s)
                   else (case win_HandlerTable e (mType header) sid s of
                           Fault f \<Rightarrow> Some (Fault f)
                         | Ok s' \<Rightarrow> PS_OnRead e sid s'))))"

definition WS_RecvCompletion :: "'w win_env \<Rightarrow> nat \<Rightarrow> nat \<Rightarrow> 'w win_server \<Rightarrow> 'w win_server outcome option" where
  "WS_RecvCompletion e sid transferred s =
     PS_OnRead e sid (upd_session sid (\<lambda>c. c\<lparr>wsRecvBuffer := Commit transferred (wsRecvBuffer c)\<rparr>) s)"

section \<open>\<^verbatim>\<open>IOThread\<close>\<close>

text \<open>
  What \<^verbatim>\<open>GetQueuedCompletionStatus\<close> gives: its return value, the number of bytes, the
  context (or none), and whether the last error is \<^verbatim>\<open>WAIT_TIMEOUT\<close>.
\<close>

record completion =
  ret :: int
  dwTransferred :: nat
  completed :: "nat option"
  timed_out :: bool

text \<open>The part of \<^verbatim>\<open>DoIocpJob\<close> after its error branch, for a context and its session.\<close>

definition IOT_dispatch ::
  "'w win_env \<Rightarrow> nat \<Rightarrow> OverlappedIOContext \<Rightarrow> nat \<Rightarrow> 'w win_server \<Rightarrow> (bool \<times> 'w win_server) outcome option" where
  "IOT_dispatch e remote ctx transferred s =
     (case mIoType ctx of
        IO_RECV_ZERO \<Rightarrow> Some (WS_PostRecv e remote s)
      | IO_SEND \<Rightarrow>
          Some (bnd (WS_SendCompletion e remote transferred s) (\<lambda>s1.
                if mWsaLen ctx \<noteq> transferred
                then bnd (win_print (lit ''Partial SendCompletion requested ['' @ decimal (mWsaLen ctx) @
                                     lit ''], sent ['' @ decimal transferred @ lit '']\<newline>'') s1)
                       (\<lambda>s2. Ok (False, s2))
                else Ok (True, s1)))
      | IO_RECV \<Rightarrow>
          map_option (\<lambda>r. bnd r (WS_PreRecv e remote)) (WS_RecvCompletion e remote transferred s)
      | IO_NONE \<Rightarrow>
          Some (bnd (win_print (lit ''Unknown I/O Type: '' @ fmt_d 0 @ lit ''\<newline>'') s)
                  (\<lambda>_. Fault CrashAssert)))"

definition IOT_DoIocpJob :: "'w win_env \<Rightarrow> completion \<Rightarrow> 'w win_server \<Rightarrow> 'w win_server outcome option" where
  "IOT_DoIocpJob e c s =
     (if (ret c = 0 \<or> dwTransferred c = 0) \<and> completed c = None \<and> timed_out c then Some (Ok s)
      else case completed c of
        None \<Rightarrow> Some (if ret c = 0 \<or> dwTransferred c = 0 then Fault NullDeref else Fault CrashAssert)
      | Some x \<Rightarrow>
          (case contexts s x of
             None \<Rightarrow> Some (Fault DanglingRef)
           | Some ctx \<Rightarrow>
               let remote = mSessionObject ctx
               in if (ret c = 0 \<or> dwTransferred c = 0) \<and> (mIoType ctx = IO_RECV \<or> mIoType ctx = IO_SEND)
                  then Some (bnd (WS_Disconnect e remote DR_COMPLETION_ERROR s) (DeleteIoContext (Some x)))
                  else map_option (\<lambda>r. bnd r (\<lambda>(completionOk, s1).
                         bnd (if completionOk then Ok s1 else WS_Disconnect e remote DR_IO_REQUEST_ERROR s1)
                           (DeleteIoContext (Some x))))
                         (IOT_dispatch e remote ctx (dwTransferred c) s)))"

text \<open>The bytes the kernel stores at a receive context's buffer before it completes.\<close>

definition kernel_receive :: "nat \<Rightarrow> byte list \<Rightarrow> 'w win_server \<Rightarrow> 'w win_server outcome" where
  "kernel_receive x data s =
     (case contexts s x of None \<Rightarrow> Fault DanglingRef
      | Some ctx \<Rightarrow>
          (case mWsaBuf ctx of None \<Rightarrow> Fault NullDeref
           | Some p \<Rightarrow>
               with_session (mSessionObject ctx) s (\<lambda>c.
                 bnd (mem_write p data (mBuffer (wsRecvBuffer c))) (\<lambda>m.
                 Ok (upd_session (mSessionObject ctx)
                      (\<lambda>c. c\<lparr>wsRecvBuffer := (wsRecvBuffer c)\<lparr>mBuffer := m\<rparr>\<rparr>) s)))))"

section \<open>\<^verbatim>\<open>IocpManager\<close> and \<^verbatim>\<open>main\<close>\<close>

definition IM_Initialize :: "'w win_env \<Rightarrow> int \<Rightarrow> 'w win_server \<Rightarrow> bool \<times> int \<times> 'w win_server" where
  "IM_Initialize e listenPort s0 =
     (case win_do e WsaStartup s0 of (r, s1) \<Rightarrow>
      if r \<noteq> 0 then (False, listenPort, s1)
      else case win_do e CreatePort s1 of (port, s2) \<Rightarrow>
      let s3 = s2\<lparr>imCompletionPort := port\<rparr>
      in if port = 0 then (False, listenPort, s3)
      else case win_do e WinSocket s3 of (sock, s4) \<Rightarrow>
      let s5 = s4\<lparr>imListenSocket := sock\<rparr>
      in if sock = - 1 then (False, listenPort, s5)
      else let s6 = snd (win_do e (WinReuseAddr sock) s5)
      in case win_do e (WinBind sock listenPort) s6 of (r, s7) \<Rightarrow>
      if r = - 1 then (False, listenPort, s7)
      else case win_do e (WinGetSockName sock) s7 of (r, s8) \<Rightarrow>
      if r = - 1 then (False, listenPort, s8)
      else case win_do e (WinSockPort sock) s8 of (p, s9) \<Rightarrow> (True, p, s9))"

fun IM_begin_threads :: "'w win_env \<Rightarrow> nat list \<Rightarrow> 'w win_server \<Rightarrow> bool \<times> 'w win_server" where
  "IM_begin_threads e [] s = (True, s)"
| "IM_begin_threads e (i # is) s =
     (case win_do e (BeginThread i) s of (h, s1) \<Rightarrow>
      if h = 0 then (False, s1) else IM_begin_threads e is s1)"

definition IM_StartIoThreads :: "'w win_env \<Rightarrow> 'w win_server \<Rightarrow> bool \<times> 'w win_server" where
  "IM_StartIoThreads e s =
     (case IM_begin_threads e [0..<MAX_WORKER_THREAD] s of (ok, s1) \<Rightarrow>
      if \<not> ok then (False, s1)
      else (True, fold (\<lambda>i s. snd (win_do e (ResumeThread i) s)) [0..<MAX_WORKER_THREAD] s1))"

text \<open>One turn of the accept loop, and several.\<close>

definition IM_accept :: "'w win_env \<Rightarrow> 'w win_server \<Rightarrow> 'w win_server outcome" where
  "IM_accept e s =
     (case win_do e (WinAccept (imListenSocket s)) s of (sock, s1) \<Rightarrow>
      if sock = - 1 then win_print (lit ''accept: invalid socket\<newline>'') s1
      else let newSession = next_session s1;
               s2 = s1\<lparr>sessions := (sessions s1)(newSession \<mapsto> WS_new sock), next_session := newSession + 1\<rparr>
           in bnd (WS_OnConnect e newSession s2) (\<lambda>(ok, s3).
              if ok then Ok s3 else WS_Disconnect e newSession DR_ONCONNECT_ERROR s3))"

fun IM_accept_loop :: "nat \<Rightarrow> 'w win_env \<Rightarrow> 'w win_server \<Rightarrow> 'w win_server outcome" where
  "IM_accept_loop 0 e s = Ok s"
| "IM_accept_loop (Suc turns) e s = bnd (IM_accept e s) (IM_accept_loop turns e)"

definition IM_StartAccept :: "nat \<Rightarrow> 'w win_env \<Rightarrow> 'w win_server \<Rightarrow> 'w win_server outcome" where
  "IM_StartAccept turns e s =
     (if LThreadType s \<noteq> THREAD_MAIN then Fault CrashAssert
      else case win_do e (WinListen (imListenSocket s)) s of (r, s1) \<Rightarrow>
      if r = - 1 then win_print (lit ''[DEBUG] listen error\<newline>'') s1
      else IM_accept_loop turns e s1)"

definition IM_Finalize :: "'w win_env \<Rightarrow> 'w win_server \<Rightarrow> 'w win_server" where
  "IM_Finalize e s =
     snd (win_do e WsaCleanup
       (snd (win_do e (ClosePort (imCompletionPort s))
         (fold (\<lambda>i s. snd (win_do e (CloseThread i) s)) [0..<MAX_WORKER_THREAD] s))))"

definition win_server_new :: "'w \<Rightarrow> 'w win_server" where
  "win_server_new w =
     \<lparr>sessions = (\<lambda>_. None), next_session = 0, contexts = (\<lambda>_. None), next_context = 0,
      mGameSession = None, wglActivated = False, wglAcceptedCount = 0, wglRemovedCount = 0,
      imCompletionPort = 0, imListenSocket = 0, LThreadType = THREAD_MAIN, locks = {},
      winLog = ConsoleLog_new, win_world = w\<rparr>"

text \<open>\<^verbatim>\<open>main\<close> up to \<^verbatim>\<open>StartAccept\<close>: the exit code, or the running server.\<close>

definition win_main :: "'w win_env \<Rightarrow> int option \<Rightarrow> 'w \<Rightarrow> (int + 'w win_server) outcome" where
  "win_main e arg w =
     (let portNum = (case arg of None \<Rightarrow> 0 | Some p \<Rightarrow> p)
      in case IM_Initialize e portNum (win_server_new w) of (ok, port, s1) \<Rightarrow>
         if \<not> ok then Ok (Inl (- 1))
         else bnd (WGL_InitializeGameLift e port s1) (\<lambda>(ready, s2).
              if \<not> ready then Ok (Inl (- 1))
              else case IM_StartIoThreads e s2 of (started, s3) \<Rightarrow>
                   if \<not> started then Ok (Inl (- 1))
                   else bnd (win_print (lit ''Start Server\<newline>'') s3) (\<lambda>s4. Ok (Inr s4))))"

end
