(* ===== verification/WinProofs.thy ===== *)
theory WinProofs
  imports WinServer
begin

text \<open>
  The Windows server: which locks an operation needs, the discipline of the overlapped sends
  (\<^verbatim>\<open>mSendPendingCount\<close>), and the ends of the process.
\<close>

section \<open>Guards, logging and frames\<close>

lemma guarded_void_Ok [simp]: "guarded_void l body s = Ok s' \<longleftrightarrow>
    l \<notin> locks s \<and> (\<exists>t. body (s\<lparr>locks := insert l (locks s)\<rparr>) = Ok t \<and> s' = t\<lparr>locks := locks t - {l}\<rparr>)"
  by (auto simp: guarded_void_def guarded_def)

lemma guarded_Ok [simp]: "guarded l body s = Ok (r, s') \<longleftrightarrow>
    l \<notin> locks s \<and> (\<exists>t. body (s\<lparr>locks := insert l (locks s)\<rparr>) = Ok (r, t) \<and> s' = t\<lparr>locks := locks t - {l}\<rparr>)"
  by (auto simp: guarded_def)

lemma guarded_void_Fault: "guarded_void l body s = Fault f \<longleftrightarrow>
    (if l \<in> locks s then f = SelfDeadlock else body (s\<lparr>locks := insert l (locks s)\<rparr>) = Fault f)"
  by (auto simp: guarded_void_def guarded_def bnd_eq_Fault)

lemma guarded_Fault: "guarded l body s = Fault f \<longleftrightarrow>
    (if l \<in> locks s then f = SelfDeadlock else body (s\<lparr>locks := insert l (locks s)\<rparr>) = Fault f)"
  by (auto simp: guarded_def bnd_eq_Fault)

lemma win_print_Ok: "win_print t s = Ok s' \<longleftrightarrow> LockLog \<notin> locks s \<and> length t < 128 \<and>
    (\<exists>l. win_PrintOut True t (winLog s) = Ok l \<and> s' = s\<lparr>winLog := l\<rparr>)"
  by (auto simp: win_print_def win_PrintOut_def)

lemma win_print_run: "LockLog \<notin> locks s \<Longrightarrow> length t < 128 \<Longrightarrow> win_print t s = Ok (s\<lparr>winLog :=
    (winLog s)\<lparr>console := console (winLog s) @ [t], mLogFileStream := mLogFileStream (winLog s) @ [t]\<rparr>\<rparr>)"
  by (simp add: win_print_Ok win_PrintOut_def)

lemma win_print_fits: "LockLog \<notin> locks s \<Longrightarrow> length t < 128 \<Longrightarrow> \<exists>l. win_print t s = Ok (s\<lparr>winLog := l\<rparr>)"
  by (auto simp: win_print_Ok win_PrintOut_def)

text \<open>What an operation that neither sends nor receives leaves alone.\<close>

definition io_part :: "WinSession \<Rightarrow> int \<times> cbuf \<times> cbuf \<times> int" where
  "io_part c = (wsSocket c, wsRecvBuffer c, wsSendBuffer c, wsSendPendingCount c)"

definition io_frame :: "'w win_server \<Rightarrow> 'w win_server \<Rightarrow> bool" where
  "io_frame s s' \<longleftrightarrow> contexts s' = contexts s \<and> next_context s' = next_context s \<and> locks s' = locks s \<and>
     next_session s' = next_session s \<and>
     (\<forall>sid. map_option io_part (sessions s' sid) = map_option io_part (sessions s sid)) \<and>
     (\<forall>sid c c'. sessions s sid = Some c \<longrightarrow> sessions s' sid = Some c' \<longrightarrow> wsConnected c' \<longrightarrow> wsConnected c)"

lemma io_frame_refl [simp]: "io_frame s s"
  by (simp add: io_frame_def)

lemma io_frame_trans: "io_frame s s' \<Longrightarrow> io_frame s' s'' \<Longrightarrow> io_frame s s''"
  unfolding io_frame_def
  by (intro conjI allI impI) (metis, metis, metis, metis, metis, metis not_None_eq option.map_disc_iff)

lemma io_frame_objD:
  assumes "io_frame s s'" and "sessions s sid = Some c"
  obtains c' where "sessions s' sid = Some c'" and "io_part c' = io_part c" and "wsConnected c' \<Longrightarrow> wsConnected c"
proof -
  have "map_option io_part (sessions s' sid) = Some (io_part c)"
    using assms by (simp add: io_frame_def)
  then obtain c' where "sessions s' sid = Some c'" "io_part c' = io_part c" by auto
  then show thesis using that assms unfolding io_frame_def by blast
qed

lemma io_frame_on:
  "io_frame s s' \<Longrightarrow> sessions s sid = Some c \<Longrightarrow> sessions s' sid = Some c' \<Longrightarrow> wsConnected c' \<Longrightarrow> wsConnected c"
  unfolding io_frame_def by blast

lemma io_frame_world [simp]:
  "sessions t = sessions s \<Longrightarrow> contexts t = contexts s \<Longrightarrow> next_context t = next_context s \<Longrightarrow>
   locks t = locks s \<Longrightarrow> next_session t = next_session s \<Longrightarrow> io_frame s t"
  by (simp add: io_frame_def)

lemma io_frame_upd:
  assumes "\<And>c. io_part (f c) = io_part c" and "\<And>c. wsConnected (f c) \<Longrightarrow> wsConnected c"
  shows "io_frame s (upd_session sid f s)"
  using assms by (cases "sessions s sid") (auto simp: io_frame_def upd_session_def)

lemma upd_session_simps [simp]:
  "sessions (upd_session sid f s) = (sessions s)(sid := map_option f (sessions s sid))"
  "contexts (upd_session sid f s) = contexts s" "next_context (upd_session sid f s) = next_context s"
  "locks (upd_session sid f s) = locks s" "next_session (upd_session sid f s) = next_session s" "mGameSession (upd_session sid f s) = mGameSession s"
  "win_world (upd_session sid f s) = win_world s" "wglActivated (upd_session sid f s) = wglActivated s"
  "wglAcceptedCount (upd_session sid f s) = wglAcceptedCount s" "winLog (upd_session sid f s) = winLog s"
  "wglRemovedCount (upd_session sid f s) = wglRemovedCount s"
  by (simp_all add: upd_session_def)

lemma win_do_simps [simp]:
  "sessions (snd (win_do e c s)) = sessions s" "contexts (snd (win_do e c s)) = contexts s"
  "next_session (snd (win_do e c s)) = next_session s" "next_context (snd (win_do e c s)) = next_context s" "locks (snd (win_do e c s)) = locks s"
  "mGameSession (snd (win_do e c s)) = mGameSession s" "winLog (snd (win_do e c s)) = winLog s"
  by (simp_all add: win_do_def split: prod.splits)

lemma win_do_fst: "fst (win_do e c s) = fst (win_sys e c (win_world s))"
  by (simp add: win_do_def split: prod.splits)

lemma win_do_sdk_simps [simp]:
  "sessions (snd (win_do_sdk e c s)) = sessions s" "contexts (snd (win_do_sdk e c s)) = contexts s"
  "next_session (snd (win_do_sdk e c s)) = next_session s" "next_context (snd (win_do_sdk e c s)) = next_context s" "locks (snd (win_do_sdk e c s)) = locks s"
  "mGameSession (snd (win_do_sdk e c s)) = mGameSession s" "wglActivated (snd (win_do_sdk e c s)) = wglActivated s"
  "wglAcceptedCount (snd (win_do_sdk e c s)) = wglAcceptedCount s" "winLog (snd (win_do_sdk e c s)) = winLog s"
  "wglRemovedCount (snd (win_do_sdk e c s)) = wglRemovedCount s"
  by (simp_all add: win_do_sdk_def split: prod.splits)

lemma win_do_sdk_fst: "fst (win_do_sdk e c s) = fst (win_sdk e c (win_world s))"
  by (simp add: win_do_sdk_def split: prod.splits)

lemma win_print_frame: "win_print t s = Ok s' \<Longrightarrow> io_frame s s'"
  by (auto simp: win_print_Ok)

lemma WGL_Check_frame: "WGL_CheckTerminateGameSession e s = Ok s' \<Longrightarrow> s' = s"
  by (auto simp: WGL_CheckTerminateGameSession_def WGL_TerminateGameSession_def exit_process_def
      split: if_splits)

lemma WGL_Remove_frame: "WGL_RemovePlayerSession e p i s = Ok s' \<Longrightarrow> io_frame s s'"
  by (auto simp: WGL_RemovePlayerSession_def case_prod_beta on_game_def win_print_Ok
      dest!: WGL_Check_frame split: if_splits option.splits)

lemma PS_OnDisconnect_frame:
  assumes "PS_OnDisconnect e sid dr s = Ok s'"
  shows "io_frame s s'"
proof -
  have u: "io_frame t (upd_session sid (\<lambda>c. c\<lparr>wsPlayerSessionId := []\<rparr>) t)" for t :: "'a win_server"
    by (rule io_frame_upd) (simp_all add: io_part_def)
  from assms show ?thesis
    by (auto simp: PS_OnDisconnect_def with_session_def dest!: WGL_Remove_frame
        intro: io_frame_trans [OF _ u] split: option.splits if_splits)
qed

lemma bnd_OkE: "bnd m f = Ok y \<Longrightarrow> (\<And>x. m = Ok x \<Longrightarrow> f x = Ok y \<Longrightarrow> P) \<Longrightarrow> P"
  by auto

lemma WS_Disconnect_from:
  assumes "WS_Disconnect e sid dr s = Ok s'" and "sessions s sid = Some c" and "wsConnected c"
  shows "io_frame (upd_session sid (\<lambda>c. c\<lparr>wsConnected := False\<rparr>) s) s'"
proof -
  define s1 where "s1 = snd (win_do e (WinLinger (wsSocket c)) (upd_session sid (\<lambda>c. c\<lparr>wsConnected := False\<rparr>) s))"
  let ?linger = "if fst (win_do e (WinLinger (wsSocket c))
        (upd_session sid (\<lambda>c. c\<lparr>wsConnected := False\<rparr>) s)) = - 1
      then win_print (lit ''[DEBUG] setsockopt linger option error: '' @
             fmt_d (last_error e (win_world s1)) @ lit ''\<newline>'') s1 else Ok s1"
  let ?body = "\<lambda>s2. bnd (win_print (lit ''[DEBUG] Client Disconnected: Reason='' @ fmt_d (reason_value dr) @
        lit '' IP='' @ inet_ntoa (fst (wsClientAddr c)) @ lit '', PORT='' @
        decimal (unat (snd (wsClientAddr c))) @ lit '' \<newline>'') s2) (\<lambda>s3.
      bnd (PS_OnDisconnect e sid dr s3) (\<lambda>s4. Ok (snd (win_do e (WinCloseSocket (wsSocket c)) s4))))"
  have "bnd ?linger ?body = Ok s'"
    using assms
    by (simp add: WS_Disconnect_def with_session_def case_prod_beta s1_def [symmetric] del: bnd_eq_Ok)
  then obtain s2 where l: "?linger = Ok s2" and b: "?body s2 = Ok s'" by (rule bnd_OkE)
  have "io_frame (upd_session sid (\<lambda>c. c\<lparr>wsConnected := False\<rparr>) s) s1" by (simp add: s1_def)
  moreover from l have "io_frame s1 s2" by (simp split: if_splits) (auto dest: win_print_frame)
  moreover from b obtain s3 s4 where "io_frame s2 s3" "PS_OnDisconnect e sid dr s3 = Ok s4"
      "s' = snd (win_do e (WinCloseSocket (wsSocket c)) s4)"
    by (auto dest: win_print_frame simp del: win_do_simps)
  moreover from this have "io_frame s4 s'" by simp
  ultimately show ?thesis by (blast intro: io_frame_trans dest: PS_OnDisconnect_frame)
qed

lemma WS_Disconnect_frame: "WS_Disconnect e sid dr s = Ok s' \<Longrightarrow> io_frame s s'"
proof -
  assume d: "WS_Disconnect e sid dr s = Ok s'"
  have u: "io_frame s (upd_session sid (\<lambda>c. c\<lparr>wsConnected := False\<rparr>) s)"
    by (rule io_frame_upd) (simp_all add: io_part_def)
  show ?thesis
  proof (cases "\<exists>c. sessions s sid = Some c \<and> wsConnected c")
    case True
    with WS_Disconnect_from [OF d] u show ?thesis by (blast intro: io_frame_trans)
  next
    case False
    with d show ?thesis by (auto simp: WS_Disconnect_def with_session_def split: option.splits)
  qed
qed

lemma WS_Disconnect_off:
  assumes "WS_Disconnect e sid dr s = Ok s'" and "sessions s' sid = Some c'"
  shows "\<not> wsConnected c'"
proof (cases "\<exists>c. sessions s sid = Some c \<and> wsConnected c")
  case False
  then show ?thesis
    using assms by (auto simp: WS_Disconnect_def with_session_def split: option.splits)
next
  case True
  then obtain c where c: "sessions s sid = Some c" "wsConnected c" by blast
  have "sessions (upd_session sid (\<lambda>c. c\<lparr>wsConnected := False\<rparr>) s) sid = Some (c\<lparr>wsConnected := False\<rparr>)"
    using c(1) by simp
  from io_frame_on [OF WS_Disconnect_from [OF assms(1) c] this assms(2)] show ?thesis by auto
qed

section \<open>The ends of the process and the locks\<close>

lemma disconnect_text_fits:
  "length (lit ''[DEBUG] Client Disconnected: Reason='' @ fmt_d (reason_value dr) @ lit '' IP='' @
     inet_ntoa a @ lit '', PORT='' @ decimal (unat (p::16 word)) @ lit '' \<newline>'') < 128"
proof -
  have "length (fmt_d (reason_value dr)) \<le> 3" by (cases dr) (simp_all add: fmt_d_def decimal.simps)
  with length_inet_ntoa [of a] length_decimal_port [of p] show ?thesis by simp
qed

text \<open>
  Disconnecting a logged-in session needs the GameLift lock: a thread that holds it blocks.
\<close>

lemma disconnect_needs_lock:
  assumes "sessions s sid = Some c" and "wsConnected c" and "PS_IsValid c"
    and "LockGameLift \<in> locks s" and "LockLog \<notin> locks s"
    and "fst (win_sys e (WinLinger (wsSocket c)) (win_world s)) \<noteq> - 1"
  shows "WS_Disconnect e sid dr s = Fault SelfDeadlock"
proof -
  define s1 where "s1 = snd (win_do e (WinLinger (wsSocket c)) (upd_session sid (\<lambda>c. c\<lparr>wsConnected := False\<rparr>) s))"
  have l: "locks s1 = locks s" and o: "sessions s1 sid = Some (c\<lparr>wsConnected := False\<rparr>)"
    using assms(1) by (simp_all add: s1_def)
  obtain l where pr: "win_print (lit ''[DEBUG] Client Disconnected: Reason='' @ fmt_d (reason_value dr) @
      lit '' IP='' @ inet_ntoa (fst (wsClientAddr c)) @ lit '', PORT='' @
      decimal (unat (snd (wsClientAddr c))) @ lit '' \<newline>'') s1 = Ok (s1\<lparr>winLog := l\<rparr>)"
    using win_print_fits [OF _ disconnect_text_fits] l assms(5) by metis
  have f: "fst (win_do e (WinLinger (wsSocket c)) (upd_session sid (\<lambda>c. c\<lparr>wsConnected := False\<rparr>) s)) \<noteq> - 1"
    using assms(6) by (simp add: win_do_fst)
  have d: "PS_OnDisconnect e sid dr (s1\<lparr>winLog := l\<rparr>) = Fault SelfDeadlock"
    using l o assms(3,4) by (simp add: PS_OnDisconnect_def with_session_def PS_IsValid_def
        WGL_RemovePlayerSession_def guarded_void_def guarded_def)
  show ?thesis
    using assms(1,2) f pr d
    by (simp add: WS_Disconnect_def with_session_def case_prod_beta s1_def [symmetric] del: bnd_eq_Ok)
qed

lemma post_send_full:
  assumes "sessions s sid = Some c" and "wsConnected c" and "LockSend sid \<notin> locks s"
    and "cb_inv (wsSendBuffer c)" and "room (wsSendBuffer c) < length data"
  shows "\<exists>b. WS_PostSend e sid data s = Ok (False, upd_session sid (\<lambda>c. c\<lparr>wsSendBuffer := b\<rparr>) s)"
proof -
  obtain b where b: "Write data (wsSendBuffer c) = Ok (False, b)" using Write_full [OF assms(4,5)] by auto
  have "locks s - {LockSend sid} = locks s" using assms(3) by auto
  then show ?thesis
    using assms(1-3) b
    by (intro exI [of _ b]) (simp add: WS_PostSend_def with_session_def guarded_def upd_session_def del: bnd_eq_Ok)
qed

text \<open>C32. \<^verbatim>\<open>GameLiftManager::BroadcastMessage\<close> keeps its lock while it disconnects a
  player whose send buffer is full, and the disconnect of a logged-in player enters
  \<^verbatim>\<open>RemovePlayerSession\<close>, which takes the same spinlock: the thread never returns.\<close>

theorem BroadcastMessage_self_deadlock:
  assumes "mGameSession s = Some (p # others)" and "sessions s p = Some c" and "wsConnected c"
    and "PS_IsValid c" and "cb_inv (wsSendBuffer c)" and "room (wsSendBuffer c) < length pkt"
    and "locks s = {}"
    and "\<forall>w. fst (win_sys e (WinLinger (wsSocket c)) w) \<noteq> - 1"
  shows "WGL_BroadcastMessage e pkt s = Fault SelfDeadlock"
proof -
  let ?s = "s\<lparr>locks := insert LockGameLift (locks s)\<rparr>"
  obtain b where b: "WS_PostSend e p pkt ?s = Ok (False, upd_session p (\<lambda>c. c\<lparr>wsSendBuffer := b\<rparr>) ?s)"
    using post_send_full [of ?s p c pkt] assms(2,3,5,6,7) by auto
  have "WS_Disconnect e p DR_SENDBUFFER_ERROR (upd_session p (\<lambda>c. c\<lparr>wsSendBuffer := b\<rparr>) ?s) =
      Fault SelfDeadlock"
    by (rule disconnect_needs_lock [where c = "c\<lparr>wsSendBuffer := b\<rparr>"])
      (use assms in \<open>simp_all add: PS_IsValid_def\<close>)
  with b show ?thesis
    by (simp add: WGL_BroadcastMessage_def guarded_void_def guarded_def assms(1,7) GS_BroadcastMessage_def
        del: bnd_eq_Ok)
qed

text \<open>C25. A player's removal that the service confirms takes the player out of the game and counts it;
  it ends the process with code 37 exactly when at least eight players were accepted in all, this is at
  least the eighth removal, and the process was still active. That is not the emptiness of the game that the
  comment at the test speaks of: when a ninth player came after one of the first eight had left, the eighth removal ends the process
  although a player is left, as the witness shows.\<close>

theorem RemovePlayerSession_counts:
  assumes "LockGameLift \<notin> locks s" and "LockLog \<notin> locks s" and "mGameSession s = Some players"
    and "IsSuccess (fst (win_sdk e (RemovePlayerSession i) (win_world s)))"
  shows "if wglAcceptedCount s \<ge> 8 \<and> wglRemovedCount s \<ge> 7 \<and> wglActivated s
    then WGL_RemovePlayerSession e p i s = Fault (ProcessTerminated 37)
    else \<exists>s'. WGL_RemovePlayerSession e p i s = Ok s' \<and> mGameSession s' = Some (filter (\<lambda>q. q \<noteq> p) players) \<and>
      wglRemovedCount s' = wglRemovedCount s + 1 \<and> sessions s' = sessions s \<and> locks s' = locks s"
proof -
  define s1 where "s1 = snd (win_do_sdk e (RemovePlayerSession i) (s\<lparr>locks := insert LockGameLift (locks s)\<rparr>))"
  define s2 where "s2 = s1\<lparr>mGameSession := Some (filter (\<lambda>q. q \<noteq> p) players), wglRemovedCount := wglRemovedCount s + 1\<rparr>"
  have s2: "locks s2 = insert LockGameLift (locks s)" "wglAcceptedCount s2 = wglAcceptedCount s"
      "wglRemovedCount s2 = wglRemovedCount s + 1" "wglActivated s2 = wglActivated s" "sessions s2 = sessions s"
    by (simp_all add: s2_def s1_def)
  have "WGL_RemovePlayerSession e p i s =
      bnd (WGL_CheckTerminateGameSession e s2) (\<lambda>s. Ok (s\<lparr>locks := locks s - {LockGameLift}\<rparr>))"
    using assms by (simp add: WGL_RemovePlayerSession_def guarded_void_def guarded_def case_prod_beta
        win_do_sdk_fst s1_def [symmetric] on_game_def GS_PlayerLeave_def s2_def bnd_assoc del: bnd_eq_Ok)
      (simp add: s1_def GS_PlayerLeave_def del: bnd_eq_Ok)
  moreover have "WGL_CheckTerminateGameSession e s2 = (if wglAcceptedCount s \<ge> 8 \<and> wglRemovedCount s \<ge> 7 \<and>
      wglActivated s then Fault (ProcessTerminated 37) else Ok s2)"
  proof -
    obtain l where "win_print (lit ''[GAMELIFT] Terminate GameSession\<newline>'') s2 = Ok (s2\<lparr>winLog := l\<rparr>)"
      using win_print_fits [of s2 "lit ''[GAMELIFT] Terminate GameSession\<newline>''"] s2(1) assms(2) by auto
    then show ?thesis
      using s2 by (simp add: WGL_CheckTerminateGameSession_def MAX_PLAYER_PER_GAME_def
          WGL_TerminateGameSession_def exit_process_def)
  qed
  moreover have "locks s2 - {LockGameLift} = locks s" using s2(1) assms(1) by auto
  ultimately show ?thesis using s2(5) by (auto simp: s2_def)
qed

section \<open>Concrete runs\<close>

text \<open>An environment in which every call succeeds, and a server with one logged-in player.\<close>

definition win_quiet :: "unit win_env" where
  "win_quiet =
     \<lparr>win_sys = (\<lambda>c w. (case c of CreatePort \<Rightarrow> 4 | WinSocket \<Rightarrow> 3 | AssociatePort _ p \<Rightarrow> p | WinAccept _ \<Rightarrow> 5
        | BeginThread i \<Rightarrow> 100 + int i | _ \<Rightarrow> 0, w)),
      win_sdk = (\<lambda>c w. (Success, w)),
      wsa_recv = (\<lambda>k n w. (WsaStarted, w)), wsa_send = (\<lambda>k d w. (WsaStarted, w)),
      win_peer = (\<lambda>k w. ((127, 0, 0, 1), 4000)), last_error = (\<lambda>w. 0), wall_clock = (\<lambda>w. 0),
      termination_time = (\<lambda>w. 0)\<rparr>"

definition one_player :: "byte list \<Rightarrow> unit win_server" where
  "one_player name = (win_server_new ())
     \<lparr>sessions := [0 \<mapsto> (WS_new 5)\<lparr>wsConnected := True, wsPlayerSessionId := name\<rparr>], next_session := 1,
      mGameSession := Some [0], wglActivated := True, wglAcceptedCount := 8, wglRemovedCount := 7\<rparr>"

lemma BroadcastMessage_self_deadlock_witness:
  "WGL_BroadcastMessage win_quiet (replicate 70000 0) (one_player [65]) = Fault SelfDeadlock"
proof (rule BroadcastMessage_self_deadlock)
  show "mGameSession (one_player [65]) = Some [0]" by (simp add: one_player_def)
  show "sessions (one_player [65]) 0 = Some ((WS_new 5)\<lparr>wsConnected := True, wsPlayerSessionId := [65]\<rparr>)"
    by (simp add: one_player_def)
  have n: "CLIENT_BUFSIZE < 2 ^ 64" by (simp add: CLIENT_BUFSIZE_def)
  show "cb_inv (wsSendBuffer ((WS_new 5)\<lparr>wsConnected := True, wsPlayerSessionId := [65]\<rparr>))"
    using CircularBuffer_new_spec(1) [OF n] by (simp add: WS_new_def)
  show "room (wsSendBuffer ((WS_new 5)\<lparr>wsConnected := True, wsPlayerSessionId := [65]\<rparr>)) <
      length (replicate 70000 0)"
    using CircularBuffer_new_spec(4) [OF n] by (simp add: WS_new_def CLIENT_BUFSIZE_def)
qed (simp_all add: one_player_def win_server_new_def PS_IsValid_def win_quiet_def)

text \<open>Nine players were accepted and seven of them removed; one of the two that are left goes, and the other is still there.\<close>

lemma RemovePlayerSession_counts_witness:
  "\<exists>s :: unit win_server. mGameSession s = Some [0, 1] \<and> wglAcceptedCount s = 9 \<and> wglRemovedCount s = 7 \<and>
     filter (\<lambda>q. q \<noteq> 0) [0, 1 :: nat] = [1] \<and> WGL_RemovePlayerSession win_quiet 0 [65] s = Fault (ProcessTerminated 37)"
proof -
  let ?s = "(one_player [65])\<lparr>mGameSession := Some [0, 1], wglAcceptedCount := 9\<rparr>"
  have "LockGameLift \<notin> locks ?s" "LockLog \<notin> locks ?s" "mGameSession ?s = Some [0, 1]" "wglAcceptedCount ?s \<ge> 8"
      "wglRemovedCount ?s \<ge> 7" "wglActivated ?s"
      "IsSuccess (fst (win_sdk win_quiet (RemovePlayerSession [65]) (win_world ?s)))"
    by (simp_all add: one_player_def win_server_new_def win_quiet_def IsSuccess_def)
  with RemovePlayerSession_counts [of ?s "[0, 1]" win_quiet "[65]" 0]
  have "WGL_RemovePlayerSession win_quiet 0 [65] ?s = Fault (ProcessTerminated 37)" by simp
  then show ?thesis by (intro exI [of _ ?s]) (simp add: one_player_def)
qed

end
