(* ===== verification/WinSend.thy ===== *)
theory WinSend
  imports WinProofs
begin

text \<open>
  The discipline of the overlapped sends on the Windows server: at most one \<^verbatim>\<open>WSASend\<close>
  of a session is in flight, \<^verbatim>\<open>mSendPendingCount\<close> counts it, the region it sends from
  stays where it is, and a connected session with a pending send always has one to wait for. The
  invariant is kept by every job of an I/O thread, by the accept loop and by the start of a game
  session.
\<close>

section \<open>The invariant\<close>

text \<open>
  \<^verbatim>\<open>X\<close> holds the contexts that a job has taken from the port and not yet deleted, and
  \<^verbatim>\<open>E\<close> the sessions whose completion is being handled.
\<close>

definition in_flight :: "'w win_server \<Rightarrow> nat set \<Rightarrow> nat \<Rightarrow> nat set" where
  "in_flight s X sid = {x. x \<notin> X \<and> (\<exists>ctx. contexts s x = Some ctx \<and> mIoType ctx = IO_SEND \<and> mSessionObject ctx = sid)}"

definition sends_from :: "OverlappedIOContext \<Rightarrow> WinSession \<Rightarrow> bool" where
  "sends_from ctx c \<longleftrightarrow> wsSendPendingCount c = 1 \<and> mWsaLen ctx \<le> GetContiguiousBytes (wsSendBuffer c) \<and>
     (0 < mWsaLen ctx \<longrightarrow> mWsaBuf ctx = GetBufferStart (wsSendBuffer c))"

definition send_ok :: "nat set \<Rightarrow> nat set \<Rightarrow> 'w win_server \<Rightarrow> bool" where
  "send_ok X E s \<longleftrightarrow>
     (\<forall>x\<in>X. x < next_context s) \<and> (\<forall>x. next_context s \<le> x \<longrightarrow> contexts s x = None) \<and>
     (\<forall>x ctx. contexts s x = Some ctx \<longrightarrow> mIoType ctx \<noteq> IO_NONE) \<and>
     (\<forall>sid c. sessions s sid = Some c \<longrightarrow>
        cb_inv (wsSendBuffer c) \<and> wsSendPendingCount c \<in> {0, 1} \<and> sid < next_session s) \<and>
     (\<forall>sid c. sessions s sid = Some c \<longrightarrow> sid \<notin> E \<longrightarrow> wsConnected c \<longrightarrow> wsSendPendingCount c = 1 \<longrightarrow>
        in_flight s X sid \<noteq> {}) \<and>
     (\<forall>sid x ctx. x \<in> in_flight s X sid \<longrightarrow> contexts s x = Some ctx \<longrightarrow>
        (\<exists>c. sessions s sid = Some c \<and> sends_from ctx c)) \<and>
     (\<forall>sid x y. x \<in> in_flight s X sid \<longrightarrow> y \<in> in_flight s X sid \<longrightarrow> x = y)"

lemma in_flight_cong: "contexts s' = contexts s \<Longrightarrow> in_flight s' X sid = in_flight s X sid"
  by (simp add: in_flight_def)

text \<open>A step that changes no context and no session's send state, and connects none, keeps it.\<close>

definition send_part :: "WinSession \<Rightarrow> cbuf \<times> int" where
  "send_part c = (wsSendBuffer c, wsSendPendingCount c)"

definition send_frame :: "'w win_server \<Rightarrow> 'w win_server \<Rightarrow> bool" where
  "send_frame s s' \<longleftrightarrow> next_session s' = next_session s \<and>
     (\<forall>sid. map_option send_part (sessions s' sid) = map_option send_part (sessions s sid)) \<and>
     (\<forall>sid c c'. sessions s sid = Some c \<longrightarrow> sessions s' sid = Some c' \<longrightarrow> wsConnected c' \<longrightarrow> wsConnected c)"

lemma send_frameD:
  assumes "send_frame s s'" and "sessions s' sid = Some c'"
  obtains c where "sessions s sid = Some c" "wsSendBuffer c' = wsSendBuffer c"
    "wsSendPendingCount c' = wsSendPendingCount c" "wsConnected c' \<Longrightarrow> wsConnected c"
proof -
  from assms have "map_option send_part (sessions s sid) = Some (send_part c')"
    unfolding send_frame_def by (metis option.simps(9))
  then obtain c where c: "sessions s sid = Some c" "send_part c = send_part c'" by auto
  with that [of c] assms show thesis by (auto simp: send_frame_def send_part_def)
qed

lemma send_frameD':
  assumes "send_frame s s'" and "sessions s sid = Some c"
  obtains c' where "sessions s' sid = Some c'" "wsSendBuffer c' = wsSendBuffer c"
    "wsSendPendingCount c' = wsSendPendingCount c"
proof -
  from assms have "map_option send_part (sessions s' sid) = Some (send_part c)"
    unfolding send_frame_def by (metis option.simps(9))
  with that show thesis by (auto simp: send_part_def)
qed

lemma send_ok_frame:
  assumes "send_frame s s'" and "contexts s' = contexts s" and "next_context s' = next_context s"
    and "send_ok X E s"
  shows "send_ok X E s'"
proof -
  note f = in_flight_cong [OF assms(2)] and ok = assms(4) [unfolded send_ok_def]
  have n: "next_session s' = next_session s" using assms(1) by (simp add: send_frame_def)
  have 1: "cb_inv (wsSendBuffer c') \<and> wsSendPendingCount c' \<in> {0, 1} \<and> sid < next_session s"
    if "sessions s' sid = Some c'" for sid c'
    using ok by (rule_tac send_frameD [OF assms(1) that]) (elim conjE, metis)
  have 2: "in_flight s X sid \<noteq> {}"
    if c: "sessions s' sid = Some c'" and "sid \<notin> E" "wsConnected c'" "wsSendPendingCount c' = 1" for sid c'
    using ok that(2-4) by (rule_tac send_frameD [OF assms(1) c]) (elim conjE, metis)
  have 3: "\<exists>c'. sessions s' sid = Some c' \<and> sends_from ctx c'"
    if "\<exists>c. sessions s sid = Some c \<and> sends_from ctx c" for sid ctx
    using that by (auto elim!: send_frameD' [OF assms(1)] simp: sends_from_def)
  show ?thesis
    unfolding send_ok_def f assms(2,3) n
  proof (intro conjI allI impI)
    fix sid x ctx assume "x \<in> in_flight s X sid" "contexts s x = Some ctx"
    with ok show "\<exists>c. sessions s' sid = Some c \<and> sends_from ctx c" by (intro 3) blast
  qed (use ok 1 2 in \<open>blast+\<close>)
qed

lemma io_send_frame: "io_frame s s' \<Longrightarrow> send_frame s s'"
proof -
  assume f: "io_frame s s'"
  have "map_option send_part (sessions s' sid) = map_option send_part (sessions s sid)" for sid
  proof -
    have "map_option io_part (sessions s' sid) = map_option io_part (sessions s sid)"
      using f by (simp add: io_frame_def)
    then show ?thesis
      by (cases "sessions s' sid"; cases "sessions s sid") (simp_all add: io_part_def send_part_def)
  qed
  with f show ?thesis by (auto simp: send_frame_def io_frame_def)
qed

lemma send_ok_io_frame: "io_frame s s' \<Longrightarrow> send_ok X E s \<Longrightarrow> send_ok X E s'"
  by (rule send_ok_frame [OF io_send_frame]) (simp_all add: io_frame_def)

lemma send_ok_upd:
  assumes "\<And>c. send_part (f c) = send_part c" and "\<And>c. wsConnected (f c) \<Longrightarrow> wsConnected c"
    and "send_ok X E s"
  shows "send_ok X E (upd_session sid f s)"
proof (rule send_ok_frame [OF _ _ _ assms(3)])
  show "send_frame s (upd_session sid f s)"
    using assms(1,2) by (cases "sessions s sid") (auto simp: send_frame_def)
qed simp_all

lemma send_ok_world [simp]: "send_ok X E (s\<lparr>win_world := w\<rparr>) = send_ok X E s"
    "send_ok X E (s\<lparr>locks := l\<rparr>) = send_ok X E s" "send_ok X E (s\<lparr>winLog := g\<rparr>) = send_ok X E s"
    "send_ok X E (s\<lparr>mGameSession := p\<rparr>) = send_ok X E s"
    "send_ok X E (s\<lparr>wglAcceptedCount := n\<rparr>) = send_ok X E s"
  by (simp_all add: send_ok_def in_flight_def)

lemma send_ok_win_do [simp]: "send_ok X E (snd (win_do e c s)) = send_ok X E s"
    "send_ok X E (snd (win_do_sdk e d s)) = send_ok X E s"
  by (simp_all add: win_do_def win_do_sdk_def split: prod.splits)

section \<open>Contexts come and go\<close>

lemma send_ok_new_other:
  assumes "send_ok X E s" and "mIoType ctx \<noteq> IO_SEND" and "mIoType ctx \<noteq> IO_NONE"
  shows "send_ok X E (snd (new_context ctx s))"
proof -
  have n: "contexts s (next_context s) = None" using assms(1) by (simp add: send_ok_def)
  have "in_flight (snd (new_context ctx s)) X sid = in_flight s X sid" for sid
    using assms(2) n by (auto simp: in_flight_def new_context_def)
  moreover have "x \<in> in_flight s X sid \<Longrightarrow> x \<noteq> next_context s" for x sid
    using n by (auto simp: in_flight_def)
  ultimately show ?thesis
    using assms(1,3) unfolding send_ok_def by (simp add: new_context_def) (meson less_SucI)
qed

lemma send_ok_delete_other:
  assumes "send_ok X E s" and "DeleteIoContext (Some x) s = Ok s'"
    and "x \<in> X \<or> (\<exists>ctx. contexts s x = Some ctx \<and> mIoType ctx \<noteq> IO_SEND)"
  shows "send_ok X E s'"
proof -
  from assms(2) have s': "s' = s\<lparr>contexts := (contexts s)(x := None)\<rparr>"
    by (auto simp: DeleteIoContext_def split: option.splits if_splits)
  have "in_flight s' X sid = in_flight s X sid" for sid
    using assms(3) by (auto simp: in_flight_def s')
  moreover have "contexts s' y = Some ctx \<Longrightarrow> contexts s y = Some ctx" for y ctx
    by (simp add: s' split: if_splits)
  moreover have "contexts s y = None \<Longrightarrow> contexts s' y = None" for y by (simp add: s')
  ultimately show ?thesis
    using assms(1) unfolding send_ok_def by (simp add: s')
qed

lemma send_ok_finish:
  assumes "send_ok {x} E s" and "contexts s x = None"
  shows "send_ok {} E s"
proof -
  have "in_flight s {} sid = in_flight s {x} sid" for sid using assms(2) by (auto simp: in_flight_def)
  with assms(1) show ?thesis by (simp add: send_ok_def)
qed

lemma send_ok_less: "send_ok X E s \<Longrightarrow> E \<subseteq> F \<Longrightarrow> send_ok X F s"
  unfolding send_ok_def by blast

lemma send_ok_no_exception:
  assumes "send_ok X {sid} s"
    and "\<And>c. sessions s sid = Some c \<Longrightarrow> wsConnected c \<Longrightarrow> wsSendPendingCount c = 1 \<Longrightarrow> in_flight s X sid \<noteq> {}"
  shows "send_ok X {} s"
  using assms unfolding send_ok_def by (intro conjI) (blast, blast, blast, blast, metis singletonD, blast, blast)


section \<open>The sends\<close>

lemma DeleteIoContext_new:
  "DeleteIoContext (Some (next_context s)) (s\<lparr>contexts := (contexts s)(next_context s \<mapsto> ctx), next_context := n, win_world := w\<rparr>) =
     (if mIoType ctx = IO_NONE then Fault CrashAssert
      else Ok (s\<lparr>contexts := (contexts s)(next_context s := None), next_context := n, win_world := w\<rparr>))"
  by (cases "mIoType ctx") (simp_all add: DeleteIoContext_def)

lemma not_crash:
  "win_print t s \<noteq> Fault CrashAssert" "WS_Disconnect e sid dr s \<noteq> Fault CrashAssert"
proof -
  show p: "win_print t s \<noteq> Fault CrashAssert" for t and s :: "'a win_server"
    by (auto simp: win_print_def guarded_void_Fault win_PrintOut_def bnd_eq_Fault)
  have r: "WGL_RemovePlayerSession e i j s \<noteq> Fault CrashAssert" for i j s
    by (auto simp: WGL_RemovePlayerSession_def guarded_void_Fault case_prod_beta bnd_eq_Fault on_game_def p
        WGL_CheckTerminateGameSession_def WGL_TerminateGameSession_def exit_process_def
        split: if_splits option.splits)
  show "WS_Disconnect e sid dr s \<noteq> Fault CrashAssert"
    by (auto simp: WS_Disconnect_def with_session_def case_prod_beta bnd_eq_Fault p PS_OnDisconnect_def r
        split: if_splits option.splits)
qed

lemma Ok_eq_bnd [simp]: "Ok y = bnd m f \<longleftrightarrow> (\<exists>x. m = Ok x \<and> f x = Ok y)"
  by (metis bnd_eq_Ok)

lemma flush_cases:
  assumes "send_ok X E s" and "sessions s sid = Some c" and "wsSendPendingCount c = 0"
  obtains ctx w s1 where
      "mIoType ctx = IO_SEND" "mSessionObject ctx = sid"
      "mWsaLen ctx = GetContiguiousBytes (wsSendBuffer c)" "mWsaBuf ctx = GetBufferStart (wsSendBuffer c)"
      "s1 = upd_session sid (\<lambda>c. c\<lparr>wsSendPendingCount := 1\<rparr>)
         (s\<lparr>contexts := (contexts s)(next_context s \<mapsto> ctx), next_context := Suc (next_context s), win_world := w\<rparr>)"
      "WS_FlushSend e sid s = Ok (True, s1)"
  | s1 where "send_ok X E s1" "sessions s1 = sessions s"
      "WS_FlushSend e sid s = bnd (win_print (lit ''Session::FlushSend Error : '' @
           fmt_d (last_error e (win_world s1)) @ lit ''\<newline>'') s1) (\<lambda>s4.
         bnd (WS_Disconnect e sid DR_SENDFLUSH_ERROR s4) (\<lambda>s5. Ok (False, s5)))"
proof -
  let ?b = "wsSendBuffer c"
  let ?ctx = "(OverlappedSendContext_new sid)\<lparr>mWsaLen := GetContiguiousBytes ?b, mWsaBuf := GetBufferStart ?b\<rparr>"
  have inv: "cb_inv ?b" using assms(1,2) by (simp add: send_ok_def)
  obtain r w where r: "wsa_send e (wsSocket c) (take (GetContiguiousBytes ?b) (contents ?b)) (win_world s) = (r, w)"
    by (cases "wsa_send e (wsSocket c) (take (GetContiguiousBytes ?b) (contents ?b)) (win_world s)")
  note ev = WS_FlushSend_def with_session_def new_context_def assms(2) contiguous_spec(3) [OF inv] r assms(3)
  show thesis
  proof (cases r)
    case WsaStarted
    show thesis
      by (rule that(1) [of ?ctx]) (simp_all add: ev WsaStarted OverlappedSendContext_new_def Let_def del: bnd_eq_Ok)
  next
    case (WsaError n)
    let ?s1 = "s\<lparr>contexts := (contexts s)(next_context s := None), next_context := Suc (next_context s), win_world := w\<rparr>"
    have n: "contexts s (next_context s) = None" using assms(1) by (simp add: send_ok_def)
    then have k: "(contexts s)(next_context s := None) = contexts s" by auto
    show thesis
    proof (rule that(2) [of ?s1])
      have "?s1 = s\<lparr>next_context := Suc (next_context s), win_world := w\<rparr>"
        by (rule win_server.equality) (simp_all add: k del: fun_upd_apply)
      moreover have "send_ok X E (s\<lparr>next_context := Suc (next_context s), win_world := w\<rparr>)"
      proof -
        have "in_flight (s\<lparr>next_context := Suc (next_context s), win_world := w\<rparr>) X t = in_flight s X t" for t
          by (simp add: in_flight_def)
        then show ?thesis using assms(1) unfolding send_ok_def by (simp add: less_SucI)
      qed
      ultimately show "send_ok X E ?s1" by (simp only:)
    qed (simp_all add: ev WsaError DeleteIoContext_new OverlappedSendContext_new_def Let_def del: bnd_eq_Ok fun_upd_apply)
  qed
qed

lemma disconnect_keeps:
  "WS_Disconnect e sid dr s = Ok s' \<Longrightarrow> send_ok X E s \<Longrightarrow> send_ok X E s'"
  by (blast intro: send_ok_io_frame dest: WS_Disconnect_frame)

lemma print_keeps: "win_print t s = Ok s' \<Longrightarrow> send_ok X E s \<Longrightarrow> send_ok X E s'"
  by (blast intro: send_ok_io_frame dest: win_print_frame)

lemma start_keeps:
  assumes "send_ok X E s" and "sessions s sid = Some c" and "wsSendPendingCount c = 0"
    and "mIoType ctx = IO_SEND" "mSessionObject ctx = sid"
      "mWsaLen ctx = GetContiguiousBytes (wsSendBuffer c)" "mWsaBuf ctx = GetBufferStart (wsSendBuffer c)"
  shows "send_ok X E (upd_session sid (\<lambda>c. c\<lparr>wsSendPendingCount := 1\<rparr>)
     (s\<lparr>contexts := (contexts s)(next_context s \<mapsto> ctx), next_context := Suc (next_context s), win_world := w\<rparr>))"
    (is "send_ok X E ?s")
proof -
  have n: "contexts s (next_context s) = None" using assms(1) by (simp add: send_ok_def)
  have X: "\<forall>x\<in>X. x < next_context s" using assms(1) by (simp add: send_ok_def)
  have none: "in_flight s X sid = {}"
  proof (rule equals0I)
    fix x assume "x \<in> in_flight s X sid"
    then obtain ctx where "contexts s x = Some ctx" "x \<in> in_flight s X sid" by (auto simp: in_flight_def)
    then show False using assms(1-3) by (fastforce simp: send_ok_def sends_from_def)
  qed
  have f: "in_flight ?s X t = (if t = sid then {next_context s} else in_flight s X t)" for t
    using none n assms(4,5) X by (auto simp: in_flight_def)
  have "x \<in> in_flight s X t \<Longrightarrow> x \<noteq> next_context s" for x t using n by (auto simp: in_flight_def)
  then show ?thesis
    using assms(1-7) none unfolding send_ok_def f by (auto simp: sends_from_def)
qed

lemma flush_keeps:
  assumes "send_ok X E s" and "sessions s sid = Some c" and "wsSendPendingCount c = 0"
  shows "WS_FlushSend e sid s \<noteq> Fault CrashAssert"
    and "WS_FlushSend e sid s = Ok (r, s') \<Longrightarrow> send_ok X E s'"
proof -
  note st = start_keeps [OF assms(1-3)]
  show "WS_FlushSend e sid s \<noteq> Fault CrashAssert"
    by (rule flush_cases [OF assms(1-3), of e]) (auto simp: bnd_eq_Fault not_crash)
  assume r: "WS_FlushSend e sid s = Ok (r, s')"
  show "send_ok X E s'"
  proof (rule flush_cases [OF assms(1-3), of e])
    fix ctx w s1
    assume "mIoType ctx = IO_SEND" "mSessionObject ctx = sid"
      "mWsaLen ctx = GetContiguiousBytes (wsSendBuffer c)" "mWsaBuf ctx = GetBufferStart (wsSendBuffer c)"
      "s1 = upd_session sid (\<lambda>c. c\<lparr>wsSendPendingCount := 1\<rparr>)
         (s\<lparr>contexts := (contexts s)(next_context s \<mapsto> ctx), next_context := Suc (next_context s), win_world := w\<rparr>)"
      "WS_FlushSend e sid s = Ok (True, s1)"
    with st [of ctx] r show ?thesis by (metis outcome.inject prod.inject)
  qed (use r in \<open>auto intro: disconnect_keeps print_keeps\<close>)
qed


lemma same_buffer_keeps:
  assumes "send_ok X E s" and "sessions s sid = Some c" and "Write d (wsSendBuffer c) = Ok (r, b)"
  shows "send_ok X E (upd_session sid (\<lambda>c. c\<lparr>wsSendBuffer := b\<rparr>) s)"
proof -
  have "cb_inv (wsSendBuffer c)" using assms(1,2) by (simp add: send_ok_def)
  note w = Write_front_stable [OF this assms(3)]
  have f: "in_flight (upd_session sid (\<lambda>c. c\<lparr>wsSendBuffer := b\<rparr>) s) X t = in_flight s X t" for t
    by (simp add: in_flight_def)
  have "sends_from ctx c \<Longrightarrow> sends_from ctx (c\<lparr>wsSendBuffer := b\<rparr>)" for ctx
    using w(3,4) by (auto simp: sends_from_def)
  then have sf: "(\<exists>c. sessions s t = Some c \<and> sends_from ctx c) \<Longrightarrow>
      \<exists>c'. (if t = sid then Some (c\<lparr>wsSendBuffer := b\<rparr>) else sessions s t) = Some c' \<and> sends_from ctx c'" for ctx t
    using assms(2) by auto
  from assms(1) show ?thesis
    unfolding send_ok_def f
    by (elim conjE, intro conjI) (use w(1) assms(2) sf in \<open>simp_all\<close>)
qed

lemma post_keeps:
  assumes "send_ok X E s"
  shows "WS_PostSend e sid d s \<noteq> Fault CrashAssert"
    and "WS_PostSend e sid d s = Ok (r, s') \<Longrightarrow> send_ok X E s'"
proof -
  have A: "WS_PostSend e sid d s \<noteq> Fault CrashAssert \<and> (\<forall>r s'. WS_PostSend e sid d s = Ok (r, s') \<longrightarrow> send_ok X E s')"
  proof (cases "\<exists>c. sessions s sid = Some c \<and> wsConnected c \<and> LockSend sid \<notin> locks s")
    case False
    then show ?thesis
      using assms by (auto simp: WS_PostSend_def with_session_def guarded_Fault split: option.splits)
  next
    case True
    then obtain c where c: "sessions s sid = Some c" "wsConnected c" "LockSend sid \<notin> locks s" by blast
    define s1 where "s1 = s\<lparr>locks := insert (LockSend sid) (locks s)\<rparr>"
    have ok: "send_ok X E s1" "sessions s1 sid = Some c" using assms c(1) by (simp_all add: s1_def)
    then have inv: "cb_inv (wsSendBuffer c)" "wsSendPendingCount c = 0 \<or> wsSendPendingCount c = 1"
      by (simp_all add: send_ok_def)
    obtain q b where b: "Write d (wsSendBuffer c) = Ok (q, b)"
      using Write_ok [OF inv(1), of d] Write_full [OF inv(1), of d] by (cases "length d \<le> room (wsSendBuffer c)") auto
    define s2 where "s2 = upd_session sid (\<lambda>c. c\<lparr>wsSendBuffer := b\<rparr>) s1"
    have ok2: "send_ok X E s2" "sessions s2 sid = Some (c\<lparr>wsSendBuffer := b\<rparr>)"
      using same_buffer_keeps [OF ok b] ok(2) by (simp_all add: s2_def)
    have ps: "WS_PostSend e sid d s = bnd (if \<not> q then Ok (False, s2) else if wsSendPendingCount c > 0 then Ok (True, s2)
        else WS_FlushSend e sid s2) (\<lambda>(r, s'). Ok (r, s'\<lparr>locks := locks s' - {LockSend sid}\<rparr>))"
      using c b by (simp add: WS_PostSend_def with_session_def guarded_def s1_def [symmetric] s2_def del: bnd_eq_Ok)
    show ?thesis
    proof (cases "q \<and> wsSendPendingCount c = 0")
      case False
      then show ?thesis using ok2(1) inv(2) unfolding ps by auto
    next
      case True
      then have z: "wsSendPendingCount (c\<lparr>wsSendBuffer := b\<rparr>) = 0" by simp
      show ?thesis
        using True flush_keeps [OF ok2 z] unfolding ps by (auto simp: bnd_eq_Fault)
    qed
  qed
  from A show "WS_PostSend e sid d s \<noteq> Fault CrashAssert" by blast
  from A show "WS_PostSend e sid d s = Ok (r, s') \<Longrightarrow> send_ok X E s'" by blast
qed

lemma completion_keeps:
  assumes "send_ok X {sid} s" and "sessions s sid = Some c" and "wsSendPendingCount c = 1"
    and "in_flight s X sid = {}"
  shows "WS_SendCompletion e sid n s \<noteq> Fault CrashAssert"
    and "WS_SendCompletion e sid n s = Ok s' \<Longrightarrow> send_ok X {} s'"
proof -
  have inv: "cb_inv (wsSendBuffer c)" using assms(1,2) by (simp add: send_ok_def)
  obtain b where b: "Remove n (wsSendBuffer c) = Ok b" "cb_inv b"
    using Remove_spec [OF inv] by blast
  define s1 where "s1 = upd_session sid (\<lambda>c. c\<lparr>wsSendBuffer := b, wsSendPendingCount := 0\<rparr>)
    (s\<lparr>locks := insert (LockSend sid) (locks s)\<rparr>)"
  have s1: "sessions s1 sid = Some (c\<lparr>wsSendBuffer := b, wsSendPendingCount := 0\<rparr>)"
    using assms(2) by (simp add: s1_def)
  have f: "in_flight s1 X t = in_flight s X t" for t by (simp add: s1_def in_flight_def)
  have keep: "t \<noteq> sid" if "x \<in> in_flight s X t" for x t using that assms(4) by auto
  have "send_ok X {sid} s1"
    using assms(1) b(2) keep unfolding send_ok_def f by (auto simp: s1_def)
  then have ok1: "send_ok X {} s1"
    by (rule send_ok_no_exception) (use s1 in auto)
  note fl = flush_keeps [OF ok1 s1, of e]
  have sc: "WS_SendCompletion e sid n s = (if LockSend sid \<in> locks s then Fault SelfDeadlock
      else bnd (if GetContiguiousBytes b > 0 then bnd (WS_FlushSend e sid s1) (\<lambda>(_, s2). Ok s2) else Ok s1)
             (\<lambda>s'. Ok (s'\<lparr>locks := locks s' - {LockSend sid}\<rparr>)))"
    using assms(2,3) b(1) by (simp add: WS_SendCompletion_def guarded_void_def guarded_def with_session_def
        s1_def bnd_assoc del: bnd_eq_Ok)
  show "WS_SendCompletion e sid n s \<noteq> Fault CrashAssert"
    using fl(1) by (simp add: sc bnd_eq_Fault split: prod.splits)
  show "WS_SendCompletion e sid n s = Ok s' \<Longrightarrow> send_ok X {} s'"
    using fl(2) ok1 by (auto simp: sc split: if_splits)
qed


section \<open>Every operation of the server keeps it\<close>

lemmas send_ok_intros [intro] = send_ok_world [THEN iffD2] send_ok_win_do [THEN iffD2]

named_theorems keeps \<open>operations that keep the invariant of the sends\<close>

declare print_keeps [keeps] disconnect_keeps [keeps] post_keeps(2) [keeps]

lemma remove_keeps [keeps]: "WGL_RemovePlayerSession e p i s = Ok s' \<Longrightarrow> send_ok X E s \<Longrightarrow> send_ok X E s'"
  by (blast intro: send_ok_io_frame dest: WGL_Remove_frame)

lemma upd_player_keeps [intro]: "send_ok X E s \<Longrightarrow> send_ok X E (upd_session sid (\<lambda>c. c\<lparr>wsPlayerSessionId := i\<rparr>) s)"
  by (rule send_ok_upd) (simp_all add: send_part_def)

lemma upd_recv_keeps [intro]: "send_ok X E s \<Longrightarrow> send_ok X E (upd_session sid (\<lambda>c. c\<lparr>wsRecvBuffer := b\<rparr>) s)"
  by (rule send_ok_upd) (simp_all add: send_part_def)

lemma upd_recv_keeps' [intro]: "send_ok X E s \<Longrightarrow> send_ok X E (upd_session sid (\<lambda>c. c\<lparr>wsRecvBuffer := f c\<rparr>) s)"
  by (rule send_ok_upd) (simp_all add: send_part_def)

lemma upd_addr_keeps [intro]: "send_ok X E s \<Longrightarrow> send_ok X E (upd_session sid (\<lambda>c. c\<lparr>wsClientAddr := a\<rparr>) s)"
  by (rule send_ok_upd) (simp_all add: send_part_def)

lemma accept_player_keeps [keeps]:
  "WGL_AcceptPlayerSession e p i s = Ok (r, s') \<Longrightarrow> send_ok X E s \<Longrightarrow> send_ok X E s'"
  by (auto simp: WGL_AcceptPlayerSession_def case_prod_beta on_game_def split: if_splits option.splits)
    (erule print_keeps, simp)

lemma login_keeps [keeps]: "PS_PlayerLogin e sid i s = Ok s' \<Longrightarrow> send_ok X E s \<Longrightarrow> send_ok X E s'"
  by (auto simp: PS_PlayerLogin_def case_prod_beta split: if_splits
      intro: disconnect_keeps accept_player_keeps dest!: post_keeps(2) [rotated])

lemma logout_keeps [keeps]: "PS_PlayerLogout e sid i s = Ok s' \<Longrightarrow> send_ok X E s \<Longrightarrow> send_ok X E s'"
  unfolding PS_PlayerLogout_def
  by clarsimp (erule disconnect_keeps, erule print_keeps, rule upd_player_keeps, erule (1) remove_keeps)

lemma broadcast_loop_keeps: "GS_Broadcast_loop e pkt ps s = Ok s' \<Longrightarrow> send_ok X E s \<Longrightarrow> send_ok X E s'"
proof (induction e pkt ps s arbitrary: s' rule: GS_Broadcast_loop.induct)
  case (2 e pkt it rest s)
  from "2.prems"(1) obtain sent s1 s2 players where "WS_PostSend e it pkt s = Ok (sent, s1)"
      "(if sent then Ok s1 else WS_Disconnect e it DR_SENDBUFFER_ERROR s1) = Ok s2"
      "mGameSession s2 = Some players" "it \<in> set players" "GS_Broadcast_loop e pkt rest s2 = Ok s'"
    by (auto simp: case_prod_beta split: option.splits if_splits)
  moreover from this have "send_ok X E s2"
    using "2.prems"(2) by (auto intro: post_keeps(2) disconnect_keeps split: if_splits)
  ultimately show ?case using "2.IH" by blast
qed simp

lemma broadcast_keeps [keeps]: "WGL_BroadcastMessage e pkt s = Ok s' \<Longrightarrow> send_ok X E s \<Longrightarrow> send_ok X E s'"
  by (auto simp: WGL_BroadcastMessage_def GS_BroadcastMessage_def split: option.splits
      intro: broadcast_loop_keeps)

lemma parse_keeps [keeps]: "WS_ParsePacket n sid s = Ok (r, s') \<Longrightarrow> send_ok X E s \<Longrightarrow> send_ok X E s'"
  by (auto simp: WS_ParsePacket_def with_session_def case_prod_beta split: option.splits)

lemma handler_keeps [keeps]: "win_HandlerTable e t sid s = Ok s' \<Longrightarrow> send_ok X E s \<Longrightarrow> send_ok X E s'"
  unfolding win_HandlerTable_def win_Handler_PKT_CS_LOGIN_def win_Handler_PKT_CS_EXIT_def
    win_Handler_PKT_CS_CHAT_def win_Handler_PKT_CS_MOVE_def win_DefaultHandler_def parsing_error_def
  by (auto split: option.splits if_splits intro: disconnect_keeps;
      drule (1) parse_keeps; (erule login_keeps | erule logout_keeps | erule broadcast_keeps | erule print_keeps),
      assumption)

lemma on_read_keeps [keeps]:
  "PS_OnRead e sid s = Some (Ok s') \<Longrightarrow> send_ok X E s \<Longrightarrow> send_ok X E s'"
proof -
  have "PS_OnRead e sid s = Some r \<Longrightarrow> (\<forall>s'. send_ok X E s \<longrightarrow> r = Ok s' \<longrightarrow> send_ok X E s')" for r
    by (rule PS_OnRead.raw_induct [of "\<lambda>e sid s r. \<forall>s'. send_ok X E s \<longrightarrow> r = Ok s' \<longrightarrow> send_ok X E s'"])
      (auto simp: Let_def split: option.splits outcome.splits if_splits intro: disconnect_keeps
        dest!: handler_keeps [where X = X and E = E])
  then show "PS_OnRead e sid s = Some (Ok s') \<Longrightarrow> send_ok X E s \<Longrightarrow> send_ok X E s'" by blast
qed

lemma delete_keeps:
  "DeleteIoContext (Some x) s = Ok s' \<Longrightarrow> contexts s x = Some ctx \<Longrightarrow> mIoType ctx \<noteq> IO_SEND \<Longrightarrow>
   send_ok X E s \<Longrightarrow> send_ok X E s'"
  by (rule send_ok_delete_other) auto

lemma pre_recv_keeps [keeps]: "WS_PreRecv e sid s = Ok (r, s') \<Longrightarrow> send_ok X E s \<Longrightarrow> send_ok X E s'"
proof -
  have k: "send_ok X E (snd (new_context (OverlappedPreRecvContext_new sid) s))" if "send_ok X E s" for s :: "'a win_server"
    by (rule send_ok_new_other [OF that]) (simp_all add: OverlappedPreRecvContext_new_def)
  assume "WS_PreRecv e sid s = Ok (r, s')" "send_ok X E s"
  then show ?thesis
    using k [of s] unfolding WS_PreRecv_def with_session_def
    by (auto simp: new_context_def Let_def OverlappedPreRecvContext_new_def
        split: option.splits if_splits prod.splits wsa_result.splits)
      (erule print_keeps, erule delete_keeps, simp, simp_all)
qed


lemma post_recv_keeps [keeps]: "WS_PostRecv e sid s = Ok (r, s') \<Longrightarrow> send_ok X E s \<Longrightarrow> send_ok X E s'"
proof -
  let ?ctx = "\<lambda>n b. (OverlappedRecvContext_new sid)\<lparr>mWsaLen := n, mWsaBuf := Some (GetBuffer b)\<rparr>"
  have k: "send_ok X E (snd (new_context (?ctx n b) s))" if "send_ok X E s" for s :: "'a win_server" and n b
    by (rule send_ok_new_other [OF that]) (simp_all add: OverlappedRecvContext_new_def)
  have u: "send_ok X E (upd_session sid (\<lambda>c. c\<lparr>wsRecvBuffer := b\<rparr>) (upd_session sid (\<lambda>c. c\<lparr>wsRecvBuffer := b'\<rparr>) s))"
    if "send_ok X E s" for s :: "'a win_server" and b b'
    using that by auto
  assume "WS_PostRecv e sid s = Ok (r, s')" "send_ok X E s"
  then show ?thesis
    using k [OF u] unfolding WS_PostRecv_def with_session_def
    by (auto simp: new_context_def Let_def OverlappedRecvContext_new_def
        split: option.splits if_splits prod.splits wsa_result.splits)
      (erule print_keeps, erule delete_keeps, simp, simp_all)
qed

lemma recv_completion_keeps [keeps]:
  "WS_RecvCompletion e sid n s = Some (Ok s') \<Longrightarrow> send_ok X E s \<Longrightarrow> send_ok X E s'"
  by (auto simp: WS_RecvCompletion_def intro: on_read_keeps)

lemma on_connect_keeps [keeps]:
  assumes "WS_OnConnect e sid s = Ok (r, s')" and "send_ok X E s"
    and "\<And>c. sessions s sid = Some c \<Longrightarrow> wsSendPendingCount c = 0"
  shows "send_ok X E s'"
proof -
  have c: "send_ok X E (upd_session sid (\<lambda>c. c\<lparr>wsConnected := True\<rparr>) t)"
    if "send_ok X E t" and "\<And>c. sessions t sid = Some c \<Longrightarrow> wsSendPendingCount c = 0" for t :: "'a win_server"
  proof (cases "sessions t sid")
    case (Some c)
    have f: "in_flight (upd_session sid (\<lambda>c. c\<lparr>wsConnected := True\<rparr>) t) X u = in_flight t X u" for u
      by (simp add: in_flight_def)
    have "\<exists>c'. (if u = sid then Some (c\<lparr>wsConnected := True\<rparr>) else sessions t u) = Some c' \<and> sends_from ctx c'"
      if "\<exists>c. sessions t u = Some c \<and> sends_from ctx c" for u ctx
      using that Some by (auto simp: sends_from_def)
    with that(1) that(2) [OF Some] Some show ?thesis
      unfolding send_ok_def f by (elim conjE, intro conjI) simp_all
  next
    case None
    then have "(sessions t)(sid := None) = sessions t" by auto
    with None that(1) show ?thesis by (simp add: upd_session_def)
  qed
  from assms show ?thesis
    unfolding WS_OnConnect_def with_session_def
    by (auto simp: Let_def case_prod_beta split: option.splits if_splits)
      ((erule print_keeps | (erule pre_recv_keeps, erule print_keeps, rule c)), auto)+
qed

lemma new_session_keeps:
  assumes "send_ok X E s" and n: "n = next_session s"
  shows "send_ok X E (s\<lparr>sessions := (sessions s)(n \<mapsto> WS_new sock), next_session := n + 1\<rparr>)"
proof -
  have f: "in_flight (s\<lparr>sessions := (sessions s)(n \<mapsto> WS_new sock), next_session := n + 1\<rparr>) X u = in_flight s X u" for u
    by (simp add: in_flight_def)
  have none: "sessions s n = None"
    using assms(1) unfolding n send_ok_def by (metis less_irrefl not_None_eq)
  have "cb_inv (CircularBuffer_new CLIENT_BUFSIZE [])"
    by (rule CircularBuffer_new_spec) (simp add: CLIENT_BUFSIZE_def)
  moreover have "in_flight s X n = {}"
  proof (rule equals0I)
    fix x assume "x \<in> in_flight s X n"
    moreover from this obtain ctx where "contexts s x = Some ctx" by (auto simp: in_flight_def)
    ultimately show False using assms(1) none unfolding send_ok_def by fastforce
  qed
  moreover have "u < Suc n" if "sessions s u = Some c" for u c
    using assms(1) that unfolding n send_ok_def by (metis less_SucI)
  ultimately show ?thesis
    using assms(1) none unfolding send_ok_def f by (elim conjE, intro conjI) (simp_all add: WS_new_def)
qed


section \<open>Jobs, accepts and the whole server\<close>

lemma job_start:
  assumes "send_ok {} {} s" and "contexts s x = Some ctx"
  shows "send_ok {x} (if mIoType ctx = IO_SEND then {mSessionObject ctx} else {}) s"
    and "mIoType ctx = IO_SEND \<Longrightarrow> in_flight s {x} (mSessionObject ctx) = {}"
    and "mIoType ctx = IO_SEND \<Longrightarrow> \<exists>c. sessions s (mSessionObject ctx) = Some c \<and> wsSendPendingCount c = 1"
proof -
  have sub: "in_flight s {x} sid = in_flight s {} sid - {x}" for sid by (auto simp: in_flight_def)
  have other: "x \<notin> in_flight s {} sid" if "mIoType ctx = IO_SEND \<longrightarrow> sid \<noteq> mSessionObject ctx" for sid
    using that assms(2) by (auto simp: in_flight_def)
  have x: "x < next_context s"
  proof (rule ccontr)
    assume "\<not> x < next_context s"
    then have "contexts s x = None" using assms(1) by (simp add: send_ok_def)
    with assms(2) show False by simp
  qed
  have u: "a = b" if "a \<in> in_flight s {} sid" "b \<in> in_flight s {} sid" for a b sid
    using assms(1) that unfolding send_ok_def by blast
  show e: "in_flight s {x} (mSessionObject ctx) = {}" if "mIoType ctx = IO_SEND"
  proof -
    have "x \<in> in_flight s {} (mSessionObject ctx)" using that assms(2) by (simp add: in_flight_def)
    then show ?thesis using u by (auto simp: sub)
  qed
  show "\<exists>c. sessions s (mSessionObject ctx) = Some c \<and> wsSendPendingCount c = 1" if "mIoType ctx = IO_SEND"
  proof -
    have "x \<in> in_flight s {} (mSessionObject ctx)" using that assms(2) by (simp add: in_flight_def)
    then show ?thesis using assms unfolding send_ok_def sends_from_def by blast
  qed
  show "send_ok {x} (if mIoType ctx = IO_SEND then {mSessionObject ctx} else {}) s"
  proof -
    have live: "in_flight s {} sid - {x} \<noteq> {}"
      if "sessions s sid = Some c" "sid \<notin> (if mIoType ctx = IO_SEND then {mSessionObject ctx} else {})"
        "wsConnected c" "wsSendPendingCount c = 1" for sid c
    proof -
      have "in_flight s {} sid \<noteq> {}" using assms(1) that unfolding send_ok_def by blast
      moreover have "x \<notin> in_flight s {} sid" by (rule other) (use that(2) in auto)
      ultimately show ?thesis by auto
    qed
    show ?thesis
      unfolding send_ok_def sub
    proof (intro conjI)
      show "\<forall>sid c. sessions s sid = Some c \<longrightarrow> sid \<notin> (if mIoType ctx = IO_SEND then {mSessionObject ctx} else {}) \<longrightarrow>
          wsConnected c \<longrightarrow> wsSendPendingCount c = 1 \<longrightarrow> in_flight s {} sid - {x} \<noteq> {}"
        using live by blast
      show "\<forall>sid x' ctx. x' \<in> in_flight s {} sid - {x} \<longrightarrow> contexts s x' = Some ctx \<longrightarrow>
          (\<exists>c. sessions s sid = Some c \<and> sends_from ctx c)"
        using assms(1) unfolding send_ok_def by blast
      show "\<forall>sid x' y. x' \<in> in_flight s {} sid - {x} \<longrightarrow> y \<in> in_flight s {} sid - {x} \<longrightarrow> x' = y"
        using u by blast
    qed (use assms(1) x in \<open>simp_all add: send_ok_def\<close>)
  qed
qed

lemma job_finish:
  "send_ok {x} {} s \<Longrightarrow> DeleteIoContext (Some x) s = Ok s' \<Longrightarrow> send_ok {} {} s'"
  by (rule send_ok_finish, erule send_ok_delete_other)
    (auto simp: DeleteIoContext_def split: option.splits if_splits)


lemma job_keeps:
  assumes "send_ok {} {} s" and "completed c = Some x"
  shows "contexts s x = Some ctx \<Longrightarrow> mIoType ctx = IO_SEND \<Longrightarrow> IOT_DoIocpJob e c s \<noteq> Some (Fault CrashAssert)"
    and "IOT_DoIocpJob e c s = Some (Ok s') \<Longrightarrow> send_ok {} {} s'"
proof -
  have fin: "send_ok {} {} s'" if "send_ok {x} {} s1" "DeleteIoContext (Some x) s1 = Ok s'" for s1 s' :: "'a win_server"
    using that by (rule job_finish)
  have off: "send_ok {x} {} s2" if "WS_Disconnect e sid dr s1 = Ok s2" "send_ok {x} {sid} s1"
    for s1 s2 :: "'a win_server" and sid dr
    by (rule send_ok_no_exception [OF disconnect_keeps [OF that]]) (use WS_Disconnect_off [OF that(1)] in auto)
  show "IOT_DoIocpJob e c s \<noteq> Some (Fault CrashAssert)" if ctx: "contexts s x = Some ctx" and t: "mIoType ctx = IO_SEND"
  proof -
    note st = job_start [OF assms(1) ctx]
    obtain d where d: "sessions s (mSessionObject ctx) = Some d" "wsSendPendingCount d = 1"
      using st(3) [OF t] by blast
    have ok: "send_ok {x} {mSessionObject ctx} s" using st(1) t by simp
    note cm = completion_keeps [OF ok d st(2) [OF t], of e]
    have del: "DeleteIoContext (Some x) t \<noteq> Fault CrashAssert" if "send_ok {x} F t" for t :: "'a win_server" and F
    proof (cases "contexts t x")
      case (Some ctx)
      with that have "mIoType ctx \<noteq> IO_NONE" by (simp add: send_ok_def)
      with Some show ?thesis by (cases "mIoType ctx") (simp_all add: DeleteIoContext_def)
    qed (simp add: DeleteIoContext_def)
    show ?thesis
      using assms(2) ctx t cm(1)
      by (auto simp: IOT_DoIocpJob_def IOT_dispatch_def Let_def bnd_eq_Fault not_crash split: if_splits
          dest!: off [OF _ ok] cm(2) print_keeps [where X = "{x}" and E = "{}"]
            disconnect_keeps [where X = "{x}" and E = "{}"] dest: del)
  qed
  show "send_ok {} {} s'" if job: "IOT_DoIocpJob e c s = Some (Ok s')"
  proof -
    from job assms(2) obtain ctx where ctx: "contexts s x = Some ctx"
      by (auto simp: IOT_DoIocpJob_def split: option.splits if_splits)
    note st = job_start [OF assms(1) ctx]
    show ?thesis
    proof (cases "mIoType ctx = IO_SEND")
      case True
      then obtain d where d: "sessions s (mSessionObject ctx) = Some d" "wsSendPendingCount d = 1"
        using st(3) by blast
      have ok: "send_ok {x} {mSessionObject ctx} s" using st(1) True by simp
      note cm = completion_keeps [OF ok d st(2) [OF True]]
      have "\<exists>s1. send_ok {x} {} s1 \<and> DeleteIoContext (Some x) s1 = Ok s'"
        using job assms(2) ctx True
        by (auto simp: IOT_DoIocpJob_def IOT_dispatch_def Let_def split: if_splits
            dest!: cm(2) off [OF _ ok] print_keeps [where X = "{x}" and E = "{}"]
              disconnect_keeps [where X = "{x}" and E = "{}"])
      then show ?thesis by (blast intro: fin)
    next
      case False
      then have ok: "send_ok {x} {} s" using st(1) by simp
      note K = print_keeps [where X = "{x}" and E = "{}"] disconnect_keeps [where X = "{x}" and E = "{}"]
        pre_recv_keeps [where X = "{x}" and E = "{}"] post_recv_keeps [where X = "{x}" and E = "{}", OF _ ok]
        recv_completion_keeps [where X = "{x}" and E = "{}", OF _ ok]
      have "\<exists>s1. send_ok {x} {} s1 \<and> DeleteIoContext (Some x) s1 = Ok s'"
        using job assms(2) ctx False
        by (auto simp: IOT_DoIocpJob_def IOT_dispatch_def Let_def split: if_splits IOType.splits option.splits
            simp: ok dest!: K)
      then show ?thesis by (blast intro: fin)
    qed
  qed
qed

lemma accept_keeps:
  assumes "IM_accept e s = Ok s'" and "send_ok X E s"
  shows "send_ok X E s'"
proof -
  let ?a = "win_do e (WinAccept (imListenSocket s)) s"
  show ?thesis
  proof (cases "fst ?a = - 1")
    case True
    then show ?thesis
      using assms by (auto simp: IM_accept_def case_prod_beta) (erule print_keeps, simp)
  next
    case False
    let ?n = "next_session (snd ?a)"
    define s2 where "s2 = (snd ?a)\<lparr>sessions := (sessions (snd ?a))(?n \<mapsto> WS_new (fst ?a)), next_session := ?n + 1\<rparr>"
    have ok: "send_ok X E s2" unfolding s2_def by (rule new_session_keeps) (simp_all add: assms(2))
    have z: "wsSendPendingCount c = 0" if "sessions s2 ?n = Some c" for c
      using that by (auto simp: s2_def WS_new_def)
    have "bnd (WS_OnConnect e ?n s2) (\<lambda>(ok, s3). if ok then Ok s3 else WS_Disconnect e ?n DR_ONCONNECT_ERROR s3) = Ok s'"
      using assms(1) False by (simp add: IM_accept_def case_prod_beta Let_def s2_def del: bnd_eq_Ok)
    then obtain r s3 where "WS_OnConnect e ?n s2 = Ok (r, s3)"
        "(if r then Ok s3 else WS_Disconnect e ?n DR_ONCONNECT_ERROR s3) = Ok s'"
      by auto
    then show ?thesis
      using on_connect_keeps [OF _ ok z] by (auto split: if_splits intro: disconnect_keeps)
  qed
qed

section \<open>The running server\<close>

text \<open>
  It starts with \<^verbatim>\<open>main\<close>: the completion port is made, GameLift knows the process, the I/O threads
  run, and the listening socket takes connections.
\<close>

definition win_started :: "'w win_env \<Rightarrow> 'w win_server \<Rightarrow> bool" where
  "win_started e s \<longleftrightarrow> (\<exists>arg w s0 r. win_main e arg w = Ok (Inr s0) \<and>
     win_do e (WinListen (imListenSocket s0)) s0 = (r, s) \<and> r \<noteq> - 1)"

text \<open>No client has come yet.\<close>

definition no_clients :: "'w win_server \<Rightarrow> bool" where
  "no_clients s \<longleftrightarrow> sessions s = (\<lambda>_. None) \<and> next_session s = 0 \<and> contexts s = (\<lambda>_. None) \<and> next_context s = 0 \<and>
     locks s = {} \<and> LThreadType s = THREAD_MAIN"

lemma no_clients_fields [simp]:
  "no_clients (s\<lparr>imCompletionPort := p\<rparr>) = no_clients s" "no_clients (s\<lparr>imListenSocket := p\<rparr>) = no_clients s"
  "no_clients (s\<lparr>wglActivated := b\<rparr>) = no_clients s" "no_clients (s\<lparr>wglAcceptedCount := n\<rparr>) = no_clients s"
  "no_clients (s\<lparr>wglRemovedCount := n\<rparr>) = no_clients s" "no_clients (s\<lparr>winLog := l\<rparr>) = no_clients s"
  by (simp_all add: no_clients_def)

lemma no_clients_calls [simp]:
  "no_clients (snd (win_do e c s)) = no_clients s" "no_clients (snd (win_do_sdk e d s)) = no_clients s"
  "imCompletionPort (snd (win_do e c s)) = imCompletionPort s" "imCompletionPort (snd (win_do_sdk e d s)) = imCompletionPort s"
  "wglActivated (snd (win_do e c s)) = wglActivated s"
  by (simp_all add: no_clients_def win_do_def win_do_sdk_def split: prod.splits)

lemma begin_threads_idle: "IM_begin_threads e is s = (ok, s') \<Longrightarrow> no_clients s' = no_clients s \<and>
    imCompletionPort s' = imCompletionPort s \<and> wglActivated s' = wglActivated s"
  by (induction "is" arbitrary: s) (auto simp: case_prod_beta split: if_splits)

lemma resume_threads_idle: "s' = fold (\<lambda>i s. snd (win_do e (ResumeThread i) s)) is s \<Longrightarrow>
    no_clients s' = no_clients s \<and> imCompletionPort s' = imCompletionPort s \<and> wglActivated s' = wglActivated s"
  by (induction "is" arbitrary: s) simp_all

lemma initialized:
  assumes "IM_Initialize e port s = (True, p, s1)"
  shows "no_clients s1 = no_clients s" and "imCompletionPort s1 \<noteq> 0"
  using assms by (auto simp: IM_Initialize_def case_prod_beta Let_def split: if_splits dest!: arg_cong [where f = snd])

lemma ready_for_gamelift:
  assumes "WGL_InitializeGameLift e p s = Ok (True, s')"
  shows "no_clients s' = no_clients s" and "imCompletionPort s' = imCompletionPort s" and "wglActivated s'"
  using assms by (auto simp: WGL_InitializeGameLift_def case_prod_beta win_print_Ok split: if_splits)

lemma started_idle:
  assumes "win_started e s"
  shows "no_clients s" and "imCompletionPort s \<noteq> 0" and "wglActivated s"
proof -
  from assms obtain arg w s0 r where m: "win_main e arg w = Ok (Inr s0)" "win_do e (WinListen (imListenSocket s0)) s0 = (r, s)"
    by (auto simp: win_started_def)
  obtain ok p s1 where i: "IM_Initialize e (case arg of None \<Rightarrow> 0 | Some p \<Rightarrow> p) (win_server_new w) = (ok, p, s1)"
    by (metis prod_cases3)
  from m(1) i obtain s2 where g: "ok" "WGL_InitializeGameLift e p s1 = Ok (True, s2)"
    "(case IM_StartIoThreads e s2 of (started, s3) \<Rightarrow> if \<not> started then Ok (Inl (- 1))
       else bnd (win_print (lit ''Start Server\<newline>'') s3) (\<lambda>s4. Ok (Inr s4))) = (Ok (Inr s0) :: (int + 'a win_server) outcome)"
    by (auto simp: win_main_def split: if_splits)
  obtain b s3 where b: "IM_begin_threads e [0..<MAX_WORKER_THREAD] s2 = (b, s3)" by force
  from g(3) b obtain l where s0: "s0 = (fold (\<lambda>i s. snd (win_do e (ResumeThread i) s)) [0..<MAX_WORKER_THREAD] s3)\<lparr>winLog := l\<rparr>"
    by (auto simp: IM_StartIoThreads_def win_print_Ok split: if_splits)
  have "no_clients (win_server_new w)" by (simp add: no_clients_def win_server_new_def)
  with initialized [OF i [unfolded g(1) [THEN eqTrueI]]] ready_for_gamelift [OF g(2)] begin_threads_idle [OF b]
    resume_threads_idle [OF refl, of e "[0..<MAX_WORKER_THREAD]" s3]
  have "no_clients s0" "imCompletionPort s0 \<noteq> 0" "wglActivated s0" by (simp_all add: s0)
  moreover have "s = snd (win_do e (WinListen (imListenSocket s0)) s0)" using m(2) by simp
  ultimately show "no_clients s" "imCompletionPort s \<noteq> 0" "wglActivated s" by simp_all
qed

text \<open>
  Then each step is one thread's: a turn of the accept loop, a completed request handled by an I/O thread,
  bytes that the kernel stores for a pending receive, or a callback of the service.
\<close>

inductive win_step :: "'w win_env \<Rightarrow> 'w win_server \<Rightarrow> 'w win_server \<Rightarrow> bool" for e where
  step_accept: "IM_accept e s = Ok s' \<Longrightarrow> win_step e s s'"
| step_job: "IOT_DoIocpJob e c s = Some (Ok s') \<Longrightarrow> win_step e s s'"
| step_bytes: "kernel_receive x data s = Ok s' \<Longrightarrow> win_step e s s'"
| step_start: "WGL_OnStartGameSession e s = Ok s' \<Longrightarrow> win_step e s s'"
| step_terminate: "WGL_OnProcessTerminate e s = Ok s' \<Longrightarrow> win_step e s s'"

inductive_cases win_stepE: "win_step e s s'"

lemma win_step_keeps: "send_ok {} {} s \<Longrightarrow> win_step e s s' \<Longrightarrow> send_ok {} {} s'"
proof (erule win_stepE)
  assume ok: "send_ok {} {} s"
  show "IM_accept e s = Ok s' \<Longrightarrow> send_ok {} {} s'" using accept_keeps ok by blast
  show "kernel_receive x data s = Ok s' \<Longrightarrow> send_ok {} {} s'" for x data
    using ok by (auto simp: kernel_receive_def with_session_def split: option.splits)
  show "WGL_OnStartGameSession e s = Ok s' \<Longrightarrow> send_ok {} {} s'"
    using ok by (auto simp: WGL_OnStartGameSession_def) (erule print_keeps, auto)
  show "WGL_OnProcessTerminate e s = Ok s' \<Longrightarrow> send_ok {} {} s'"
    using ok by (auto simp: WGL_OnProcessTerminate_def WGL_TerminateGameSession_def exit_process_def Let_def
        split: if_splits)
  show "send_ok {} {} s'" if "IOT_DoIocpJob e c s = Some (Ok s')" for c
  proof (cases "completed c")
    case None
    then have "s' = s" using that by (auto simp: IOT_DoIocpJob_def split: if_splits)
    with ok show ?thesis by simp
  next
    case (Some x)
    from job_keeps(2) [OF ok Some that] show ?thesis .
  qed
qed

lemma send_ok_init: "no_clients s \<Longrightarrow> send_ok {} {} s"
  by (simp add: send_ok_def no_clients_def in_flight_def)

interpretation win: invariant_system "win_started e" "win_step e" "send_ok {} {}" for e :: "'w win_env"
  by unfold_locales (auto intro: send_ok_init started_idle(1) elim: win_step_keeps)

text \<open>C12. From the server's start in \<^verbatim>\<open>main\<close> on, whatever the clients, the kernel and the service do, \<^verbatim>\<open>mSendPendingCount\<close> is 0 or
  1 and bounds the session's sends in flight; for a connected session it is their number, so a pending
  send always has a completion to wait for. The bytes of a send in flight are still the first bytes of
  the send buffer, at the address given to \<^verbatim>\<open>WSASend\<close>.\<close>

theorem send_pending_count:
  assumes "reach (win_started e) (win_step e) s" and "sessions s sid = Some c"
  shows "int (card (in_flight s {} sid)) \<le> wsSendPendingCount c \<and> wsSendPendingCount c \<le> 1 \<and>
    (wsConnected c \<longrightarrow> wsSendPendingCount c = int (card (in_flight s {} sid))) \<and>
    (\<forall>x ctx p. x \<in> in_flight s {} sid \<longrightarrow> contexts s x = Some ctx \<longrightarrow> mWsaBuf ctx = Some p \<longrightarrow>
       mem_read p (mWsaLen ctx) (mBuffer (wsSendBuffer c)) = Ok (take (mWsaLen ctx) (contents (wsSendBuffer c))) \<or>
       mWsaLen ctx = 0)"
proof -
  have ok: "send_ok {} {} s" by (rule win.inv_reach [OF assms(1)])
  then have c: "cb_inv (wsSendBuffer c)" "wsSendPendingCount c \<in> {0, 1}"
      "wsConnected c \<Longrightarrow> wsSendPendingCount c = 1 \<Longrightarrow> in_flight s {} sid \<noteq> {}"
    using assms(2) unfolding send_ok_def by blast+
  have one: "in_flight s {} sid = {x} \<and> wsSendPendingCount c = 1" if "x \<in> in_flight s {} sid" for x
  proof -
    from that obtain ctx where "contexts s x = Some ctx" by (auto simp: in_flight_def)
    then have "wsSendPendingCount c = 1" using ok that assms(2) unfolding send_ok_def sends_from_def by fastforce
    moreover have "y = x" if "y \<in> in_flight s {} sid" for y
      using ok that \<open>x \<in> in_flight s {} sid\<close> unfolding send_ok_def by blast
    ultimately show ?thesis using that by blast
  qed
  have region: "mem_read p (mWsaLen ctx) (mBuffer (wsSendBuffer c)) = Ok (take (mWsaLen ctx) (contents (wsSendBuffer c))) \<or>
      mWsaLen ctx = 0" if "x \<in> in_flight s {} sid" "contexts s x = Some ctx" "mWsaBuf ctx = Some p" for x ctx p
  proof -
    have sf: "sends_from ctx c" using ok that assms(2) unfolding send_ok_def by fastforce
    then have "front (mWsaLen ctx) (wsSendBuffer c) = Ok (take (mWsaLen ctx) (contents (wsSendBuffer c)))"
      by (intro contiguous_spec(3) [OF c(1)]) (simp add: sends_from_def)
    moreover have "0 < mWsaLen ctx \<Longrightarrow> GetBufferStart (wsSendBuffer c) = Some p"
      using sf that(3) by (simp add: sends_from_def)
    ultimately show ?thesis by (cases "mWsaLen ctx") (simp_all add: front_def)
  qed
  show ?thesis
  proof (cases "in_flight s {} sid = {}")
    case True
    with c show ?thesis by auto
  next
    case False
    then obtain x where "x \<in> in_flight s {} sid" by blast
    with one [OF this] region show ?thesis by auto
  qed
qed

text \<open>C13. The assertions on the pending count in \<^verbatim>\<open>FlushSend\<close> and
  \<^verbatim>\<open>SendCompletion\<close> never fire in a running server: neither a post on any session nor the
  completion, full, partial or failed, of any send in flight.\<close>

theorem send_asserts_hold:
  assumes "reach (win_started e) (win_step e) s"
  shows "WS_PostSend e sid d s \<noteq> Fault CrashAssert \<and>
    (\<forall>c x. completed c = Some x \<longrightarrow> x \<in> in_flight s {} sid \<longrightarrow> IOT_DoIocpJob e c s \<noteq> Some (Fault CrashAssert))"
  using post_keeps(1) [OF win.inv_reach [OF assms]] job_keeps(1) [OF win.inv_reach [OF assms]]
  by (auto simp: in_flight_def)

text \<open>The server starts, with its completion port and its eight threads, and the first client connects.\<close>

lemma quiet_start: "\<exists>s. win_started win_quiet s"
proof -
  have "case win_main win_quiet None () of Ok (Inr s) \<Rightarrow> True | _ \<Rightarrow> False"
    by (simp add: win_main_def IM_Initialize_def win_do_def win_quiet_def Let_def WGL_InitializeGameLift_def win_do_sdk_def
        IsSuccess_def win_print_run win_server_new_def IM_StartIoThreads_def MAX_WORKER_THREAD_def upt_rec del: bnd_eq_Ok)
  then obtain s0 where "win_main win_quiet None () = Ok (Inr s0)" by (auto split: outcome.splits sum.splits)
  moreover have "win_do win_quiet (WinListen (imListenSocket s0)) s0 = (0, s0)" by (simp add: win_do_def win_quiet_def)
  ultimately have "win_started win_quiet s0"
    unfolding win_started_def by (intro exI [of _ None] exI [of _ "()"] exI [of _ s0] exI [of _ 0] conjI) simp_all
  then show ?thesis ..
qed

lemma first_accept:
  "\<exists>s c. reach (win_started win_quiet) (win_step win_quiet) s \<and> sessions s 0 = Some c \<and> wsConnected c"
proof -
  obtain s0 :: "unit win_server" where s0: "win_started win_quiet s0" using quiet_start by blast
  note idle = started_idle(1) [OF s0, unfolded no_clients_def]
  have "case IM_accept win_quiet s0 of Ok s \<Rightarrow> (case sessions s 0 of Some c \<Rightarrow> wsConnected c | None \<Rightarrow> False)
      | Fault f \<Rightarrow> False"
    using length_inet_ntoa [of "(127, 0, 0, 1)"] length_decimal_port [of 4000]
    by (simp add: idle IM_accept_def win_do_def win_quiet_def WS_OnConnect_def with_session_def
        upd_session_def win_print_run WS_PreRecv_def
        new_context_def OverlappedPreRecvContext_new_def WS_new_def Let_def
        del: bnd_eq_Ok)
  then obtain s c where "IM_accept win_quiet s0 = Ok s" "sessions s 0 = Some c" "wsConnected c"
    by (auto split: outcome.splits option.splits)
  moreover have "reach (win_started win_quiet) (win_step win_quiet) s0"
    by (rule reach_init) (rule s0)
  ultimately show ?thesis by (blast intro: reach_step step_accept)
qed

lemma send_pending_count_witness:
  "\<exists>s c. reach (win_started win_quiet) (win_step win_quiet) s \<and> sessions s 0 = Some c \<and>
     wsConnected c \<and> wsSendPendingCount c = int (card (in_flight s {} 0))"
  using first_accept send_pending_count [of win_quiet _ 0] by blast

lemma send_asserts_hold_witness:
  "\<exists>s c. reach (win_started win_quiet) (win_step win_quiet) s \<and> sessions s 0 = Some c \<and>
     wsConnected c \<and> WS_PostSend win_quiet 0 [7] s \<noteq> Fault CrashAssert"
  using first_accept send_asserts_hold [of win_quiet] by blast

end
