(* ===== verification/WinReceive.thy ===== *)
theory WinReceive
  imports WinSend Framing
begin

text \<open>
  The receive path of the Windows server: when a read completes, every complete message in the buffer is
  taken out once and handled in order, whatever the cuts of the network were; only the beginning of
  a message stays.
\<close>

section \<open>Handlers leave the receive buffers alone\<close>

definition same_recv :: "'w win_server \<Rightarrow> 'w win_server \<Rightarrow> bool" where
  "same_recv s s' \<longleftrightarrow> (\<forall>sid. map_option wsRecvBuffer (sessions s' sid) = map_option wsRecvBuffer (sessions s sid))"

named_theorems recv_frames \<open>operations that leave the receive buffers alone\<close>

lemma same_recv_refl [simp]: "same_recv s s"
  by (simp add: same_recv_def)

lemma same_recv_trans: "same_recv s s' \<Longrightarrow> same_recv s' s'' \<Longrightarrow> same_recv s s''"
  by (simp add: same_recv_def)

lemma same_recv_sessions [simp]: "sessions t = sessions s \<Longrightarrow> same_recv s t"
  by (simp add: same_recv_def)

lemma same_recv_from: "same_recv t s' \<Longrightarrow> sessions t = sessions s \<Longrightarrow> same_recv s s'"
  by (simp add: same_recv_def)

lemma same_recv_upd: "(\<And>c. wsRecvBuffer (f c) = wsRecvBuffer c) \<Longrightarrow> same_recv s (upd_session sid f s)"
  by (simp add: same_recv_def upd_session_def option.map_comp comp_def)

lemma same_recvD: "same_recv s s' \<Longrightarrow> sessions s sid = Some c \<Longrightarrow>
    \<exists>c'. sessions s' sid = Some c' \<and> wsRecvBuffer c' = wsRecvBuffer c"
  unfolding same_recv_def by (drule spec [of _ sid]) auto

text \<open>The frame of a handler: the receive buffers and the requests to receive stay, no session comes or
  connects.\<close>

definition fresh :: "'w win_server \<Rightarrow> bool" where
  "fresh s \<longleftrightarrow> (\<forall>x. next_context s \<le> x \<longrightarrow> contexts s x = None)"

definition receives :: "'w win_server \<Rightarrow> nat \<Rightarrow> OverlappedIOContext option" where
  "receives s x = (case contexts s x of None \<Rightarrow> None | Some ctx \<Rightarrow> if mIoType ctx = IO_SEND then None else Some ctx)"

definition recv_frame :: "'w win_server \<Rightarrow> 'w win_server \<Rightarrow> bool" where
  "recv_frame s s' \<longleftrightarrow> same_recv s s' \<and> next_session s' = next_session s \<and> next_context s \<le> next_context s' \<and>
     (\<forall>sid c c'. sessions s sid = Some c \<longrightarrow> sessions s' sid = Some c' \<longrightarrow> wsConnected c' \<longrightarrow> wsConnected c) \<and>
     (fresh s \<longrightarrow> fresh s' \<and> receives s' = receives s)"

lemma recv_frame_same: "recv_frame s s' \<Longrightarrow> same_recv s s'"
  by (simp add: recv_frame_def)

lemma recv_frame_refl [simp]: "recv_frame s s"
  by (simp add: recv_frame_def)

lemma recv_frame_trans:
  assumes "recv_frame s s'" and "recv_frame s' s''"
  shows "recv_frame s s''"
proof -
  have "wsConnected c" if c: "sessions s sid = Some c" and k: "sessions s'' sid = Some c''" "wsConnected c''" for sid c c''
  proof -
    obtain c' where "sessions s' sid = Some c'" using same_recvD [OF recv_frame_same [OF assms(1)] c] by blast
    with c k assms show ?thesis unfolding recv_frame_def by metis
  qed
  with assms show ?thesis unfolding recv_frame_def by (auto intro: same_recv_trans)
qed

lemma recv_frame_eq [simp]:
  "sessions t = sessions s \<Longrightarrow> contexts t = contexts s \<Longrightarrow> next_context t = next_context s \<Longrightarrow>
   next_session t = next_session s \<Longrightarrow> recv_frame s t"
  by (simp add: recv_frame_def fresh_def receives_def fun_eq_iff)

lemma recv_frame_from:
  "recv_frame t s' \<Longrightarrow> sessions t = sessions s \<Longrightarrow> contexts t = contexts s \<Longrightarrow> next_context t = next_context s \<Longrightarrow>
   next_session t = next_session s \<Longrightarrow> recv_frame s s'"
  by (rule recv_frame_trans [OF recv_frame_eq])

lemma recv_frame_upd:
  assumes "\<And>c. wsRecvBuffer (f c) = wsRecvBuffer c" and "\<And>c. wsConnected (f c) \<Longrightarrow> wsConnected c"
  shows "recv_frame s (upd_session sid f s)"
  using assms same_recv_upd [of f s sid] by (auto simp: recv_frame_def fresh_def receives_def fun_eq_iff)

lemma io_frame_recv:
  assumes "io_frame s s'"
  shows "recv_frame s s'"
proof -
  have "map_option wsRecvBuffer (sessions s' sid) = map_option (fst \<circ> snd) (map_option io_part (sessions s' sid))"
    "map_option wsRecvBuffer (sessions s sid) = map_option (fst \<circ> snd) (map_option io_part (sessions s sid))" for sid
    by (simp_all add: option.map_comp comp_def io_part_def)
  with assms show ?thesis
    by (simp add: same_recv_def io_frame_def recv_frame_def fresh_def receives_def fun_eq_iff)
qed

text \<open>A new request to send, started or given up at once.\<close>

lemma send_context_frame:
  assumes "mIoType ctx = IO_SEND"
  shows "recv_frame s (s\<lparr>contexts := (contexts s)(next_context s \<mapsto> ctx), next_context := Suc (next_context s), win_world := w\<rparr>)"
    and "recv_frame s (s\<lparr>contexts := (contexts s)(next_context s := None), next_context := Suc (next_context s), win_world := w\<rparr>)"
  using assms by (auto simp: recv_frame_def fresh_def receives_def fun_eq_iff same_recv_def)

lemma disconnect_recv [recv_frames]: "WS_Disconnect e sid dr s = Ok s' \<Longrightarrow> recv_frame s s'"
  by (blast intro: io_frame_recv dest: WS_Disconnect_frame)

lemma print_recv [recv_frames]: "win_print t s = Ok s' \<Longrightarrow> recv_frame s s'"
  by (blast intro: io_frame_recv dest: win_print_frame)

lemma remove_recv [recv_frames]: "WGL_RemovePlayerSession e p i s = Ok s' \<Longrightarrow> recv_frame s s'"
  by (blast intro: io_frame_recv dest: WGL_Remove_frame)

lemma accept_recv [recv_frames]: "WGL_AcceptPlayerSession e p i s = Ok (r, s') \<Longrightarrow> recv_frame s s'"
  by (auto simp: WGL_AcceptPlayerSession_def case_prod_beta on_game_def win_print_Ok split: if_splits option.splits)

lemma flush_recv [recv_frames]:
  assumes "WS_FlushSend e sid s = Ok (r, s')"
  shows "recv_frame s s'"
proof -
  from assms obtain c where c: "sessions s sid = Some c"
    by (auto simp: WS_FlushSend_def with_session_def split: option.splits)
  let ?ctx = "(OverlappedSendContext_new sid)\<lparr>mWsaLen := GetContiguiousBytes (wsSendBuffer c),
    mWsaBuf := GetBufferStart (wsSendBuffer c)\<rparr>"
  have t: "mIoType ?ctx = IO_SEND" by (simp add: OverlappedSendContext_new_def)
  obtain data where d: "front (GetContiguiousBytes (wsSendBuffer c)) (wsSendBuffer c) = Ok data"
    using assms c by (auto simp: WS_FlushSend_def with_session_def Let_def)
  obtain wr w where wr: "wsa_send e (wsSocket c) data (win_world s) = (wr, w)" by force
  let ?s1 = "s\<lparr>contexts := (contexts s)(next_context s \<mapsto> ?ctx), next_context := Suc (next_context s), win_world := w\<rparr>"
  let ?s3 = "s\<lparr>contexts := (contexts s)(next_context s := None), next_context := Suc (next_context s), win_world := w\<rparr>"
  note sf = send_context_frame [OF t, of s w]
  show ?thesis
  proof (cases wr)
    case WsaStarted
    with assms c d wr have s': "s' = upd_session sid (\<lambda>c'. c'\<lparr>wsSendPendingCount := wsSendPendingCount c + 1\<rparr>) ?s1"
      by (auto simp: WS_FlushSend_def with_session_def new_context_def Let_def split: if_splits)
    show ?thesis unfolding s' by (rule recv_frame_trans [OF sf(1) recv_frame_upd]) simp_all
  next
    case (WsaError n)
    with assms c d wr t obtain x s4 where "win_print x ?s3 = Ok s4" "WS_Disconnect e sid DR_SENDFLUSH_ERROR s4 = Ok s'"
      by (auto simp: WS_FlushSend_def with_session_def new_context_def Let_def DeleteIoContext_new simp del: fun_upd_apply)
    with sf(2) show ?thesis by (blast intro: recv_frame_trans recv_frames)
  qed
qed

lemma post_recv [recv_frames]:
  assumes "WS_PostSend e sid data s = Ok (r, s')"
  shows "recv_frame s s'"
proof -
  from assms obtain c where c: "sessions s sid = Some c"
    by (auto simp: WS_PostSend_def with_session_def split: option.splits)
  show ?thesis
  proof (cases "wsConnected c")
    case False
    with assms c show ?thesis by (simp add: WS_PostSend_def with_session_def)
  next
    case True
    let ?t = "s\<lparr>locks := insert (LockSend sid) (locks s)\<rparr>"
    from assms c True obtain ok b t where b: "Write data (wsSendBuffer c) = Ok (ok, b)"
      "s' = t\<lparr>locks := locks t - {LockSend sid}\<rparr>"
      "t = upd_session sid (\<lambda>c. c\<lparr>wsSendBuffer := b\<rparr>) ?t \<or>
       WS_FlushSend e sid (upd_session sid (\<lambda>c. c\<lparr>wsSendBuffer := b\<rparr>) ?t) = Ok (r, t)"
      by (auto simp: WS_PostSend_def with_session_def Let_def split: if_splits)
    have "recv_frame s ?t" by simp
    then have u: "recv_frame s (upd_session sid (\<lambda>c. c\<lparr>wsSendBuffer := b\<rparr>) ?t)"
      by (rule recv_frame_trans [OF _ recv_frame_upd]) simp_all
    with b(3) have "recv_frame s t" by (auto intro: recv_frame_trans flush_recv)
    then show ?thesis unfolding b(2) by (rule recv_frame_trans) simp
  qed
qed

lemma login_recv [recv_frames]:
  assumes "PS_PlayerLogin e sid i s = Ok s'"
  shows "recv_frame s s'"
proof -
  from assms obtain acc s1 where s1: "WGL_AcceptPlayerSession e sid i s = Ok (acc, s1)"
    by (auto simp: PS_PlayerLogin_def)
  have "recv_frame s1 s'"
  proof (cases acc)
    case False
    with assms s1 show ?thesis by (auto simp: PS_PlayerLogin_def intro: disconnect_recv)
  next
    case True
    with assms s1 obtain pkt r where
      "WS_PostSend e sid pkt (upd_session sid (\<lambda>c. c\<lparr>wsPlayerSessionId := i\<rparr>) s1) = Ok (r, s')"
      by (auto simp: PS_PlayerLogin_def)
    moreover have "recv_frame s1 (upd_session sid (\<lambda>c. c\<lparr>wsPlayerSessionId := i\<rparr>) s1)"
      by (rule recv_frame_upd) simp_all
    ultimately show ?thesis by (blast intro: recv_frame_trans post_recv)
  qed
  with accept_recv [OF s1] show ?thesis by (rule recv_frame_trans)
qed

lemma logout_recv [recv_frames]:
  assumes "PS_PlayerLogout e sid i s = Ok s'"
  shows "recv_frame s s'"
proof -
  from assms obtain s1 t s2 where "WGL_RemovePlayerSession e sid i s = Ok s1"
    "win_print t (upd_session sid (\<lambda>c. c\<lparr>wsPlayerSessionId := []\<rparr>) s1) = Ok s2" "WS_Disconnect e sid DR_LOGOUT s2 = Ok s'"
    by (auto simp: PS_PlayerLogout_def)
  moreover have "recv_frame s1 (upd_session sid (\<lambda>c. c\<lparr>wsPlayerSessionId := []\<rparr>) s1)"
    by (rule recv_frame_upd) simp_all
  ultimately show ?thesis by (blast intro: recv_frame_trans recv_frames)
qed

lemma broadcast_loop_recv: "GS_Broadcast_loop e pkt ps s = Ok s' \<Longrightarrow> recv_frame s s'"
proof (induction e pkt ps s arbitrary: s' rule: GS_Broadcast_loop.induct)
  case (2 e pkt it rest s)
  from "2.prems" obtain sent s1 s2 players where r: "WS_PostSend e it pkt s = Ok (sent, s1)"
      "(if sent then Ok s1 else WS_Disconnect e it DR_SENDBUFFER_ERROR s1) = Ok s2"
      "mGameSession s2 = Some players" "it \<in> set players" "GS_Broadcast_loop e pkt rest s2 = Ok s'"
    by (auto simp: case_prod_beta split: option.splits if_splits)
  from r(1,2) have "recv_frame s s2"
    by (cases sent) (auto intro: recv_frame_trans recv_frames)
  with "2.IH" r show ?case by (blast intro: recv_frame_trans)
qed simp

lemma broadcast_recv [recv_frames]:
  assumes "WGL_BroadcastMessage e pkt s = Ok s'"
  shows "recv_frame s s'"
proof -
  from assms obtain ps t where t: "GS_Broadcast_loop e pkt ps (s\<lparr>locks := insert LockGameLift (locks s)\<rparr>) = Ok t"
      "s' = t\<lparr>locks := locks t - {LockGameLift}\<rparr>"
    by (auto simp: WGL_BroadcastMessage_def GS_BroadcastMessage_def split: option.splits)
  have "recv_frame s t" by (rule recv_frame_from [OF broadcast_loop_recv [OF t(1)]]) simp_all
  then show ?thesis unfolding t(2) by (rule recv_frame_trans) simp
qed

section \<open>One message\<close>

text \<open>What a handler does, once its packet has been taken out of the buffer.\<close>

fun win_act :: "'w win_env \<Rightarrow> nat \<Rightarrow> wire_msg \<Rightarrow> 'w win_server \<Rightarrow> 'w win_server outcome" where
  "win_act e sid (MLogin p) s = bnd (c_str (mPlayerId p)) (\<lambda>i. PS_PlayerLogin e sid i s)"
| "win_act e sid (MExit p) s = bnd (c_str (mPlayerId p)) (\<lambda>i. PS_PlayerLogout e sid i s)"
| "win_act e sid (MChat p) s =
     bnd (strcpy_s (mPlayerId ChatBroadcastResult_new) (takeWhile (\<lambda>x. x \<noteq> 0) (mPlayerId p))) (\<lambda>ia.
     bnd (strcpy_s (mChat ChatBroadcastResult_new) (takeWhile (\<lambda>x. x \<noteq> 0) (mChat p))) (\<lambda>ta.
     WGL_BroadcastMessage e
       (chat_bytes (ChatBroadcastResult_new\<lparr>mPlayerId := ia, mChat := ta\<rparr>)) s))"
| "win_act e sid (MMove p) s =
     WGL_BroadcastMessage e
       (move_bytes (MoveBroadcastResult_new
          \<lparr>mPlayerIdx := mPlayerIdx p, mPosX := mPosX p, mPosY := mPosY p\<rparr>)) s"

definition win_consumed :: "nat \<Rightarrow> nat \<Rightarrow> 'w win_server \<Rightarrow> 'w win_server" where
  "win_consumed n sid s = upd_session sid (\<lambda>c. c\<lparr>wsRecvBuffer := after_read n (wsRecvBuffer c)\<rparr>) s"

fun win_serve :: "'w win_env \<Rightarrow> nat \<Rightarrow> wire_msg list \<Rightarrow> 'w win_server \<Rightarrow> 'w win_server outcome" where
  "win_serve e sid [] s = Ok s"
| "win_serve e sid (m # ms) s =
     bnd (win_act e sid m (win_consumed (length (msg_bytes m)) sid s)) (win_serve e sid ms)"

lemma win_act_recv: "win_act e sid m s = Ok s' \<Longrightarrow> same_recv s s'"
  by (cases m) (auto intro: recv_frame_same recv_frames)

text \<open>A session whose receive buffer is well formed and holds the given bytes.\<close>

definition holding :: "'w win_server \<Rightarrow> nat \<Rightarrow> byte list \<Rightarrow> bool" where
  "holding s sid xs \<longleftrightarrow>
     (\<exists>c. sessions s sid = Some c \<and> cb_inv (wsRecvBuffer c) \<and> contents (wsRecvBuffer c) = xs)"

lemma holding_recv: "holding s sid xs \<Longrightarrow> same_recv s s' \<Longrightarrow> holding s' sid xs"
  unfolding holding_def by (metis same_recvD)

lemma parse_eq:
  assumes "holding s sid (xs @ rest)" and "n = length xs"
  shows "WS_ParsePacket n sid s = Ok (Some xs, win_consumed n sid s)" and "holding (win_consumed n sid s) sid rest"
proof -
  from assms(1) obtain c where c: "sessions s sid = Some c" "cb_inv (wsRecvBuffer c)"
    "contents (wsRecvBuffer c) = xs @ rest" by (auto simp: holding_def)
  note ar = after_read_spec [OF c(2,3) assms(2)]
  show "WS_ParsePacket n sid s = Ok (Some xs, win_consumed n sid s)"
    using c(1) ar(1) by (simp add: WS_ParsePacket_def with_session_def win_consumed_def upd_session_def)
  show "holding (win_consumed n sid s) sid rest"
    using c(1) ar by (simp add: holding_def win_consumed_def upd_session_def)
qed

lemma win_handler_act:
  assumes "holding s sid (msg_bytes m @ rest)" and "wf_msg m"
  shows "win_HandlerTable e (mType (header_of (msg_bytes m))) sid s =
    win_act e sid m (win_consumed (length (msg_bytes m)) sid s)"
proof -
  note pp = parse_eq(1) [OF assms(1) refl]
  show ?thesis
  proof (cases m)
    case (MLogin p)
    with pp assms(2) id_of_bytes [of p "[]"] header_of_bytes [of p] show ?thesis
      by (simp add: win_HandlerTable_def win_Handler_PKT_CS_LOGIN_def sizeof_defs packet_new_defs id_bytes_def)
  next
    case (MExit p)
    with pp assms(2) id_of_bytes [of p "[]"] header_of_bytes [of p] show ?thesis
      by (simp add: win_HandlerTable_def win_Handler_PKT_CS_EXIT_def sizeof_defs packet_new_defs id_bytes_def)
  next
    case (MChat p)
    with pp assms(2) chat_of_bytes [of p "[]"] header_of_bytes [of p] show ?thesis
      by (simp add: win_HandlerTable_def win_Handler_PKT_CS_CHAT_def sizeof_defs packet_new_defs chat_bytes_def)
  next
    case (MMove p)
    with pp assms(2) move_of_bytes [of p "[]"] header_of_bytes [of p] show ?thesis
      by (simp add: win_HandlerTable_def win_Handler_PKT_CS_MOVE_def sizeof_defs packet_new_defs move_bytes_def)
  qed
qed

lemma msg_type: "wf_msg m \<Longrightarrow> mType (header_of (msg_bytes m)) \<in> {1, 11, 21, 31}"
  by (cases m) (auto simp: id_bytes_def chat_bytes_def move_bytes_def packet_new_defs
      header_of_bytes [of _ "[]", simplified])

lemma on_read_incomplete: "holding s sid xs \<Longrightarrow> incomplete xs \<Longrightarrow> PS_OnRead e sid s = Some (Ok s)"
  by (subst PS_OnRead.simps)
    (auto simp: holding_def cb.pk_eq GetStoredSize_eq incomplete_def header_of_take sizeof_defs Let_def)

lemma on_read_message:
  assumes "holding s sid (msg_bytes m @ rest)" and "wf_msg m"
  shows "PS_OnRead e sid s = (case win_act e sid m (win_consumed (length (msg_bytes m)) sid s) of
       Fault f \<Rightarrow> Some (Fault f) | Ok s' \<Rightarrow> PS_OnRead e sid s')"
proof -
  from assms(1) obtain c where c: "sessions s sid = Some c" "cb_inv (wsRecvBuffer c)"
    "contents (wsRecvBuffer c) = msg_bytes m @ rest" by (auto simp: holding_def)
  note b = msg_length_bounds [OF assms(2)]
  have h: "header_of (take 4 (msg_bytes m @ rest)) = header_of (msg_bytes m)"
    using b by (simp add: header_of_take)
  have ty: "sint (mType (header_of (msg_bytes m))) < 1024" "0 < sint (mType (header_of (msg_bytes m)))"
    using msg_type [OF assms(2)] by auto
  show ?thesis
    using c b h ty msg_length [OF assms(2), of "[]"] win_handler_act [OF assms, of e]
    by (subst PS_OnRead.simps) (simp add: cb.pk_eq GetStoredSize_eq sizeof_defs Let_def)
qed

lemma on_read_serves:
  assumes "holding s sid (stream ms @ t)" and "\<forall>m\<in>set ms. wf_msg m" and "incomplete t"
  shows "PS_OnRead e sid s = Some (win_serve e sid ms s) \<and>
    (\<forall>s'. win_serve e sid ms s = Ok s' \<longrightarrow> holding s' sid t)"
  using assms
proof (induction ms arbitrary: s)
  case Nil
  then show ?case by (simp add: on_read_incomplete)
next
  case (Cons m ms)
  have m: "holding s sid (msg_bytes m @ (stream ms @ t))" "wf_msg m" using Cons.prems by simp_all
  note om = on_read_message [OF m, of e] and rest = parse_eq(2) [OF m(1) refl]
  show ?case
  proof (cases "win_act e sid m (win_consumed (length (msg_bytes m)) sid s)")
    case (Fault f)
    with om show ?thesis by simp
  next
    case (Ok s1)
    from Cons.IH [OF holding_recv [OF rest win_act_recv [OF Ok]]] Cons.prems(2,3) om Ok show ?thesis by simp
  qed
qed

section \<open>A completed read\<close>

text \<open>The buffer that \<^verbatim>\<open>PostRecv\<close> has offered to \<^verbatim>\<open>WSARecv\<close>, with the bytes
  that have arrived in it.\<close>

definition arrived :: "nat \<Rightarrow> byte list \<Rightarrow> 'w win_server \<Rightarrow> 'w win_server" where
  "arrived sid d s = upd_session sid (\<lambda>c. c\<lparr>wsRecvBuffer := (wsRecvBuffer c)
     \<lparr>mBuffer := overwrite (GetBuffer (wsRecvBuffer c)) d (mBuffer (wsRecvBuffer c))\<rparr>\<rparr>) s"

definition committed :: "nat \<Rightarrow> nat \<Rightarrow> 'w win_server \<Rightarrow> 'w win_server" where
  "committed n sid s = upd_session sid (\<lambda>c. c\<lparr>wsRecvBuffer := Commit n (wsRecvBuffer c)\<rparr>) s"

lemma committed_holds:
  assumes "sessions s sid = Some c" and "cb_inv (wsRecvBuffer c)"
    and "snd (GetFreeSpaceSize (wsRecvBuffer c)) = wsRecvBuffer c" and "length d \<le> room (wsRecvBuffer c)"
  shows "holding (committed (length d) sid (arrived sid d s)) sid (contents (wsRecvBuffer c) @ d)"
proof -
  let ?b = "wsRecvBuffer c"
  from recv_spec [OF assms(2,4)] assms(3) obtain b' where b: "recv_into d ?b = Ok b'" "cb_inv b'"
    "contents b' = contents ?b @ d" by auto
  have "b' = Commit (length d) (?b\<lparr>mBuffer := overwrite (GetBuffer ?b) d (mBuffer ?b)\<rparr>)"
    using b(1) by (auto simp: recv_into_def mem_write_def split: if_splits)
  with b assms(1) show ?thesis
    by (simp add: holding_def committed_def arrived_def upd_session_def)
qed

lemma post_recv_offers:
  assumes "WS_PostRecv e sid s = Ok (True, s')" and "sessions s sid = Some c" and "cb_inv (wsRecvBuffer c)"
  shows "\<exists>c'. sessions s' sid = Some c' \<and> wsRecvBuffer c' = snd (GetFreeSpaceSize (wsRecvBuffer c))"
  using assms GetFreeSpaceSize_spec(8) [OF assms(3)]
  by (auto simp: WS_PostRecv_def with_session_def Let_def case_prod_beta upd_session_def new_context_def
      split: if_splits wsa_result.splits)

text \<open>Reassembly on the Windows server: after a posted read, whatever other threads do that leaves the
  receive buffer alone, when the read completes with any bytes that continue the stream,
  \<^verbatim>\<open>RecvCompletion\<close> returns after handling exactly the messages that are complete now, each
  once and in order, and the beginning of the next one stays in the buffer.\<close>

theorem RecvCompletion_serves_messages:
  assumes "sessions s0 sid = Some c" and "cb_inv (wsRecvBuffer c)"
    and "WS_PostRecv e sid s0 = Ok (True, s1)" and "same_recv s1 s" and "length d \<le> room (wsRecvBuffer c)"
    and "contents (wsRecvBuffer c) @ d = stream ms @ t" and "\<forall>m\<in>set ms. wf_msg m" and "incomplete t"
  shows "WS_RecvCompletion e sid (length d) (arrived sid d s) =
      Some (win_serve e sid ms (committed (length d) sid (arrived sid d s))) \<and>
    (\<forall>s'. win_serve e sid ms (committed (length d) sid (arrived sid d s)) = Ok s' \<longrightarrow> holding s' sid t)"
proof -
  from post_recv_offers [OF assms(3,1,2)] same_recvD [OF assms(4)] obtain c' where
    c: "sessions s sid = Some c'" "wsRecvBuffer c' = snd (GetFreeSpaceSize (wsRecvBuffer c))" by metis
  note sp = GetFreeSpaceSize_spec [OF assms(2), folded c(2)]
  have "holding (committed (length d) sid (arrived sid d s)) sid (contents (wsRecvBuffer c) @ d)"
    using committed_holds [OF c(1) sp(2,8)] sp(3,5) assms(5) by simp
  from on_read_serves [OF this [unfolded assms(6)] assms(7,8), of e] show ?thesis
    by (simp add: WS_RecvCompletion_def committed_def)
qed

text \<open>A first read that brings one message and the first three bytes of the next.\<close>

lemma RecvCompletion_serves_messages_witness:
  "\<exists>s1. WS_PostRecv win_quiet 0 (one_player [65]) = Ok (True, s1) \<and>
     WS_RecvCompletion win_quiet 0 19 (arrived 0 (msg_bytes (MMove MoveRequest_new) @ [16, 0, 31]) s1) =
       Some (win_serve win_quiet 0 [MMove MoveRequest_new]
         (committed 19 0 (arrived 0 (msg_bytes (MMove MoveRequest_new) @ [16, 0, 31]) s1)))"
proof -
  let ?d = "msg_bytes (MMove MoveRequest_new) @ [16, 0, 31]"
  have n: "CLIENT_BUFSIZE < 2 ^ 64" by (simp add: CLIENT_BUFSIZE_def)
  let ?c = "(WS_new 5)\<lparr>wsConnected := True, wsPlayerSessionId := [65]\<rparr>"
  note sp = CircularBuffer_new_spec [OF n]
  have c: "sessions (one_player [65]) 0 = Some ?c" by (simp add: one_player_def)
  have b: "wsRecvBuffer ?c = CircularBuffer_new CLIENT_BUFSIZE []" by (simp add: WS_new_def)
  have r: "room (wsRecvBuffer ?c) = CLIENT_BUFSIZE" "contents (wsRecvBuffer ?c) = []" "cb_inv (wsRecvBuffer ?c)"
    using sp by (simp_all add: b)
  obtain s1 where s1: "WS_PostRecv win_quiet 0 (one_player [65]) = Ok (True, s1)"
    using r GetFreeSpaceSize_spec [OF r(3)]
    by (auto simp: WS_PostRecv_def with_session_def c Let_def case_prod_beta win_quiet_def new_context_def
        CLIENT_BUFSIZE_def)
  have wf: "\<forall>m\<in>set [MMove MoveRequest_new]. wf_msg m" by (simp add: packet_new_defs)
  have "length ?d \<le> room (wsRecvBuffer ?c)" "contents (wsRecvBuffer ?c) @ ?d = stream [MMove MoveRequest_new] @ [16, 0, 31]"
    "incomplete [16, 0, 31]"
    unfolding r by (simp_all add: CLIENT_BUFSIZE_def incomplete_def sizeof_defs)
  from RecvCompletion_serves_messages [OF c r(3) s1 same_recv_refl this(1,2) wf this(3)] s1 show ?thesis by simp
qed

end
