(* ===== verification/WinPosted.thy ===== *)
theory WinPosted
  imports WinReceive
begin

text \<open>
  The discipline of the overlapped receives on the Windows server: a connected session always has exactly one
  request to receive in flight, and the region that a data request was given is the free space of its buffer
  for as long as it is in flight, so that whatever the kernel stores there is read as the continuation of the
  client's stream.
\<close>

section \<open>The invariant\<close>

text \<open>
  \<^verbatim>\<open>X\<close> holds the contexts that a job has taken from the port and not yet deleted, and
  \<^verbatim>\<open>E\<close> the sessions whose receive is being handled.
\<close>

definition receiving :: "'w win_server \<Rightarrow> nat set \<Rightarrow> nat \<Rightarrow> nat set" where
  "receiving s X sid = {x. x \<notin> X \<and> (\<exists>ctx. receives s x = Some ctx \<and> mSessionObject ctx = sid)}"

definition offered :: "OverlappedIOContext \<Rightarrow> WinSession \<Rightarrow> bool" where
  "offered ctx c \<longleftrightarrow> mWsaLen ctx = room (wsRecvBuffer c) \<and> mWsaBuf ctx = Some (GetBuffer (wsRecvBuffer c)) \<and>
     snd (GetFreeSpaceSize (wsRecvBuffer c)) = wsRecvBuffer c"

definition recv_ok :: "nat set \<Rightarrow> nat set \<Rightarrow> 'w win_server \<Rightarrow> bool" where
  "recv_ok X E s \<longleftrightarrow> fresh s \<and> (\<forall>x\<in>X. x < next_context s) \<and>
     (\<forall>sid c. sessions s sid = Some c \<longrightarrow> cb_inv (wsRecvBuffer c) \<and> sid < next_session s) \<and>
     (\<forall>sid c. sessions s sid = Some c \<longrightarrow> wsConnected c \<longrightarrow> sid \<in> E \<or> receiving s X sid \<noteq> {}) \<and>
     (\<forall>sid. sid \<in> E \<longrightarrow> receiving s X sid = {}) \<and>
     (\<forall>sid x y. x \<in> receiving s X sid \<longrightarrow> y \<in> receiving s X sid \<longrightarrow> x = y) \<and>
     (\<forall>sid x ctx. x \<in> receiving s X sid \<longrightarrow> receives s x = Some ctx \<longrightarrow>
        (\<exists>c. sessions s sid = Some c \<and> (mIoType ctx = IO_RECV \<longrightarrow> offered ctx c)))"

lemma recv_ok_change:
  assumes "recv_ok X E s" and "receives s' = receives s" and "fresh s'" and "next_context s \<le> next_context s'"
    and "\<And>t c'. sessions s' t = Some c' \<Longrightarrow> cb_inv (wsRecvBuffer c') \<and> t < next_session s' \<and>
      (wsConnected c' \<longrightarrow> t \<in> E \<or> receiving s X t \<noteq> {})"
    and "\<And>t x ctx. x \<in> receiving s X t \<Longrightarrow> receives s x = Some ctx \<Longrightarrow>
      \<exists>c'. sessions s' t = Some c' \<and> (mIoType ctx = IO_RECV \<longrightarrow> offered ctx c')"
  shows "recv_ok X E s'"
proof -
  have rs: "receiving s' = receiving s" by (simp add: receiving_def fun_eq_iff assms(2))
  have "\<forall>x\<in>X. x < next_context s'" using assms(1,4) unfolding recv_ok_def by (meson less_le_trans)
  moreover have "\<forall>t. t \<in> E \<longrightarrow> receiving s X t = {}"
    "\<forall>t x y. x \<in> receiving s X t \<longrightarrow> y \<in> receiving s X t \<longrightarrow> x = y"
    using assms(1) unfolding recv_ok_def by blast+
  ultimately show ?thesis
    unfolding recv_ok_def rs assms(2) using assms(3,5,6) by blast
qed

lemma recv_okD:
  assumes "recv_ok X E s"
  shows "fresh s" and "sessions s t = Some c \<Longrightarrow> cb_inv (wsRecvBuffer c) \<and> t < next_session s \<and>
      (wsConnected c \<longrightarrow> t \<in> E \<or> receiving s X t \<noteq> {})"
    and "t \<in> E \<Longrightarrow> receiving s X t = {}"
    and "x \<in> receiving s X t \<Longrightarrow> receives s x = Some ctx \<Longrightarrow> \<exists>c. sessions s t = Some c \<and> (mIoType ctx = IO_RECV \<longrightarrow> offered ctx c)"
    and "x \<in> receiving s X t \<Longrightarrow> \<exists>c. sessions s t = Some c"
proof -
  note ok = assms [unfolded recv_ok_def]
  show "fresh s" "sessions s t = Some c \<Longrightarrow> cb_inv (wsRecvBuffer c) \<and> t < next_session s \<and>
      (wsConnected c \<longrightarrow> t \<in> E \<or> receiving s X t \<noteq> {})" "t \<in> E \<Longrightarrow> receiving s X t = {}" using ok by blast+
  show s: "\<exists>c. sessions s t = Some c \<and> (mIoType ctx = IO_RECV \<longrightarrow> offered ctx c)"
    if "x \<in> receiving s X t" "receives s x = Some ctx" for ctx
    using ok that by blast
  show "\<exists>c. sessions s t = Some c" if "x \<in> receiving s X t"
  proof -
    from that obtain ctx where "receives s x = Some ctx" by (auto simp: receiving_def)
    from s [OF that this] show ?thesis by blast
  qed
qed

text \<open>What the handlers of a session's packets may do.\<close>

lemma recv_ok_frame:
  assumes "recv_ok X E s" and "recv_frame s s'"
  shows "recv_ok X E s'"
proof (rule recv_ok_change [OF assms(1)])
  note f = assms(2) [unfolded recv_frame_def]
  show "receives s' = receives s" "fresh s'" "next_context s \<le> next_context s'" using f recv_okD(1) [OF assms(1)] by blast+
  show "cb_inv (wsRecvBuffer c') \<and> t < next_session s' \<and> (wsConnected c' \<longrightarrow> t \<in> E \<or> receiving s X t \<noteq> {})"
    if c: "sessions s' t = Some c'" for t c'
  proof -
    have "map_option wsRecvBuffer (sessions s' t) = map_option wsRecvBuffer (sessions s t)"
      using f by (simp add: same_recv_def)
    with c obtain d where d: "sessions s t = Some d" "wsRecvBuffer d = wsRecvBuffer c'"
      by (cases "sessions s t") auto
    with f c have "wsConnected c' \<longrightarrow> wsConnected d" "next_session s' = next_session s" by blast+
    with recv_okD(2) [OF assms(1) d(1)] d(2) show ?thesis by auto
  qed
  show "\<exists>c'. sessions s' t = Some c' \<and> (mIoType ctx = IO_RECV \<longrightarrow> offered ctx c')"
    if x: "x \<in> receiving s X t" "receives s x = Some ctx" for t x ctx
  proof -
    from recv_okD(4) [OF assms(1) x] obtain c where c: "sessions s t = Some c" "mIoType ctx = IO_RECV \<longrightarrow> offered ctx c"
      by blast
    from same_recvD [OF recv_frame_same [OF assms(2)] c(1)] c(2) show ?thesis by (auto simp: offered_def)
  qed
qed

lemma recv_ok_eq:
  fixes s t :: "'w win_server"
  assumes "sessions t = sessions s" and "contexts t = contexts s" and "next_context t = next_context s"
    and "next_session t = next_session s" and "recv_ok X E s"
  shows "recv_ok X E t"
  by (rule recv_ok_frame [OF assms(5) recv_frame_eq [OF assms(1-4)]])

lemma receiving_upd [simp]: "receiving (upd_session sid f s) X = receiving s X"
  by (simp add: receiving_def receives_def fun_eq_iff)

text \<open>While its receive is being handled, a session's buffer may change.\<close>

lemma receives_upd [simp]: "receives (upd_session sid f s) = receives s"
  by (simp add: receives_def fun_eq_iff)

lemma recv_ok_buffer:
  assumes "recv_ok X E s" and "sid \<in> E" and "\<And>c. sessions s sid = Some c \<Longrightarrow> cb_inv (f c)"
  shows "recv_ok X E (upd_session sid (\<lambda>c. c\<lparr>wsRecvBuffer := f c\<rparr>) s)" (is "recv_ok X E ?s")
proof (rule recv_ok_change [OF assms(1)])
  show "fresh ?s" using recv_okD(1) [OF assms(1)] by (simp add: fresh_def)
  show "cb_inv (wsRecvBuffer c') \<and> t < next_session ?s \<and> (wsConnected c' \<longrightarrow> t \<in> E \<or> receiving s X t \<noteq> {})"
    if "sessions ?s t = Some c'" for t c'
    using that assms(3) recv_okD(2) [OF assms(1), of t] assms(2) by (auto split: if_splits)
  show "\<exists>c'. sessions ?s t = Some c' \<and> (mIoType ctx = IO_RECV \<longrightarrow> offered ctx c')"
    if "x \<in> receiving s X t" "receives s x = Some ctx" for t x ctx
  proof -
    have "t \<noteq> sid" using that(1) recv_okD(3) [OF assms(1,2)] by auto
    with recv_okD(4) [OF assms(1) that] show ?thesis by simp
  qed
qed simp_all

section \<open>The handlers\<close>

lemma recv_ok_parse:
  assumes "WS_ParsePacket n sid s = Ok (r, s')" and "recv_ok X E s" and "sid \<in> E"
  shows "recv_ok X E s'"
proof -
  from assms(1) obtain c b where c: "sessions s sid = Some c" "Read n (wsRecvBuffer c) = Ok (r, b)"
      "s' = upd_session sid (\<lambda>c. c\<lparr>wsRecvBuffer := b\<rparr>) s"
    by (auto simp: WS_ParsePacket_def with_session_def split: option.splits)
  then have i: "cb_inv (wsRecvBuffer c)" using assms(2) by (simp add: recv_ok_def)
  have "cb_inv b"
    using Read_ok [OF i, of n] Read_short [OF i, of n] c(2) i by (cases "n \<le> length (contents (wsRecvBuffer c))") auto
  then show ?thesis unfolding c(3) by (intro recv_ok_buffer assms(2,3))
qed

lemma recv_ok_handler:
  assumes "win_HandlerTable e t sid s = Ok s'" and "recv_ok X E s" and "sid \<in> E"
  shows "recv_ok X E s'"
proof (cases "t \<in> pkt_value ` {PKT_CS_LOGIN, PKT_CS_EXIT, PKT_CS_CHAT, PKT_CS_MOVE}")
  case False
  with assms(1) have "WS_Disconnect e sid DR_ACTIVE s = Ok s'"
    by (simp add: win_HandlerTable_def win_DefaultHandler_def split: if_splits)
  then show ?thesis by (intro recv_ok_frame [OF assms(2)] recv_frames)
next
  case True
  with assms(1) obtain n r s1 where s1: "WS_ParsePacket n sid s = Ok (r, s1)" "recv_frame s1 s'"
    by (auto simp: win_HandlerTable_def win_Handler_PKT_CS_LOGIN_def win_Handler_PKT_CS_EXIT_def
        win_Handler_PKT_CS_CHAT_def win_Handler_PKT_CS_MOVE_def parsing_error_def
        split: option.splits dest!: recv_frames)
  show ?thesis by (rule recv_ok_frame [OF recv_ok_parse [OF s1(1) assms(2,3)] s1(2)])
qed

lemma recv_ok_on_read:
  assumes "PS_OnRead e sid s = Some (Ok s')" and "recv_ok X E s" and "sid \<in> E"
  shows "recv_ok X E s'"
proof -
  have "PS_OnRead e sid s = Some r \<Longrightarrow> (\<forall>s'. sid \<in> E \<longrightarrow> recv_ok X E s \<longrightarrow> r = Ok s' \<longrightarrow> recv_ok X E s')" for r
    by (rule PS_OnRead.raw_induct [of "\<lambda>e sid s r. \<forall>s'. sid \<in> E \<longrightarrow> recv_ok X E s \<longrightarrow> r = Ok s' \<longrightarrow> recv_ok X E s'"])
      (auto simp: Let_def split: option.splits outcome.splits if_splits
        intro: recv_ok_frame disconnect_recv dest!: recv_ok_handler [where X = X and E = E])
  with assms show ?thesis by blast
qed

section \<open>Posting\<close>

lemma recv_ok_post:
  assumes "recv_ok X {sid} s" and "sessions s sid = Some c" and "mIoType ctx \<noteq> IO_SEND" and "mSessionObject ctx = sid"
    and "mIoType ctx = IO_RECV \<Longrightarrow> offered ctx c"
  shows "recv_ok X {} (s\<lparr>contexts := (contexts s)(next_context s \<mapsto> ctx), next_context := Suc (next_context s), win_world := w\<rparr>)"
    (is "recv_ok X {} ?s")
proof -
  note ok = assms(1) [unfolded recv_ok_def]
  have n: "receives s (next_context s) = None" using ok by (simp add: fresh_def receives_def)
  have r: "receives ?s = (receives s)(next_context s \<mapsto> ctx)"
    using assms(3) by (auto simp: receives_def fun_eq_iff)
  have X: "next_context s \<notin> X" using ok by blast
  have e: "receiving s X sid = {}" using ok by simp
  have rs: "receiving ?s X t = (if t = sid then {next_context s} else receiving s X t)" for t
    using n X e assms(4) unfolding receiving_def r by auto
  have old: "x \<noteq> next_context s" if "x \<in> receiving s X t" for x t using that n by (auto simp: receiving_def)
  have "fresh ?s" using ok by (simp add: fresh_def)
  moreover have "\<forall>x\<in>X. x < Suc (next_context s)" using ok by (meson less_SucI)
  moreover have "\<exists>d. sessions s t = Some d \<and> (mIoType a = IO_RECV \<longrightarrow> offered a d)"
    if "x \<in> (if t = sid then {next_context s} else receiving s X t)" "((receives s)(next_context s \<mapsto> ctx)) x = Some a" for t x a
    using that ok assms(2,4,5) old by (auto split: if_splits)
  ultimately show ?thesis
    using ok unfolding recv_ok_def r rs by (auto split: if_splits)
qed

lemma recv_ok_skip:
  assumes "recv_ok X E s"
  shows "recv_ok X E (s\<lparr>contexts := (contexts s)(next_context s := None), next_context := Suc (next_context s), win_world := w\<rparr>)"
proof -
  have k: "(contexts s)(next_context s := None) = contexts s"
    using assms by (auto simp: recv_ok_def fresh_def)
  have "recv_frame s (s\<lparr>contexts := (contexts s)(next_context s := None), next_context := Suc (next_context s), win_world := w\<rparr>)"
    unfolding k by (simp add: recv_frame_def same_recv_def fresh_def receives_def fun_eq_iff)
  then show ?thesis by (rule recv_ok_frame [OF assms])
qed

lemma recv_ok_pre_recv:
  assumes "WS_PreRecv e sid s = Ok (r, s')" and "recv_ok X {sid} s"
  shows "recv_ok X (if r then {} else {sid}) s'"
proof (cases "\<exists>c. sessions s sid = Some c \<and> wsConnected c")
  case False
  with assms show ?thesis by (auto simp: WS_PreRecv_def with_session_def split: option.splits)
next
  case True
  then obtain c where c: "sessions s sid = Some c" "wsConnected c" by blast
  let ?ctx = "OverlappedPreRecvContext_new sid"
  have t: "mIoType ?ctx = IO_RECV_ZERO" "mSessionObject ?ctx = sid" by (simp_all add: OverlappedPreRecvContext_new_def)
  obtain wr w where wr: "wsa_recv e (wsSocket c) 0 (win_world s) = (wr, w)" by force
  let ?s1 = "s\<lparr>contexts := (contexts s)(next_context s \<mapsto> ?ctx), next_context := Suc (next_context s), win_world := w\<rparr>"
  let ?s3 = "s\<lparr>contexts := (contexts s)(next_context s := None), next_context := Suc (next_context s), win_world := w\<rparr>"
  show ?thesis
  proof (cases wr)
    case WsaStarted
    with assms(1) c wr have "r" "s' = ?s1"
      by (auto simp: WS_PreRecv_def with_session_def new_context_def Let_def)
    then show ?thesis using recv_ok_post [OF assms(2) c(1), of ?ctx w] t by simp
  next
    case (WsaError n)
    with assms(1) c wr t obtain x where "\<not> r" "win_print x ?s3 = Ok s'"
      by (auto simp: WS_PreRecv_def with_session_def new_context_def Let_def DeleteIoContext_new simp del: fun_upd_apply)
    then show ?thesis using recv_ok_frame [OF recv_ok_skip [OF assms(2)] print_recv] by simp
  qed
qed

lemma recv_ok_post_recv:
  assumes "WS_PostRecv e sid s = Ok (r, s')" and "recv_ok X {sid} s"
  shows "recv_ok X (if r then {} else {sid}) s'"
proof (cases "\<exists>c. sessions s sid = Some c \<and> wsConnected c")
  case False
  with assms show ?thesis by (auto simp: WS_PostRecv_def with_session_def split: option.splits)
next
  case True
  then obtain c where c: "sessions s sid = Some c" "wsConnected c" by blast
  then have inv: "cb_inv (wsRecvBuffer c)" using assms(2) by (simp add: recv_ok_def)
  let ?b = "snd (GetFreeSpaceSize (wsRecvBuffer c))"
  note sp = GetFreeSpaceSize_spec [OF inv]
  let ?s0 = "upd_session sid (\<lambda>c. c\<lparr>wsRecvBuffer := ?b\<rparr>) s"
  have twice: "upd_session sid (\<lambda>c. c\<lparr>wsRecvBuffer := ?b\<rparr>) ?s0 = ?s0"
    using c(1) by (simp add: upd_session_def)
  have ok: "recv_ok X {sid} ?s0" "sessions ?s0 sid = Some (c\<lparr>wsRecvBuffer := ?b\<rparr>)"
    using recv_ok_buffer [OF assms(2) singletonI, of "\<lambda>_. ?b"] sp(2) c(1) by simp_all
  let ?ctx = "(OverlappedRecvContext_new sid)\<lparr>mWsaLen := room (wsRecvBuffer c), mWsaBuf := Some (GetBuffer ?b)\<rparr>"
  have t: "mIoType ?ctx = IO_RECV" "mSessionObject ?ctx = sid" by (simp_all add: OverlappedRecvContext_new_def)
  have off: "offered ?ctx (c\<lparr>wsRecvBuffer := ?b\<rparr>)" using sp(5,8) by (simp add: offered_def)
  obtain wr w where wr: "wsa_recv e (wsSocket c) (room (wsRecvBuffer c)) (win_world s) = (wr, w)" by force
  let ?s1 = "?s0\<lparr>contexts := (contexts ?s0)(next_context ?s0 \<mapsto> ?ctx), next_context := Suc (next_context ?s0), win_world := w\<rparr>"
  let ?s3 = "?s0\<lparr>contexts := (contexts ?s0)(next_context ?s0 := None), next_context := Suc (next_context ?s0), win_world := w\<rparr>"
  have del: "DeleteIoContext (Some (next_context ?s0)) ?s1 = Ok ?s3"
    using DeleteIoContext_new [where s = ?s0 and ctx = ?ctx] t by (simp del: fun_upd_apply)
  have run: "WS_PostRecv e sid s = (if room (wsRecvBuffer c) = 0 then Ok (False, ?s0) else case wr of WsaStarted \<Rightarrow> Ok (True, ?s1)
      | WsaError _ \<Rightarrow> bnd (win_print (lit ''Session::PostRecv Error : '' @ fmt_d (last_error e (win_world ?s3)) @ lit ''\<newline>'') ?s3)
          (\<lambda>s4. Ok (False, s4)))"
    using c wr sp(1,7,8) del
    by (simp add: WS_PostRecv_def with_session_def new_context_def Let_def case_prod_beta twice
        del: fun_upd_apply split: wsa_result.splits)
  show ?thesis
    using assms(1) ok(1) recv_ok_post [OF ok, of ?ctx w] t off recv_ok_frame [OF recv_ok_skip [OF ok(1)] print_recv]
    unfolding run by (auto split: if_splits wsa_result.splits simp del: fun_upd_apply upd_session_simps)
qed

section \<open>Jobs\<close>

lemma recv_ok_delete:
  assumes "recv_ok {x} {} s" and "DeleteIoContext (Some x) s = Ok s'"
  shows "recv_ok {} {} s'"
proof -
  from assms(2) have s': "s' = s\<lparr>contexts := (contexts s)(x := None)\<rparr>"
    by (auto simp: DeleteIoContext_def split: option.splits if_splits)
  have r: "receives s' = (receives s)(x := None)" by (simp add: s' receives_def fun_eq_iff)
  have "receiving s' {} sid = receiving s {x} sid" for sid
    unfolding receiving_def r by auto
  moreover have "x \<notin> receiving s {x} sid" for sid by (simp add: receiving_def)
  moreover have "fresh s'" using assms(1) by (simp add: recv_ok_def fresh_def s')
  moreover have "sessions s' = sessions s" "next_session s' = next_session s" by (simp_all add: s')
  ultimately show ?thesis
    using assms(1) unfolding recv_ok_def r by (auto split: if_splits)
qed

lemma recv_ok_less: "recv_ok X {} s \<Longrightarrow> receiving s X sid = {} \<Longrightarrow> recv_ok X {sid} s"
  by (auto simp: recv_ok_def)

lemma recv_ok_off:
  assumes "recv_ok X {sid} s" and "\<And>c. sessions s sid = Some c \<Longrightarrow> \<not> wsConnected c"
  shows "recv_ok X {} s"
  using assms unfolding recv_ok_def by (simp add: ball_simps) metis

lemma recv_ok_disconnected:
  "WS_Disconnect e sid dr s = Ok s' \<Longrightarrow> recv_ok X {sid} s \<Longrightarrow> recv_ok X {} s'"
  by (rule recv_ok_off [OF recv_ok_frame [OF _ disconnect_recv]]) (auto dest: WS_Disconnect_off)

text \<open>A job takes its context from the port.\<close>

lemma job_takes:
  assumes "recv_ok {} {} s" and "contexts s x = Some ctx"
  shows "recv_ok {x} (if mIoType ctx = IO_SEND then {} else {mSessionObject ctx}) s"
    and "mIoType ctx \<noteq> IO_SEND \<Longrightarrow> \<exists>c. sessions s (mSessionObject ctx) = Some c \<and> (mIoType ctx = IO_RECV \<longrightarrow> offered ctx c)"
proof -
  note ok = assms(1) [unfolded recv_ok_def]
  have x: "x < next_context s" using ok assms(2) by (metis fresh_def not_less option.distinct(1))
  have sub: "receiving s {x} sid = receiving s {} sid - {x}" for sid by (auto simp: receiving_def)
  have mem: "x \<in> receiving s {} sid \<longleftrightarrow> mIoType ctx \<noteq> IO_SEND \<and> mSessionObject ctx = sid" for sid
    using assms(2) by (auto simp: receiving_def receives_def)
  have e: "receiving s {} sid - {x} = {}" if "mIoType ctx \<noteq> IO_SEND" "mSessionObject ctx = sid" for sid
    using ok that mem by blast
  have o: "receiving s {} sid - {x} = receiving s {} sid" if "\<not> (mIoType ctx \<noteq> IO_SEND \<and> mSessionObject ctx = sid)" for sid
    using mem that by blast
  show "recv_ok {x} (if mIoType ctx = IO_SEND then {} else {mSessionObject ctx}) s"
    unfolding recv_ok_def sub
  proof (intro conjI allI impI)
    fix sid c assume "sessions s sid = Some c" "wsConnected c"
    then have "receiving s {} sid \<noteq> {}" using ok by blast
    then show "sid \<in> (if mIoType ctx = IO_SEND then {} else {mSessionObject ctx}) \<or> receiving s {} sid - {x} \<noteq> {}"
      using o [of sid] by auto
  next
    fix sid assume "sid \<in> (if mIoType ctx = IO_SEND then {} else {mSessionObject ctx})"
    then show "receiving s {} sid - {x} = {}" by (intro e) (auto split: if_splits)
  qed (use ok x in blast)+
  show "\<exists>c. sessions s (mSessionObject ctx) = Some c \<and> (mIoType ctx = IO_RECV \<longrightarrow> offered ctx c)" if "mIoType ctx \<noteq> IO_SEND"
    using ok mem that assms(2) unfolding receives_def by force
qed

lemma committed_inv: "cb_inv b \<Longrightarrow> snd (GetFreeSpaceSize b) = b \<Longrightarrow> n \<le> room b \<Longrightarrow> cb_inv (Commit n b)"
  using GetFreeSpaceSize_spec(6) [of b]
  by (auto simp: Commit_def cb_inv_def room_def GetBuffer_def GetAFreeSpace_def split: option.splits if_splits)

lemma recv_ok_completion:
  assumes "WS_RecvCompletion e sid n s = Some (Ok s')" and "recv_ok X {sid} s" and "sessions s sid = Some c"
    and "offered ctx c" and "n \<le> mWsaLen ctx"
  shows "recv_ok X {sid} s'"
proof -
  have "cb_inv (Commit n (wsRecvBuffer c))"
    using assms(2-5) by (intro committed_inv) (simp_all add: recv_ok_def offered_def)
  then have "recv_ok X {sid} (upd_session sid (\<lambda>c. c\<lparr>wsRecvBuffer := Commit n (wsRecvBuffer c)\<rparr>) s)"
    using assms(3) by (intro recv_ok_buffer [OF assms(2)]) auto
  with assms(1) show ?thesis by (auto simp: WS_RecvCompletion_def intro: recv_ok_on_read)
qed

lemma guarded_recv:
  assumes "guarded_void l body s = Ok s'" and "\<And>t t'. body t = Ok t' \<Longrightarrow> recv_frame t t'"
  shows "recv_frame s s'"
proof -
  from assms(1) obtain t where t: "body (s\<lparr>locks := insert l (locks s)\<rparr>) = Ok t" "s' = t\<lparr>locks := locks t - {l}\<rparr>"
    by (auto simp: guarded_void_def guarded_def split: if_splits)
  have "recv_frame s t" by (rule recv_frame_from [OF assms(2) [OF t(1)]]) simp_all
  then show ?thesis unfolding t(2) by (rule recv_frame_trans) simp
qed

lemma completion_recv [recv_frames]:
  assumes "WS_SendCompletion e sid n s = Ok s'"
  shows "recv_frame s s'"
proof (rule guarded_recv [OF assms [unfolded WS_SendCompletion_def]])
  have u: "recv_frame t (upd_session sid (\<lambda>c. c\<lparr>wsSendBuffer := b, wsSendPendingCount := m\<rparr>) t)" for b m and t :: "'a win_server"
    by (rule recv_frame_upd) simp_all
  show "recv_frame t t'" if "with_session sid t (\<lambda>c. if \<not> 0 < wsSendPendingCount c then Fault CrashAssert
      else bnd (Remove n (wsSendBuffer c)) (\<lambda>b. let n = wsSendPendingCount c - 1;
          s1 = upd_session sid (\<lambda>c. c\<lparr>wsSendBuffer := b, wsSendPendingCount := n\<rparr>) t
        in if n \<noteq> 0 then Fault CrashAssert
           else if 0 < GetContiguiousBytes b then bnd (WS_FlushSend e sid s1) (\<lambda>(_, s2). Ok s2) else Ok s1)) = Ok t'"
    for t t'
    using that u
    by (auto simp: with_session_def Let_def split: option.splits if_splits intro: recv_frame_trans [OF u flush_recv])
qed

lemma recv_ok_job:
  assumes "recv_ok {} {} s" and "completed c = Some x" and "contexts s x = Some ctx"
    and "mIoType ctx = IO_RECV \<longrightarrow> dwTransferred c \<le> mWsaLen ctx" and "IOT_DoIocpJob e c s = Some (Ok s')"
  shows "recv_ok {} {} s'"
proof -
  let ?sid = "mSessionObject ctx"
  note st = job_takes [OF assms(1,3)]
  have "\<exists>s1. recv_ok {x} {} s1 \<and> DeleteIoContext (Some x) s1 = Ok s'"
  proof (cases "(ret c = 0 \<or> dwTransferred c = 0) \<and> (mIoType ctx = IO_RECV \<or> mIoType ctx = IO_SEND)")
    case True
    with assms(2,3,5) obtain s1 where s1: "WS_Disconnect e ?sid DR_COMPLETION_ERROR s = Ok s1" "DeleteIoContext (Some x) s1 = Ok s'"
      by (auto simp: IOT_DoIocpJob_def)
    have "recv_ok {x} {?sid} s \<or> recv_ok {x} {} s" using st(1) by (auto split: if_splits)
    then have "recv_ok {x} {} s1"
      using s1(1) by (auto intro: recv_ok_disconnected recv_ok_frame disconnect_recv)
    with s1(2) show ?thesis by blast
  next
    case False
    with assms(2,3,5) obtain ok s1 s2 where d: "IOT_dispatch e ?sid ctx (dwTransferred c) s = Some (Ok (ok, s1))"
      "(if ok then Ok s1 else WS_Disconnect e ?sid DR_IO_REQUEST_ERROR s1) = Ok s2" "DeleteIoContext (Some x) s2 = Ok s'"
      by (auto simp: IOT_DoIocpJob_def Let_def split: if_splits)
    have "recv_ok {x} (if ok then {} else {?sid}) s1 \<or> recv_ok {x} {} s1"
    proof (cases "mIoType ctx")
      case IO_SEND
      with d(1) have "recv_frame s s1"
        by (auto simp: IOT_dispatch_def split: if_splits intro: recv_frame_trans recv_frames)
      with st(1) IO_SEND show ?thesis by (auto intro: recv_ok_frame)
    next
      case IO_RECV
      with st obtain k where k: "recv_ok {x} {?sid} s" "sessions s ?sid = Some k" "offered ctx k" by auto
      from d(1) IO_RECV obtain t where "WS_RecvCompletion e ?sid (dwTransferred c) s = Some (Ok t)" "WS_PreRecv e ?sid t = Ok (ok, s1)"
        by (auto simp: IOT_dispatch_def)
      with k assms(4) IO_RECV show ?thesis by (blast intro: recv_ok_pre_recv recv_ok_completion)
    next
      case IO_RECV_ZERO
      with d(1) st(1) show ?thesis by (auto simp: IOT_dispatch_def dest: recv_ok_post_recv)
    qed (use d(1) in \<open>simp add: IOT_dispatch_def\<close>)
    then have "recv_ok {x} {} s2"
      using d(2) by (auto split: if_splits intro: recv_ok_disconnected recv_ok_frame disconnect_recv)
    with d(3) show ?thesis by blast
  qed
  then show ?thesis by (blast intro: recv_ok_delete)
qed

section \<open>New sessions and arriving bytes\<close>

lemma recv_ok_on_connect:
  assumes "WS_OnConnect e sid s = Ok (r, s')" and "recv_ok X {} s" and "receiving s X sid = {}"
  shows "recv_ok X (if r then {} else {sid}) s'"
proof -
  have on: "recv_ok X {sid} (upd_session sid (\<lambda>c. c\<lparr>wsConnected := True\<rparr>) t)"
    if "recv_frame s t" for t :: "'a win_server"
  proof -
    have t: "recv_ok X {} t" by (rule recv_ok_frame [OF assms(2) that])
    have "receiving t X sid = {}"
      using that assms(2,3) by (simp add: recv_ok_def recv_frame_def receiving_def)
    with t have "recv_ok X {sid} t" by (rule recv_ok_less)
    moreover have "receives (upd_session sid (\<lambda>c. c\<lparr>wsConnected := True\<rparr>) t) = receives t"
      by (simp add: receives_def fun_eq_iff)
    moreover have "offered ctx c \<Longrightarrow> offered ctx (c\<lparr>wsConnected := True\<rparr>)" for ctx c by (simp add: offered_def)
    ultimately show ?thesis
      unfolding recv_ok_def receiving_upd by (auto simp: fresh_def split: if_splits)
  qed
  from assms(1) obtain c where c: "sessions s sid = Some c" "LThreadType s = THREAD_MAIN"
    by (auto simp: WS_OnConnect_def with_session_def split: option.splits if_splits)
  let ?s1 = "upd_session sid (\<lambda>d. d\<lparr>wsClientAddr := win_peer e (wsSocket c) (win_world s)\<rparr>) s"
  define s4 where "s4 = snd (win_do e (WinRcvBufZero (wsSocket c)) (snd (win_do e (WinNoDelay (wsSocket c))
    (snd (win_do e (WinNonBlocking (wsSocket c)) ?s1)))))"
  define s5 where "s5 = snd (win_do e (AssociatePort (wsSocket c) (imCompletionPort s4)) s4)"
  have "recv_frame s ?s1" by (rule recv_frame_upd) simp_all
  then have fr: "recv_frame s s4" "recv_frame s s5"
    by (rule recv_frame_trans; simp add: s5_def s4_def)+
  from assms(1) c have "(\<exists>x. \<not> r \<and> win_print x s4 = Ok s') \<or> (\<exists>x. \<not> r \<and> win_print x s5 = Ok s') \<or>
      (\<exists>x s6. win_print x (upd_session sid (\<lambda>c. c\<lparr>wsConnected := True\<rparr>) s5) = Ok s6 \<and> WS_PreRecv e sid s6 = Ok (r, s'))"
    unfolding s5_def s4_def
    by (auto simp: WS_OnConnect_def with_session_def Let_def case_prod_beta split: if_splits)
  then consider t x where "\<not> r" "recv_frame s t" "win_print x t = Ok s'"
    | x s6 where "win_print x (upd_session sid (\<lambda>c. c\<lparr>wsConnected := True\<rparr>) s5) = Ok s6" "WS_PreRecv e sid s6 = Ok (r, s')"
    using fr by blast
  then show ?thesis
  proof cases
    case 1
    then have f: "recv_frame s s'" by (blast intro: recv_frame_trans print_recv)
    then have "receiving s' X sid = {}"
      using assms(2,3) by (simp add: recv_ok_def recv_frame_def receiving_def)
    with recv_ok_frame [OF assms(2) f] 1(1) show ?thesis by (simp add: recv_ok_less)
  next
    case 2
    from recv_ok_frame [OF on [OF fr(2)] print_recv [OF 2(1)]] 2(2) show ?thesis by (rule recv_ok_pre_recv [rotated])
  qed
qed

lemma recv_ok_accept:
  assumes "IM_accept e s = Ok s'" and "recv_ok X {} s"
  shows "recv_ok X {} s'"
proof -
  let ?a = "win_do e (WinAccept (imListenSocket s)) s"
  have a: "recv_ok X {} (snd ?a)" by (rule recv_ok_eq [OF _ _ _ _ assms(2)]) simp_all
  show ?thesis
  proof (cases "fst ?a = - 1")
    case True
    with assms(1) show ?thesis by (auto simp: IM_accept_def case_prod_beta intro: recv_ok_frame [OF a] print_recv)
  next
    case False
    let ?t = "snd ?a" and ?n = "next_session (snd ?a)"
    define s2 where "s2 = ?t\<lparr>sessions := (sessions ?t)(?n \<mapsto> WS_new (fst ?a)), next_session := ?n + 1\<rparr>"
    have r: "receives s2 = receives ?t" by (simp add: s2_def receives_def fun_eq_iff)
    then have rs: "receiving s2 = receiving ?t" by (simp add: receiving_def fun_eq_iff)
    have new: "sessions ?t ?n = None" using recv_okD(2) [OF a, of ?n] by (metis less_irrefl not_None_eq)
    have none: "receiving ?t X ?n = {}" using recv_okD(5) [OF a, of _ ?n] new by auto
    have ok: "recv_ok X {} s2"
    proof (rule recv_ok_change [OF a r])
      show "fresh s2" "next_context ?t \<le> next_context s2"
        using recv_okD(1) [OF a] by (simp_all add: s2_def fresh_def)
      have "cb_inv (wsRecvBuffer (WS_new k))" "\<not> wsConnected (WS_new k)" for k
        by (simp_all add: WS_new_def CLIENT_BUFSIZE_def CircularBuffer_new_spec)
      then show "cb_inv (wsRecvBuffer c) \<and> t < next_session s2 \<and> (wsConnected c \<longrightarrow> t \<in> {} \<or> receiving ?t X t \<noteq> {})"
        if "sessions s2 t = Some c" for t c
        using that recv_okD(2) [OF a, of t c] by (auto simp: s2_def less_SucI split: if_splits)
      show "\<exists>c. sessions s2 t = Some c \<and> (mIoType ctx = IO_RECV \<longrightarrow> offered ctx c)"
        if "x \<in> receiving ?t X t" "receives ?t x = Some ctx" for t x ctx
        using recv_okD(4) [OF a that] that(1) none by (auto simp: s2_def)
    qed
    have "bnd (WS_OnConnect e ?n s2) (\<lambda>(ok, s3). if ok then Ok s3 else WS_Disconnect e ?n DR_ONCONNECT_ERROR s3) = Ok s'"
      using assms(1) False by (simp add: IM_accept_def case_prod_beta Let_def s2_def del: bnd_eq_Ok)
    then obtain g s3 where g: "WS_OnConnect e ?n s2 = Ok (g, s3)"
        "(if g then Ok s3 else WS_Disconnect e ?n DR_ONCONNECT_ERROR s3) = Ok s'"
      by auto
    then show ?thesis
      using recv_ok_on_connect [OF g(1) ok] none by (auto simp: rs split: if_splits intro: recv_ok_disconnected)
  qed
qed

text \<open>Only the bytes of the allocation change when the kernel stores what has arrived.\<close>

lemma stored_buffer:
  assumes "length m = length (mBuffer b)"
  shows "cb_inv (b\<lparr>mBuffer := m\<rparr>) = cb_inv b" and "room (b\<lparr>mBuffer := m\<rparr>) = room b"
    and "GetBuffer (b\<lparr>mBuffer := m\<rparr>) = GetBuffer b"
    and "snd (GetFreeSpaceSize b) = b \<Longrightarrow> snd (GetFreeSpaceSize (b\<lparr>mBuffer := m\<rparr>)) = b\<lparr>mBuffer := m\<rparr>"
proof -
  show "cb_inv (b\<lparr>mBuffer := m\<rparr>) = cb_inv b" "room (b\<lparr>mBuffer := m\<rparr>) = room b" "GetBuffer (b\<lparr>mBuffer := m\<rparr>) = GetBuffer b"
    using assms by (simp_all add: cb_inv_def room_def GetBuffer_def GetAFreeSpace_def GetSpaceBeforeA_def
        GetBFreeSpace_def cong: option.case_cong)
  have "mBRegionPointer (AllocateB b) = Some 0" by (simp add: AllocateB_def)
  then have "snd (GetFreeSpaceSize b) = b \<Longrightarrow> mBRegionPointer b \<noteq> None \<or> \<not> GetAFreeSpace b < GetSpaceBeforeA b"
    by (auto simp: GetFreeSpaceSize_def Let_def split: if_splits)
  then show "snd (GetFreeSpaceSize b) = b \<Longrightarrow> snd (GetFreeSpaceSize (b\<lparr>mBuffer := m\<rparr>)) = b\<lparr>mBuffer := m\<rparr>"
    using assms by (auto simp: GetFreeSpaceSize_def GetAFreeSpace_def GetSpaceBeforeA_def)
qed

lemma recv_ok_bytes:
  assumes "kernel_receive x d s = Ok s'" and "recv_ok X {} s"
  shows "recv_ok X {} s'"
proof -
  from assms(1) obtain t c p m where c: "sessions s t = Some c" "mem_write p d (mBuffer (wsRecvBuffer c)) = Ok m"
    "s' = upd_session t (\<lambda>c. c\<lparr>wsRecvBuffer := (wsRecvBuffer c)\<lparr>mBuffer := m\<rparr>\<rparr>) s"
    by (auto simp: kernel_receive_def with_session_def split: option.splits)
  from c(2) have l: "length m = length (mBuffer (wsRecvBuffer c))" by (auto simp: mem_write_def split: if_splits)
  have off: "offered ctx c \<Longrightarrow> offered ctx (c\<lparr>wsRecvBuffer := (wsRecvBuffer c)\<lparr>mBuffer := m\<rparr>\<rparr>)" for ctx
    using stored_buffer [OF l] by (simp add: offered_def)
  show ?thesis
  proof (rule recv_ok_change [OF assms(2)])
    show "receives s' = receives s" "fresh s'" "next_context s \<le> next_context s'"
      using recv_okD(1) [OF assms(2)] by (simp_all add: c(3) fresh_def)
    show "cb_inv (wsRecvBuffer c') \<and> u < next_session s' \<and> (wsConnected c' \<longrightarrow> u \<in> {} \<or> receiving s X u \<noteq> {})"
      if "sessions s' u = Some c'" for u c'
      using that recv_okD(2) [OF assms(2), of u] stored_buffer(1) [OF l] c(1) by (auto simp: c(3) split: if_splits)
    show "\<exists>c'. sessions s' u = Some c' \<and> (mIoType ctx = IO_RECV \<longrightarrow> offered ctx c')"
      if "x \<in> receiving s X u" "receives s x = Some ctx" for u x ctx
      using recv_okD(4) [OF assms(2) that] c(1) off by (auto simp: c(3))
  qed
qed

section \<open>The running server\<close>

text \<open>The steps of the server, with a kernel that stores and reports no more bytes than a request has room for.\<close>

definition within_request :: "'w win_server \<Rightarrow> completion \<Rightarrow> bool" where
  "within_request s c \<longleftrightarrow> (\<forall>x ctx. completed c = Some x \<longrightarrow> contexts s x = Some ctx \<longrightarrow> mIoType ctx = IO_RECV \<longrightarrow>
     dwTransferred c \<le> mWsaLen ctx)"

inductive win_io :: "'w win_env \<Rightarrow> 'w win_server \<Rightarrow> 'w win_server \<Rightarrow> bool" for e where
  io_accept: "IM_accept e s = Ok s' \<Longrightarrow> win_io e s s'"
| io_job: "IOT_DoIocpJob e c s = Some (Ok s') \<Longrightarrow> within_request s c \<Longrightarrow> win_io e s s'"
| io_bytes: "kernel_receive x d s = Ok s' \<Longrightarrow> \<forall>ctx. contexts s x = Some ctx \<longrightarrow> length d \<le> mWsaLen ctx \<Longrightarrow> win_io e s s'"
| io_start: "WGL_OnStartGameSession e s = Ok s' \<Longrightarrow> win_io e s s'"
| io_terminate: "WGL_OnProcessTerminate e s = Ok s' \<Longrightarrow> win_io e s s'"

inductive_cases win_ioE: "win_io e s s'"

lemma service_recv [recv_frames]:
  "WGL_OnStartGameSession e s = Ok s' \<Longrightarrow> recv_frame s s'"
  "WGL_OnProcessTerminate e s = Ok s' \<Longrightarrow> recv_frame s s'"
proof -
  show "recv_frame s s'" if "WGL_OnStartGameSession e s = Ok s'"
    by (rule guarded_recv [OF that [unfolded WGL_OnStartGameSession_def]])
      (erule recv_frame_from [OF print_recv], simp_all)
  show "recv_frame s s'" if "WGL_OnProcessTerminate e s = Ok s'"
    by (rule guarded_recv [OF that [unfolded WGL_OnProcessTerminate_def]])
      (auto simp: Let_def WGL_TerminateGameSession_def exit_process_def split: if_splits)
qed

lemma win_io_keeps:
  assumes "recv_ok {} {} s" and "win_io e s s'"
  shows "recv_ok {} {} s'"
  using assms(2)
proof (cases rule: win_io.cases)
  case (io_job c)
  show ?thesis
  proof (cases "completed c")
    case None
    with io_job(1) have "s' = s" by (auto simp: IOT_DoIocpJob_def split: if_splits)
    with assms(1) show ?thesis by simp
  next
    case (Some x)
    with io_job(1) obtain ctx where "contexts s x = Some ctx"
      by (auto simp: IOT_DoIocpJob_def split: option.splits if_splits)
    with Some io_job show ?thesis by (intro recv_ok_job [OF assms(1)]) (auto simp: within_request_def)
  qed
qed (use assms(1) in \<open>blast intro: recv_ok_accept recv_ok_bytes recv_ok_frame recv_frames\<close>)+

lemma recv_ok_init: "no_clients s \<Longrightarrow> recv_ok {} {} s"
  by (simp add: recv_ok_def no_clients_def receiving_def receives_def fresh_def)

interpretation posted: invariant_system "win_started e" "win_io e" "recv_ok {} {}" for e :: "'w win_env"
  by unfold_locales (auto intro: recv_ok_init started_idle(1) elim: win_io_keeps)

lemma posted_request:
  assumes "recv_ok {} {} s" and "sessions s sid = Some c" and "x \<in> receiving s {} sid" and "contexts s x = Some ctx"
    and "mIoType ctx = IO_RECV" and "length d \<le> mWsaLen ctx"
  shows "kernel_receive x d s = Ok (arrived sid d s)" and "cb_inv (wsRecvBuffer c)"
    and "snd (GetFreeSpaceSize (wsRecvBuffer c)) = wsRecvBuffer c" and "length d \<le> room (wsRecvBuffer c)"
proof -
  show inv: "cb_inv (wsRecvBuffer c)" using recv_okD(2) [OF assms(1,2)] by blast
  have k: "receives s x = Some ctx" using assms(4,5) by (simp add: receives_def)
  have off: "offered ctx c" using recv_okD(4) [OF assms(1,3) k] assms(2,5) by auto
  then show b: "snd (GetFreeSpaceSize (wsRecvBuffer c)) = wsRecvBuffer c" "length d \<le> room (wsRecvBuffer c)"
    using assms(6) by (simp_all add: offered_def)
  have "GetBuffer (wsRecvBuffer c) + length d \<le> length (mBuffer (wsRecvBuffer c))"
    using GetFreeSpaceSize_spec(5,6) [OF inv] b by simp
  moreover have "mSessionObject ctx = sid" using assms(3) k by (simp add: receiving_def)
  ultimately show "kernel_receive x d s = Ok (arrived sid d s)"
    using assms(2,4) off by (simp add: kernel_receive_def with_session_def offered_def mem_write_def arrived_def upd_session_def)
qed

lemma arrived_contents:
  assumes "cb_inv b" and "snd (GetFreeSpaceSize b) = b" and "length d \<le> room b"
  shows "contents (b\<lparr>mBuffer := overwrite (GetBuffer b) d (mBuffer b)\<rparr>) = contents b"
proof -
  have "GetBuffer b + length d \<le> length (mBuffer b)" using GetFreeSpaceSize_spec(5,6) [OF assms(1)] assms(2,3) by simp
  moreover have "length d + mBRegionSize b \<le> mARegionPointer b" if "mBRegionPointer b = Some p" for p
    using assms(1,3) that by (auto simp: room_def cb_inv_def)
  ultimately show ?thesis
    using assms(1) by (cases "mBRegionPointer b") (auto simp: GetBuffer_def contents_def cb_inv_def region slice_split)
qed

text \<open>C8. No session of the Windows server stops listening, and none listens twice: from the server's start in \<^verbatim>\<open>main\<close> on, whatever the clients, the
  kernel and the service do, a session has at most one request to receive in flight, and a connected one has
  exactly one. The region given to the kernel is free space of the session's receive buffer for as long as the
  request is in flight: what arrives there leaves the unread bytes as they are.\<close>

theorem receive_discipline:
  assumes "reach (win_started e) (win_io e) s" and "sessions s sid = Some c"
  shows "card (receiving s {} sid) \<le> 1 \<and> (wsConnected c \<longrightarrow> card (receiving s {} sid) = 1) \<and>
    (\<forall>x ctx d. x \<in> receiving s {} sid \<longrightarrow> contexts s x = Some ctx \<longrightarrow> mIoType ctx = IO_RECV \<longrightarrow> length d \<le> mWsaLen ctx \<longrightarrow>
      (\<exists>s' c'. kernel_receive x d s = Ok s' \<and> sessions s' sid = Some c' \<and>
        contents (wsRecvBuffer c') = contents (wsRecvBuffer c)))"
proof -
  have ok: "recv_ok {} {} s" by (rule posted.inv_reach [OF assms(1)])
  have one: "receiving s {} sid = {x}" if "x \<in> receiving s {} sid" for x
    using ok that unfolding recv_ok_def by blast
  have "card (receiving s {} sid) \<le> 1 \<and> (wsConnected c \<longrightarrow> card (receiving s {} sid) = 1)"
  proof (cases "receiving s {} sid = {}")
    case True
    with recv_okD(2) [OF ok assms(2)] show ?thesis by simp
  next
    case False
    then obtain x where "x \<in> receiving s {} sid" by blast
    from one [OF this] show ?thesis by simp
  qed
  moreover have "\<exists>s' c'. kernel_receive x d s = Ok s' \<and> sessions s' sid = Some c' \<and>
      contents (wsRecvBuffer c') = contents (wsRecvBuffer c)"
    if "x \<in> receiving s {} sid" "contexts s x = Some ctx" "mIoType ctx = IO_RECV" "length d \<le> mWsaLen ctx" for x ctx d
    using posted_request [OF ok assms(2) that] arrived_contents assms(2) by (auto simp: arrived_def)
  ultimately show ?thesis by blast
qed

text \<open>C7. Every byte that arrives is served: in every state that the server can reach after its start in \<^verbatim>\<open>main\<close>, when the kernel stores
  bytes for a request and the request completes, \<^verbatim>\<open>RecvCompletion\<close> ends with the result of handling
  exactly the messages that are complete now in the client's stream, each once and in order; unless a handler
  faults, the beginning of the next one stays in the buffer.\<close>

theorem arriving_bytes_served:
  assumes "reach (win_started e) (win_io e) s" and "sessions s sid = Some c"
    and "x \<in> receiving s {} sid" and "contexts s x = Some ctx" and "mIoType ctx = IO_RECV"
    and "length d \<le> mWsaLen ctx" and "contents (wsRecvBuffer c) @ d = stream ms @ t"
    and "\<forall>m\<in>set ms. wf_msg m" and "incomplete t"
  shows "\<exists>s1. kernel_receive x d s = Ok s1 \<and>
    WS_RecvCompletion e sid (length d) s1 = Some (win_serve e sid ms (committed (length d) sid s1)) \<and>
    (\<forall>s'. win_serve e sid ms (committed (length d) sid s1) = Ok s' \<longrightarrow> holding s' sid t)"
proof -
  note pr = posted_request [OF posted.inv_reach [OF assms(1)] assms(2-6)]
  have "holding (committed (length d) sid (arrived sid d s)) sid (stream ms @ t)"
    using committed_holds [OF assms(2) pr(2-4)] assms(7) by simp
  from on_read_serves [OF this assms(8,9), of e] pr(1) show ?thesis
    by (simp add: WS_RecvCompletion_def committed_def)
qed

text \<open>The first client connects; its socket becomes readable, and the read is posted.\<close>

lemma first_read:
  "\<exists>s c ctx. reach (win_started win_quiet) (win_io win_quiet) s \<and> sessions s 0 = Some c \<and> wsConnected c \<and>
     contexts s 1 = Some ctx \<and> mIoType ctx = IO_RECV \<and> mSessionObject ctx = 0 \<and> mWsaLen ctx = CLIENT_BUFSIZE \<and>
     contents (wsRecvBuffer c) = []"
proof -
  obtain s0 :: "unit win_server" where s0: "win_started win_quiet s0" using quiet_start by blast
  note idle = started_idle(1) [OF s0, unfolded no_clients_def]
  have "case IM_accept win_quiet s0 of Ok s \<Rightarrow> sessions s 0 = Some ((WS_new 5)\<lparr>wsConnected := True, wsClientAddr := ((127, 0, 0, 1), 4000)\<rparr>) \<and>
      contexts s 0 = Some (OverlappedPreRecvContext_new 0) \<and> next_context s = 1 | Fault f \<Rightarrow> False"
    using length_inet_ntoa [of "(127, 0, 0, 1)"] length_decimal_port [of 4000]
    by (simp add: idle IM_accept_def win_do_def win_quiet_def WS_OnConnect_def with_session_def
        upd_session_def win_print_run WS_PreRecv_def new_context_def OverlappedPreRecvContext_new_def WS_new_def Let_def
        del: bnd_eq_Ok)
  then obtain s where s: "IM_accept win_quiet s0 = Ok s" "contexts s 0 = Some (OverlappedPreRecvContext_new 0)" "next_context s = 1"
    "sessions s 0 = Some ((WS_new 5)\<lparr>wsConnected := True, wsClientAddr := ((127, 0, 0, 1), 4000)\<rparr>)"
    by (auto split: outcome.splits)
  let ?c = "\<lparr>ret = 1, dwTransferred = 0, completed = Some 0, timed_out = False\<rparr>"
  have b: "cb_inv (CircularBuffer_new CLIENT_BUFSIZE [])" "contents (CircularBuffer_new CLIENT_BUFSIZE []) = []"
    "room (CircularBuffer_new CLIENT_BUFSIZE []) = CLIENT_BUFSIZE" "CLIENT_BUFSIZE \<noteq> 0"
    by (simp_all add: CLIENT_BUFSIZE_def CircularBuffer_new_spec)
  have "case IOT_DoIocpJob win_quiet ?c s of Some (Ok t) \<Rightarrow> (\<exists>c ctx. sessions t 0 = Some c \<and> wsConnected c \<and>
     contexts t 1 = Some ctx \<and> mIoType ctx = IO_RECV \<and> mSessionObject ctx = 0 \<and> mWsaLen ctx = CLIENT_BUFSIZE \<and>
     contents (wsRecvBuffer c) = []) | _ \<Rightarrow> False"
    using s(2-4) b GetFreeSpaceSize_spec [OF b(1)]
    by (simp add: IOT_DoIocpJob_def IOT_dispatch_def OverlappedPreRecvContext_new_def WS_PostRecv_def with_session_def
        WS_new_def case_prod_beta Let_def new_context_def win_quiet_def DeleteIoContext_def OverlappedRecvContext_new_def
        del: bnd_eq_Ok)
  then obtain t where t: "IOT_DoIocpJob win_quiet ?c s = Some (Ok t)" "\<exists>c ctx. sessions t 0 = Some c \<and> wsConnected c \<and>
     contexts t 1 = Some ctx \<and> mIoType ctx = IO_RECV \<and> mSessionObject ctx = 0 \<and> mWsaLen ctx = CLIENT_BUFSIZE \<and>
     contents (wsRecvBuffer c) = []"
    by (auto split: option.splits outcome.splits)
  have "reach (win_started win_quiet) (win_io win_quiet) s0"
    by (rule reach_init) (rule s0)
  then have "reach (win_started win_quiet) (win_io win_quiet) s" by (rule reach_step) (rule io_accept [OF s(1)])
  then have "reach (win_started win_quiet) (win_io win_quiet) t"
    by (rule reach_step) (rule io_job [OF t(1)], simp add: within_request_def s(2) OverlappedPreRecvContext_new_def)
  with t(2) show ?thesis by blast
qed

lemma receive_discipline_witness:
  "\<exists>s c. reach (win_started win_quiet) (win_io win_quiet) s \<and> sessions s 0 = Some c \<and> wsConnected c \<and>
     card (receiving s {} 0) = 1"
  using first_read receive_discipline [of win_quiet _ 0] by blast

lemma arriving_bytes_served_witness:
  "\<exists>s s1. reach (win_started win_quiet) (win_io win_quiet) s \<and>
     kernel_receive 1 (msg_bytes (MMove MoveRequest_new) @ [16, 0, 31]) s = Ok s1 \<and>
     WS_RecvCompletion win_quiet 0 19 s1 = Some (win_serve win_quiet 0 [MMove MoveRequest_new] (committed 19 0 s1))"
proof -
  let ?d = "msg_bytes (MMove MoveRequest_new) @ [16, 0, 31]"
  obtain s c ctx where s: "reach (win_started win_quiet) (win_io win_quiet) s" "sessions s 0 = Some c"
    "contexts s 1 = Some ctx" "mIoType ctx = IO_RECV" "mSessionObject ctx = 0" "mWsaLen ctx = CLIENT_BUFSIZE"
    "contents (wsRecvBuffer c) = []"
    using first_read by blast
  have x: "1 \<in> receiving s {} 0" using s(3-5) by (simp add: receiving_def receives_def)
  have wf: "\<forall>m\<in>set [MMove MoveRequest_new]. wf_msg m" by (simp add: packet_new_defs)
  have d: "length ?d \<le> mWsaLen ctx" "contents (wsRecvBuffer c) @ ?d = stream [MMove MoveRequest_new] @ [16, 0, 31]"
    "incomplete [16, 0, 31]" "length ?d = 19"
    unfolding s(6,7) by (simp_all add: CLIENT_BUFSIZE_def incomplete_def sizeof_defs)
  from arriving_bytes_served [OF s(1,2) x s(3,4) d(1,2) wf d(3), unfolded d(4)] s(1) show ?thesis by blast
qed

end
