(* ===== verification/WinTimer.thy ===== *)
theory WinTimer
  imports Scheduling
begin

text \<open>
  \<^verbatim>\<open>Timer\<close> of the Windows server (\<^verbatim>\<open>GameLiftGameServer/Timer.cpp\<close>), one
  per I/O thread. A task is an identifier and \<^verbatim>\<open>exec\<close> what running it does to the timer and
  to the rest of the state. The server itself gives its timers no task, so a pass only takes the tick.
\<close>

record 'a win_timer =
  wtTimerJobQueue :: "'a JobElement list"
  wLTickCount :: int

definition WinTimer_new :: "int \<Rightarrow> 'a win_timer" where
  "WinTimer_new tick = \<lparr>wtTimerJobQueue = [], wLTickCount = tick\<rparr>"

definition WT_PushTimerJob :: "bool \<Rightarrow> nat \<Rightarrow> 'a \<Rightarrow> nat \<Rightarrow> 'a win_timer \<Rightarrow> 'a win_timer outcome" where
  "WT_PushTimerJob in_io_worker owner task after t =
     (if \<not> in_io_worker then Fault CrashAssert
      else Ok (t\<lparr>wtTimerJobQueue := push_after pq_push owner task after (wLTickCount t) (wtTimerJobQueue t)\<rparr>))"

definition WT_DoTimerJob ::
  "('a \<Rightarrow> 'a win_timer \<times> 's \<Rightarrow> ('a win_timer \<times> 's) outcome) \<Rightarrow> int \<Rightarrow>
   'a win_timer \<times> 's \<Rightarrow> ('a win_timer \<times> 's) outcome option" where
  "WT_DoTimerJob exec tick ts =
     run_due (\<lambda>(t, s). wtTimerJobQueue t) (\<lambda>q (t, s). (t\<lparr>wtTimerJobQueue := q\<rparr>, s)) pq_top pq_pop exec tick
       (case ts of (t, s) \<Rightarrow> (t\<lparr>wLTickCount := tick\<rparr>, s))"

section \<open>A pass\<close>

text \<open>
  Tasks that push nothing, and whose effect on the rest of the state is \<^verbatim>\<open>f\<close>: a pass ends, and
  has applied \<^verbatim>\<open>f\<close> to each due task once, in the order of their ticks.
\<close>

lemma WT_DoTimerJob_runs_due:
  assumes "pq_inv (wtTimerJobQueue t)" and "\<And>a t s. exec a (t, s) = Ok (t, f a s)"
  shows "\<exists>q jobs. WT_DoTimerJob exec tick (t, s) =
      Some (Ok (\<lparr>wtTimerJobQueue = q, wLTickCount = tick\<rparr>, fold f (map mTask jobs) s)) \<and>
    mset jobs = due tick (mset (wtTimerJobQueue t)) \<and> sorted (map mExecutionTick jobs) \<and>
    mset q = pending tick (mset (wtTimerJobQueue t)) \<and> pq_inv q"
proof -
  let ?get = "\<lambda>(t :: 'a win_timer, s :: 'b). wtTimerJobQueue t"
  let ?set = "\<lambda>q (t :: 'a win_timer, s :: 'b). (t\<lparr>wtTimerJobQueue := q\<rparr>, s)"
  let ?ts = "(t\<lparr>wLTickCount := tick\<rparr>, s)"
  have getset: "?get (?set q ts) = q" for q ts by (cases ts) simp
  have inv0: "pq_inv (?get ?ts)" using assms(1) by simp
  have "\<exists>s' jobs. run_due ?get ?set pq_top pq_pop exec tick ?ts = Some (Ok s') \<and>
     run_list (\<lambda>s. ?set (pq_pop (?get s)) s) exec (map mTask jobs) ?ts = Ok s' \<and>
     mset jobs = due tick (mset (?get ?ts)) \<and> sorted (map mExecutionTick jobs) \<and>
     mset (?get s') = pending tick (mset (?get ?ts)) + mset (concat (map ((\<lambda>_. []) \<circ> mTask) jobs)) \<and>
     pq_inv (?get s') \<and> wLTickCount (fst s') = tick"
    by (rule pq.run_due_spec [where I = "\<lambda>s'. wLTickCount (fst s') = tick", OF inv0 _ getset])
      (auto simp: assms(2) split: prod.splits)
  then obtain s' jobs where r: "run_due ?get ?set pq_top pq_pop exec tick ?ts = Some (Ok s')"
    "run_list (\<lambda>s. ?set (pq_pop (?get s)) s) exec (map mTask jobs) ?ts = Ok s'"
    "mset jobs = due tick (mset (wtTimerJobQueue t))" "sorted (map mExecutionTick jobs)"
    "mset (?get s') = pending tick (mset (wtTimerJobQueue t))" "pq_inv (?get s')" "wLTickCount (fst s') = tick"
    by (auto simp: comp_def)
  have "snd s'' = fold f (map mTask js) (snd ts)"
    if "run_list (\<lambda>s. ?set (pq_pop (?get s)) s) exec (map mTask js) ts = Ok s''" for js ts s''
    using that by (induction js arbitrary: ts) (auto simp: assms(2) split: prod.splits)
  from this [OF r(2)] have "s' = (\<lparr>wtTimerJobQueue = ?get s', wLTickCount = tick\<rparr>, fold f (map mTask jobs) s)"
    using r(7) by (cases s') (auto intro: win_timer.equality)
  with r show ?thesis
    by (intro exI [of _ "?get s'"] exI [of _ jobs]) (simp add: WT_DoTimerJob_def)
qed

end
