(* ===== verification/WinThread.thy ===== *)
theory WinThread
  imports WinPosted WinTimer
begin

text \<open>
  The loop of an I/O thread of the Windows server (\<^verbatim>\<open>IOThread::Run\<close>, \<^verbatim>\<open>IoWorkerThread\<close>):
  a completion, then a pass of the thread's timer; and the end of \<^verbatim>\<open>main\<close>. A turn is given by what the
  port delivers and what the clock shows.
\<close>

definition IOT_DoTimerJob ::
  "('a \<Rightarrow> 'a win_timer \<times> 'w win_server \<Rightarrow> ('a win_timer \<times> 'w win_server) outcome) \<Rightarrow> int \<Rightarrow>
   'a win_timer \<times> 'w win_server \<Rightarrow> ('a win_timer \<times> 'w win_server) outcome option" where
  "IOT_DoTimerJob = WT_DoTimerJob"

definition IOT_Run_turn ::
  "'w win_env \<Rightarrow> ('a \<Rightarrow> 'a win_timer \<times> 'w win_server \<Rightarrow> ('a win_timer \<times> 'w win_server) outcome) \<Rightarrow>
   completion \<times> int \<Rightarrow> 'a win_timer \<times> 'w win_server \<Rightarrow> ('a win_timer \<times> 'w win_server) outcome option" where
  "IOT_Run_turn e exec turn ts =
     (case (turn, ts) of ((c, tick), (t, s)) \<Rightarrow>
      case IOT_DoIocpJob e c s of
        None \<Rightarrow> None
      | Some (Fault f) \<Rightarrow> Some (Fault f)
      | Some (Ok s1) \<Rightarrow> IOT_DoTimerJob exec tick (t, s1))"

fun IOT_Run ::
  "'w win_env \<Rightarrow> ('a \<Rightarrow> 'a win_timer \<times> 'w win_server \<Rightarrow> ('a win_timer \<times> 'w win_server) outcome) \<Rightarrow>
   (completion \<times> int) list \<Rightarrow> 'a win_timer \<times> 'w win_server \<Rightarrow> ('a win_timer \<times> 'w win_server) outcome option" where
  "IOT_Run e exec [] ts = Some (Ok ts)"
| "IOT_Run e exec (turn # turns) ts =
     (case IOT_Run_turn e exec turn ts of
        None \<Rightarrow> None
      | Some (Fault f) \<Rightarrow> Some (Fault f)
      | Some (Ok ts') \<Rightarrow> IOT_Run e exec turns ts')"

definition IM_IoWorkerThread ::
  "'w win_env \<Rightarrow> ('a \<Rightarrow> 'a win_timer \<times> 'w win_server \<Rightarrow> ('a win_timer \<times> 'w win_server) outcome) \<Rightarrow>
   int \<Rightarrow> (completion \<times> int) list \<Rightarrow> 'w win_server \<Rightarrow> ('a win_timer \<times> 'w win_server) outcome option" where
  "IM_IoWorkerThread e exec tick turns s =
     IOT_Run e exec turns (WinTimer_new tick, s\<lparr>LThreadType := THREAD_IO_WORKER\<rparr>)"

text \<open>\<^verbatim>\<open>main\<close> after \<^verbatim>\<open>StartAccept\<close>, which returns when \<^verbatim>\<open>listen\<close> fails.\<close>

definition win_main_end :: "'w win_env \<Rightarrow> 'w win_server \<Rightarrow> (int \<times> 'w win_server) outcome" where
  "win_main_end e s =
     bnd (win_print (lit ''End Server\<newline>'') (WGL_FinalizeGameLift e (IM_Finalize e s))) (\<lambda>s1. Ok (0, s1))"

text \<open>No code of the server gives a timer a task: a turn of a thread is a step of the server.\<close>

lemma idle_pass: "wtTimerJobQueue t = [] \<Longrightarrow> IOT_DoTimerJob exec tick (t, s) = Some (Ok (t\<lparr>wLTickCount := tick\<rparr>, s))"
  by (simp add: IOT_DoTimerJob_def WT_DoTimerJob_def run_due.simps pq_top_def)

lemma run_turn_step:
  assumes "IOT_Run_turn e exec (c, tick) (t, s) = Some (Ok (t', s'))" and "wtTimerJobQueue t = []" and "within_request s c"
  shows "win_io e s s'" and "wtTimerJobQueue t' = []"
  using assms
  by (auto simp: IOT_Run_turn_def idle_pass split: option.splits outcome.splits intro: io_job)

text \<open>So a thread's loop keeps the discipline of the receives, as long as the kernel reports what it stored.\<close>

fun honest_run ::
  "'w win_env \<Rightarrow> ('a \<Rightarrow> 'a win_timer \<times> 'w win_server \<Rightarrow> ('a win_timer \<times> 'w win_server) outcome) \<Rightarrow>
   (completion \<times> int) list \<Rightarrow> 'a win_timer \<times> 'w win_server \<Rightarrow> bool" where
  "honest_run e exec [] ts \<longleftrightarrow> True"
| "honest_run e exec (turn # turns) ts \<longleftrightarrow> within_request (snd ts) (fst turn) \<and>
     (case IOT_Run_turn e exec turn ts of Some (Ok ts') \<Rightarrow> honest_run e exec turns ts' | _ \<Rightarrow> True)"

lemma run_keeps_receiving:
  assumes "IOT_Run e exec turns (t, s) = Some (Ok (t', s'))" and "honest_run e exec turns (t, s)"
    and "wtTimerJobQueue t = []" and "recv_ok {} {} s"
  shows "recv_ok {} {} s' \<and> wtTimerJobQueue t' = []"
  using assms
proof (induction turns arbitrary: t s)
  case (Cons turn turns)
  obtain c tick where turn: "turn = (c, tick)" by force
  from Cons.prems(1) obtain t1 s1 where r: "IOT_Run_turn e exec (c, tick) (t, s) = Some (Ok (t1, s1))"
      "IOT_Run e exec turns (t1, s1) = Some (Ok (t', s'))"
    by (auto simp: turn split: option.splits outcome.splits)
  have w: "within_request s c" "honest_run e exec turns (t1, s1)" using Cons.prems(2) r(1) by (simp_all add: turn)
  note step = run_turn_step [OF r(1) Cons.prems(3) w(1)]
  show ?case by (rule Cons.IH [OF r(2) w(2) step(2) win_io_keeps [OF Cons.prems(4) step(1)]])
qed simp

end
