(* ===== verification/WinLocks.thy ===== *)
theory WinLocks
  imports WinSend
begin

text \<open>
  Two I/O threads of the Windows server that wait for each other. Here \<^verbatim>\<open>locks\<close> holds what any
  thread has taken: entering one of these spinlocks does not return while its owner waits.
\<close>

section \<open>A failing flush under the send lock\<close>

lemma flush_error_text_fits:
  assumes "n \<in> {0..<65536}"
  shows "length (lit ''Session::FlushSend Error : '' @ fmt_d n @ lit ''\<newline>'') < 128"
proof -
  have "nat n < 10 ^ 5" using assms by auto
  then have "length (decimal (nat n)) \<le> 5" by (rule length_decimal) simp
  with assms show ?thesis by (simp add: fmt_d_def)
qed

text \<open>The flush gives up its context, reports the error and disconnects, all with the locks it was called with.\<close>

lemma flush_needs_lock:
  assumes "sessions s sid = Some c" and "wsConnected c" and "PS_IsValid c" and "cb_inv (wsSendBuffer c)"
    and "LockGameLift \<in> locks s" and "LockLog \<notin> locks s"
    and "\<forall>d w. \<exists>n. fst (wsa_send e (wsSocket c) d w) = WsaError n" and "\<forall>w. last_error e w \<in> {0..<65536}"
    and "\<forall>w. fst (win_sys e (WinLinger (wsSocket c)) w) \<noteq> - 1"
  shows "WS_FlushSend e sid s = Fault SelfDeadlock"
proof -
  let ?b = "wsSendBuffer c"
  let ?ctx = "(OverlappedSendContext_new sid)\<lparr>mWsaLen := GetContiguiousBytes ?b, mWsaBuf := GetBufferStart ?b\<rparr>"
  obtain n w where r: "wsa_send e (wsSocket c) (take (GetContiguiousBytes ?b) (contents ?b)) (win_world s) = (WsaError n, w)"
    using assms(7) by (metis prod.collapse)
  let ?s3 = "s\<lparr>contexts := (contexts s)(next_context s := None), next_context := Suc (next_context s), win_world := w\<rparr>"
  have t: "length (lit ''Session::FlushSend Error : '' @ fmt_d (last_error e (win_world ?s3)) @ lit ''\<newline>'') < 128"
    using assms(8) by (intro flush_error_text_fits) blast
  have "LockLog \<notin> locks ?s3" using assms(6) by simp
  from win_print_fits [OF this t] obtain l where
    p: "win_print (lit ''Session::FlushSend Error : '' @ fmt_d (last_error e (win_world ?s3)) @ lit ''\<newline>'') ?s3 =
      Ok (?s3\<lparr>winLog := l\<rparr>)" by blast
  have d: "WS_Disconnect e sid DR_SENDFLUSH_ERROR (?s3\<lparr>winLog := l\<rparr>) = Fault SelfDeadlock"
    by (rule disconnect_needs_lock [where c = c]) (use assms in simp_all)
  have k: "DeleteIoContext (Some (next_context s)) (s\<lparr>contexts := (contexts s)(next_context s \<mapsto> ?ctx),
      next_context := Suc (next_context s), win_world := w\<rparr>) = Ok ?s3"
    by (simp add: DeleteIoContext_new OverlappedSendContext_new_def del: fun_upd_apply)
  show ?thesis
    using assms(1) contiguous_spec(3) [OF assms(4) order_refl] r k p d
    by (simp add: WS_FlushSend_def with_session_def new_context_def Let_def del: bnd_eq_Ok fun_upd_apply)
qed

section \<open>The inversion\<close>

text \<open>C34. Two threads of the Windows server take the same two locks in opposite orders: a broadcast takes the
  lock of the GameLift manager and then each player's send lock, and a send completion takes the player's send
  lock and then, when the next \<^verbatim>\<open>WSASend\<close> fails and the player is disconnected, the lock of the
  GameLift manager. If each has taken its first lock, neither returns.\<close>

theorem lock_order_inversion:
  assumes "mGameSession s = Some (p # others)" and "sessions s p = Some c" and "wsConnected c" and "PS_IsValid c"
    and "cb_inv (wsSendBuffer c)" and "wsSendPendingCount c = 1" and "n < length (contents (wsSendBuffer c))"
    and "\<forall>d w. \<exists>n. fst (wsa_send e (wsSocket c) d w) = WsaError n" and "\<forall>w. last_error e w \<in> {0..<65536}"
    and "\<forall>w. fst (win_sys e (WinLinger (wsSocket c)) w) \<noteq> - 1"
  shows "WS_SendCompletion e p n (s\<lparr>locks := {LockGameLift}\<rparr>) = Fault SelfDeadlock \<and>
    WGL_BroadcastMessage e pkt (s\<lparr>locks := {LockSend p}\<rparr>) = Fault SelfDeadlock"
proof
  obtain b where b: "Remove n (wsSendBuffer c) = Ok b" "cb_inv b" "contents b = drop n (contents (wsSendBuffer c))"
    using Remove_spec [OF assms(5), of n] assms(7) by auto
  have g: "0 < GetContiguiousBytes b" using contiguous_spec(2) [OF b(2)] b(3) assms(7) by auto
  let ?s = "upd_session p (\<lambda>c. c\<lparr>wsSendBuffer := b, wsSendPendingCount := 0\<rparr>) (s\<lparr>locks := {LockSend p, LockGameLift}\<rparr>)"
  have "WS_FlushSend e p ?s = Fault SelfDeadlock"
    by (rule flush_needs_lock [where c = "c\<lparr>wsSendBuffer := b, wsSendPendingCount := 0\<rparr>"])
      (use assms b(2) in \<open>simp_all add: PS_IsValid_def\<close>)
  then show "WS_SendCompletion e p n (s\<lparr>locks := {LockGameLift}\<rparr>) = Fault SelfDeadlock"
    using assms(2,6) b(1) g
    by (simp add: WS_SendCompletion_def guarded_void_def guarded_def with_session_def del: bnd_eq_Ok)
  show "WGL_BroadcastMessage e pkt (s\<lparr>locks := {LockSend p}\<rparr>) = Fault SelfDeadlock"
    using assms(1-3)
    by (simp add: WGL_BroadcastMessage_def guarded_void_def guarded_def GS_BroadcastMessage_def WS_PostSend_def
        with_session_def del: bnd_eq_Ok)
qed

text \<open>One logged-in player with a byte left to send, on a network that has gone down.\<close>

lemma lock_order_inversion_witness:
  "\<exists>s. WS_SendCompletion (win_quiet\<lparr>wsa_send := \<lambda>_ _ w. (WsaError 10050, w)\<rparr>) 0 1 (s\<lparr>locks := {LockGameLift}\<rparr>) =
      Fault SelfDeadlock \<and>
    WGL_BroadcastMessage (win_quiet\<lparr>wsa_send := \<lambda>_ _ w. (WsaError 10050, w)\<rparr>) [7] (s\<lparr>locks := {LockSend 0}\<rparr>) =
      Fault SelfDeadlock"
proof -
  let ?e = "win_quiet\<lparr>wsa_send := \<lambda>_ _ w. (WsaError 10050, w)\<rparr>"
  have n: "CLIENT_BUFSIZE < 2 ^ 64" by (simp add: CLIENT_BUFSIZE_def)
  note sp = CircularBuffer_new_spec [OF n]
  obtain b where b: "cb_inv b" "contents b = [1, 2]"
    using Write_ok [OF sp(1), of "[1, 2]" "[]"] sp(2,4) by (auto simp: CLIENT_BUFSIZE_def)
  let ?c = "(WS_new 5)\<lparr>wsConnected := True, wsPlayerSessionId := [65], wsSendBuffer := b, wsSendPendingCount := 1\<rparr>"
  let ?s = "(one_player [65])\<lparr>sessions := [0 \<mapsto> ?c]\<rparr>"
  have "mGameSession ?s = Some [0]" "sessions ?s 0 = Some ?c" "wsConnected ?c" "PS_IsValid ?c" "cb_inv (wsSendBuffer ?c)"
    "wsSendPendingCount ?c = 1" "1 < length (contents (wsSendBuffer ?c))"
    "\<forall>d w. \<exists>n. fst (wsa_send ?e (wsSocket ?c) d w) = WsaError n" "\<forall>w. last_error ?e w \<in> {0..<65536}"
    "\<forall>w. fst (win_sys ?e (WinLinger (wsSocket ?c)) w) \<noteq> - 1"
    using b by (simp_all add: one_player_def PS_IsValid_def win_quiet_def)
  from lock_order_inversion [OF this, of "[7]"] show ?thesis by blast
qed

end
