(* ===== verification/IniParser.thy ===== *)
theory IniParser
  imports Console "HOL-Library.Mapping"
begin

text \<open>
  The configuration reader of the load clients: \<^verbatim>\<open>DummyClients/ini.c\<close> (a line parser
  that calls a handler for every name and value) and \<^verbatim>\<open>INIReader\<close>, which keeps the values
  in a map. A C string is the list of its bytes before the terminator; a pointer into
  \<^verbatim>\<open>line\<close> is the string from there on, and writing \<^verbatim>\<open>'\0'\<close> cuts it. The
  options of \<^verbatim>\<open>ini.h\<close> are at their defaults: multi-line values, the byte order mark and
  inline comments after \<^verbatim>\<open>;\<close> are on.
\<close>

section \<open>Characters and scanning\<close>

definition INI_MAX_LINE :: nat where "INI_MAX_LINE = 200"
definition MAX_SECTION :: nat where "MAX_SECTION = 50"
definition MAX_NAME :: nat where "MAX_NAME = 50"

text \<open>\<^verbatim>\<open>isspace\<close> and \<^verbatim>\<open>tolower\<close> of the C locale.\<close>

definition isspace :: "byte \<Rightarrow> bool" where
  "isspace c \<longleftrightarrow> c = 32 \<or> 9 \<le> c \<and> c \<le> 13"

definition tolower :: "byte \<Rightarrow> byte" where
  "tolower c = (if 65 \<le> c \<and> c \<le> 90 then c + 32 else c)"

definition rstrip :: "byte list \<Rightarrow> byte list" where
  "rstrip s = rev (dropWhile isspace (rev s))"

definition lskip :: "byte list \<Rightarrow> byte list" where
  "lskip s = dropWhile isspace s"

text \<open>The string before the character found, and the string from there on.\<close>

fun find_from :: "bool \<Rightarrow> byte list \<Rightarrow> byte list \<Rightarrow> byte list \<times> byte list" where
  "find_from was_space chars [] = ([], [])"
| "find_from was_space chars (c # s) =
     (if c \<in> set chars \<or> was_space \<and> c = 59 then ([], c # s)
      else case find_from (isspace c) chars s of (before, at) \<Rightarrow> (c # before, at))"

definition find_chars_or_comment :: "byte list \<Rightarrow> byte list \<Rightarrow> byte list \<times> byte list" where
  "find_chars_or_comment s chars = find_from False chars s"

definition strncpy0 :: "byte list \<Rightarrow> nat \<Rightarrow> byte list" where
  "strncpy0 src sz = take (sz - 1) src"

text \<open>\<^verbatim>\<open>fgets\<close> with room for \<^verbatim>\<open>n\<close> characters and the terminator.\<close>

fun fgets :: "nat \<Rightarrow> byte list \<Rightarrow> byte list \<times> byte list" where
  "fgets 0 s = ([], s)"
| "fgets (Suc n) [] = ([], [])"
| "fgets (Suc n) (c # s) =
     (if c = 10 then ([c], s) else case fgets n s of (l, r) \<Rightarrow> (c # l, r))"

lemma fgets_shorter: "0 < n \<Longrightarrow> s \<noteq> [] \<Longrightarrow> length (snd (fgets n s)) < length s"
proof -
  have le: "length (snd (fgets n s)) \<le> length s" for n s
    by (induction n s rule: fgets.induct) (auto split: prod.split)
  assume "0 < n" "s \<noteq> []"
  then show ?thesis
    using le by (cases n; cases s) (auto split: prod.split simp: less_Suc_eq_le, metis snd_conv)
qed

section \<open>\<^verbatim>\<open>ini_parse_stream\<close>\<close>

record 'u ini_state =
  ini_section :: "byte list"
  prev_name :: "byte list"
  lineno :: int
  ini_error :: int
  ini_user :: 'u

type_synonym 'u ini_handler = "'u \<Rightarrow> byte list \<Rightarrow> byte list \<Rightarrow> byte list \<Rightarrow> bool \<times> 'u"

text \<open>A call of the handler, whose failure is recorded as the first error.\<close>

definition call_handler ::
  "'u ini_handler \<Rightarrow> byte list \<Rightarrow> byte list \<Rightarrow> 'u ini_state \<Rightarrow> 'u ini_state" where
  "call_handler handler name val st =
     (case handler (ini_user st) (ini_section st) name val of (ok, u) \<Rightarrow>
      st\<lparr>ini_user := u, ini_error := if \<not> ok \<and> ini_error st = 0 then lineno st else ini_error st\<rparr>)"

definition line_error :: "'u ini_state \<Rightarrow> 'u ini_state" where
  "line_error st = (if ini_error st = 0 then st\<lparr>ini_error := lineno st\<rparr> else st)"

text \<open>What \<^verbatim>\<open>start\<close> is after the mark and the blanks, and whether it moved.\<close>

definition line_start :: "int \<Rightarrow> byte list \<Rightarrow> byte list \<times> bool" where
  "line_start n line =
     (let bom = (n = 1 \<and> take 3 line = [0xEF, 0xBB, 0xBF]);
          s = rstrip (if bom then drop 3 line else line)
      in (lskip s, bom \<or> lskip s \<noteq> s))"

definition section_line :: "byte list \<Rightarrow> 'u ini_state \<Rightarrow> 'u ini_state" where
  "section_line start st =
     (case find_chars_or_comment (tl start) [93] of (before, end) \<Rightarrow>
      if end \<noteq> [] \<and> hd end = 93
      then st\<lparr>ini_section := strncpy0 before MAX_SECTION, prev_name := []\<rparr>
      else line_error st)"

definition pair_line :: "'u ini_handler \<Rightarrow> byte list \<Rightarrow> 'u ini_state \<Rightarrow> 'u ini_state" where
  "pair_line handler start st =
     (case find_chars_or_comment start [61, 58] of (before, end) \<Rightarrow>
      if end \<noteq> [] \<and> (hd end = 61 \<or> hd end = 58)
      then let name = rstrip before;
               val = rstrip (lskip (fst (find_chars_or_comment (tl end) [])))
           in call_handler handler name val (st\<lparr>prev_name := strncpy0 name MAX_NAME\<rparr>)
      else line_error st)"

definition ini_line :: "'u ini_handler \<Rightarrow> byte list \<Rightarrow> 'u ini_state \<Rightarrow> 'u ini_state" where
  "ini_line handler line st0 =
     (let st = st0\<lparr>lineno := lineno st0 + 1\<rparr>
      in case line_start (lineno st) line of (start, moved) \<Rightarrow>
         if start \<noteq> [] \<and> (hd start = 59 \<or> hd start = 35) then st
         else if prev_name st \<noteq> [] \<and> start \<noteq> [] \<and> moved
         then call_handler handler (prev_name st) start st
         else if start \<noteq> [] \<and> hd start = 91 then section_line start st
         else if start \<noteq> [] then pair_line handler start st
         else st)"

function ini_loop :: "'u ini_handler \<Rightarrow> byte list \<Rightarrow> 'u ini_state \<Rightarrow> 'u ini_state" where
  "ini_loop handler strm st =
     (if strm = [] then st
      else case fgets (INI_MAX_LINE - 1) strm of (line, rest) \<Rightarrow>
           ini_loop handler rest (ini_line handler (takeWhile (\<lambda>c. c \<noteq> 0) line) st))"
  by auto
termination
  by (relation "measure (\<lambda>(h, s, st). length s)")
    (auto simp: INI_MAX_LINE_def, metis fgets_shorter snd_conv zero_less_numeral)

declare ini_loop.simps [simp del]

definition ini_parse_stream :: "byte list \<Rightarrow> 'u ini_handler \<Rightarrow> 'u \<Rightarrow> int \<times> 'u" where
  "ini_parse_stream strm handler user =
     (let st = ini_loop handler strm
        \<lparr>ini_section = [], prev_name = [], lineno = 0, ini_error = 0, ini_user = user\<rparr>
      in (ini_error st, ini_user st))"

text \<open>\<^verbatim>\<open>ini_parse\<close>: the file's bytes, or none when it cannot be opened.\<close>

definition ini_parse :: "byte list option \<Rightarrow> 'u ini_handler \<Rightarrow> 'u \<Rightarrow> int \<times> 'u" where
  "ini_parse file handler user =
     (case file of None \<Rightarrow> (- 1, user) | Some bytes \<Rightarrow> ini_parse_stream bytes handler user)"

section \<open>\<^verbatim>\<open>INIReader\<close>\<close>

type_synonym ini_values = "byte list \<rightharpoonup> byte list"

definition MakeKey :: "byte list \<Rightarrow> byte list \<Rightarrow> byte list" where
  "MakeKey sec name = map tolower (sec @ lit ''='' @ name)"

definition ValueHandler :: "ini_values ini_handler" where
  "ValueHandler values sec name val =
     (let key = MakeKey sec name;
          old = (case values key of None \<Rightarrow> [] | Some v \<Rightarrow> v)
      in (True, values(key \<mapsto> (if length old > 0 then old @ [10] else old) @ val)))"

record INIReader =
  reader_error :: int
  reader_values :: ini_values

definition INIReader_new :: "byte list option \<Rightarrow> INIReader" where
  "INIReader_new file =
     (case ini_parse file ValueHandler Map.empty of (err, values) \<Rightarrow>
      \<lparr>reader_error = err, reader_values = values\<rparr>)"

definition ParseError :: "INIReader \<Rightarrow> int" where
  "ParseError r = reader_error r"

definition INI_Get :: "byte list \<Rightarrow> byte list \<Rightarrow> byte list \<Rightarrow> INIReader \<Rightarrow> byte list" where
  "INI_Get sec name default_value r =
     (case reader_values r (MakeKey sec name) of None \<Rightarrow> default_value | Some v \<Rightarrow> v)"

text \<open>
  \<^verbatim>\<open>strtol\<close> with base 0: blanks, a sign, a prefix that selects the base, digits; the value is
  clamped to the 32 bits of \<^verbatim>\<open>long\<close> on Windows. None when no digit was read.
\<close>

definition digit_value :: "byte \<Rightarrow> nat" where
  "digit_value c =
     (if 48 \<le> c \<and> c \<le> 57 then unat c - 48
      else if 65 \<le> c \<and> c \<le> 90 then unat c - 55
      else if 97 \<le> c \<and> c \<le> 122 then unat c - 87
      else 99)"

fun read_digits :: "nat \<Rightarrow> int \<Rightarrow> byte list \<Rightarrow> int" where
  "read_digits base acc [] = acc"
| "read_digits base acc (c # s) =
     (if digit_value c < base then read_digits base (acc * int base + int (digit_value c)) s else acc)"

definition starts_digit :: "nat \<Rightarrow> byte list \<Rightarrow> bool" where
  "starts_digit base s \<longleftrightarrow> s \<noteq> [] \<and> digit_value (hd s) < base"

definition clamp_long :: "int \<Rightarrow> int" where
  "clamp_long n = max (- (2 ^ 31)) (min (2 ^ 31 - 1) n)"

definition strtol0 :: "byte list \<Rightarrow> int option" where
  "strtol0 s0 =
     (let s1 = dropWhile isspace s0;
          neg = (s1 \<noteq> [] \<and> hd s1 = 45);
          s = (if s1 \<noteq> [] \<and> (hd s1 = 45 \<or> hd s1 = 43) then tl s1 else s1);
          sgn = (\<lambda>n. clamp_long (if neg then - n else n))
      in if take 1 s = [48] \<and> take 1 (drop 1 s) \<in> {[120], [88]} \<and> starts_digit 16 (drop 2 s)
         then Some (sgn (read_digits 16 0 (drop 2 s)))
         else if take 1 s = [48] then Some (sgn (read_digits 8 0 s))
         else if starts_digit 10 s then Some (sgn (read_digits 10 0 s))
         else None)"

definition GetInteger :: "byte list \<Rightarrow> byte list \<Rightarrow> int \<Rightarrow> INIReader \<Rightarrow> int" where
  "GetInteger sec name default_value r =
     (case strtol0 (INI_Get sec name [] r) of None \<Rightarrow> default_value | Some n \<Rightarrow> n)"

definition GetBoolean :: "byte list \<Rightarrow> byte list \<Rightarrow> bool \<Rightarrow> INIReader \<Rightarrow> bool" where
  "GetBoolean sec name default_value r =
     (let v = map tolower (INI_Get sec name [] r)
      in if v \<in> {lit ''true'', lit ''yes'', lit ''on'', lit ''1''} then True
         else if v \<in> {lit ''false'', lit ''no'', lit ''off'', lit ''0''} then False
         else default_value)"

section \<open>Lines of a well-formed file\<close>

text \<open>A file as data: sections with their names and values, and its text.\<close>

type_synonym ini_doc = "(byte list \<times> (byte list \<times> byte list) list) list"

definition pair_text :: "byte list \<times> byte list \<Rightarrow> byte list" where
  "pair_text p = fst p @ lit ''='' @ snd p @ [10]"

definition section_text :: "byte list \<Rightarrow> byte list" where
  "section_text sec = lit ''['' @ sec @ lit '']'' @ [10]"

definition doc_text :: "ini_doc \<Rightarrow> byte list" where
  "doc_text doc = concat (map (\<lambda>(sec, ps). section_text sec @ concat (map pair_text ps)) doc)"

definition plain :: "byte list \<Rightarrow> bool" where
  "plain s \<longleftrightarrow> 0 \<notin> set s \<and> 10 \<notin> set s"

definition trimmed :: "byte list \<Rightarrow> bool" where
  "trimmed s \<longleftrightarrow> s = [] \<or> \<not> isspace (hd s) \<and> \<not> isspace (last s)"

definition stops :: "byte list \<Rightarrow> byte list \<Rightarrow> bool" where
  \<comment> \<open>none of the characters and no inline comment in it\<close>
  "stops chars s \<longleftrightarrow> snd (find_chars_or_comment s chars) \<noteq> []"

definition good_name :: "byte list \<Rightarrow> bool" where
  "good_name n \<longleftrightarrow> n \<noteq> [] \<and> plain n \<and> trimmed n \<and> \<not> stops [61, 58] n \<and> hd n \<notin> {59, 35, 91}"

definition good_value :: "byte list \<Rightarrow> bool" where
  "good_value v \<longleftrightarrow> plain v \<and> trimmed v \<and> \<not> stops [] v"

definition good_section :: "byte list \<Rightarrow> bool" where
  "good_section s \<longleftrightarrow> plain s \<and> \<not> stops [93] s \<and> length s < MAX_SECTION"

definition good_doc :: "ini_doc \<Rightarrow> bool" where
  "good_doc doc \<longleftrightarrow> (\<forall>(sec, ps)\<in>set doc. good_section sec \<and>
     (\<forall>(n, v)\<in>set ps. good_name n \<and> good_value v \<and> length n + length v + 2 < INI_MAX_LINE))"


lemma find_through:
  "find_from b chars s = (s, []) \<Longrightarrow> c \<in> set chars \<Longrightarrow> find_from b chars (s @ c # t) = (s, c # t)"
proof (induction b chars s rule: find_from.induct)
  case (2 b chars x s)
  then have "find_from (isspace x) chars s = (s, [])" "\<not> (x \<in> set chars \<or> b \<and> x = 59)"
    by (auto split: if_splits prod.splits)
  with 2 show ?case by simp
qed simp

lemma find_all: "snd (find_from b chars s) = [] \<Longrightarrow> find_from b chars s = (s, [])"
  by (induction b chars s rule: find_from.induct) (auto split: if_splits prod.splits)

lemma not_stops: "\<not> stops chars s \<Longrightarrow> find_from False chars s = (s, [])"
  by (simp add: stops_def find_chars_or_comment_def find_all)

lemma rstrip_append: "\<not> isspace c \<Longrightarrow> rstrip (s @ [c]) = s @ [c]"
  by (simp add: rstrip_def)

lemma rstrip_newline: "rstrip (s @ [10]) = rstrip s"
  by (simp add: rstrip_def isspace_def)

lemma trimmed_strip: "trimmed s \<Longrightarrow> rstrip s = s" "trimmed s \<Longrightarrow> lskip s = s"
  by (cases s rule: rev_cases; simp add: trimmed_def rstrip_def)
    (cases s; simp add: trimmed_def lskip_def)

lemma fgets_line: "10 \<notin> set l \<Longrightarrow> length l < n \<Longrightarrow> fgets n (l @ 10 # rest) = (l @ [10], rest)"
proof (induction l arbitrary: n)
  case Nil
  then show ?case by (cases n) auto
next
  case (Cons c l)
  then show ?case by (cases n) auto
qed

lemma loop_line:
  assumes "plain l" and "length l + 1 < INI_MAX_LINE"
  shows "ini_loop h (l @ 10 # rest) st = ini_loop h rest (ini_line h (l @ [10]) st)"
proof -
  have "fgets (INI_MAX_LINE - 1) (l @ 10 # rest) = (l @ [10], rest)"
    using assms by (intro fgets_line) (auto simp: plain_def)
  moreover have "takeWhile (\<lambda>c. c \<noteq> 0) (l @ [10]) = l @ [10]"
    using assms(1) by (intro takeWhile_eq_all_conv [THEN iffD2]) (auto simp: plain_def)
  ultimately show ?thesis by (subst ini_loop.simps) simp
qed

lemma lit_chars: "lit ''='' = [61]" "lit ''['' = [91]" "lit '']'' = [93]"
  by (simp_all add: lit_def)

lemma section_line_spec:
  assumes "good_section sec"
  shows "ini_line h (lit ''['' @ sec @ lit '']'' @ [10]) st =
    st\<lparr>lineno := lineno st + 1, ini_section := sec, prev_name := []\<rparr>"
proof -
  have l: "rstrip (91 # sec @ [93, 10]) = 91 # sec @ [93]"
    using rstrip_newline [of "91 # sec @ [93]"] rstrip_append [of 93 "91 # sec"] by (simp add: isspace_def)
  have f: "find_chars_or_comment (sec @ [93]) [93] = (sec, [93])"
    using assms by (auto simp: good_section_def find_chars_or_comment_def intro!: find_through not_stops)
  have "take 3 (91 # sec @ [93, 10]) \<noteq> [0xEF, 0xBB, 0xBF]" by simp
  with l have "line_start n (91 # sec @ [93, 10]) = (91 # sec @ [93], False)" for n
    by (simp add: line_start_def lskip_def isspace_def)
  then show ?thesis
    using f assms by (simp add: ini_line_def lit_chars section_line_def strncpy0_def good_section_def MAX_SECTION_def)
qed

lemma pair_line_spec:
  assumes "good_name n" and "good_value v" and "0 \<le> lineno st" and "lineno st \<noteq> 0"
  shows "ini_line h (n @ lit ''='' @ v @ [10]) st =
    call_handler h n v (st\<lparr>lineno := lineno st + 1, prev_name := strncpy0 n MAX_NAME\<rparr>)"
proof -
  obtain x n' where n: "n = x # n'" "\<not> isspace x" "x \<notin> {59, 35, 91}"
    using assms(1) by (cases n) (auto simp: good_name_def trimmed_def)
  have r: "rstrip (n @ 61 # v @ [10]) = n @ 61 # v"
  proof (cases v rule: rev_cases)
    case Nil
    then show ?thesis using rstrip_newline [of "n @ [61]"] rstrip_append [of 61 n] by (simp add: isspace_def)
  next
    case (snoc w c)
    then have "\<not> isspace c" using assms(2) by (auto simp: good_value_def trimmed_def)
    then show ?thesis
      using rstrip_newline [of "n @ 61 # w @ [c]"] rstrip_append [of c "n @ 61 # w"] snoc by simp
  qed
  have "line_start (lineno st + 1) (n @ 61 # v @ [10]) = (n @ 61 # v, False)"
    using r n assms(3,4) by (simp add: line_start_def lskip_def)
  moreover have "find_chars_or_comment (n @ 61 # v) [61, 58] = (n, 61 # v)"
    using assms(1) by (auto simp: good_name_def find_chars_or_comment_def intro!: find_through not_stops)
  moreover have "fst (find_chars_or_comment v []) = v"
    using assms(2) not_stops [of "[]" v] by (simp add: good_value_def find_chars_or_comment_def)
  ultimately show ?thesis
    using assms(1,2) n trimmed_strip [of n] trimmed_strip [of v]
    by (simp add: ini_line_def lit_chars pair_line_def good_name_def good_value_def Let_def)
qed


section \<open>Reading a well-formed file\<close>

text \<open>The handler's calls that the file stands for, in order, and their effect.\<close>

definition entries :: "ini_doc \<Rightarrow> (byte list \<times> byte list \<times> byte list) list" where
  "entries doc = concat (map (\<lambda>(sec, ps). map (\<lambda>(n, v). (sec, n, v)) ps) doc)"

definition handle_all :: "'u ini_handler \<Rightarrow> (byte list \<times> byte list \<times> byte list) list \<Rightarrow> 'u \<Rightarrow> 'u" where
  "handle_all h es u = fold (\<lambda>(sec, n, v) u. snd (h u sec n v)) es u"

definition accepts :: "'u ini_handler \<Rightarrow> bool" where
  "accepts h \<longleftrightarrow> (\<forall>u sec n v. fst (h u sec n v))"

lemma pairs_loop:
  assumes "accepts h" and "0 < lineno st"
    and "\<forall>(n, v)\<in>set ps. good_name n \<and> good_value v \<and> length n + length v + 2 < INI_MAX_LINE"
  shows "\<exists>st'. ini_loop h (concat (map pair_text ps) @ rest) st = ini_loop h rest st' \<and>
    ini_section st' = ini_section st \<and> 0 < lineno st' \<and> ini_error st' = ini_error st \<and>
    ini_user st' = handle_all h (map (\<lambda>(n, v). (ini_section st, n, v)) ps) (ini_user st)"
  using assms(2,3)
proof (induction ps arbitrary: st)
  case Nil
  then show ?case by (auto simp: handle_all_def)
next
  case (Cons p ps)
  obtain n v where p: "p = (n, v)" by (cases p)
  have txt_p: "pair_text p = n @ 61 # v @ [10]" by (simp add: p pair_text_def lit_chars)
  from Cons.prems(2) p have g: "good_name n" "good_value v" "length n + length v + 2 < INI_MAX_LINE" by auto
  define st1 where "st1 = call_handler h n v (st\<lparr>lineno := lineno st + 1, prev_name := strncpy0 n MAX_NAME\<rparr>)"
  have st1: "ini_section st1 = ini_section st" "0 < lineno st1" "ini_error st1 = ini_error st"
      "ini_user st1 = snd (h (ini_user st) (ini_section st) n v)"
    using assms(1) Cons.prems(1) by (auto simp: st1_def call_handler_def accepts_def split: prod.splits)
      (metis fst_conv)+
  have "plain (n @ 61 # v)" using g by (auto simp: plain_def good_name_def good_value_def)
  then have "ini_loop h ((n @ 61 # v) @ 10 # concat (map pair_text ps) @ rest) st =
      ini_loop h (concat (map pair_text ps) @ rest) st1"
    using g(3) pair_line_spec [OF g(1,2), of st h] Cons.prems(1)
    by (subst loop_line) (simp_all add: st1_def lit_chars)
  moreover obtain st' where "ini_loop h (concat (map pair_text ps) @ rest) st1 = ini_loop h rest st'"
      "ini_section st' = ini_section st1" "0 < lineno st'" "ini_error st' = ini_error st1"
      "ini_user st' = handle_all h (map (\<lambda>(n, v). (ini_section st1, n, v)) ps) (ini_user st1)"
    using Cons.IH [of st1] st1(2) Cons.prems(2) by auto
  ultimately show ?case
    using st1 txt_p p by (intro exI [of _ st']) (simp add: handle_all_def)
qed

lemma doc_loop:
  assumes "accepts h" and "good_doc doc" and "0 \<le> lineno st"
  shows "\<exists>st'. ini_loop h (doc_text doc) st = st' \<and> ini_error st' = ini_error st \<and>
    ini_user st' = handle_all h (entries doc) (ini_user st)"
  using assms(2,3)
proof (induction doc arbitrary: st)
  case Nil
  then show ?case by (simp add: doc_text_def entries_def handle_all_def ini_loop.simps)
next
  case (Cons d doc)
  obtain sec ps where d: "d = (sec, ps)" by (cases d)
  from Cons.prems(1) d have g: "good_section sec" "good_doc doc"
      "\<forall>(n, v)\<in>set ps. good_name n \<and> good_value v \<and> length n + length v + 2 < INI_MAX_LINE"
    by (auto simp: good_doc_def)
  define st1 where "st1 = st\<lparr>lineno := lineno st + 1, ini_section := sec, prev_name := []\<rparr>"
  let ?rest = "concat (map pair_text ps) @ doc_text doc"
  have "plain (91 # sec @ [93])" using g by (auto simp: plain_def good_section_def)
  then have "ini_loop h ((91 # sec @ [93]) @ 10 # ?rest) st = ini_loop h ?rest st1"
    using g(1) section_line_spec [OF g(1), of h st]
    by (subst loop_line) (simp_all add: st1_def lit_chars good_section_def MAX_SECTION_def INI_MAX_LINE_def)
  moreover obtain st2 where s2: "ini_loop h ?rest st1 = ini_loop h (doc_text doc) st2"
      "0 < lineno st2" "ini_error st2 = ini_error st1"
      "ini_user st2 = handle_all h (map (\<lambda>(n, v). (sec, n, v)) ps) (ini_user st1)"
    using pairs_loop [OF assms(1) _ g(3), of st1 "doc_text doc"] Cons.prems(2) by (auto simp: st1_def)
  moreover have "ini_error (ini_loop h (doc_text doc) st2) = ini_error st2 \<and>
      ini_user (ini_loop h (doc_text doc) st2) = handle_all h (entries doc) (ini_user st2)"
    using Cons.IH [OF g(2), of st2] s2(2) by auto
  ultimately show ?case
    by (simp add: d doc_text_def section_text_def lit_chars entries_def handle_all_def st1_def)
qed

text \<open>C24. Reading a well-formed file calls the handler once for every name and value, in the order of
  the file and with the section each belongs to, and reports no error.\<close>

theorem ini_parse_reads_file:
  assumes "good_doc doc" and "accepts h"
  shows "ini_parse (Some (doc_text doc)) h user = (0, handle_all h (entries doc) user)"
  using doc_loop [OF assms(2,1), of "\<lparr>ini_section = [], prev_name = [], lineno = 0, ini_error = 0, ini_user = user\<rparr>"]
  by (simp add: ini_parse_def ini_parse_stream_def Let_def)

lemma sample_doc: "good_doc [(lit ''config'', [(lit ''ALIAS'', lit ''a b''), (lit ''N'', lit ''8'')])]"
  by (simp add: good_doc_def good_section_def good_name_def good_value_def plain_def stops_def trimmed_def
      find_chars_or_comment_def isspace_def lit_def INI_MAX_LINE_def MAX_SECTION_def)

lemma ini_parse_reads_file_witness:
  "fst (ini_parse (Some (doc_text [(lit ''config'', [(lit ''ALIAS'', lit ''a b''), (lit ''N'', lit ''8'')])]))
     ValueHandler Map.empty) = 0"
proof -
  have "accepts ValueHandler" by (simp add: accepts_def ValueHandler_def Let_def)
  from ini_parse_reads_file [OF sample_doc this] show ?thesis by simp
qed

section \<open>Lookups\<close>

text \<open>Values of one key are joined by newlines.\<close>

definition join_value :: "byte list \<Rightarrow> byte list \<Rightarrow> byte list" where
  "join_value v old = (if old \<noteq> [] then old @ [10] else old) @ v"

definition values_of :: "byte list \<Rightarrow> (byte list \<times> byte list \<times> byte list) list \<Rightarrow> byte list list" where
  "values_of key es = map (\<lambda>(sec, n, v). v) (filter (\<lambda>(sec, n, v). MakeKey sec n = key) es)"

lemma ValueHandler_lookup:
  "handle_all ValueHandler es m key =
     (if values_of key es = [] then m key
      else Some (fold join_value (values_of key es) (case m key of None \<Rightarrow> [] | Some v \<Rightarrow> v)))"
proof (induction es arbitrary: m)
  case Nil
  then show ?case by (simp add: handle_all_def values_of_def)
next
  case (Cons e es)
  obtain sec n v where e: "e = (sec, n, v)" by (cases e)
  let ?m = "m(MakeKey sec n \<mapsto> join_value v (case m (MakeKey sec n) of None \<Rightarrow> [] | Some v \<Rightarrow> v))"
  have h: "handle_all ValueHandler (e # es) m = handle_all ValueHandler es ?m"
  proof -
    have "snd (ValueHandler m sec n v) = ?m" by (simp add: ValueHandler_def join_value_def Let_def)
    then show ?thesis by (simp add: handle_all_def e)
  qed
  have v: "values_of key (e # es) = (if MakeKey sec n = key then v # values_of key es else values_of key es)"
    by (simp add: e values_of_def)
  show ?case
    unfolding h v Cons.IH [of ?m] by simp
qed

text \<open>Looking a name up in a reader made from a well-formed file gives the value of its entry,
  whatever the case of the letters of section and name; several entries of one name give their values
  joined by newlines; and the default only when the file has no such entry.\<close>

theorem INIReader_lookup:
  assumes "good_doc doc"
  shows "ParseError (INIReader_new (Some (doc_text doc))) = 0 \<and>
    INI_Get sec name dflt (INIReader_new (Some (doc_text doc))) =
      (case values_of (MakeKey sec name) (entries doc) of
         [] \<Rightarrow> dflt | vs \<Rightarrow> fold join_value vs [])"
proof -
  have "accepts ValueHandler" by (simp add: accepts_def ValueHandler_def Let_def)
  note p = doc_loop [OF this assms, of "\<lparr>ini_section = [], prev_name = [], lineno = 0, ini_error = 0,
      ini_user = Map.empty\<rparr>"]
  show ?thesis
    using p by (auto simp: INIReader_new_def ini_parse_def ini_parse_stream_def Let_def ParseError_def INI_Get_def
        ValueHandler_lookup split: list.split)
qed

lemma INIReader_lookup_witness:
  "INI_Get (lit ''CONFIG'') (lit ''alias'') []
     (INIReader_new (Some (doc_text [(lit ''config'', [(lit ''ALIAS'', lit ''a b''), (lit ''N'', lit ''8'')])]))) =
   lit ''a b''"
proof -
  have "values_of (MakeKey (lit ''CONFIG'') (lit ''alias''))
      (entries [(lit ''config'', [(lit ''ALIAS'', lit ''a b''), (lit ''N'', lit ''8'')])]) = [lit ''a b'']"
    by (simp add: values_of_def entries_def MakeKey_def tolower_def lit_def)
  with INIReader_lookup [OF sample_doc, of "lit ''CONFIG''" "lit ''alias''" "[]"] show ?thesis
    by (simp add: join_value_def)
qed


section \<open>Numbers\<close>

lemma read_digits_append:
  "\<forall>c\<in>set s. digit_value c < base \<Longrightarrow>
   read_digits base acc (s @ t) = read_digits base (read_digits base acc s) t"
  by (induction s arbitrary: acc) auto

lemma digit_byte: "d < 10 \<Longrightarrow> digit_value (of_nat (48 + d)) = d"
proof -
  assume d: "d < 10"
  then have "unat (of_nat (48 + d) :: byte) = 48 + d" by (subst unat_of_nat) simp
  with d show ?thesis by (simp add: digit_value_def word_le_nat_alt)
qed

lemma decimal_digits:
  "(\<forall>c\<in>set (decimal n). digit_value c < 10) \<and> read_digits 10 0 (decimal n) = int n \<and> decimal n \<noteq> [] \<and>
   (n \<noteq> 0 \<longrightarrow> hd (decimal n) \<noteq> 48)"
proof (induction n rule: decimal.induct)
  case (1 n)
  show ?case
  proof (cases "n < 10")
    case True
    have "(of_nat (48 + n) :: byte) = 48 \<Longrightarrow> n = 0"
    proof -
      assume "(of_nat (48 + n) :: byte) = 48"
      then have "digit_value (of_nat (48 + n)) = digit_value 48" by simp
      then show "n = 0" using digit_byte [OF True] by (simp add: digit_value_def)
    qed
    with True digit_byte [OF True] show ?thesis by (subst (1 2 3 4) decimal.simps) auto
  next
    case False
    define d where "d = n mod 10"
    have nd: "n = n div 10 * 10 + d" by (simp add: d_def)
    have d: "d < 10" "int n = int (n div 10) * 10 + int d" using nd by (simp add: d_def, linarith)
    have eq: "decimal n = decimal (n div 10) @ [of_nat (48 + d)]"
      using False by (subst decimal.simps) (simp add: d_def)
    from "1.IH" [OF False] have ih: "\<forall>c\<in>set (decimal (n div 10)). digit_value c < 10"
        "read_digits 10 0 (decimal (n div 10)) = int (n div 10)" "decimal (n div 10) \<noteq> []"
        "hd (decimal (n div 10)) \<noteq> 48" using False by auto
    have "read_digits 10 0 (decimal n) = int n"
      using ih(2) digit_byte [OF d(1)] d by (simp add: eq read_digits_append [OF ih(1)])
    then show ?thesis using ih digit_byte [OF d(1)] d(1) by (simp add: eq)
  qed
qed

lemma strtol0_decimal:
  assumes "- (2 ^ 31) \<le> n" and "n < 2 ^ 31"
  shows "strtol0 (fmt_d n) = Some n"
proof -
  have nospace: "\<not> isspace c" "c \<noteq> 45" "c \<noteq> 43" if "digit_value c < 10" for c
    using that by (auto simp: digit_value_def isspace_def word_le_nat_alt split: if_splits)
  define ds where "ds = decimal (nat \<bar>n\<bar>)"
  have ds: "\<forall>c\<in>set ds. digit_value c < 10" "read_digits 10 0 ds = \<bar>n\<bar>" "ds \<noteq> []" "n \<noteq> 0 \<Longrightarrow> hd ds \<noteq> 48"
    using decimal_digits [of "nat \<bar>n\<bar>"] by (auto simp: ds_def)
  have clamp: "clamp_long n = n" using assms by (simp add: clamp_long_def)
  obtain x xs where x: "ds = x # xs" using ds(3) by (cases ds) auto
  have "digit_value x < 10" using ds(1) x by simp
  note nx = nospace [OF this] this
  show ?thesis
  proof (cases "n = 0")
    case True
    then show ?thesis
      by (simp add: fmt_d_def decimal.simps strtol0_def Let_def isspace_def digit_value_def clamp_long_def)
  next
    case False
    then have "x \<noteq> 48" using ds(4) x by simp
    moreover have "fmt_d n = (if n < 0 then 45 # ds else ds)" by (simp add: fmt_d_def ds_def lit_def)
    moreover have "\<not> isspace 45" by (simp add: isspace_def)
    ultimately show ?thesis
      using nx ds(2) x clamp by (auto simp: strtol0_def Let_def starts_digit_def)
  qed
qed

text \<open>An entry that holds a number in decimal, as \<^verbatim>\<open>%d\<close> prints it, is read back by
  \<^verbatim>\<open>GetInteger\<close>, for every value of the 32-bit \<^verbatim>\<open>long\<close>.\<close>

theorem GetInteger_roundtrip:
  assumes "good_doc doc" and "values_of (MakeKey sec name) (entries doc) = [fmt_d n]"
    and "- (2 ^ 31) \<le> n" and "n < 2 ^ 31"
  shows "GetInteger sec name dflt (INIReader_new (Some (doc_text doc))) = n"
proof -
  have "accepts ValueHandler" by (simp add: accepts_def ValueHandler_def Let_def)
  note p = doc_loop [OF this assms(1), of "\<lparr>ini_section = [], prev_name = [], lineno = 0, ini_error = 0,
      ini_user = Map.empty\<rparr>"]
  have "INI_Get sec name [] (INIReader_new (Some (doc_text doc))) = fmt_d n"
    using p assms(2) by (auto simp: INIReader_new_def ini_parse_def ini_parse_stream_def Let_def INI_Get_def
        ValueHandler_lookup join_value_def)
  then show ?thesis using strtol0_decimal [OF assms(3,4)] by (simp add: GetInteger_def)
qed

lemma GetInteger_roundtrip_witness:
  "GetInteger (lit ''config'') (lit ''n'') 0
     (INIReader_new (Some (doc_text [(lit ''config'', [(lit ''ALIAS'', lit ''a b''), (lit ''N'', lit ''8'')])]))) = 8"
proof -
  have "values_of (MakeKey (lit ''config'') (lit ''n''))
      (entries [(lit ''config'', [(lit ''ALIAS'', lit ''a b''), (lit ''N'', lit ''8'')])]) = [fmt_d 8]"
    by (simp add: values_of_def entries_def MakeKey_def tolower_def lit_def fmt_d_def decimal.simps)
  from GetInteger_roundtrip [OF sample_doc this] show ?thesis by simp
qed

end
