(* ===== verification/EventLogs.thy ===== *)
theory EventLogs
  imports Prelude
begin

text \<open>
  The two ring logs: the event log of all threads (\<^verbatim>\<open>LoggerUtil\<close> in the servers'
  and load clients' \<^verbatim>\<open>Log.h\<close>) and each thread's call history
  (\<^verbatim>\<open>ThreadCallHistory\<close>). Both overwrite their oldest entry and are dumped from the
  newest back; a lemma on rings serves both. The counters are far from the bounds of their 64 bits.
\<close>

unbundle bit_operations_syntax

section \<open>Rings\<close>

lemma ring_recent:
  assumes "0 < N" and "k < length es" and "length es - k \<le> N" and "length cells = N"
  shows "fold (\<lambda>(i, e) c. c[i mod N := e]) (enumerate 0 es) cells ! (k mod N) = es ! k"
  using assms(2,3)
proof (induction es rule: rev_induct)
  case (snoc e es)
  have len: "length (fold (\<lambda>(i, e) c. c[i mod N := e]) (enumerate 0 es) cells) = N" for es
    by (induction es rule: rev_induct) (simp_all add: assms(4) enumerate_append_eq)
  show ?case
  proof (cases "k = length es")
    case True
    then show ?thesis using assms(1) len by (simp add: enumerate_append_eq)
  next
    case False
    with snoc.prems have k: "k < length es" "length es - k < N" by auto
    have "k mod N \<noteq> length es mod N"
    proof
      assume eq: "k mod N = length es mod N"
      then have "N dvd length es - k"
        using k(1) by (metis mod_eq_dvd_iff_nat less_imp_le)
      then show False using k by (auto dest: dvd_imp_le)
    qed
    then show ?thesis using snoc.IH k by (simp add: enumerate_append_eq nth_append)
  qed
qed simp

section \<open>The event log\<close>

record LogEvent =
  evThreadId :: int
  evAdditionalInfo :: int
  evMessage :: "byte list option"

definition LogEvent_new :: LogEvent where
  "LogEvent_new = \<lparr>evThreadId = - 1, evAdditionalInfo = 0, evMessage = None\<rparr>"

definition MAX_LOG_SIZE :: nat where "MAX_LOG_SIZE = 65536"

record event_log =
  gLogEvents :: "LogEvent list"
  gCurrentLogIndex :: int

definition event_log_new :: event_log where
  "event_log_new = \<lparr>gLogEvents = replicate MAX_LOG_SIZE LogEvent_new, gCurrentLogIndex = 0\<rparr>"

definition EventLog :: "int \<Rightarrow> byte list \<Rightarrow> int \<Rightarrow> event_log \<Rightarrow> event_log" where
  "EventLog tid msg info l =
     (let index = gCurrentLogIndex l;
          cell = nat (index AND (int MAX_LOG_SIZE - 1))
      in l\<lparr>gCurrentLogIndex := index + 1,
           gLogEvents := (gLogEvents l)[cell :=
             \<lparr>evThreadId = tid, evAdditionalInfo = info, evMessage = Some msg\<rparr>]\<rparr>)"

text \<open>The lines between the two banners; streaming a null \<^verbatim>\<open>mMessage\<close> is undefined.\<close>

fun dump_lines :: "(nat \<Rightarrow> LogEvent) \<Rightarrow> nat list \<Rightarrow> (int \<times> byte list \<times> int) list outcome" where
  "dump_lines cell [] = Ok []"
| "dump_lines cell (i # is) =
     (case evMessage (cell i) of
        None \<Rightarrow> Fault NullDeref
      | Some msg \<Rightarrow> bnd (dump_lines cell is)
                      (\<lambda>ls. Ok ((evThreadId (cell i), msg, evAdditionalInfo (cell i)) # ls)))"

definition EventLogDumpOut :: "event_log \<Rightarrow> (int \<times> byte list \<times> int) list outcome" where
  "EventLogDumpOut l =
     (let cnt = (if gCurrentLogIndex l < int MAX_LOG_SIZE then gCurrentLogIndex l else int MAX_LOG_SIZE)
      in dump_lines (\<lambda>i. gLogEvents l ! nat ((gCurrentLogIndex l - int i) mod int MAX_LOG_SIZE))
           [1..<nat cnt + 1])"

section \<open>The call history\<close>

definition MAX_HISTORY :: nat where "MAX_HISTORY = 1024"

record ThreadCallHistory =
  mCounter :: nat
  mThreadId :: int
  mHistory :: "byte list option list"

definition ThreadCallHistory_new :: "int \<Rightarrow> ThreadCallHistory" where
  "ThreadCallHistory_new tid = \<lparr>mCounter = 0, mThreadId = tid, mHistory = replicate MAX_HISTORY None\<rparr>"

definition Append :: "byte list \<Rightarrow> ThreadCallHistory \<Rightarrow> ThreadCallHistory" where
  "Append funsig h =
     h\<lparr>mHistory := (mHistory h)[mCounter h mod MAX_HISTORY := Some funsig], mCounter := mCounter h + 1\<rparr>"

fun history_lines :: "(nat \<Rightarrow> byte list option) \<Rightarrow> nat list \<Rightarrow> byte list list outcome" where
  "history_lines cell [] = Ok []"
| "history_lines cell (i # is) =
     (case cell i of None \<Rightarrow> Fault NullDeref
      | Some s \<Rightarrow> bnd (history_lines cell is) (\<lambda>ls. Ok (s # ls)))"

definition DumpOut :: "ThreadCallHistory \<Rightarrow> byte list list outcome" where
  "DumpOut h =
     (let cnt = (if mCounter h < MAX_HISTORY then mCounter h else MAX_HISTORY)
      in history_lines (\<lambda>i. mHistory h ! ((mCounter h - i) mod MAX_HISTORY)) [1..<cnt + 1])"

section \<open>What the dumps show\<close>

definition log_all :: "(int \<times> byte list \<times> int) list \<Rightarrow> event_log" where
  "log_all es = fold (\<lambda>(tid, msg, info). EventLog tid msg info) es event_log_new"

lemma log_all_state:
  "gCurrentLogIndex (log_all es) = int (length es) \<and>
   gLogEvents (log_all es) = fold (\<lambda>(i, e) c. c[i mod MAX_LOG_SIZE := e])
     (enumerate 0 (map (\<lambda>(tid, msg, info). \<lparr>evThreadId = tid, evAdditionalInfo = info, evMessage = Some msg\<rparr>) es))
     (replicate MAX_LOG_SIZE LogEvent_new)"
proof (induction es rule: rev_induct)
  case Nil
  then show ?case by (simp add: log_all_def event_log_new_def)
next
  case (snoc e es)
  have cell: "nat (int n AND (int MAX_LOG_SIZE - 1)) = n mod MAX_LOG_SIZE" for n
  proof -
    have "int n AND (int MAX_LOG_SIZE - 1) = take_bit 16 (int n)"
      by (simp add: MAX_LOG_SIZE_def take_bit_eq_mask mask_eq_exp_minus_1)
    also have "\<dots> = int (n mod MAX_LOG_SIZE)" by (simp add: take_bit_eq_mod MAX_LOG_SIZE_def zmod_int)
    finally show ?thesis by simp
  qed
  obtain tid msg info where e: "e = (tid, msg, info)" by (cases e)
  from snoc show ?case
    by (simp add: e log_all_def EventLog_def Let_def enumerate_append_eq cell)
qed

lemma dump_lines_ok:
  "(\<And>i. i \<in> set is \<Longrightarrow> cell i = \<lparr>evThreadId = fst (f i), evAdditionalInfo = snd (snd (f i)), evMessage = Some (fst (snd (f i)))\<rparr>) \<Longrightarrow>
   dump_lines cell is = Ok (map f is)"
  by (induction "is") auto

lemma take_rev_upt: "n \<le> length es \<Longrightarrow> map (\<lambda>i. es ! (length es - i)) [1..<n + 1] = take n (rev es)"
  by (rule nth_equalityI) (auto simp: rev_nth simp del: upt_Suc)

text \<open>After any sequence of events \<^verbatim>\<open>EventLogDumpOut\<close> prints the most recent ones, at
  most 65536 of them, newest first, and never a cell that was not written.\<close>

theorem EventLogDumpOut_recent:
  "EventLogDumpOut (log_all es) = Ok (take MAX_LOG_SIZE (rev es))"
proof -
  let ?n = "min (length es) MAX_LOG_SIZE" and ?f = "\<lambda>i. es ! (length es - i)"
  have cell: "gLogEvents (log_all es) ! nat ((gCurrentLogIndex (log_all es) - int i) mod int MAX_LOG_SIZE) =
      \<lparr>evThreadId = fst (?f i), evAdditionalInfo = snd (snd (?f i)), evMessage = Some (fst (snd (?f i)))\<rparr>"
    if "i \<in> set [1..<?n + 1]" for i
  proof -
    from that have i: "1 \<le> i" "i \<le> length es" "i \<le> MAX_LOG_SIZE" by auto
    then have "nat ((int (length es) - int i) mod int MAX_LOG_SIZE) = (length es - i) mod MAX_LOG_SIZE"
      by (simp add: flip: of_nat_diff zmod_int)
    moreover have "0 < MAX_LOG_SIZE" by (simp add: MAX_LOG_SIZE_def)
    ultimately show ?thesis
      using i ring_recent [of MAX_LOG_SIZE "length es - i"
          "map (\<lambda>(tid, msg, info). \<lparr>evThreadId = tid, evAdditionalInfo = info, evMessage = Some msg\<rparr>) es"]
      by (simp add: log_all_state case_prod_beta)
  qed
  have "EventLogDumpOut (log_all es) =
      dump_lines (\<lambda>i. gLogEvents (log_all es) ! nat ((gCurrentLogIndex (log_all es) - int i) mod int MAX_LOG_SIZE)) [1..<?n + 1]"
    by (simp add: EventLogDumpOut_def Let_def log_all_state [THEN conjunct1] min_def del: upt_Suc)
  also have "\<dots> = Ok (map ?f [1..<?n + 1])" by (rule dump_lines_ok) (rule cell)
  also have "map ?f [1..<?n + 1] = take MAX_LOG_SIZE (rev es)"
    by (subst take_rev_upt) (simp_all add: min_def)
  finally show ?thesis .
qed

definition append_all :: "int \<Rightarrow> byte list list \<Rightarrow> ThreadCallHistory" where
  "append_all tid sigs = fold Append sigs (ThreadCallHistory_new tid)"

lemma append_all_state:
  "mCounter (append_all tid sigs) = length sigs \<and>
   mHistory (append_all tid sigs) = fold (\<lambda>(i, e) c. c[i mod MAX_HISTORY := e]) (enumerate 0 (map Some sigs))
     (replicate MAX_HISTORY None)"
  by (induction sigs rule: rev_induct)
    (simp_all add: append_all_def ThreadCallHistory_new_def Append_def enumerate_append_eq)

lemma history_lines_ok:
  "(\<And>i. i \<in> set is \<Longrightarrow> cell i = Some (f i)) \<Longrightarrow> history_lines cell is = Ok (map f is)"
  by (induction "is") auto

text \<open>\<^verbatim>\<open>ThreadCallHistory::DumpOut\<close> prints the last calls of its thread, at most 1024,
  newest first.\<close>

theorem DumpOut_recent:
  "DumpOut (append_all tid sigs) = Ok (take MAX_HISTORY (rev sigs))"
proof -
  let ?n = "min (length sigs) MAX_HISTORY" and ?f = "\<lambda>i. sigs ! (length sigs - i)"
  have cell: "mHistory (append_all tid sigs) ! ((mCounter (append_all tid sigs) - i) mod MAX_HISTORY) = Some (?f i)"
    if "i \<in> set [1..<?n + 1]" for i
    using that ring_recent [of MAX_HISTORY "length sigs - i" "map Some sigs" "replicate MAX_HISTORY None"]
    by (auto simp: append_all_state MAX_HISTORY_def)
  have "DumpOut (append_all tid sigs) = history_lines (\<lambda>i. mHistory (append_all tid sigs) !
      ((mCounter (append_all tid sigs) - i) mod MAX_HISTORY)) [1..<?n + 1]"
    by (simp add: DumpOut_def Let_def append_all_state [THEN conjunct1] min_def del: upt_Suc)
  also have "\<dots> = Ok (map ?f [1..<?n + 1])" by (rule history_lines_ok) (rule cell)
  also have "map ?f [1..<?n + 1] = take MAX_HISTORY (rev sigs)"
    by (subst take_rev_upt) (simp_all add: min_def)
  finally show ?thesis .
qed

end
