(* ===== verification/JobDispatch.thy ===== *)
theory JobDispatch
  imports Prelude
begin

text \<open>
  The job dispatcher of the load clients (\<^verbatim>\<open>DummyClients/JobDispatcher.h\<close>): the queue
  with many producers and one consumer, and \<^verbatim>\<open>AsyncExecutable\<close>, whose counter elects
  the thread that flushes the queue. The threads of one object are modelled, every access to shared
  memory being one step, under all interleavings (sequentially consistent). \<^verbatim>\<open>aux_pushed\<close> and
  \<^verbatim>\<open>aux_executed\<close> are auxiliary: the jobs in the order of their exchanges of
  \<^verbatim>\<open>mHead\<close>, and in the order of their execution.
\<close>

section \<open>The queue\<close>

text \<open>A node is the stub of the queue or the one inside a job.\<close>

datatype node = Stub | Entry nat

record job_queue =
  mHead :: node
  mTail :: node
  mNext :: "node \<Rightarrow> node option"

definition JobQueue_new :: job_queue where
  "JobQueue_new = \<lparr>mHead = Stub, mTail = Stub, mNext = \<lambda>_. None\<rparr>"

text \<open>\<^verbatim>\<open>Push\<close>: the exchange, which gives the previous head, and the link from it.\<close>

definition Push_exchange :: "node \<Rightarrow> job_queue \<Rightarrow> node \<times> job_queue" where
  "Push_exchange n q = (mHead q, q\<lparr>mHead := n\<rparr>)"

definition Push_link :: "node \<Rightarrow> node \<Rightarrow> job_queue \<Rightarrow> job_queue" where
  "Push_link prev n q = q\<lparr>mNext := (mNext q)(prev \<mapsto> n)\<rparr>"

text \<open>
  \<^verbatim>\<open>Pop\<close>: where the consumer is, and what a step of it leads to. Its local
  \<^verbatim>\<open>tail\<close> is always the value of \<^verbatim>\<open>mTail\<close>, which only it writes.
\<close>

datatype pop_pc =
    PopStart
  | PopNext
  | PopHead
  | PopReset
  | PopExchange
  | PopLink node
  | PopLast

datatype pop_result = Continue pop_pc | Return "node option"

definition Pop_take :: "node \<Rightarrow> job_queue \<Rightarrow> job_queue \<times> pop_result" where
  "Pop_take nxt q = (q\<lparr>mTail := nxt\<rparr>, Return (Some (mTail q)))"

fun Pop_step :: "pop_pc \<Rightarrow> job_queue \<Rightarrow> job_queue \<times> pop_result" where
  "Pop_step PopStart q =
     (case mNext q (mTail q) of
        None \<Rightarrow> (q, if mTail q = Stub then Return None else Continue PopHead)
      | Some nxt \<Rightarrow> if mTail q = Stub then (q\<lparr>mTail := nxt\<rparr>, Continue PopNext) else Pop_take nxt q)"
| "Pop_step PopNext q =
     (case mNext q (mTail q) of None \<Rightarrow> (q, Continue PopHead) | Some nxt \<Rightarrow> Pop_take nxt q)"
| "Pop_step PopHead q = (q, if mTail q \<noteq> mHead q then Return None else Continue PopReset)"
| "Pop_step PopReset q = (q\<lparr>mNext := (mNext q)(Stub := None)\<rparr>, Continue PopExchange)"
| "Pop_step PopExchange q =
     (case Push_exchange Stub q of (prev, q') \<Rightarrow> (q', Continue (PopLink prev)))"
| "Pop_step (PopLink prev) q = (Push_link prev Stub q, Continue PopLast)"
| "Pop_step PopLast q =
     (case mNext q (mTail q) of None \<Rightarrow> (q, Return None) | Some nxt \<Rightarrow> Pop_take nxt q)"

section \<open>The chain of nodes\<close>

text \<open>
  The nodes from \<^verbatim>\<open>mTail\<close> to \<^verbatim>\<open>mHead\<close> in the order of the exchanges.
  A pair of neighbours is linked, or its producer has exchanged and not yet linked (a pair of
  \<^verbatim>\<open>pd\<close>).
\<close>

fun chain :: "(node \<Rightarrow> node option) \<Rightarrow> (node \<times> node) set \<Rightarrow> node list \<Rightarrow> bool" where
  "chain nx pd [] \<longleftrightarrow> False"
| "chain nx pd [a] \<longleftrightarrow> nx a = None \<and> (\<forall>b. (a, b) \<notin> pd)"
| "chain nx pd (a # b # L) \<longleftrightarrow>
     nx a = (if (a, b) \<in> pd then None else Some b) \<and> (\<forall>c. c \<noteq> b \<longrightarrow> (a, c) \<notin> pd) \<and> chain nx pd (b # L)"

lemma chain_upd: "a \<notin> set L \<Longrightarrow> chain (nx(a := v)) pd L = chain nx pd L"
  by (induction nx pd L rule: chain.induct) auto

lemma chain_pd: "(\<And>a b. a \<in> set L \<Longrightarrow> (a, b) \<in> pd' \<longleftrightarrow> (a, b) \<in> pd) \<Longrightarrow> chain nx pd' L = chain nx pd L"
  by (induction nx pd L rule: chain.induct) auto

lemma chain_exchange:
  assumes "chain nx pd L" and "distinct L" and "n \<notin> set L" and "nx n = None" and "\<forall>b. (n, b) \<notin> pd"
  shows "chain nx (insert (last L, n) pd) (L @ [n])"
  using assms
proof (induction L)
  case (Cons a L)
  show ?case
  proof (cases L)
    case Nil
    with Cons.prems show ?thesis by simp
  next
    case (Cons b L')
    with Cons.prems(2) have "a \<noteq> last L" by auto
    with Cons.IH Cons.prems Cons show ?thesis by simp
  qed
qed simp

lemma chain_link:
  assumes "chain nx pd L" and "distinct L" and "(p, n) \<in> pd" and "p \<in> set L"
  shows "chain (nx(p \<mapsto> n)) (pd - {(p, n)}) L"
  using assms
proof (induction L)
  case (Cons a L)
  show ?case
  proof (cases L)
    case Nil
    with Cons.prems show ?thesis by simp
  next
    case (Cons b L')
    note L = this
    show ?thesis
    proof (cases "p = a")
      case True
      with Cons.prems(1,3) L have nb: "n = b" by auto
      have "chain (nx(p \<mapsto> n)) (pd - {(p, n)}) L = chain nx (pd - {(p, n)}) L"
        using Cons.prems(2) True by (intro chain_upd) simp
      also have "\<dots> = chain nx pd L"
        using Cons.prems(2) True by (intro chain_pd) auto
      finally show ?thesis using Cons.prems(1) L True nb
        by (simp del: fun_upd_apply add: fun_upd_same)
    next
      case False
      with Cons.prems(2,4) have "p \<in> set L" "distinct L" by auto
      with Cons.IH Cons.prems(1,3) L False show ?thesis by simp
    qed
  qed
qed simp

lemma chain_pop:
  assumes "chain nx pd (a # L)" and "nx a = Some b"
  shows "\<exists>L'. L = b # L' \<and> chain nx pd L \<and> (\<forall>c. (a, c) \<notin> pd)"
proof (cases L)
  case Nil
  with assms show ?thesis by simp
next
  case (Cons b' L')
  with assms have "(a, b') \<notin> pd" "b' = b" by (auto split: if_splits)
  with assms Cons show ?thesis by auto
qed

lemma chain_snd: "chain nx pd L \<Longrightarrow> (p, n) \<in> pd \<Longrightarrow> p \<in> set L \<Longrightarrow> n \<in> set (tl L)"
proof (induction L)
  case (Cons a L)
  show ?case
  proof (cases L)
    case Nil
    with Cons.prems show ?thesis by simp
  next
    case (Cons b L')
    show ?thesis
    proof (cases "p = a")
      case True
      with Cons.prems(1,2) Cons show ?thesis by auto
    next
      case False
      with Cons.IH Cons.prems Cons show ?thesis by simp
    qed
  qed
qed simp

lemma chain_last: "chain nx pd L \<Longrightarrow> nx (last L) = None \<and> (\<forall>b. (last L, b) \<notin> pd)"
  by (induction nx pd L rule: chain.induct) auto

section \<open>\<^verbatim>\<open>AsyncExecutable\<close>\<close>

record async_executable =
  mJobQueue :: job_queue
  mRemainTaskCount :: int
  mRefCount :: int
  live_jobs :: "nat set"
  aux_pushed :: "nat list"
  aux_executed :: "nat list"

definition AsyncExecutable_new :: async_executable where
  "AsyncExecutable_new = \<lparr>mJobQueue = JobQueue_new, mRemainTaskCount = 0, mRefCount = 0, live_jobs = {},
     aux_pushed = [], aux_executed = []\<rparr>"

text \<open>
  A thread in \<^verbatim>\<open>DoTask\<close>: it has counted a job (and knows whether it was the first), or is
  between exchange and link. A thread in charge of the object: it has won the count, has registered
  the object in its \<^verbatim>\<open>LExecuterList\<close>, is in \<^verbatim>\<open>Flush\<close>, or is about to
  give its reference back. Jobs may themselves call \<^verbatim>\<open>DoTask\<close>, so the two are separate.
\<close>

datatype push_pc =
    NoPush
  | Counted nat bool
  | Linking node nat bool

datatype flush_pc =
    NoFlush
  | Won
  | Listed
  | Popping pop_pc
  | Executing nat
  | Finishing
  | Releasing
  | StubTaken \<comment> \<open>the stub taken for the node of a job\<close>

record job_thread =
  pushing :: push_pc
  flushing :: flush_pc

definition idle_thread :: job_thread where
  "idle_thread = \<lparr>pushing = NoPush, flushing = NoFlush\<rparr>"

text \<open>\<^verbatim>\<open>new Job\<close> with its empty node, and \<^verbatim>\<open>mRemainTaskCount.fetch_add(1)\<close>.\<close>

definition DoTask_count :: "nat \<Rightarrow> async_executable \<Rightarrow> async_executable \<times> push_pc" where
  "DoTask_count j a =
     (a\<lparr>live_jobs := insert j (live_jobs a),
        mJobQueue := (mJobQueue a)\<lparr>mNext := (mNext (mJobQueue a))(Entry j := None)\<rparr>,
        mRemainTaskCount := mRemainTaskCount a + 1\<rparr>,
      Counted j (mRemainTaskCount a = 0))"

definition DoTask_exchange :: "nat \<Rightarrow> bool \<Rightarrow> async_executable \<Rightarrow> async_executable \<times> push_pc" where
  "DoTask_exchange j first a =
     (case Push_exchange (Entry j) (mJobQueue a) of (prev, q) \<Rightarrow>
      (a\<lparr>mJobQueue := q, aux_pushed := aux_pushed a @ [j]\<rparr>, Linking prev j first))"

definition DoTask_link ::
  "node \<Rightarrow> nat \<Rightarrow> bool \<Rightarrow> flush_pc \<Rightarrow> async_executable \<Rightarrow> async_executable \<times> job_thread" where
  "DoTask_link prev j first f a =
     (a\<lparr>mJobQueue := Push_link prev (Entry j) (mJobQueue a)\<rparr>,
      \<lparr>pushing = NoPush, flushing = if first then Won else f\<rparr>)"

text \<open>\<^verbatim>\<open>AddRefForThis\<close>, then \<^verbatim>\<open>LExecuterList->push_back\<close> when the thread is
  busy with another object (\<^verbatim>\<open>busy\<close>), else \<^verbatim>\<open>Flush\<close>.\<close>

definition DoTask_won :: "bool \<Rightarrow> async_executable \<Rightarrow> async_executable \<times> flush_pc" where
  "DoTask_won busy a = (a\<lparr>mRefCount := mRefCount a + 1\<rparr>, if busy then Listed else Popping PopStart)"

definition Flush_pop :: "pop_pc \<Rightarrow> async_executable \<Rightarrow> async_executable \<times> flush_pc" where
  "Flush_pop pc a =
     (case Pop_step pc (mJobQueue a) of (q, r) \<Rightarrow>
      (case r of
         Continue pc' \<Rightarrow> (a\<lparr>mJobQueue := q\<rparr>, Popping pc')
       | Return None \<Rightarrow> (a\<lparr>mJobQueue := q\<rparr>, Popping PopStart)
       | Return (Some Stub) \<Rightarrow> (a\<lparr>mJobQueue := q\<rparr>, StubTaken)
       | Return (Some (Entry j)) \<Rightarrow> (a\<lparr>mJobQueue := q, aux_executed := aux_executed a @ [j]\<rparr>, Executing j)))"

definition Flush_delete :: "nat \<Rightarrow> async_executable \<Rightarrow> async_executable \<times> flush_pc" where
  "Flush_delete j a = (a\<lparr>live_jobs := live_jobs a - {j}\<rparr>, Finishing)"

definition Flush_count :: "async_executable \<Rightarrow> async_executable \<times> flush_pc" where
  "Flush_count a = (a\<lparr>mRemainTaskCount := mRemainTaskCount a - 1\<rparr>,
     if mRemainTaskCount a = 1 then Releasing else Popping PopStart)"

definition DoTask_release :: "async_executable \<Rightarrow> async_executable \<times> flush_pc" where
  "DoTask_release a = (a\<lparr>mRefCount := mRefCount a - 1\<rparr>, NoFlush)"

section \<open>The threads\<close>

text \<open>
  A thread calls \<^verbatim>\<open>DoTask\<close> on the object from outside, with the object in its
  \<^verbatim>\<open>LExecuterList\<close>, or inside a job of it. A thread that is about to give back its reference
  and meanwhile flushes the other objects of its \<^verbatim>\<open>LExecuterList\<close>, whose jobs may call
  \<^verbatim>\<open>DoTask\<close> on this one again, is two threads of the model: no shared variable of the
  object distinguishes the two.
\<close>

inductive thread_step :: "job_thread \<Rightarrow> async_executable \<Rightarrow> async_executable \<times> job_thread \<Rightarrow> bool" where
  start: "flushing x \<in> {NoFlush, Listed} \<union> range Executing \<Longrightarrow> pushing x = NoPush \<Longrightarrow> j \<notin> live_jobs a \<Longrightarrow>
    DoTask_count j a = (a', p) \<Longrightarrow> thread_step x a (a', x\<lparr>pushing := p\<rparr>)"
| exchange: "pushing x = Counted j first \<Longrightarrow> DoTask_exchange j first a = (a', p) \<Longrightarrow>
    thread_step x a (a', x\<lparr>pushing := p\<rparr>)"
| link: "pushing x = Linking prev j first \<Longrightarrow> thread_step x a (DoTask_link prev j first (flushing x) a)"
| won: "pushing x = NoPush \<Longrightarrow> flushing x = Won \<Longrightarrow> DoTask_won busy a = (a', f) \<Longrightarrow>
    thread_step x a (a', x\<lparr>flushing := f\<rparr>)"
| listed: "pushing x = NoPush \<Longrightarrow> flushing x = Listed \<Longrightarrow> thread_step x a (a, x\<lparr>flushing := Popping PopStart\<rparr>)"
| pop: "pushing x = NoPush \<Longrightarrow> flushing x = Popping pc \<Longrightarrow> Flush_pop pc a = (a', f) \<Longrightarrow>
    thread_step x a (a', x\<lparr>flushing := f\<rparr>)"
| delete: "pushing x = NoPush \<Longrightarrow> flushing x = Executing j \<Longrightarrow> Flush_delete j a = (a', f) \<Longrightarrow>
    thread_step x a (a', x\<lparr>flushing := f\<rparr>)"
| finish: "pushing x = NoPush \<Longrightarrow> flushing x = Finishing \<Longrightarrow> Flush_count a = (a', f) \<Longrightarrow>
    thread_step x a (a', x\<lparr>flushing := f\<rparr>)"
| release: "pushing x = NoPush \<Longrightarrow> flushing x = Releasing \<Longrightarrow> DoTask_release a = (a', f) \<Longrightarrow>
    thread_step x a (a', x\<lparr>flushing := f\<rparr>)"

inductive_cases thread_stepE: "thread_step x a r"

type_synonym dispatcher = "async_executable \<times> job_thread list"

inductive dispatch_step :: "dispatcher \<Rightarrow> dispatcher \<Rightarrow> bool" where
  dispatch_step: "t < length ts \<Longrightarrow> thread_step (ts ! t) a (a', x) \<Longrightarrow> dispatch_step (a, ts) (a', ts[t := x])"

inductive_cases dispatch_stepE: "dispatch_step s s'"

definition dispatch_init :: "dispatcher \<Rightarrow> bool" where
  "dispatch_init s \<longleftrightarrow> s = (AsyncExecutable_new, replicate (length (snd s)) idle_thread)"

end
