(* ===== verification/JobProofs.thy ===== *)
theory JobProofs
  imports JobDispatch
begin

text \<open>
  The dispatcher's invariant: the nodes from tail to head form a chain whose gaps are exactly the
  producers between exchange and link, the jobs alive are those counted, queued or executing, and the
  counter is positive exactly while one thread is in charge.
\<close>

section \<open>The invariant\<close>

fun job_of_node :: "node \<Rightarrow> nat list" where
  "job_of_node Stub = []"
| "job_of_node (Entry j) = [j]"

definition jobs :: "node list \<Rightarrow> nat list" where
  "jobs L = concat (map job_of_node L)"

lemma jobs_simps [simp]: "jobs [] = []" "jobs (n # L) = job_of_node n @ jobs L" "jobs (L @ M) = jobs L @ jobs M"
  by (simp_all add: jobs_def)

lemma set_jobs [simp]: "j \<in> set (jobs L) \<longleftrightarrow> Entry j \<in> set L"
proof (induction L)
  case (Cons n L)
  then show ?case by (cases n) auto
qed simp

lemma distinct_jobs: "distinct L \<Longrightarrow> distinct (jobs L)"
proof (induction L)
  case (Cons n L)
  then show ?case by (cases n) auto
qed simp

text \<open>What a thread has pending: links it owes to the chain, jobs in its hands.\<close>

definition push_links :: "push_pc \<Rightarrow> (node \<times> node) set" where
  "push_links p = (case p of Linking prev j _ \<Rightarrow> {(prev, Entry j)} | _ \<Rightarrow> {})"

definition flush_links :: "flush_pc \<Rightarrow> (node \<times> node) set" where
  "flush_links f = (case f of Popping (PopLink prev) \<Rightarrow> {(prev, Stub)} | _ \<Rightarrow> {})"

definition links :: "job_thread \<Rightarrow> (node \<times> node) set" where
  "links x = push_links (pushing x) \<union> flush_links (flushing x)"

definition push_holds :: "push_pc \<Rightarrow> nat multiset" where
  "push_holds p = (case p of Counted j _ \<Rightarrow> {#j#} | _ \<Rightarrow> {#})"

definition flush_holds :: "flush_pc \<Rightarrow> nat multiset" where
  "flush_holds f = (case f of Executing j \<Rightarrow> {#j#} | _ \<Rightarrow> {#})"

definition holds :: "job_thread \<Rightarrow> nat multiset" where
  "holds x = push_holds (pushing x) + flush_holds (flushing x)"

definition first_push :: "push_pc \<Rightarrow> bool" where
  "first_push p = (case p of NoPush \<Rightarrow> False | Counted _ first \<Rightarrow> first | Linking _ _ first \<Rightarrow> first)"

definition in_charge :: "flush_pc \<Rightarrow> bool" where
  "in_charge f \<longleftrightarrow> f \<noteq> NoFlush \<and> f \<noteq> Releasing"

definition holder :: "job_thread \<Rightarrow> bool" where
  "holder x \<longleftrightarrow> first_push (pushing x) \<or> in_charge (flushing x)"

definition has_ref :: "job_thread \<Rightarrow> bool" where
  "has_ref x \<longleftrightarrow> flushing x \<noteq> NoFlush \<and> flushing x \<noteq> Won"

lemmas pc_defs = links_def push_links_def flush_links_def holds_def push_holds_def flush_holds_def
  holder_def first_push_def in_charge_def has_ref_def

fun push_ok :: "(node \<Rightarrow> node option) \<Rightarrow> node list \<Rightarrow> push_pc \<Rightarrow> bool" where
  "push_ok nx L NoPush \<longleftrightarrow> True"
| "push_ok nx L (Counted j _) \<longleftrightarrow> nx (Entry j) = None"
| "push_ok nx L (Linking prev j _) \<longleftrightarrow> prev \<in> set L \<and> Entry j \<in> set L"

fun pop_ok :: "(node \<Rightarrow> node option) \<Rightarrow> node list \<Rightarrow> pop_pc \<Rightarrow> bool" where
  "pop_ok nx L PopStart \<longleftrightarrow> True"
| "pop_ok nx L PopReset \<longleftrightarrow> Stub \<notin> set L"
| "pop_ok nx L PopExchange \<longleftrightarrow> Stub \<notin> set L \<and> nx Stub = None"
| "pop_ok nx L (PopLink prev) \<longleftrightarrow> hd L \<noteq> Stub \<and> prev \<in> set L \<and> Stub \<in> set L"
| "pop_ok nx L PopNext \<longleftrightarrow> hd L \<noteq> Stub"
| "pop_ok nx L PopHead \<longleftrightarrow> hd L \<noteq> Stub"
| "pop_ok nx L PopLast \<longleftrightarrow> hd L \<noteq> Stub"

fun flush_ok :: "(node \<Rightarrow> node option) \<Rightarrow> node list \<Rightarrow> flush_pc \<Rightarrow> bool" where
  "flush_ok nx L (Popping pc) \<longleftrightarrow> pop_ok nx L pc"
| "flush_ok nx L StubTaken \<longleftrightarrow> False"
| "flush_ok nx L _ \<longleftrightarrow> True"

definition may_push :: "flush_pc \<Rightarrow> bool" where
  "may_push f \<longleftrightarrow> f \<in> {NoFlush, Listed} \<union> range Executing"

definition thread_ok :: "(node \<Rightarrow> node option) \<Rightarrow> node list \<Rightarrow> job_thread \<Rightarrow> bool" where
  "thread_ok nx L x \<longleftrightarrow> push_ok nx L (pushing x) \<and> flush_ok nx L (flushing x) \<and>
     (pushing x \<noteq> NoPush \<longrightarrow> may_push (flushing x)) \<and>
     (first_push (pushing x) \<longrightarrow> flushing x = NoFlush)"

definition owes :: "nat \<Rightarrow> job_thread \<Rightarrow> bool" where
  "owes j x \<longleftrightarrow> (case pushing x of Linking _ k _ \<Rightarrow> k = j | _ \<Rightarrow> False)"

definition owed :: "job_thread list \<Rightarrow> (node \<times> node) set" where
  "owed ts = \<Union> (set (map links ts))"

definition held :: "job_thread list \<Rightarrow> nat multiset" where
  "held ts = sum_list (map holds ts)"

definition dinv :: "node list \<Rightarrow> async_executable \<Rightarrow> job_thread list \<Rightarrow> bool" where
  "dinv L a ts \<longleftrightarrow>
     chain (mNext (mJobQueue a)) (owed ts) L \<and> distinct L \<and>
     hd L = mTail (mJobQueue a) \<and> last L = mHead (mJobQueue a) \<and>
     aux_pushed a = aux_executed a @ jobs L \<and>
     finite (live_jobs a) \<and> mset (jobs L) + held ts = mset_set (live_jobs a) \<and>
     mRemainTaskCount a = int (card (live_jobs a)) + int (count_if (\<lambda>x. flushing x = Finishing) ts) \<and>
     count_if holder ts = (if mRemainTaskCount a = 0 then 0 else 1) \<and>
     mRefCount a = int (count_if has_ref ts) \<and>
     (\<forall>x\<in>set ts. thread_ok (mNext (mJobQueue a)) L x) \<and>
     (\<forall>j. count_if (owes j) ts \<le> 1)"

text \<open>The parts of the invariant that a step leaves alone, carried over to an updated list.\<close>

lemma map_same: "f x = f (ts ! t) \<Longrightarrow> map f (ts[t := x]) = map f ts"
  by (metis list_update_id map_update)

lemma owed_same: "t < length ts \<Longrightarrow> links x = links (ts ! t) \<Longrightarrow> owed (ts[t := x]) = owed ts"
  by (simp add: owed_def map_same del: set_map)

lemma owed_update: "t < length ts \<Longrightarrow> owed (ts[t := x]) \<union> links (ts ! t) = owed ts \<union> links x"
  using Union_update [of t "map links ts" "links x"] by (simp add: owed_def map_update del: set_map)

lemma held_same: "t < length ts \<Longrightarrow> holds x = holds (ts ! t) \<Longrightarrow> held (ts[t := x]) = held ts"
  by (simp add: held_def map_same)

lemma held_update: "t < length ts \<Longrightarrow> held (ts[t := x]) + holds (ts ! t) = held ts + holds x"
  by (simp add: held_def sum_update)

lemma count_same: "t < length ts \<Longrightarrow> P x = P (ts ! t) \<Longrightarrow> count_if P (ts[t := x]) = count_if P ts"
  using count_if_update [of t ts P x] by (simp split: if_splits)

lemma all_update: "\<forall>y\<in>set ts. P y \<Longrightarrow> P x \<Longrightarrow> \<forall>y\<in>set (ts[t := x]). P y"
  using set_update_subset_insert [of ts t x] by blast

lemma sole_holder:
  assumes "count_if P ts \<le> 1" and "t < length ts" and "P (ts ! t)" and "y \<in> set (ts[t := x])" and "y \<noteq> x"
  shows "\<not> P y"
proof
  assume "P y"
  from assms(4,5) obtain u where u: "u < length ts" "u \<noteq> t" "y = ts ! u"
    by (auto simp: in_set_conv_nth nth_list_update assms(2) split: if_splits)
  with count_if_two [of t ts u P] assms(1-3) \<open>P y\<close> show False by simp
qed

lemma thread_ok_mono:
  assumes "thread_ok nx L x" and "\<And>j f. pushing x = Counted j f \<Longrightarrow> nx' (Entry j) = None"
    and "nx' Stub = nx Stub \<or> Stub \<in> set L" and "set L \<subseteq> set L'" and "Stub \<in> set L' \<longleftrightarrow> Stub \<in> set L"
    and "hd L' = hd L"
  shows "thread_ok nx' L' x"
proof -
  have "push_ok nx' L' (pushing x)"
    using assms by (cases "pushing x") (auto simp: thread_ok_def)
  moreover have "flush_ok nx' L' (flushing x)"
  proof (cases "flushing x")
    case (Popping pc)
    with assms show ?thesis by (cases pc) (auto simp: thread_ok_def)
  qed (use assms(1) in \<open>auto simp: thread_ok_def\<close>)
  ultimately show ?thesis using assms(1) by (simp add: thread_ok_def)
qed

lemma thread_ok_bystander:
  assumes "thread_ok nx L x" and "\<not> in_charge (flushing x)" and "push_ok nx' L' (pushing x)"
  shows "thread_ok nx' L' x"
  using assms by (cases "flushing x") (auto simp: thread_ok_def in_charge_def)

lemma queued_live: "dinv L a ts \<Longrightarrow> Entry j \<in> set L \<Longrightarrow> j \<in> live_jobs a"
  unfolding dinv_def by (metis finite_set_mset_mset_set set_jobs set_mset_mset union_iff)

lemma in_sum_holds: "x \<in> set ts \<Longrightarrow> j \<in># holds x \<Longrightarrow> j \<in># held ts"
  by (induction ts) (auto simp: held_def)

lemma held_live:
  assumes "dinv L a ts" and "x \<in> set ts" and "j \<in># holds x"
  shows "j \<in> live_jobs a" and "Entry j \<notin> set L"
proof -
  have m: "mset (jobs L) + held ts = mset_set (live_jobs a)" "finite (live_jobs a)"
    using assms(1) by (simp_all add: dinv_def)
  have in_sum: "j \<in># held ts"
    using assms(2,3) by (rule in_sum_holds)
  then have "j \<in># mset_set (live_jobs a)" using m(1) by (metis union_iff)
  with m(2) show "j \<in> live_jobs a" by simp
  have "count (mset_set (live_jobs a)) j \<le> 1" using m(2) by (simp add: count_mset_set')
  with m(1) have "count (mset (jobs L)) j + count (held ts) j \<le> 1"
    by (metis count_union)
  moreover have "0 < count (held ts) j" using in_sum by simp
  ultimately have "count (mset (jobs L)) j = 0" by linarith
  then show "Entry j \<notin> set L" by (simp add: count_eq_zero_iff)
qed

section \<open>The steps keep it\<close>

lemma start_inv:
  assumes "dinv L a ts" and "t < length ts" and "may_push (flushing (ts ! t))" and "pushing (ts ! t) = NoPush"
    and "j \<notin> live_jobs a" and "DoTask_count j a = (a', p)"
  shows "dinv L a' (ts[t := (ts ! t)\<lparr>pushing := p\<rparr>])"
proof -
  let ?x = "(ts ! t)\<lparr>pushing := p\<rparr>" and ?nx = "mNext (mJobQueue a)"
  from assms(6) have p: "p = Counted j (mRemainTaskCount a = 0)"
    and a': "a' = a\<lparr>live_jobs := insert j (live_jobs a),
        mJobQueue := (mJobQueue a)\<lparr>mNext := ?nx(Entry j := None)\<rparr>,
        mRemainTaskCount := mRemainTaskCount a + 1\<rparr>"
    by (simp_all add: DoTask_count_def)
  note inv = assms(1) [unfolded dinv_def]
  have nL: "Entry j \<notin> set L" using queued_live [OF assms(1)] assms(5) by blast
  have mem: "ts ! t \<in> set ts" using assms(2) by simp
  have l: "owed (ts[t := ?x]) = owed ts"
    using assms(2,4) by (intro owed_same) (simp_all add: pc_defs p)
  have h: "held (ts[t := ?x]) = add_mset j (held ts)"
    using held_update [OF assms(2), of ?x] assms(4) by (simp add: pc_defs p)
  have c: "count_if (\<lambda>x. flushing x = Finishing) (ts[t := ?x]) = count_if (\<lambda>x. flushing x = Finishing) ts"
    "count_if has_ref (ts[t := ?x]) = count_if has_ref ts" "\<And>k. count_if (owes k) (ts[t := ?x]) = count_if (owes k) ts"
    using assms(2,4) by (intro count_same; simp add: pc_defs owes_def p)+
  have tok: "thread_ok ?nx L (ts ! t)" using inv mem by blast
  have hold: "count_if holder (ts[t := ?x]) = 1"
  proof (cases "mRemainTaskCount a = 0")
    case True
    with inv have "count_if holder ts = 0" by simp
    then have "\<not> holder (ts ! t)" using mem by (simp add: count_if_zero)
    with \<open>count_if holder ts = 0\<close> count_if_update [OF assms(2), of holder ?x] True show ?thesis
      by (auto simp: pc_defs p)
  next
    case False
    have "holder ?x = holder (ts ! t)" using False assms(4) by (simp add: pc_defs p)
    with count_same [OF assms(2)] inv False show ?thesis by simp
  qed
  have f0: "flushing (ts ! t) = NoFlush" if "mRemainTaskCount a = 0"
  proof -
    from that inv have "count_if holder ts = 0" by simp
    then have "\<not> holder (ts ! t)" using mem by (simp add: count_if_zero)
    with assms(3) show ?thesis by (auto simp: holder_def in_charge_def may_push_def)
  qed
  have ok: "\<forall>x\<in>set (ts[t := ?x]). thread_ok (?nx(Entry j := None)) L x"
  proof (rule all_update)
    have "thread_ok (?nx(Entry j := None)) L x" if "thread_ok ?nx L x" for x
      by (rule thread_ok_mono [OF that]) (use that in \<open>auto simp: thread_ok_def\<close>)
    with inv show "\<forall>x\<in>set ts. thread_ok (?nx(Entry j := None)) L x" by blast
    show "thread_ok (?nx(Entry j := None)) L ?x"
      using thread_ok_mono [OF tok, of "?nx(Entry j := None)" L] assms(3,4) f0
      by (simp add: thread_ok_def p first_push_def)
  qed
  have "mRemainTaskCount a \<ge> 0" using inv by linarith
  with inv l h c hold ok nL assms(5) show ?thesis
    by (simp add: dinv_def a' chain_upd)
qed

lemma links_in_chain:
  assumes "dinv L a ts" and "(p, n) \<in> owed ts"
  shows "p \<in> set L" and "n \<in> set L"
proof -
  from assms(2) obtain x where x: "x \<in> set ts" "(p, n) \<in> links x" by (auto simp: owed_def)
  with assms(1) have "thread_ok (mNext (mJobQueue a)) L x" by (simp add: dinv_def)
  with x(2) show "p \<in> set L" "n \<in> set L"
    by (auto simp: thread_ok_def links_def push_links_def flush_links_def split: push_pc.splits flush_pc.splits pop_pc.splits)
qed

lemma may_push_links: "may_push f \<Longrightarrow> flush_links f = {}"
  by (auto simp: may_push_def flush_links_def)

lemma may_push_ok: "may_push f \<Longrightarrow> flush_ok nx L f"
  by (auto simp: may_push_def)

lemma chain_nonempty: "dinv L a ts \<Longrightarrow> L \<noteq> []"
  by (auto simp: dinv_def)

lemma exchange_inv:
  assumes "dinv L a ts" and "t < length ts" and "pushing (ts ! t) = Counted j first"
    and "DoTask_exchange j first a = (a', p)"
  shows "dinv (L @ [Entry j]) a' (ts[t := (ts ! t)\<lparr>pushing := p\<rparr>])"
proof -
  let ?x = "(ts ! t)\<lparr>pushing := p\<rparr>" and ?nx = "mNext (mJobQueue a)" and ?h = "mHead (mJobQueue a)"
  from assms(4) have p: "p = Linking ?h j first"
    and a': "a' = a\<lparr>mJobQueue := (mJobQueue a)\<lparr>mHead := Entry j\<rparr>, aux_pushed := aux_pushed a @ [j]\<rparr>"
    by (simp_all add: DoTask_exchange_def Push_exchange_def)
  note inv = assms(1) [unfolded dinv_def]
  note ne = chain_nonempty [OF assms(1)]
  have mem: "ts ! t \<in> set ts" using assms(2) by simp
  have tok: "thread_ok ?nx L (ts ! t)" using inv mem by blast
  then have mp: "may_push (flushing (ts ! t))" by (simp add: thread_ok_def assms(3))
  have nL: "Entry j \<notin> set L"
    by (rule held_live(2) [OF assms(1) mem]) (simp add: pc_defs assms(3))
  have l: "owed (ts[t := ?x]) = insert (last L, Entry j) (owed ts)"
    using owed_update [OF assms(2), of ?x] assms(3) inv may_push_links [OF mp]
    by (simp add: links_def push_links_def p)
  have "chain ?nx (insert (last L, Entry j) (owed ts)) (L @ [Entry j])"
  proof (rule chain_exchange)
    show "\<forall>b. (Entry j, b) \<notin> owed ts" using links_in_chain(1) [OF assms(1)] nL by blast
    show "?nx (Entry j) = None" using tok assms(3) by (simp add: thread_ok_def)
  qed (use inv nL in auto)
  moreover have "mset (jobs (L @ [Entry j])) + held (ts[t := ?x]) = mset_set (live_jobs a)"
  proof -
    have "held ts = add_mset j (held (ts[t := ?x]))"
      using held_update [OF assms(2), of ?x] by (simp add: pc_defs p assms(3))
    with inv show ?thesis by simp
  qed
  moreover have c: "count_if (\<lambda>x. flushing x = Finishing) (ts[t := ?x]) = count_if (\<lambda>x. flushing x = Finishing) ts"
    "count_if has_ref (ts[t := ?x]) = count_if has_ref ts" "count_if holder (ts[t := ?x]) = count_if holder ts"
    using assms(2,3) by (intro count_same; simp add: pc_defs p)+
  moreover have "count_if (owes k) (ts[t := ?x]) \<le> 1" for k
  proof (cases "k = j")
    case True
    have "\<not> owes j x" if "x \<in> set ts" for x
    proof
      assume "owes j x"
      moreover have "thread_ok ?nx L x" using inv that by blast
      ultimately show False using nL by (auto simp: owes_def thread_ok_def split: push_pc.splits)
    qed
    then have "count_if (owes j) ts = 0" by (simp add: count_if_zero)
    with True count_if_update [OF assms(2), of "owes j" ?x] show ?thesis by (simp split: if_splits)
  next
    case False
    with inv count_same [OF assms(2), of "owes k" ?x] assms(3) show ?thesis by (simp add: owes_def p)
  qed
  moreover have "\<forall>x\<in>set (ts[t := ?x]). thread_ok ?nx (L @ [Entry j]) x"
  proof (rule all_update)
    have up: "thread_ok ?nx (L @ [Entry j]) x" if "thread_ok ?nx L x" for x
      by (rule thread_ok_mono [OF that]) (use that ne in \<open>auto simp: thread_ok_def\<close>)
    with inv show "\<forall>x\<in>set ts. thread_ok ?nx (L @ [Entry j]) x" by blast
    have "?h \<in> set L" using last_in_set [OF ne] inv by metis
    with up [OF tok] mp show "thread_ok ?nx (L @ [Entry j]) ?x"
      by (simp add: thread_ok_def p assms(3) first_push_def)
  qed
  ultimately show ?thesis
    using inv nL ne by (simp add: dinv_def a' l)
qed

text \<open>Linking removes the pair from what is owed, because no other thread owes it.\<close>

lemma owed_link:
  assumes "t < length ts" and "links (ts ! t) = {e} \<union> A" and "links x = A" and "e \<notin> A"
    and "\<And>y. y \<in> set (ts[t := x]) \<Longrightarrow> y \<noteq> x \<Longrightarrow> e \<notin> links y"
  shows "owed (ts[t := x]) = owed ts - {e}"
proof -
  have "e \<notin> owed (ts[t := x])"
    using assms(3-5) by (auto simp: owed_def)
  moreover have "A \<subseteq> owed (ts[t := x])"
    using set_update_memI [OF assms(1), of x] assms(3) by (auto simp: owed_def)
  moreover have "A \<subseteq> owed ts"
    using nth_mem [OF assms(1)] assms(2) by (auto simp: owed_def)
  moreover have "owed (ts[t := x]) \<union> ({e} \<union> A) = owed ts \<union> A"
    using owed_update [OF assms(1), of x] by (simp only: assms(2,3))
  ultimately show ?thesis using assms(4) by blast
qed

lemma link_inv:
  assumes "dinv L a ts" and "t < length ts" and "pushing (ts ! t) = Linking prev j first"
    and "DoTask_link prev j first (flushing (ts ! t)) a = (a', x)"
  shows "dinv L a' (ts[t := x])"
proof -
  let ?nx = "mNext (mJobQueue a)" and ?e = "(prev, Entry j)" and ?f = "flushing (ts ! t)"
  from assms(4) have x: "x = \<lparr>pushing = NoPush, flushing = if first then Won else ?f\<rparr>"
    and a': "a' = a\<lparr>mJobQueue := (mJobQueue a)\<lparr>mNext := ?nx(prev \<mapsto> Entry j)\<rparr>\<rparr>"
    by (auto simp: DoTask_link_def Push_link_def)
  note inv = assms(1) [unfolded dinv_def]
  have mem: "ts ! t \<in> set ts" using assms(2) by simp
  have tok: "thread_ok ?nx L (ts ! t)" using inv mem by blast
  then have mp: "may_push ?f" "first \<Longrightarrow> ?f = NoFlush" and prev: "prev \<in> set L"
    by (simp_all add: thread_ok_def assms(3) first_push_def)
  have ff: "flush_links (flushing x) = {}" using may_push_links [OF mp(1)] by (simp add: x flush_links_def)
  have e: "?e \<in> owed ts"
    using mem assms(3) by (force simp: owed_def links_def push_links_def)
  have l: "owed (ts[t := x]) = owed ts - {?e}"
  proof (rule owed_link [OF assms(2), where A = "{}"])
    show "links (ts ! t) = {?e} \<union> {}" using may_push_links [OF mp(1)] by (simp add: links_def push_links_def assms(3))
    show "links x = {}" unfolding links_def ff by (simp add: push_links_def x)
    fix y assume "y \<in> set (ts[t := x])" and "y \<noteq> x"
    moreover have "count_if (owes j) ts \<le> 1" "owes j (ts ! t)" using inv by (simp_all add: owes_def assms(3))
    ultimately have "\<not> owes j y" by (intro sole_holder [OF _ assms(2)])
    then show "?e \<notin> links y"
      by (auto simp: owes_def links_def push_links_def flush_links_def split: push_pc.splits flush_pc.splits pop_pc.splits)
  qed simp
  have "chain (?nx(prev \<mapsto> Entry j)) (owed ts - {?e}) L"
    using inv e prev by (intro chain_link) simp_all
  moreover have "held (ts[t := x]) = held ts"
    using assms(2,3) mp by (intro held_same) (auto simp: pc_defs x)
  moreover have "count_if (\<lambda>x. flushing x = Finishing) (ts[t := x]) = count_if (\<lambda>x. flushing x = Finishing) ts"
    "count_if has_ref (ts[t := x]) = count_if has_ref ts" "count_if holder (ts[t := x]) = count_if holder ts"
    using assms(2,3) mp by (intro count_same; auto simp: pc_defs x)+
  moreover have "count_if (owes k) (ts[t := x]) \<le> 1" for k
  proof -
    have "\<not> owes k x" by (simp add: owes_def x)
    then have "count_if (owes k) (ts[t := x]) \<le> count_if (owes k) ts"
      using count_if_update [OF assms(2), of "owes k" x] by simp
    moreover have "count_if (owes k) ts \<le> 1" using inv by blast
    ultimately show ?thesis by linarith
  qed
  moreover have "\<forall>y\<in>set (ts[t := x]). thread_ok (?nx(prev \<mapsto> Entry j)) L y"
  proof (rule all_update)
    have "thread_ok (?nx(prev \<mapsto> Entry j)) L y" if y: "y \<in> set ts" for y
    proof -
      have ty: "thread_ok ?nx L y" using inv y by blast
      show ?thesis
      proof (rule thread_ok_mono [OF ty])
        fix k f assume k: "pushing y = Counted k f"
        then have "Entry k \<notin> set L" by (intro held_live(2) [OF assms(1) y]) (simp add: pc_defs)
        with prev ty k show "(?nx(prev \<mapsto> Entry j)) (Entry k) = None" by (auto simp: thread_ok_def)
      qed (use prev in auto)
    qed
    then show "\<forall>y\<in>set ts. thread_ok (?nx(prev \<mapsto> Entry j)) L y" by blast
    show "thread_ok (?nx(prev \<mapsto> Entry j)) L x"
      using may_push_ok [OF mp(1)] by (simp add: thread_ok_def x first_push_def)
  qed
  ultimately show ?thesis using inv by (simp add: dinv_def a' l)
qed

text \<open>The steps of \<^verbatim>\<open>Flush\<close> that leave the queue alone.\<close>

lemma flush_update:
  assumes "dinv L a ts" and "t < length ts" and "pushing (ts ! t) = NoPush"
    and "flush_links (flushing (ts ! t)) = {}" and "flush_links f = {}" and "flush_ok (mNext (mJobQueue a)) L f"
    and "ts' = ts[t := (ts ! t)\<lparr>flushing := f\<rparr>]"
    and "mJobQueue a' = mJobQueue a" and "aux_pushed a' = aux_pushed a" and "aux_executed a' = aux_executed a"
    and "finite (live_jobs a')" and "mset (jobs L) + held ts' = mset_set (live_jobs a')"
    and "mRemainTaskCount a' = int (card (live_jobs a')) + int (count_if (\<lambda>x. flushing x = Finishing) ts')"
    and "count_if holder ts' = (if mRemainTaskCount a' = 0 then 0 else 1)"
    and "mRefCount a' = int (count_if has_ref ts')"
  shows "dinv L a' ts'"
proof -
  let ?x = "(ts ! t)\<lparr>flushing := f\<rparr>"
  note inv = assms(1) [unfolded dinv_def]
  have "owed ts' = owed ts" unfolding assms(7)
    using assms(3-5) by (intro owed_same [OF assms(2)]) (simp add: links_def)
  moreover have "count_if (owes k) ts' = count_if (owes k) ts" for k unfolding assms(7)
    by (intro count_same [OF assms(2)]) (simp add: owes_def)
  moreover have "\<forall>y\<in>set ts'. thread_ok (mNext (mJobQueue a)) L y" unfolding assms(7)
    using inv by (intro all_update) (simp_all add: thread_ok_def assms(3,6) first_push_def)
  ultimately show ?thesis using inv assms(8-15) by (simp add: dinv_def)
qed

lemma dinv_in_chargeD:
  assumes "dinv L a ts" and "t < length ts" and "holder (ts ! t)"
  shows "mRemainTaskCount a \<noteq> 0" and "count_if holder ts = 1"
proof -
  have "count_if holder ts \<noteq> 0" using assms(2,3) by (auto simp: count_if_zero)
  with assms(1) show "mRemainTaskCount a \<noteq> 0" "count_if holder ts = 1" by (auto simp: dinv_def split: if_splits)
qed

lemma won_inv:
  assumes "dinv L a ts" and "t < length ts" and "pushing (ts ! t) = NoPush" and "flushing (ts ! t) = Won" and "DoTask_won busy a = (a', f)"
  shows "dinv L a' (ts[t := (ts ! t)\<lparr>flushing := f\<rparr>])"
proof -
  let ?x = "(ts ! t)\<lparr>flushing := f\<rparr>"
  note inv = assms(1) [unfolded dinv_def]
  note cnt = count_if_update [OF assms(2), of _ ?x] and hld = held_update [OF assms(2), of ?x]
  have f: "f = Listed \<or> f = Popping PopStart" and a': "a' = a\<lparr>mRefCount := mRefCount a + 1\<rparr>"
    using assms(5) by (auto simp: DoTask_won_def split: if_splits)
  show ?thesis
    using inv f assms(3,4) hld cnt [of holder] cnt [of has_ref]
      cnt [of "\<lambda>x. flushing x = Finishing"]
    by (intro flush_update [OF assms(1-3), where f = f]) (auto simp: a' pc_defs)
qed

lemma listed_inv:
  assumes "dinv L a ts" and "t < length ts" and "pushing (ts ! t) = NoPush" and "flushing (ts ! t) = Listed" and "f = Popping PopStart"
  shows "dinv L a (ts[t := (ts ! t)\<lparr>flushing := f\<rparr>])"
proof -
  let ?x = "(ts ! t)\<lparr>flushing := f\<rparr>"
  note inv = assms(1) [unfolded dinv_def]
  note cnt = count_if_update [OF assms(2), of _ ?x] and hld = held_update [OF assms(2), of ?x]
  show ?thesis
    using inv assms(3-5) hld cnt [of holder] cnt [of has_ref]
      cnt [of "\<lambda>x. flushing x = Finishing"]
    by (intro flush_update [OF assms(1-3), where f = f]) (auto simp: pc_defs)
qed

lemma delete_inv:
  assumes "dinv L a ts" and "t < length ts" and "pushing (ts ! t) = NoPush" and "flushing (ts ! t) = Executing j" and "Flush_delete j a = (a', f)"
  shows "dinv L a' (ts[t := (ts ! t)\<lparr>flushing := f\<rparr>])"
proof -
  let ?x = "(ts ! t)\<lparr>flushing := f\<rparr>"
  note inv = assms(1) [unfolded dinv_def]
  note cnt = count_if_update [OF assms(2), of _ ?x] and hld = held_update [OF assms(2), of ?x]
  have f: "f = Finishing" and a': "a' = a\<lparr>live_jobs := live_jobs a - {j}\<rparr>"
    using assms(5) by (auto simp: Flush_delete_def)
  have j: "j \<in> live_jobs a"
    using held_live(1) [OF assms(1), of "ts ! t" j] assms(2,4) by (simp add: pc_defs)
  have "held ts = add_mset j (held (ts[t := ?x]))" using hld assms(4) f by (simp add: pc_defs)
  with inv have "mset_set (live_jobs a) = add_mset j (mset (jobs L) + held (ts[t := ?x]))" by simp
  moreover have "mset_set (live_jobs a) = add_mset j (mset_set (live_jobs a - {j}))"
    using inv j by (simp add: mset_set.remove)
  ultimately have m: "mset (jobs L) + held (ts[t := ?x]) = mset_set (live_jobs a - {j})" by simp
  have "card (live_jobs a) = Suc (card (live_jobs a - {j}))" using inv j by (metis card_Suc_Diff1)
  with m show ?thesis
    using inv f assms(3,4) cnt [of holder] cnt [of has_ref]
      cnt [of "\<lambda>x. flushing x = Finishing"]
    by (intro flush_update [OF assms(1-3), where f = f]) (auto simp: a' pc_defs)
qed

lemma count_inv:
  assumes "dinv L a ts" and "t < length ts" and "pushing (ts ! t) = NoPush" and "flushing (ts ! t) = Finishing" and "Flush_count a = (a', f)"
  shows "dinv L a' (ts[t := (ts ! t)\<lparr>flushing := f\<rparr>])"
proof -
  let ?x = "(ts ! t)\<lparr>flushing := f\<rparr>"
  note inv = assms(1) [unfolded dinv_def]
  note cnt = count_if_update [OF assms(2), of _ ?x] and hld = held_update [OF assms(2), of ?x]
  have f: "f = (if mRemainTaskCount a = 1 then Releasing else Popping PopStart)"
    and a': "a' = a\<lparr>mRemainTaskCount := mRemainTaskCount a - 1\<rparr>"
    using assms(5) by (auto simp: Flush_count_def)
  have h: "holder (ts ! t)" by (simp add: holder_def in_charge_def assms(4))
  show ?thesis
    using inv f assms(3,4) hld cnt [of holder] cnt [of has_ref]
      cnt [of "\<lambda>x. flushing x = Finishing"] dinv_in_chargeD [OF assms(1,2) h]
    by (intro flush_update [OF assms(1-3), where f = f]) (auto simp: a' pc_defs)
qed

lemma release_inv:
  assumes "dinv L a ts" and "t < length ts" and "pushing (ts ! t) = NoPush" and "flushing (ts ! t) = Releasing" and "DoTask_release a = (a', f)"
  shows "dinv L a' (ts[t := (ts ! t)\<lparr>flushing := f\<rparr>])"
proof -
  let ?x = "(ts ! t)\<lparr>flushing := f\<rparr>"
  note inv = assms(1) [unfolded dinv_def]
  note cnt = count_if_update [OF assms(2), of _ ?x] and hld = held_update [OF assms(2), of ?x]
  have f: "f = NoFlush" and a': "a' = a\<lparr>mRefCount := mRefCount a - 1\<rparr>"
    using assms(5) by (auto simp: DoTask_release_def)
  show ?thesis
    using inv f assms(3,4) hld cnt [of holder] cnt [of has_ref]
      cnt [of "\<lambda>x. flushing x = Finishing"]
    by (intro flush_update [OF assms(1-3), where f = f]) (auto simp: a' pc_defs)
qed

lemmas flush_steps = won_inv listed_inv [OF _ _ _ _ refl] delete_inv count_inv release_inv

section \<open>\<^verbatim>\<open>Pop\<close>\<close>

lemma pop_update:
  assumes "dinv L a ts" and "t < length ts" and "pushing (ts ! t) = NoPush" and "flushing (ts ! t) = Popping pc"
    and f: "f \<in> range Popping \<union> range Executing"
    and a': "a' = a\<lparr>mJobQueue := q, aux_executed := aux_executed a @ js\<rparr>"
    and L': "chain (mNext q) (owed (ts[t := (ts ! t)\<lparr>flushing := f\<rparr>])) L'" "distinct L'"
      "hd L' = mTail q" "last L' = mHead q" "jobs L = js @ jobs L'" "flush_holds f = mset js"
    and ok: "flush_ok (mNext q) L' f"
    and others: "\<And>y. y \<in> set ts \<Longrightarrow> push_ok (mNext (mJobQueue a)) L (pushing y) \<Longrightarrow> push_ok (mNext q) L' (pushing y)"
  shows "dinv L' a' (ts[t := (ts ! t)\<lparr>flushing := f\<rparr>])"
proof -
  let ?x = "(ts ! t)\<lparr>flushing := f\<rparr>" and ?nx = "mNext (mJobQueue a)"
  note inv = assms(1) [unfolded dinv_def]
  have "holder (ts ! t)" by (simp add: holder_def in_charge_def assms(4))
  have "held (ts[t := ?x]) = held ts + flush_holds f"
    using held_update [OF assms(2), of ?x] assms(4) by (simp add: holds_def flush_holds_def)
  moreover have "count_if (\<lambda>x. flushing x = Finishing) (ts[t := ?x]) = count_if (\<lambda>x. flushing x = Finishing) ts"
    "count_if has_ref (ts[t := ?x]) = count_if has_ref ts" "count_if holder (ts[t := ?x]) = count_if holder ts"
    "\<And>k. count_if (owes k) (ts[t := ?x]) = count_if (owes k) ts"
    using assms(2,4) f by (intro count_same; auto simp: pc_defs owes_def)+
  moreover have "\<forall>y\<in>set (ts[t := ?x]). thread_ok (mNext q) L' y"
  proof
    fix y assume y: "y \<in> set (ts[t := ?x])"
    show "thread_ok (mNext q) L' y"
    proof (cases "y = ?x")
      case True
      then show ?thesis using ok by (simp add: thread_ok_def assms(3) first_push_def)
    next
      case False
      have "count_if holder ts \<le> 1" using inv by (simp split: if_splits)
      from sole_holder [OF this assms(2) \<open>holder (ts ! t)\<close> y False] have nh: "\<not> in_charge (flushing y)"
        by (simp add: holder_def)
      from y False have mem: "y \<in> set ts" using set_update_subset_insert [of ts t ?x] by blast
      with inv have ty: "thread_ok ?nx L y" by blast
      then have "push_ok (mNext q) L' (pushing y)" by (intro others [OF mem]) (simp add: thread_ok_def)
      then show ?thesis by (rule thread_ok_bystander [OF ty nh])
    qed
  qed
  moreover have "mset (jobs L') + (held ts + flush_holds f) = mset_set (live_jobs a)"
  proof -
    have "mset (jobs L) + held ts = mset_set (live_jobs a)" using inv by blast
    with L'(5,6) show ?thesis by (simp add: ac_simps)
  qed
  ultimately show ?thesis
    using inv L' by (simp add: dinv_def a')
qed

lemma owed_pop:
  assumes "t < length ts" and "pushing (ts ! t) = NoPush" and "flushing (ts ! t) = Popping pc"
    and "flush_links (Popping pc) = {}"
  shows "owed (ts[t := (ts ! t)\<lparr>flushing := f\<rparr>]) = owed ts \<union> flush_links f"
  using owed_update [OF assms(1), of "(ts ! t)\<lparr>flushing := f\<rparr>"] assms(2-4)
  by (simp add: links_def push_links_def)

text \<open>Taking the tail, when it is linked to its successor and is the node of a job.\<close>

lemma pop_next:
  assumes "dinv L a ts" and "mNext (mJobQueue a) (mTail (mJobQueue a)) = Some b"
  obtains R where "L = mTail (mJobQueue a) # R" and "chain (mNext (mJobQueue a)) (owed ts) R"
    and "hd R = b" and "R \<noteq> []" and "\<And>c. (mTail (mJobQueue a), c) \<notin> owed ts"
    and "\<And>y. y \<in> set ts \<Longrightarrow> push_ok (mNext (mJobQueue a)) L (pushing y) \<Longrightarrow>
      push_ok (mNext (mJobQueue a)) R (pushing y)"
proof -
  let ?nx = "mNext (mJobQueue a)" and ?a = "mTail (mJobQueue a)"
  obtain R where L: "L = ?a # R"
    using chain_nonempty [OF assms(1)] assms(1) by (cases L) (auto simp: dinv_def)
  have ch: "chain ?nx (owed ts) (?a # R)" using assms(1) L by (simp add: dinv_def)
  from chain_pop [OF this assms(2)] have R: "chain ?nx (owed ts) R" "hd R = b" "R \<noteq> []" "\<And>c. (?a, c) \<notin> owed ts"
    by auto
  have "push_ok ?nx R (pushing y)" if y: "y \<in> set ts" "push_ok ?nx L (pushing y)" for y
  proof (cases "pushing y")
    case (Linking p j f)
    with y(1) have pd: "(p, Entry j) \<in> owed ts" by (force simp: owed_def links_def push_links_def)
    with R(4) have "p \<noteq> ?a" by blast
    moreover have "Entry j \<in> set (tl (?a # R))"
      using y(2) Linking L by (intro chain_snd [OF ch pd]) simp
    ultimately show ?thesis using y(2) Linking L by simp
  qed (use y in auto)
  with L R that show thesis by blast
qed

lemma take_inv:
  assumes "dinv L a ts" and "t < length ts" and "pushing (ts ! t) = NoPush" and "flushing (ts ! t) = Popping pc"
    and "flush_links (Popping pc) = {}" and "mTail (mJobQueue a) \<noteq> Stub"
    and "mNext (mJobQueue a) (mTail (mJobQueue a)) = Some b" and "Pop_step pc (mJobQueue a) = Pop_take b (mJobQueue a)"
    and "Flush_pop pc a = (a', f)"
  shows "\<exists>L'. dinv L' a' (ts[t := (ts ! t)\<lparr>flushing := f\<rparr>])"
proof -
  obtain j where j: "mTail (mJobQueue a) = Entry j" using assms(6) by (cases "mTail (mJobQueue a)") auto
  from assms(8,9) j have f: "f = Executing j"
    and a': "a' = a\<lparr>mJobQueue := (mJobQueue a)\<lparr>mTail := b\<rparr>, aux_executed := aux_executed a @ [j]\<rparr>"
    by (auto simp: Flush_pop_def Pop_take_def)
  obtain R where R: "L = Entry j # R" "chain (mNext (mJobQueue a)) (owed ts) R" "hd R = b" "R \<noteq> []"
    "\<And>y. y \<in> set ts \<Longrightarrow> push_ok (mNext (mJobQueue a)) L (pushing y) \<Longrightarrow>
      push_ok (mNext (mJobQueue a)) R (pushing y)"
    using pop_next [OF assms(1,7)] j by metis
  have "dinv R a' (ts[t := (ts ! t)\<lparr>flushing := f\<rparr>])"
  proof (rule pop_update [OF assms(1-4) _ a'])
    show "chain (mNext ((mJobQueue a)\<lparr>mTail := b\<rparr>)) (owed (ts[t := (ts ! t)\<lparr>flushing := f\<rparr>])) R"
      using R(2) by (simp add: owed_pop [OF assms(2-5)] f flush_links_def)
    show "last R = mHead ((mJobQueue a)\<lparr>mTail := b\<rparr>)" using assms(1) R(1,4) by (simp add: dinv_def)
  qed (use R assms(1) j in \<open>auto simp: f flush_holds_def dinv_def\<close>)
  then show ?thesis by blast
qed

text \<open>A step of \<^verbatim>\<open>Pop\<close> that only moves on.\<close>

lemma move_inv:
  assumes "dinv L a ts" and "t < length ts" and "pushing (ts ! t) = NoPush" and "flushing (ts ! t) = Popping pc"
    and "flush_links (Popping pc) = {}" and "flush_links (Popping pc') = {}"
    and "pop_ok (mNext (mJobQueue a)) L pc'" and "Flush_pop pc a = (a\<lparr>mJobQueue := mJobQueue a\<rparr>, Popping pc')"
    and "Flush_pop pc a = (a', f)"
  shows "\<exists>L'. dinv L' a' (ts[t := (ts ! t)\<lparr>flushing := f\<rparr>])"
proof (rule exI [of _ L], rule pop_update [OF assms(1-4), where q = "mJobQueue a" and js = "[]"])
  from assms(8,9) have f: "f = Popping pc'" and a': "a' = a\<lparr>mJobQueue := mJobQueue a\<rparr>" by simp_all
  show "f \<in> range Popping \<union> range Executing" "flush_ok (mNext (mJobQueue a)) L f" "flush_holds f = mset []"
    "a' = a\<lparr>mJobQueue := mJobQueue a, aux_executed := aux_executed a @ []\<rparr>"
    using assms(7) by (simp_all add: f a' flush_holds_def)
  show "chain (mNext (mJobQueue a)) (owed (ts[t := (ts ! t)\<lparr>flushing := f\<rparr>])) L"
    using assms(1) by (simp add: owed_pop [OF assms(2-5)] f assms(6) dinv_def)
qed (use assms(1) in \<open>auto simp: dinv_def\<close>)

text \<open>What the invariant says to a thread that pops.\<close>

lemma popping_state:
  assumes "dinv L a ts" and "t < length ts" and "flushing (ts ! t) = Popping pc"
  shows "pop_ok (mNext (mJobQueue a)) L pc" and "hd L = mTail (mJobQueue a)" and "last L = mHead (mJobQueue a)"
    and "chain (mNext (mJobQueue a)) (owed ts) L" and "distinct L" and "L \<noteq> []"
proof -
  note inv = assms(1) [unfolded dinv_def]
  have "thread_ok (mNext (mJobQueue a)) L (ts ! t)" using inv assms(2) by simp
  then show "pop_ok (mNext (mJobQueue a)) L pc" by (simp add: thread_ok_def assms(3))
  show "hd L = mTail (mJobQueue a)" "last L = mHead (mJobQueue a)" "chain (mNext (mJobQueue a)) (owed ts) L" "distinct L"
    using inv by blast+
  show "L \<noteq> []" by (rule chain_nonempty [OF assms(1)])
qed

lemma pop_start_stub_inv:
  assumes "dinv L a ts" and "t < length ts" and "pushing (ts ! t) = NoPush" and "flushing (ts ! t) = Popping PopStart"
    and "Flush_pop PopStart a = (a', f)"
    and "mTail (mJobQueue a) = Stub" and "mNext (mJobQueue a) (mTail (mJobQueue a)) = Some b"
  shows "\<exists>L'. dinv L' a' (ts[t := (ts ! t)\<lparr>flushing := f\<rparr>])"
proof -
  let ?nx = "mNext (mJobQueue a)" and ?tl = "mTail (mJobQueue a)" and ?hd = "mHead (mJobQueue a)"
  note inv = assms(1) [unfolded dinv_def]
  note st = popping_state [OF assms(1,2,4)]
  obtain R where R: "L = Stub # R" "chain ?nx (owed ts) R" "hd R = b" "R \<noteq> []"
    "\<And>y. y \<in> set ts \<Longrightarrow> push_ok ?nx L (pushing y) \<Longrightarrow> push_ok ?nx R (pushing y)"
    using pop_next [OF assms(1,7)] assms(6) by metis
  have f: "f = Popping PopNext" and a': "a' = a\<lparr>mJobQueue := (mJobQueue a)\<lparr>mTail := b\<rparr>\<rparr>"
    using assms(5-7) by (auto simp: Flush_pop_def)
  have "b \<in> set R" using R(3,4) hd_in_set by blast
  then have "b \<noteq> Stub" using st(5) R(1) by auto
  have "flush_links (Popping PopStart) = {}" by (simp add: flush_links_def)
  note ow = owed_pop [OF assms(2-4) this]
  have "dinv R a' (ts[t := (ts ! t)\<lparr>flushing := f\<rparr>])"
  proof (rule pop_update [OF assms(1-4), where q = "(mJobQueue a)\<lparr>mTail := b\<rparr>" and js = "[]"])
    show "chain (mNext ((mJobQueue a)\<lparr>mTail := b\<rparr>)) (owed (ts[t := (ts ! t)\<lparr>flushing := f\<rparr>])) R"
      using R(2) by (simp add: ow f flush_links_def)
    show "flush_ok (mNext ((mJobQueue a)\<lparr>mTail := b\<rparr>)) R f" using R(3) \<open>b \<noteq> Stub\<close> by (simp add: f)
  qed (use R st in \<open>auto simp: f a' flush_holds_def\<close>)
  then show ?thesis by blast
qed

lemma pop_head_inv:
  assumes "dinv L a ts" and "t < length ts" and "pushing (ts ! t) = NoPush" and "flushing (ts ! t) = Popping PopHead"
    and "Flush_pop PopHead a = (a', f)"
  shows "\<exists>L'. dinv L' a' (ts[t := (ts ! t)\<lparr>flushing := f\<rparr>])"
proof -
  let ?nx = "mNext (mJobQueue a)" and ?tl = "mTail (mJobQueue a)" and ?hd = "mHead (mJobQueue a)"
  note inv = assms(1) [unfolded dinv_def]
  note move = move_inv [OF assms(1-4) _ _ _ _ assms(5)]
  note st = popping_state [OF assms(1,2,4)]
  show ?thesis
  proof (cases "?tl = ?hd")
    case False
    with assms(5) show ?thesis by (intro move [of PopStart]) (auto simp: Flush_pop_def flush_links_def)
  next
    case True
    have "L = [?tl]"
    proof (cases L)
      case (Cons n M)
      have "M = []"
      proof (rule ccontr)
        assume "M \<noteq> []"
        then have "last L \<in> set M" using Cons by simp
        with True st Cons show False by simp
      qed
      with Cons st(2) show ?thesis by simp
    qed (use st(6) in simp)
    then have "set L = {?tl}" by (metis list.set(1) list.set(2))
    with True st(1) st(2) show ?thesis
      by (intro move [of PopReset]) (auto simp: Flush_pop_def flush_links_def)
  qed
qed

lemma pop_reset_inv:
  assumes "dinv L a ts" and "t < length ts" and "pushing (ts ! t) = NoPush" and "flushing (ts ! t) = Popping PopReset"
    and "Flush_pop PopReset a = (a', f)"
  shows "\<exists>L'. dinv L' a' (ts[t := (ts ! t)\<lparr>flushing := f\<rparr>])"
proof -
  let ?nx = "mNext (mJobQueue a)" and ?tl = "mTail (mJobQueue a)" and ?hd = "mHead (mJobQueue a)"
  note inv = assms(1) [unfolded dinv_def]
  note st = popping_state [OF assms(1,2,4)]
  have ns: "Stub \<notin> set L" using st(1) by simp
  have f: "f = Popping PopExchange" and a': "a' = a\<lparr>mJobQueue := (mJobQueue a)\<lparr>mNext := ?nx(Stub := None)\<rparr>\<rparr>"
    using assms(5) by (auto simp: Flush_pop_def)
  have "flush_links (Popping PopReset) = {}" by (simp add: flush_links_def)
  note ow = owed_pop [OF assms(2-4) this]
  have "dinv L a' (ts[t := (ts ! t)\<lparr>flushing := f\<rparr>])"
  proof (rule pop_update [OF assms(1-4), where q = "(mJobQueue a)\<lparr>mNext := ?nx(Stub := None)\<rparr>" and js = "[]"])
    show "chain (mNext ((mJobQueue a)\<lparr>mNext := ?nx(Stub := None)\<rparr>)) (owed (ts[t := (ts ! t)\<lparr>flushing := f\<rparr>])) L"
      using st(4) ns by (simp add: ow f flush_links_def chain_upd)
    fix y assume "push_ok ?nx L (pushing y)"
    then show "push_ok (mNext ((mJobQueue a)\<lparr>mNext := ?nx(Stub := None)\<rparr>)) L (pushing y)"
      by (cases "pushing y") auto
  qed (use ns st in \<open>auto simp: f a' flush_holds_def\<close>)
  then show ?thesis by blast
qed

lemma pop_exchange_inv:
  assumes "dinv L a ts" and "t < length ts" and "pushing (ts ! t) = NoPush" and "flushing (ts ! t) = Popping PopExchange"
    and "Flush_pop PopExchange a = (a', f)"
  shows "\<exists>L'. dinv L' a' (ts[t := (ts ! t)\<lparr>flushing := f\<rparr>])"
proof -
  let ?nx = "mNext (mJobQueue a)" and ?tl = "mTail (mJobQueue a)" and ?hd = "mHead (mJobQueue a)"
  note inv = assms(1) [unfolded dinv_def]
  note st = popping_state [OF assms(1,2,4)]
  have ns: "Stub \<notin> set L" "?nx Stub = None" using st(1) by simp_all
  have f: "f = Popping (PopLink ?hd)" and a': "a' = a\<lparr>mJobQueue := (mJobQueue a)\<lparr>mHead := Stub\<rparr>\<rparr>"
    using assms(5) by (auto simp: Flush_pop_def Push_exchange_def)
  have "flush_links (Popping PopExchange) = {}" by (simp add: flush_links_def)
  note ow = owed_pop [OF assms(2-4) this]
  have in_L: "hd L \<in> set L" "?hd \<in> set L" using st(6) st(3) last_in_set [OF st(6)] by simp_all
  then have "hd L \<noteq> Stub" using ns(1) by metis
  have "chain ?nx (insert (last L, Stub) (owed ts)) (L @ [Stub])"
    using links_in_chain(1) [OF assms(1)] ns st(4,5) by (intro chain_exchange) blast+
  then have ch: "chain (mNext ((mJobQueue a)\<lparr>mHead := Stub\<rparr>)) (owed (ts[t := (ts ! t)\<lparr>flushing := f\<rparr>])) (L @ [Stub])"
    by (simp add: ow f flush_links_def st(3))
  have "dinv (L @ [Stub]) a' (ts[t := (ts ! t)\<lparr>flushing := f\<rparr>])"
  proof (rule pop_update [OF assms(1-4) _ _ ch, where js = "[]"])
    fix y assume "push_ok ?nx L (pushing y)"
    then show "push_ok (mNext ((mJobQueue a)\<lparr>mHead := Stub\<rparr>)) (L @ [Stub]) (pushing y)"
      by (cases "pushing y") auto
  qed (use ns st st(6) in_L \<open>hd L \<noteq> Stub\<close> in \<open>auto simp: f a' flush_holds_def\<close>)
  then show ?thesis by blast
qed

lemma pop_link_inv:
  assumes "dinv L a ts" and "t < length ts" and "pushing (ts ! t) = NoPush" and "flushing (ts ! t) = Popping (PopLink prev)"
    and "Flush_pop (PopLink prev) a = (a', f)"
  shows "\<exists>L'. dinv L' a' (ts[t := (ts ! t)\<lparr>flushing := f\<rparr>])"
proof -
  let ?nx = "mNext (mJobQueue a)" and ?tl = "mTail (mJobQueue a)" and ?hd = "mHead (mJobQueue a)"
  note inv = assms(1) [unfolded dinv_def]
  note st = popping_state [OF assms(1,2,4)]
  have pv: "hd L \<noteq> Stub" "prev \<in> set L" using st(1) by simp_all
  have f: "f = Popping PopLast" and a': "a' = a\<lparr>mJobQueue := (mJobQueue a)\<lparr>mNext := ?nx(prev \<mapsto> Stub)\<rparr>\<rparr>"
    using assms(5) by (auto simp: Flush_pop_def Push_link_def)
  let ?x = "(ts ! t)\<lparr>flushing := f\<rparr>"
  have lk: "links (ts ! t) = {(prev, Stub)} \<union> {}"
    by (simp add: links_def push_links_def flush_links_def assms(3,4))
  have hold: "count_if holder ts \<le> 1" "holder (ts ! t)"
    using inv by (simp_all add: holder_def in_charge_def assms(4) split: if_splits)
  have ow: "owed (ts[t := ?x]) = owed ts - {(prev, Stub)}"
  proof (rule owed_link [OF assms(2) lk])
    show "links ?x = {}" by (simp add: links_def push_links_def flush_links_def assms(3) f)
    fix y assume "y \<in> set (ts[t := ?x])" "y \<noteq> ?x"
    from sole_holder [OF hold(1) assms(2) hold(2) this] have "\<not> in_charge (flushing y)" by (simp add: holder_def)
    then show "(prev, Stub) \<notin> links y"
      by (cases "flushing y"; cases "pushing y") (auto simp: in_charge_def links_def push_links_def flush_links_def)
  qed simp
  have "(prev, Stub) \<in> owed ts" using assms(2) lk by (force simp: owed_def)
  then have ch: "chain (mNext ((mJobQueue a)\<lparr>mNext := ?nx(prev \<mapsto> Stub)\<rparr>)) (owed (ts[t := ?x])) L"
    using chain_link [OF st(4,5) _ pv(2)] by (simp add: ow)
  have "dinv L a' (ts[t := ?x])"
  proof (rule pop_update [OF assms(1-4) _ _ ch, where js = "[]"])
    fix y assume y: "y \<in> set ts" "push_ok ?nx L (pushing y)"
    show "push_ok (mNext ((mJobQueue a)\<lparr>mNext := ?nx(prev \<mapsto> Stub)\<rparr>)) L (pushing y)"
    proof (cases "pushing y")
      case (Counted k g)
      then have "Entry k \<notin> set L" by (intro held_live(2) [OF assms(1) y(1)]) (simp add: pc_defs)
      with y(2) Counted pv(2) show ?thesis by auto
    qed (use y(2) in auto)
  qed (use st pv in \<open>auto simp: f a' flush_holds_def\<close>)
  then show ?thesis by blast
qed

lemma pop_start_inv:
  assumes "dinv L a ts" and "t < length ts" and "pushing (ts ! t) = NoPush" and "flushing (ts ! t) = Popping PopStart"
    and "Flush_pop PopStart a = (a', f)"
  shows "\<exists>L'. dinv L' a' (ts[t := (ts ! t)\<lparr>flushing := f\<rparr>])"
proof -
  let ?nx = "mNext (mJobQueue a)" and ?tl = "mTail (mJobQueue a)"
  note st = popping_state [OF assms(1,2,4)]
  note take = take_inv [OF assms(1-4) _ _ _ _ assms(5)] and move = move_inv [OF assms(1-4) _ _ _ _ assms(5)]
  show ?thesis
  proof (cases "?nx ?tl")
    case None
    show ?thesis
    proof (cases "?tl = Stub")
      case True
      with None show ?thesis by (intro move [of PopStart]) (auto simp: Flush_pop_def flush_links_def)
    next
      case False
      with None st(2) show ?thesis by (intro move [of PopHead]) (auto simp: Flush_pop_def flush_links_def)
    qed
  next
    case (Some b)
    show ?thesis
    proof (cases "?tl = Stub")
      case False
      with Some show ?thesis by (intro take [of b]) (auto simp: flush_links_def)
    next
      case True
      with assms Some show ?thesis by (intro pop_start_stub_inv) auto
    qed
  qed
qed

lemma pop_node_inv:
  assumes "dinv L a ts" and "t < length ts" and "pushing (ts ! t) = NoPush" and "flushing (ts ! t) = Popping pc"
    and "Flush_pop pc a = (a', f)" and "pc \<in> {PopNext, PopLast}"
  shows "\<exists>L'. dinv L' a' (ts[t := (ts ! t)\<lparr>flushing := f\<rparr>])"
proof -
  note st = popping_state [OF assms(1,2,4)]
  note take = take_inv [OF assms(1-4) _ _ _ _ assms(5)] and move = move_inv [OF assms(1-4) _ _ _ _ assms(5)]
  have ns: "mTail (mJobQueue a) \<noteq> Stub" using st(1,2) assms(6) by auto
  show ?thesis
  proof (cases "mNext (mJobQueue a) (mTail (mJobQueue a))")
    case None
    with ns st(2) assms(6) show ?thesis
      by (intro move [of "if pc = PopNext then PopHead else PopStart"]) (auto simp: Flush_pop_def flush_links_def)
  next
    case (Some b)
    with ns assms(6) show ?thesis by (intro take [of b]) (auto simp: flush_links_def)
  qed
qed

lemma pop_inv:
  assumes "dinv L a ts" and "t < length ts" and "pushing (ts ! t) = NoPush" and "flushing (ts ! t) = Popping pc"
    and "Flush_pop pc a = (a', f)"
  shows "\<exists>L'. dinv L' a' (ts[t := (ts ! t)\<lparr>flushing := f\<rparr>])"
  using assms
proof (cases pc)
  case PopStart
  with assms show ?thesis by (intro pop_start_inv) auto
next
  case PopNext
  with assms show ?thesis by (intro pop_node_inv) auto
next
  case PopLast
  with assms show ?thesis by (intro pop_node_inv) auto
next
  case PopHead
  with assms show ?thesis by (intro pop_head_inv) auto
next
  case PopReset
  with assms show ?thesis by (intro pop_reset_inv) auto
next
  case PopExchange
  with assms show ?thesis by (intro pop_exchange_inv) auto
next
  case (PopLink prev)
  with assms show ?thesis by (intro pop_link_inv) auto
qed

section \<open>Reachable states\<close>

definition dispatch_inv :: "dispatcher \<Rightarrow> bool" where
  "dispatch_inv s \<longleftrightarrow> (\<exists>L. dinv L (fst s) (snd s))"

lemma dinv_init: "dinv [Stub] AsyncExecutable_new (replicate n idle_thread)"
proof -
  have "owed (replicate n idle_thread) = {}"
    by (auto simp: owed_def idle_thread_def pc_defs)
  moreover have "held (replicate n idle_thread) = {#}"
    by (induction n) (simp_all add: held_def idle_thread_def pc_defs)
  moreover have "count_if P (replicate n idle_thread) = 0" if "\<not> P idle_thread" for P
    using that by (simp add: count_if_zero)
  ultimately show ?thesis
    by (simp add: dinv_def AsyncExecutable_new_def JobQueue_new_def thread_ok_def)
      (simp add: idle_thread_def pc_defs owes_def)
qed

lemma dispatch_step_inv:
  assumes "dispatch_inv (a, ts)" and "t < length ts" and "thread_step (ts ! t) a (a', x)"
  shows "dispatch_inv (a', ts[t := x])"
proof -
  from assms(1) obtain L where L: "dinv L a ts" by (auto simp: dispatch_inv_def)
  from assms(3) have "\<exists>L'. dinv L' a' (ts[t := x])"
  proof (cases rule: thread_step.cases)
    case (start j p)
    then have "may_push (flushing (ts ! t))" by (simp add: may_push_def)
    from start_inv [OF L assms(2) this] start show ?thesis by blast
  next
    case (exchange j first p)
    with exchange_inv [OF L assms(2)] show ?thesis by blast
  next
    case (link prev j first)
    with link_inv [OF L assms(2)] show ?thesis by metis
  next
    case (pop pc f)
    with pop_inv [OF L assms(2)] show ?thesis by blast
  qed (use flush_steps [OF L assms(2)] in blast)+
  then show ?thesis by (simp add: dispatch_inv_def)
qed

interpretation dispatch: invariant_system dispatch_init dispatch_step dispatch_inv
proof unfold_locales
  show "dispatch_init s \<Longrightarrow> dispatch_inv s" for s
    using dinv_init [of "length (snd s)"] by (cases s) (auto simp: dispatch_init_def dispatch_inv_def)
  show "dispatch_inv s \<Longrightarrow> dispatch_step s s' \<Longrightarrow> dispatch_inv s'" for s s'
    by (auto elim!: dispatch_stepE intro: dispatch_step_inv)
qed

lemma reach_dinv: "reach dispatch_init dispatch_step (a, ts) \<Longrightarrow> \<exists>L. dinv L a ts"
  using dispatch.inv_reach by (fastforce simp: dispatch_inv_def)

section \<open>Properties of the dispatcher\<close>

text \<open>A run of one thread alone, for the examples: it counts, queues and wins job 7.\<close>

definition one_counted :: async_executable where
  "one_counted = fst (DoTask_count 7 AsyncExecutable_new)"

definition one_queued :: async_executable where
  "one_queued = fst (DoTask_exchange 7 True one_counted)"

definition one_won :: async_executable where
  "one_won = fst (DoTask_won False (fst (DoTask_link Stub 7 True NoFlush one_queued)))"

lemma one_step: "thread_step x a (a', y) \<Longrightarrow> reach dispatch_init dispatch_step (a, [x]) \<Longrightarrow>
    reach dispatch_init dispatch_step (a', [y])"
  using dispatch_step.intros [of 0 "[x]" a a' y] by (auto intro: reach_step)

lemma reach_linking:
  "reach dispatch_init dispatch_step (one_queued, [\<lparr>pushing = Linking Stub 7 True, flushing = NoFlush\<rparr>])"
proof -
  have "reach dispatch_init dispatch_step (AsyncExecutable_new, [idle_thread])"
    by (rule reach_init) (simp add: dispatch_init_def)
  moreover have "thread_step idle_thread AsyncExecutable_new (one_counted, idle_thread\<lparr>pushing := Counted 7 True\<rparr>)"
    by (rule thread_step.start [where j = 7])
      (simp_all add: idle_thread_def one_counted_def DoTask_count_def AsyncExecutable_new_def)
  ultimately have 1: "reach dispatch_init dispatch_step (one_counted, [idle_thread\<lparr>pushing := Counted 7 True\<rparr>])"
    by (rule one_step [rotated])
  have "thread_step (idle_thread\<lparr>pushing := Counted 7 True\<rparr>) one_counted
      (one_queued, (idle_thread\<lparr>pushing := Counted 7 True\<rparr>)\<lparr>pushing := Linking Stub 7 True\<rparr>)"
    by (rule thread_step.exchange [where j = 7 and first = True])
      (simp_all add: one_queued_def one_counted_def DoTask_exchange_def DoTask_count_def Push_exchange_def
        AsyncExecutable_new_def JobQueue_new_def)
  from one_step [OF this 1] show ?thesis by (simp add: idle_thread_def)
qed

lemma reach_popping:
  "reach dispatch_init dispatch_step (one_won, [\<lparr>pushing = NoPush, flushing = Popping PopStart\<rparr>])"
proof -
  let ?x = "\<lparr>pushing = Linking Stub 7 True, flushing = NoFlush\<rparr>"
  have "thread_step ?x one_queued (DoTask_link Stub 7 True (flushing ?x) one_queued)"
    by (rule thread_step.link) simp
  then have "thread_step ?x one_queued (fst (DoTask_link Stub 7 True NoFlush one_queued),
      \<lparr>pushing = NoPush, flushing = Won\<rparr>)"
    by (simp add: DoTask_link_def)
  note 1 = one_step [OF this reach_linking]
  have "thread_step \<lparr>pushing = NoPush, flushing = Won\<rparr> (fst (DoTask_link Stub 7 True NoFlush one_queued))
      (one_won, \<lparr>pushing = NoPush, flushing = Won\<rparr>\<lparr>flushing := Popping PopStart\<rparr>)"
    by (rule thread_step.won [where busy = False]) (simp_all add: one_won_def DoTask_won_def)
  from one_step [OF this 1] show ?thesis by simp
qed

text \<open>The steps of a flushing thread that runs alone.\<close>

fun flush_step :: "async_executable \<times> flush_pc \<Rightarrow> async_executable \<times> flush_pc" where
  "flush_step (a, Popping pc) = Flush_pop pc a"
| "flush_step (a, Executing j) = Flush_delete j a"
| "flush_step (a, Finishing) = Flush_count a"
| "flush_step (a, Releasing) = DoTask_release a"
| "flush_step (a, f) = (a, f)"

lemma flush_thread_step:
  assumes "pushing x = NoPush" and "flush_step (a, flushing x) = (a', f)"
  shows "thread_step x a (a', x\<lparr>flushing := f\<rparr>) \<or> (a', f) = (a, flushing x)"
  using assms
  by (cases "flushing x") (auto intro: thread_step.intros)

lemma flush_steps_run:
  assumes "t < length ts" and "pushing (ts ! t) = NoPush"
    and "(flush_step ^^ n) (a, flushing (ts ! t)) = (a', f)"
  shows "dispatch_step\<^sup>*\<^sup>* (a, ts) (a', ts[t := (ts ! t)\<lparr>flushing := f\<rparr>])"
  using assms(3)
proof (induction n arbitrary: a' f)
  case 0
  have "(ts ! t)\<lparr>flushing := flushing (ts ! t)\<rparr> = ts ! t" by (cases "ts ! t") simp
  with 0 show ?case by auto
next
  case (Suc n)
  obtain b g where bg: "(flush_step ^^ n) (a, flushing (ts ! t)) = (b, g)" by force
  with Suc.prems have st: "flush_step (b, g) = (a', f)" by simp
  let ?ts = "ts[t := (ts ! t)\<lparr>flushing := g\<rparr>]"
  have "dispatch_step (b, ?ts) (a', ts[t := (ts ! t)\<lparr>flushing := f\<rparr>]) \<or> (a', f) = (b, g)"
    using flush_thread_step [of "?ts ! t" b a' f] dispatch_step.intros [of t ?ts b a' "(?ts ! t)\<lparr>flushing := f\<rparr>"]
      st assms(1,2) by auto
  with Suc.IH [OF bg] show ?case by auto
qed

lemma reach_many: "step\<^sup>*\<^sup>* s s' \<Longrightarrow> reach init step s \<Longrightarrow> reach init step s'"
  by (induction rule: rtranclp_induct) (auto intro: reach_step)

lemmas run_defs = Flush_pop_def Flush_delete_def Flush_count_def DoTask_release_def DoTask_won_def
  DoTask_link_def DoTask_exchange_def DoTask_count_def Push_exchange_def Push_link_def Pop_take_def
  AsyncExecutable_new_def JobQueue_new_def one_won_def one_queued_def one_counted_def

lemma reach_done:
  "\<exists>a. reach dispatch_init dispatch_step (a, [idle_thread]) \<and> aux_pushed a = [7]"
proof -
  have "\<exists>a. (flush_step ^^ 10) (one_won, Popping PopStart) = (a, NoFlush) \<and> aux_pushed a = [7]"
    by (simp add: run_defs eval_nat_numeral)
  then obtain a where a: "(flush_step ^^ 10) (one_won, Popping PopStart) = (a, NoFlush)" "aux_pushed a = [7]" by blast
  from flush_steps_run [of 0 "[\<lparr>pushing = NoPush, flushing = Popping PopStart\<rparr>]" 10 one_won a NoFlush] a
  have "dispatch_step\<^sup>*\<^sup>* (one_won, [\<lparr>pushing = NoPush, flushing = Popping PopStart\<rparr>]) (a, [idle_thread])"
    by (simp add: idle_thread_def)
  from reach_many [OF this reach_popping] a(2) show ?thesis by blast
qed

text \<open>
  A run of two threads: the second exchanges job 8 behind job 7 of the first, and is late with its link.
  The first links job 7, is in charge, and a whole pass of \<^verbatim>\<open>Pop\<close> gives it nothing.
\<close>

definition two_queued :: async_executable where
  "two_queued = fst (DoTask_exchange 8 False (fst (DoTask_count 8 one_queued)))"

definition two_won :: async_executable where
  "two_won = fst (DoTask_won False (fst (DoTask_link Stub 7 True NoFlush two_queued)))"

definition late_threads :: "job_thread list" where
  "late_threads = [\<lparr>pushing = NoPush, flushing = Popping PopStart\<rparr>,
     \<lparr>pushing = Linking (Entry 7) 8 False, flushing = NoFlush\<rparr>]"

lemma reach_late:
  "\<exists>a. reach dispatch_init dispatch_step (a, late_threads) \<and> mTail (mJobQueue a) = Entry 7"
proof -
  let ?r = "reach dispatch_init dispatch_step"
  have step: "?r (a', ts')" if "?r (a, ts)" "t < length ts" "thread_step (ts ! t) a (a', x)" "ts' = ts[t := x]" for a a' ts ts' t x
    using that by (auto intro: reach_step dispatch_step.intros)
  have 0: "?r (AsyncExecutable_new, [idle_thread, idle_thread])"
    by (rule reach_init) (simp add: dispatch_init_def numeral_2_eq_2)
  let ?c7 = "\<lparr>pushing = Counted 7 True, flushing = NoFlush\<rparr>" and ?l7 = "\<lparr>pushing = Linking Stub 7 True, flushing = NoFlush\<rparr>"
  let ?c8 = "\<lparr>pushing = Counted 8 False, flushing = NoFlush\<rparr>" and ?l8 = "\<lparr>pushing = Linking (Entry 7) 8 False, flushing = NoFlush\<rparr>"
  have 1: "?r (one_counted, [?c7, idle_thread])"
    by (rule step [OF 0, of 0 _ ?c7])
      (use thread_step.start [of idle_thread 7 AsyncExecutable_new one_counted "Counted 7 True"] in
        \<open>simp_all add: idle_thread_def run_defs\<close>)
  have 2: "?r (one_queued, [?l7, idle_thread])"
    by (rule step [OF 1, of 0 _ ?l7])
      (use thread_step.exchange [of ?c7 7 True one_counted one_queued "Linking Stub 7 True"] in
        \<open>simp_all add: run_defs\<close>)
  have 3: "?r (fst (DoTask_count 8 one_queued), [?l7, ?c8])"
    by (rule step [OF 2, of 1 _ ?c8])
      (use thread_step.start [of idle_thread 8 one_queued "fst (DoTask_count 8 one_queued)" "Counted 8 False"] in
        \<open>simp_all add: idle_thread_def run_defs\<close>)
  have 4: "?r (two_queued, [?l7, ?l8])"
    by (rule step [OF 3, of 1 _ ?l8])
      (use thread_step.exchange [of ?c8 8 False "fst (DoTask_count 8 one_queued)" two_queued "Linking (Entry 7) 8 False"] in
        \<open>simp_all add: run_defs two_queued_def\<close>)
  have 5: "?r (fst (DoTask_link Stub 7 True NoFlush two_queued), [\<lparr>pushing = NoPush, flushing = Won\<rparr>, ?l8])"
    by (rule step [OF 4, of 0 _ "\<lparr>pushing = NoPush, flushing = Won\<rparr>"])
      (use thread_step.link [of ?l7 Stub 7 True two_queued] in \<open>simp_all add: DoTask_link_def\<close>)
  have 6: "?r (two_won, late_threads)"
    by (rule step [OF 5, of 0 _ "\<lparr>pushing = NoPush, flushing = Popping PopStart\<rparr>"])
      (use thread_step.won [of "\<lparr>pushing = NoPush, flushing = Won\<rparr>" False "fst (DoTask_link Stub 7 True NoFlush two_queued)"
         two_won "Popping PopStart"] in \<open>simp_all add: DoTask_won_def two_won_def late_threads_def\<close>)
  have "\<exists>a. (flush_step ^^ 3) (two_won, Popping PopStart) = (a, Popping PopStart) \<and> mTail (mJobQueue a) = Entry 7"
    by (simp add: run_defs two_won_def two_queued_def eval_nat_numeral)
  then obtain a where a: "(flush_step ^^ 3) (two_won, Popping PopStart) = (a, Popping PopStart)" "mTail (mJobQueue a) = Entry 7"
    by blast
  from flush_steps_run [of 0 late_threads 3 two_won a "Popping PopStart"] a(1)
  have "dispatch_step\<^sup>*\<^sup>* (two_won, late_threads) (a, late_threads)" by (simp add: late_threads_def)
  from reach_many [OF this 6] a(2) show ?thesis by blast
qed

text \<open>C9. However the threads interleave, at most one of them at a time pops or executes the jobs of
  an object: the queue's single-consumer side has a single consumer, and the jobs need no lock.\<close>

theorem dispatcher_exclusion:
  assumes "reach dispatch_init dispatch_step (a, ts)" and "t < length ts" and "u < length ts"
    and "flushing (ts ! t) \<in> range Popping \<union> range Executing"
    and "flushing (ts ! u) \<in> range Popping \<union> range Executing"
  shows "t = u"
proof (rule ccontr)
  assume "t \<noteq> u"
  from reach_dinv [OF assms(1)] obtain L where "dinv L a ts" by blast
  then have "count_if holder ts \<le> 1" by (simp add: dinv_def split: if_splits)
  moreover have "holder (ts ! t)" "holder (ts ! u)" using assms(4,5) by (auto simp: holder_def in_charge_def)
  ultimately show False using count_if_two [OF assms(2,3) \<open>t \<noteq> u\<close>, of holder] by simp
qed

lemma dispatcher_exclusion_witness:
  "\<exists>a. reach dispatch_init dispatch_step (a, late_threads) \<and> flushing (late_threads ! 0) = Popping PopStart \<and>
     (\<forall>u<2. flushing (late_threads ! u) \<in> range Popping \<union> range Executing \<longrightarrow> u = 0)"
proof -
  obtain a where a: "reach dispatch_init dispatch_step (a, late_threads)" using reach_late by blast
  have "flushing (late_threads ! 0) = Popping PopStart" "length late_threads = 2" by (simp_all add: late_threads_def)
  with dispatcher_exclusion [OF a, of _ 0] a show ?thesis by auto
qed

text \<open>C10. The queue is a queue: under every interleaving the jobs are executed in the order in which
  their producers exchanged the head, each one once, and those not executed yet are alive and queued.\<close>

theorem dispatcher_fifo:
  assumes "reach dispatch_init dispatch_step (a, ts)"
  shows "\<exists>queued. aux_pushed a = aux_executed a @ queued \<and> distinct queued \<and> set queued \<subseteq> live_jobs a"
proof -
  from reach_dinv [OF assms] obtain L where L: "dinv L a ts" by blast
  then have "distinct (jobs L)" by (simp add: dinv_def distinct_jobs)
  moreover have "set (jobs L) \<subseteq> live_jobs a" using queued_live [OF L] by auto
  ultimately show ?thesis using L by (auto simp: dinv_def)
qed

lemma dispatcher_fifo_witness:
  "\<exists>queued. aux_pushed one_won = aux_executed one_won @ queued \<and> set queued \<subseteq> live_jobs one_won"
  using dispatcher_fifo [OF reach_popping] by blast

text \<open>C20. No job is forgotten: when every thread has left the dispatcher, every job that was ever
  pushed has been executed, the counters are back at zero and no job is left allocated.\<close>

theorem dispatcher_forgets_nothing:
  assumes "reach dispatch_init dispatch_step (a, ts)" and "\<forall>x\<in>set ts. x = idle_thread"
  shows "aux_executed a = aux_pushed a \<and> mRemainTaskCount a = 0 \<and> mRefCount a = 0 \<and> live_jobs a = {}"
proof -
  from reach_dinv [OF assms(1)] obtain L where L: "dinv L a ts" by blast
  have none: "count_if P ts = 0" if "\<not> P idle_thread" for P
    using assms(2) that by (auto simp: count_if_zero)
  have c: "mRemainTaskCount a = 0"
    using L none [of holder] by (auto simp: dinv_def pc_defs idle_thread_def split: if_splits)
  have "mRemainTaskCount a = int (card (live_jobs a)) + int (count_if (\<lambda>x. flushing x = Finishing) ts)"
    "finite (live_jobs a)" using L by (simp_all add: dinv_def)
  with c have "card (live_jobs a) = 0" by linarith
  with \<open>finite (live_jobs a)\<close> have "live_jobs a = {}" by simp
  with L have "jobs L = []" by (simp add: dinv_def)
  with L c \<open>live_jobs a = {}\<close> none [of has_ref] show ?thesis
    by (simp add: dinv_def pc_defs idle_thread_def)
qed

lemma dispatcher_forgets_nothing_witness:
  "\<exists>a. reach dispatch_init dispatch_step (a, [idle_thread]) \<and> aux_executed a = [7] \<and> mRemainTaskCount a = 0"
proof -
  obtain a where "reach dispatch_init dispatch_step (a, [idle_thread])" "aux_pushed a = [7]"
    using reach_done by blast
  with dispatcher_forgets_nothing [of a "[idle_thread]"] show ?thesis by auto
qed

text \<open>C21. A producer that is late with its link writes into live memory: between its exchange and
  its link, the node it has to link from is the queue's own stub or inside a job that is still queued,
  and that job is not executing.\<close>

theorem late_link_is_safe:
  assumes "reach dispatch_init dispatch_step (a, ts)" and "x \<in> set ts" and "pushing x = Linking prev j first"
  shows "prev = Stub \<or> (\<exists>k. prev = Entry k \<and> k \<in> live_jobs a \<and> (\<forall>y\<in>set ts. flushing y \<noteq> Executing k))"
proof -
  from reach_dinv [OF assms(1)] obtain L where L: "dinv L a ts" by blast
  with assms(2,3) have in_L: "prev \<in> set L" by (auto simp: dinv_def thread_ok_def)
  show ?thesis
  proof (cases prev)
    case (Entry k)
    with in_L queued_live [OF L] have "k \<in> live_jobs a" by simp
    moreover have "flushing y \<noteq> Executing k" if "y \<in> set ts" for y
    proof
      assume "flushing y = Executing k"
      then have "Entry k \<notin> set L" by (intro held_live(2) [OF L that]) (simp add: pc_defs)
      with in_L Entry show False by simp
    qed
    ultimately show ?thesis using Entry by blast
  qed simp
qed

lemma late_link_is_safe_witness:
  "\<exists>a. reach dispatch_init dispatch_step (a, late_threads) \<and> pushing (late_threads ! 1) = Linking (Entry 7) 8 False \<and>
     mTail (mJobQueue a) = Entry 7 \<and> 7 \<in> live_jobs a \<and> (\<forall>y\<in>set late_threads. flushing y \<noteq> Executing 7)"
proof -
  obtain a where a: "reach dispatch_init dispatch_step (a, late_threads)" "mTail (mJobQueue a) = Entry 7"
    using reach_late by blast
  have x: "late_threads ! 1 \<in> set late_threads" "pushing (late_threads ! 1) = Linking (Entry 7) 8 False"
    by (simp_all add: late_threads_def)
  from late_link_is_safe [OF a(1) x] a x(2) show ?thesis by blast
qed

text \<open>Without a producer between exchange and link, a flushing thread gets the next job by itself.\<close>

lemma held_none: "(\<And>x. x \<in> set ts \<Longrightarrow> holds x = {#}) \<Longrightarrow> held ts = {#}"
  by (induction ts) (simp_all add: held_def)

lemma pop_entry:
  assumes "mTail (mJobQueue a) = Entry j" and "pc = PopStart \<or> pc = PopNext"
    and "mNext (mJobQueue a) (Entry j) \<noteq> None \<or> mHead (mJobQueue a) = Entry j"
  shows "\<exists>n a'. (flush_step ^^ n) (a, Popping pc) = (a', Executing j)"
proof (cases "mNext (mJobQueue a) (Entry j)")
  case (Some b)
  with assms(1,2) have "\<exists>a'. (flush_step ^^ 1) (a, Popping pc) = (a', Executing j)"
    by (auto simp: run_defs)
  then show ?thesis by blast
next
  case None
  with assms have "\<exists>a'. (flush_step ^^ 6) (a, Popping pc) = (a', Executing j)"
    by (auto simp: run_defs eval_nat_numeral)
  then show ?thesis by blast
qed

lemma pop_queued:
  assumes "chain (mNext (mJobQueue a)) {} L" and "distinct L" and "hd L = mTail (mJobQueue a)"
    and "last L = mHead (mJobQueue a)" and "jobs L \<noteq> []"
  shows "\<exists>n a'. (flush_step ^^ n) (a, Popping PopStart) = (a', Executing (hd (jobs L)))"
proof (cases L)
  case (Cons n R)
  note L = this
  show ?thesis
  proof (cases n)
    case (Entry j)
    have "mNext (mJobQueue a) (Entry j) \<noteq> None \<or> mHead (mJobQueue a) = Entry j"
      using assms(1,4) L Entry by (cases R) auto
    moreover have "mTail (mJobQueue a) = Entry j" using assms(3) L Entry by simp
    ultimately have "\<exists>n a'. (flush_step ^^ n) (a, Popping PopStart) = (a', Executing j)"
      by (intro pop_entry) simp_all
    then show ?thesis by (simp add: L Entry)
  next
    case Stub
    with assms(5) L obtain m R' where R: "R = m # R'" by (cases R) auto
    with assms(2) L Stub obtain j where m: "m = Entry j" by (cases m) auto
    let ?a = "a\<lparr>mJobQueue := (mJobQueue a)\<lparr>mTail := Entry j\<rparr>\<rparr>"
    have "mNext (mJobQueue a) (Entry j) \<noteq> None \<or> mHead (mJobQueue a) = Entry j"
      using assms(1,4) L R m by (cases R') auto
    then obtain k a' where k: "(flush_step ^^ k) (?a, Popping PopNext) = (a', Executing j)"
      using pop_entry [of ?a j PopNext] by auto
    have "flush_step (a, Popping PopStart) = (?a, Popping PopNext)"
      using assms(1,3) L Stub R m by (simp add: Flush_pop_def)
    with k have "(flush_step ^^ Suc k) (a, Popping PopStart) = (a', Executing j)"
      by (simp add: funpow_Suc_right del: funpow.simps)
    then show ?thesis using L Stub R m by (intro exI [of _ "Suc k"] exI [of _ a']) simp
  qed
qed (use assms(5) in simp)

text \<open>C29. The thread in charge is never stuck behind an empty answer of \<^verbatim>\<open>Pop\<close>: from any
  reachable state in which no producer is inside \<^verbatim>\<open>DoTask\<close>, its own steps alone take it to the
  execution of the oldest queued job.\<close>

theorem dispatcher_progress:
  assumes "reach dispatch_init dispatch_step (a, ts)" and "t < length ts"
    and "flushing (ts ! t) = Popping PopStart" and "\<forall>x\<in>set ts. pushing x = NoPush"
  shows "\<exists>j queued a'. aux_pushed a = aux_executed a @ j # queued \<and>
    dispatch_step\<^sup>*\<^sup>* (a, ts) (a', ts[t := (ts ! t)\<lparr>flushing := Executing j\<rparr>])"
proof -
  from reach_dinv [OF assms(1)] obtain L where L: "dinv L a ts" by blast
  note inv = L [unfolded dinv_def]
  have h: "holder (ts ! t)" by (simp add: holder_def in_charge_def assms(3))
  note charge = dinv_in_chargeD [OF L assms(2) h]
  have others: "flushing x = Popping PopStart \<or> \<not> in_charge (flushing x)" if "x \<in> set ts" for x
    using sole_holder [of holder ts t x "ts ! t"] charge(2) assms(2,3) h that by (auto simp: holder_def)
  then have "links x = {}" "holds x = {#}" "flushing x \<noteq> Finishing" if "x \<in> set ts" for x
    using assms(4) that by (force simp: pc_defs split: flush_pc.splits)+
  then have "owed ts = {}" "held ts = {#}" "count_if (\<lambda>x. flushing x = Finishing) ts = 0"
    by (auto simp: owed_def count_if_zero intro: held_none)
  with inv have q1: "chain (mNext (mJobQueue a)) {} L" "mset (jobs L) = mset_set (live_jobs a)"
    "mRemainTaskCount a = int (card (live_jobs a))" by simp_all
  have "jobs L \<noteq> []"
  proof
    assume "jobs L = []"
    with q1(2) inv have "live_jobs a = {}" by (simp add: mset_set_empty_iff)
    with q1(3) charge(1) show False by simp
  qed
  note q = q1(1) this
  from q(2) obtain j queued where j: "jobs L = j # queued" by (cases "jobs L") auto
  with pop_queued [OF q(1)] q(2) inv obtain n a' where
    "(flush_step ^^ n) (a, Popping PopStart) = (a', Executing j)" by auto
  with flush_steps_run [OF assms(2), of n a a' "Executing j"] assms(2-4)
  have "dispatch_step\<^sup>*\<^sup>* (a, ts) (a', ts[t := (ts ! t)\<lparr>flushing := Executing j\<rparr>])" by simp
  with inv j show ?thesis by auto
qed

lemma dispatcher_progress_witness:
  "\<exists>j queued a'. aux_pushed one_won = aux_executed one_won @ j # queued \<and>
    dispatch_step\<^sup>*\<^sup>* (one_won, [\<lparr>pushing = NoPush, flushing = Popping PopStart\<rparr>])
      (a', [\<lparr>pushing = NoPush, flushing = Executing j\<rparr>])"
  using dispatcher_progress [OF reach_popping, of 0] by simp

end
