(* ===== verification/DummyClient.thy ===== *)
theory DummyClient
  imports CircBuf Packets Console Scheduling EventLogs IniParser Float32
begin

text \<open>
  The load clients (\<^verbatim>\<open>DummyClients\<close>): sessions on an I/O completion port that log in,
  move and chat on a timer, the game sessions they fill, and the manager that asks GameLift for them.
  Prefixes: \<^verbatim>\<open>DS\<close> Session, \<^verbatim>\<open>DP\<close> PlayerSession, \<^verbatim>\<open>DG\<close>
  GameSession, \<^verbatim>\<open>DL\<close> GameLiftManager, \<^verbatim>\<open>DW\<close> WorkerThread,
  \<^verbatim>\<open>DI\<close> IocpManager. An operation runs in one thread, with that thread's timer and tick;
  the spin locks are left out, since no operation enters one that its thread already holds. Winsock,
  the AWS client, \<^verbatim>\<open>rand\<close> and the clock are parameters.
\<close>

section \<open>The environment\<close>

datatype dummy_call =
    DcWsaStartup | DcCreatePort | DcSocket | DcAssociate int int | DcReuseAddr int | DcIoctl int bool
  | DcBind int | DcUpdateConnectContext int | DcNoDelay int | DcRcvBufZero int
  | DcBeginThread nat | DcResumeThread nat | DcPostStop nat | DcWaitThreads nat | DcCloseThread nat
  | DcClosePort int | DcWsaCleanup | DcSleep int | DcGetChar | DcInitAPI | DcShutdownAPI
  | DcSeed \<comment> \<open>\<^verbatim>\<open>srand(time(NULL))\<close>\<close>

text \<open>An overlapped call: started (at once or pending), or failed.\<close>

datatype started = IoStarted | IoFailed

datatype 'a aws_outcome = AwsOk 'a | AwsError "byte list"

datatype game_status = ACTIVE | OtherStatus

datatype placement_status = PENDING | FULFILLED | OtherPlacement

record aws_game =
  agPort :: int
  agIpAddress :: "byte list"
  agGameSessionId :: "byte list"

record placement =
  plStatus :: placement_status
  plArn :: "byte list"
  plIpAddress :: "byte list"
  plPort :: int
  plRegion :: "byte list"

record aws_config =
  acTimeoutMs :: int
  acRegion :: "byte list"
  acHttps :: bool
  acEndpoint :: "byte list"

record 'w dummy_env =
  dsys :: "dummy_call \<Rightarrow> 'w \<Rightarrow> int \<times> 'w"
  dsend :: "int \<Rightarrow> byte list \<Rightarrow> 'w \<Rightarrow> started \<times> 'w"
  drecv :: "int \<Rightarrow> nat \<Rightarrow> 'w \<Rightarrow> started \<times> 'w"
  ddisconnect :: "int \<Rightarrow> 'w \<Rightarrow> started \<times> 'w"
  dconnect :: "int \<Rightarrow> ip_addr \<Rightarrow> 16 word \<Rightarrow> 'w \<Rightarrow> started \<times> 'w"
  derror :: "'w \<Rightarrow> int"
  drand :: "'w \<Rightarrow> nat \<times> 'w"
  dticks :: "'w \<Rightarrow> int"
  dprocessors :: "'w \<Rightarrow> nat"
  dstack :: "'w \<Rightarrow> byte list"
  dinet_addr :: "byte list \<Rightarrow> ip_addr"
  duuid :: "'w \<Rightarrow> byte list \<times> 'w"
  dcreate_game :: "aws_config \<Rightarrow> byte list + byte list \<Rightarrow> byte list \<Rightarrow> int \<Rightarrow> 'w \<Rightarrow> aws_game aws_outcome \<times> 'w"
  ddescribe_game :: "aws_config \<Rightarrow> byte list \<Rightarrow> 'w \<Rightarrow> game_status list aws_outcome \<times> 'w"
  dsearch_games :: "aws_config \<Rightarrow> byte list \<Rightarrow> byte list \<Rightarrow> nat \<Rightarrow> 'w \<Rightarrow> aws_game list aws_outcome \<times> 'w"
  dcreate_players :: "aws_config \<Rightarrow> byte list \<Rightarrow> byte list list \<Rightarrow> 'w \<Rightarrow> byte list list aws_outcome \<times> 'w"
  dstart_placement :: "aws_config \<Rightarrow> byte list \<Rightarrow> int \<Rightarrow> byte list \<Rightarrow> 'w \<Rightarrow> placement aws_outcome \<times> 'w"
  ddescribe_placement :: "aws_config \<Rightarrow> byte list \<Rightarrow> 'w \<Rightarrow> placement aws_outcome \<times> 'w"

section \<open>Data\<close>

definition DUMMY_BUFSIZE :: nat where "DUMMY_BUFSIZE = 65536"
definition MAX_IOTHREAD :: nat where "MAX_IOTHREAD = 8"

datatype DummyIOType = DIO_NONE | DIO_SEND | DIO_RECV | DIO_RECV_ZERO | DIO_DISCONNECT | DIO_CONNECT

datatype DummyReason = DDR_NONE | DDR_ACTIVE | DDR_ONCONNECT_ERROR | DDR_IO_REQUEST_ERROR | DDR_COMPLETION_ERROR

fun dreason_value :: "DummyReason \<Rightarrow> int" where
  "dreason_value DDR_NONE = 0"
| "dreason_value DDR_ACTIVE = 1"
| "dreason_value DDR_ONCONNECT_ERROR = 2"
| "dreason_value DDR_IO_REQUEST_ERROR = 3"
| "dreason_value DDR_COMPLETION_ERROR = 4"

record DummyContext =
  dcSessionObject :: nat
  dcIoType :: DummyIOType
  dcWsaLen :: nat
  dcWsaBuf :: "nat option"
  dcDisconnectReason :: DummyReason

text \<open>
  \<^verbatim>\<open>Session\<close> and \<^verbatim>\<open>PlayerSession\<close>.
\<close>

record DummySession =
  dsSocket :: int
  dsRecvBuffer :: cbuf
  dsSendBuffer :: cbuf
  dsSendRequestedCount :: int
  dsConnected :: bool
  dsRefCount :: int
  dpConnectAddr :: "ip_addr \<times> 16 word"
  dpPlayerSessionId :: "byte list"
  dpOwnerGameSession :: nat
  dpPlayerIdx :: int
  dpPosX :: float32
  dpPosY :: float32
  dpCurrDir :: nat
  dpMoveStep :: int
  dpPlayTestCount :: int

record DummyGame =
  dgReadySessionList :: "nat list"
  dgStartPlayerId :: int
  dgMaxPlayerCount :: int
  dgGameSessionName :: "byte list"
  dgPort :: int
  dgIpAddress :: "byte list"
  dgGameSessionId :: "byte list"
  dgPlayerSessionList :: "byte list list"
  dgPlacementId :: "byte list"

datatype dummy_thread = DTHREAD_MAIN | DTHREAD_IO_WORKER

record 'w load_client =
  dsessions :: "nat \<Rightarrow> DummySession option"
  dnext_session :: nat
  dcontexts :: "nat \<Rightarrow> DummyContext option"
  dnext_context :: nat
  dgames :: "nat \<Rightarrow> DummyGame option"
  dnext_game :: nat
  dlGLClient :: "aws_config option"
  dlRegion :: "byte list"
  dlAliasId :: "byte list"
  dlMatchQueueName :: "byte list"
  dlGameSessions :: "nat list"
  diCompletionPort :: int
  diIoThreadCount :: nat
  dLThreadType :: dummy_thread
  dLWorkerThreadId :: int
  dLTimer :: "nat JobElement list option"
  dLTickCount :: int
  dRequests :: int
  dInterval :: int
  dExcept :: int
  devents :: event_log
  dlog :: ConsoleLog
  dworld :: 'w

definition with_dsession :: "nat \<Rightarrow> 'w load_client \<Rightarrow> (DummySession \<Rightarrow> 'a outcome) \<Rightarrow> 'a outcome" where
  "with_dsession sid s f = (case dsessions s sid of None \<Rightarrow> Fault DanglingRef | Some c \<Rightarrow> f c)"

definition upd_dsession :: "nat \<Rightarrow> (DummySession \<Rightarrow> DummySession) \<Rightarrow> 'w load_client \<Rightarrow> 'w load_client" where
  "upd_dsession sid f s = s\<lparr>dsessions := (dsessions s)(sid := map_option f (dsessions s sid))\<rparr>"

definition dsys_do :: "'w dummy_env \<Rightarrow> dummy_call \<Rightarrow> 'w load_client \<Rightarrow> int \<times> 'w load_client" where
  "dsys_do e c s = (case dsys e c (dworld s) of (r, w) \<Rightarrow> (r, s\<lparr>dworld := w\<rparr>))"

definition drand_do :: "'w dummy_env \<Rightarrow> 'w load_client \<Rightarrow> nat \<times> 'w load_client" where
  "drand_do e s = (case drand e (dworld s) of (r, w) \<Rightarrow> (r, s\<lparr>dworld := w\<rparr>))"

text \<open>\<^verbatim>\<open>PrintOut\<close> has 512 bytes for its text, and \<^verbatim>\<open>vsprintf_s\<close> ends the
  process when it does not fit.\<close>

definition dummy_PrintOut :: "bool \<Rightarrow> byte list \<Rightarrow> ConsoleLog \<Rightarrow> ConsoleLog outcome" where
  "dummy_PrintOut fileOut buf l =
     (if length buf < 512
      then Ok (if fileOut
               then l\<lparr>console := console l @ [buf], mLogFileStream := mLogFileStream l @ [buf]\<rparr>
               else l\<lparr>console := console l @ [buf]\<rparr>)
      else Fault InvalidParameter)"

definition dprint :: "byte list \<Rightarrow> 'w load_client \<Rightarrow> 'w load_client outcome" where
  "dprint text s = bnd (dummy_PrintOut True text (dlog s)) (\<lambda>l. Ok (s\<lparr>dlog := l\<rparr>))"

definition dprint_error :: "'w dummy_env \<Rightarrow> string \<Rightarrow> 'w load_client \<Rightarrow> 'w load_client outcome" where
  "dprint_error e text s = dprint (lit text @ fmt_d (derror e (dworld s)) @ lit ''\<newline>'') s"

section \<open>Reference counts and contexts\<close>

definition DS_AddRef :: "nat \<Rightarrow> 'w load_client \<Rightarrow> 'w load_client outcome" where
  "DS_AddRef sid s =
     with_dsession sid s (\<lambda>c.
       if \<not> dsRefCount c \<ge> 0 then Fault CrashAssert
       else Ok (upd_dsession sid (\<lambda>c. c\<lparr>dsRefCount := dsRefCount c + 1\<rparr>) s))"

text \<open>\<^verbatim>\<open>OnRelease\<close> is not overridden: nothing would happen in it.\<close>

definition DS_OnRelease :: "nat \<Rightarrow> 'w load_client \<Rightarrow> 'w load_client" where
  "DS_OnRelease sid s = s"

definition DS_ReleaseRef :: "nat \<Rightarrow> 'w load_client \<Rightarrow> 'w load_client outcome" where
  "DS_ReleaseRef sid s =
     with_dsession sid s (\<lambda>c.
       let ret = dsRefCount c;
           s1 = upd_dsession sid (\<lambda>c. c\<lparr>dsRefCount := dsRefCount c - 1\<rparr>) s
       in if \<not> ret > 0 then Fault CrashAssert
          else Ok (if ret = 0 then DS_OnRelease sid s1 else s1))"

definition dcontext :: "nat \<Rightarrow> DummyIOType \<Rightarrow> DummyContext" where
  "dcontext owner t = \<lparr>dcSessionObject = owner, dcIoType = t, dcWsaLen = 0, dcWsaBuf = None, dcDisconnectReason = DDR_NONE\<rparr>"

definition new_dcontext :: "DummyContext \<Rightarrow> 'w load_client \<Rightarrow> (nat \<times> 'w load_client) outcome" where
  "new_dcontext c s =
     bnd (DS_AddRef (dcSessionObject c) s) (\<lambda>s1.
     Ok (dnext_context s1,
         s1\<lparr>dcontexts := (dcontexts s1)(dnext_context s1 \<mapsto> c), dnext_context := dnext_context s1 + 1\<rparr>))"

definition DeleteDummyContext :: "nat option \<Rightarrow> 'w load_client \<Rightarrow> 'w load_client outcome" where
  "DeleteDummyContext context s =
     (case context of None \<Rightarrow> Ok s
      | Some x \<Rightarrow>
          (case dcontexts s x of None \<Rightarrow> Fault DanglingRef
           | Some c \<Rightarrow>
               bnd (DS_ReleaseRef (dcSessionObject c) s) (\<lambda>s1.
               if dcIoType c = DIO_NONE then Fault CrashAssert
               else Ok (s1\<lparr>dcontexts := (dcontexts s1)(x := None)\<rparr>))))"

section \<open>\<^verbatim>\<open>Session\<close>\<close>

definition DS_DisconnectRequest ::
  "'w dummy_env \<Rightarrow> nat \<Rightarrow> DummyReason \<Rightarrow> 'w load_client \<Rightarrow> 'w load_client outcome" where
  "DS_DisconnectRequest e sid dr s =
     with_dsession sid s (\<lambda>c.
       if \<not> dsConnected c then Ok s
       else bnd (new_dcontext ((dcontext sid DIO_DISCONNECT)\<lparr>dcDisconnectReason := dr\<rparr>)
                   (upd_dsession sid (\<lambda>c. c\<lparr>dsConnected := False\<rparr>) s)) (\<lambda>(context, s1).
            case ddisconnect e (dsSocket c) (dworld s1) of (r, w) \<Rightarrow>
            let s2 = s1\<lparr>dworld := w\<rparr>
            in case r of IoStarted \<Rightarrow> Ok s2
               | IoFailed \<Rightarrow> bnd (DeleteDummyContext (Some context) s2)
                               (dprint_error e ''Session::DisconnectRequest Error : '')))"

definition DS_PreRecv :: "'w dummy_env \<Rightarrow> nat \<Rightarrow> 'w load_client \<Rightarrow> (bool \<times> 'w load_client) outcome" where
  "DS_PreRecv e sid s =
     with_dsession sid s (\<lambda>c.
       if \<not> dsConnected c then Ok (False, s)
       else bnd (new_dcontext (dcontext sid DIO_RECV_ZERO) s) (\<lambda>(recvContext, s1).
            case drecv e (dsSocket c) 0 (dworld s1) of (r, w) \<Rightarrow>
            let s2 = s1\<lparr>dworld := w\<rparr>
            in case r of IoStarted \<Rightarrow> Ok (True, s2)
               | IoFailed \<Rightarrow> bnd (DeleteDummyContext (Some recvContext) s2) (\<lambda>s3.
                   bnd (dprint_error e ''Session::PreRecv Error : '' s3) (\<lambda>s4. Ok (False, s4)))))"

definition DS_PostRecv :: "'w dummy_env \<Rightarrow> nat \<Rightarrow> 'w load_client \<Rightarrow> (bool \<times> 'w load_client) outcome" where
  "DS_PostRecv e sid s =
     with_dsession sid s (\<lambda>c.
       if \<not> dsConnected c then Ok (False, s)
       else case GetFreeSpaceSize (dsRecvBuffer c) of (free, b) \<Rightarrow>
       let s0 = upd_dsession sid (\<lambda>c. c\<lparr>dsRecvBuffer := b\<rparr>) s
       in if free = 0 then Ok (False, s0)
       else case GetFreeSpaceSize b of (len, b') \<Rightarrow>
       bnd (new_dcontext ((dcontext sid DIO_RECV)\<lparr>dcWsaLen := len, dcWsaBuf := Some (GetBuffer b')\<rparr>)
              (upd_dsession sid (\<lambda>c. c\<lparr>dsRecvBuffer := b'\<rparr>) s0)) (\<lambda>(recvContext, s1).
       case drecv e (dsSocket c) len (dworld s1) of (r, w) \<Rightarrow>
       let s2 = s1\<lparr>dworld := w\<rparr>
       in case r of IoStarted \<Rightarrow> Ok (True, s2)
          | IoFailed \<Rightarrow> bnd (DeleteDummyContext (Some recvContext) s2) (\<lambda>s3.
              bnd (dprint_error e ''Session::PostRecv Error : '' s3) (\<lambda>s4. Ok (False, s4)))))"

definition DS_FlushSend :: "'w dummy_env \<Rightarrow> nat \<Rightarrow> 'w load_client \<Rightarrow> (bool \<times> 'w load_client) outcome" where
  "DS_FlushSend e sid s =
     with_dsession sid s (\<lambda>c.
       let len = GetContiguiousBytes (dsSendBuffer c)
       in bnd (front len (dsSendBuffer c)) (\<lambda>data.
          bnd (new_dcontext ((dcontext sid DIO_SEND)\<lparr>dcWsaLen := len, dcWsaBuf := GetBufferStart (dsSendBuffer c)\<rparr>) s)
            (\<lambda>(sendContext, s1).
          case dsend e (dsSocket c) data (dworld s1) of (r, w) \<Rightarrow>
          let s2 = s1\<lparr>dworld := w\<rparr>
          in case r of
               IoStarted \<Rightarrow> Ok (True, upd_dsession sid (\<lambda>c. c\<lparr>dsSendRequestedCount := dsSendRequestedCount c + 1\<rparr>) s2)
             | IoFailed \<Rightarrow>
                 bnd (DeleteDummyContext (Some sendContext) s2) (\<lambda>s3.
                 bnd (dprint_error e ''Session::PostSend Error : '' s3) (\<lambda>s4.
                 bnd (DS_DisconnectRequest e sid DDR_IO_REQUEST_ERROR s4) (\<lambda>s5. Ok (False, s5)))))))"

definition DS_PostSend ::
  "'w dummy_env \<Rightarrow> nat \<Rightarrow> byte list \<Rightarrow> 'w load_client \<Rightarrow> (bool \<times> 'w load_client) outcome" where
  "DS_PostSend e sid data s =
     with_dsession sid s (\<lambda>c.
       if \<not> dsConnected c then Ok (False, s)
       else bnd (Write data (dsSendBuffer c)) (\<lambda>(ok, b).
            let s1 = upd_dsession sid (\<lambda>c. c\<lparr>dsSendBuffer := b\<rparr>) s
            in if \<not> ok then Ok (False, s1)
               else if dsSendRequestedCount c > 0 then Ok (True, s1)
               else DS_FlushSend e sid s1))"

definition DS_SendCompletion :: "'w dummy_env \<Rightarrow> nat \<Rightarrow> nat \<Rightarrow> 'w load_client \<Rightarrow> 'w load_client outcome" where
  "DS_SendCompletion e sid transferred s =
     with_dsession sid s (\<lambda>c.
       if \<not> dsSendRequestedCount c > 0 then Fault CrashAssert
       else bnd (Remove transferred (dsSendBuffer c)) (\<lambda>b.
            let s1 = upd_dsession sid
                       (\<lambda>c. c\<lparr>dsSendBuffer := b, dsSendRequestedCount := dsSendRequestedCount c - 1\<rparr>) s
            in if GetContiguiousBytes b > 0
               then bnd (DS_FlushSend e sid s1) (\<lambda>(_, s2). Ok s2)
               else Ok s1))"

definition DS_EchoBack :: "'w dummy_env \<Rightarrow> nat \<Rightarrow> 'w load_client \<Rightarrow> 'w load_client outcome" where
  "DS_EchoBack e sid s =
     with_dsession sid s (\<lambda>c.
       let len = GetContiguiousBytes (dsRecvBuffer c)
       in if len = 0 then Ok s
          else bnd (front len (dsRecvBuffer c)) (\<lambda>data.
               bnd (DS_PostSend e sid data s) (\<lambda>(ok, s1).
               if \<not> ok then Ok s1
               else bnd (Remove len (dsRecvBuffer c)) (\<lambda>b.
                    Ok (upd_dsession sid (\<lambda>c. c\<lparr>dsRecvBuffer := b\<rparr>) s1)))))"

definition DP_OnDisconnect :: "nat \<Rightarrow> DummyReason \<Rightarrow> 'w load_client \<Rightarrow> 'w load_client outcome" where
  "DP_OnDisconnect sid dr s =
     with_dsession sid s (\<lambda>c.
       dprint (lit ''[DEBUG] Client Disconnected: Reason='' @ fmt_d (dreason_value dr) @ lit '' IP='' @
               inet_ntoa (fst (dpConnectAddr c)) @ lit '', PORT='' @ decimal (unat (snd (dpConnectAddr c))) @
               lit '' \<newline>'') s)"

definition DS_DisconnectCompletion :: "nat \<Rightarrow> DummyReason \<Rightarrow> 'w load_client \<Rightarrow> 'w load_client outcome" where
  "DS_DisconnectCompletion sid dr s = bnd (DP_OnDisconnect sid dr s) (DS_ReleaseRef sid)"

section \<open>The timer\<close>

text \<open>\<^verbatim>\<open>after\<close> is a \<^verbatim>\<open>uint32_t\<close>; outside the worker threads \<^verbatim>\<open>LTimer\<close> is null.\<close>

definition D_DoAsyncAfter :: "int \<Rightarrow> nat \<Rightarrow> 'w load_client \<Rightarrow> 'w load_client outcome" where
  "D_DoAsyncAfter after sid s =
     (case dLTimer s of
        None \<Rightarrow> Fault NullDeref
      | Some q \<Rightarrow>
          with_dsession sid s (\<lambda>c.
            Ok (upd_dsession sid (\<lambda>c. c\<lparr>dsRefCount := dsRefCount c + 1\<rparr>)
                  (s\<lparr>dLTimer := Some (push_after pq_push sid sid (nat (after mod 2 ^ 32)) (dLTickCount s) q)\<rparr>))))"

section \<open>\<^verbatim>\<open>PlayerSession\<close>\<close>

definition DP_new :: "int \<Rightarrow> nat \<Rightarrow> DummySession" where
  "DP_new sock owner =
     \<lparr>dsSocket = sock, dsRecvBuffer = CircularBuffer_new DUMMY_BUFSIZE [],
      dsSendBuffer = CircularBuffer_new DUMMY_BUFSIZE [], dsSendRequestedCount = 0, dsConnected = False,
      dsRefCount = 0, dpConnectAddr = ((0, 0, 0, 0), 0), dpPlayerSessionId = [], dpOwnerGameSession = owner,
      dpPlayerIdx = - 1, dpPosX = 0, dpPosY = 0, dpCurrDir = 0, dpMoveStep = 0, dpPlayTestCount = 0\<rparr>"

definition DP_PrepareSession :: "'w dummy_env \<Rightarrow> nat \<Rightarrow> 'w load_client \<Rightarrow> (bool \<times> 'w load_client) outcome" where
  "DP_PrepareSession e sid s =
     with_dsession sid s (\<lambda>c.
       case dsys_do e (DcBind (dsSocket c)) s of (r, s1) \<Rightarrow>
       if r = - 1
       then bnd (dprint_error e ''PlayerSession::PrepareSession() bind error: '' s1) (\<lambda>s2. Ok (False, s2))
       else case dsys_do e (DcAssociate (dsSocket c) (diCompletionPort s1)) s1 of (handle, s2) \<Rightarrow>
            if handle \<noteq> diCompletionPort s2
            then bnd (dprint_error e ''PlayerSession::PrepareSession() CreateIoCompletionPort error: '' s2)
                   (\<lambda>s3. Ok (False, s3))
            else Ok (True, s2))"

definition DP_ConnectRequest ::
  "'w dummy_env \<Rightarrow> nat \<Rightarrow> byte list \<Rightarrow> int \<Rightarrow> 'w load_client \<Rightarrow> (bool \<times> 'w load_client) outcome" where
  "DP_ConnectRequest e sid playerSessionId idx s =
     with_dsession sid s (\<lambda>c.
       if dsConnected c then Fault CrashAssert
       else case dgames s (dpOwnerGameSession c) of
         None \<Rightarrow> Fault DanglingRef
       | Some g \<Rightarrow>
           let addr = (dinet_addr e (dgIpAddress g), word_of_int (dgPort g))
           in bnd (new_dcontext (dcontext sid DIO_CONNECT) (upd_dsession sid (\<lambda>c. c\<lparr>dpConnectAddr := addr\<rparr>) s))
                (\<lambda>(context, s1).
              case dconnect e (dsSocket c) (fst addr) (snd addr) (dworld s1) of (r, w) \<Rightarrow>
              let s2 = s1\<lparr>dworld := w\<rparr>
              in bnd (case r of IoStarted \<Rightarrow> Ok s2
                      | IoFailed \<Rightarrow> bnd (DeleteDummyContext (Some context) s2)
                                      (dprint_error e ''PlayerSession::ConnectRequest Error : ''))
                   (\<lambda>s3. Ok (True, upd_dsession sid
                            (\<lambda>c. c\<lparr>dpPlayerSessionId := playerSessionId, dpPlayerIdx := idx\<rparr>) s3))))"

text \<open>\<^verbatim>\<open>sprintf_s(packet.mPlayerId, "%s", ...)\<close>, and posting the packet.\<close>

definition DP_post_id :: "'w dummy_env \<Rightarrow> nat \<Rightarrow> IdPacket \<Rightarrow> 'w load_client \<Rightarrow> 'w load_client outcome" where
  "DP_post_id e sid pkt s =
     with_dsession sid s (\<lambda>c.
       bnd (strcpy_s (mPlayerId pkt) (dpPlayerSessionId c)) (\<lambda>arr.
       bnd (DS_PostSend e sid (id_bytes (pkt\<lparr>mPlayerId := arr\<rparr>)) s) (\<lambda>(_, s1). Ok s1)))"

definition DP_StartTest :: "'w dummy_env \<Rightarrow> nat \<Rightarrow> 'w load_client \<Rightarrow> 'w load_client outcome" where
  "DP_StartTest e sid s =
     (case drand_do e (snd (dsys_do e DcSeed s)) of (r, s1) \<Rightarrow>
      DP_post_id e sid LoginRequest_new
        (upd_dsession sid (\<lambda>c. c\<lparr>dpPosX := f32_of_int 480, dpPosY := f32_of_int 320, dpCurrDir := r mod 8\<rparr>) s1))"

definition DP_EndTest :: "'w dummy_env \<Rightarrow> nat \<Rightarrow> 'w load_client \<Rightarrow> 'w load_client outcome" where
  "DP_EndTest e sid s =
     with_dsession sid s (\<lambda>c.
       bnd (DP_post_id e sid ExitRequest_new s)
         (dprint (dpPlayerSessionId c @ lit '' requested to end a test\<newline>'')))"

text \<open>\<^verbatim>\<open>SetNextPos\<close>: the eight directions, a step of \<^verbatim>\<open>vec\<close> and one of
  \<^verbatim>\<open>vec + 3\<close>.\<close>

definition DP_move :: "nat \<Rightarrow> float32 \<Rightarrow> float32 \<times> float32 \<Rightarrow> float32 \<times> float32" where
  "DP_move dir vec p =
     (case p of (x, y) \<Rightarrow>
      let far = f32_add vec (f32_of_int 3)
      in if dir = 0 then (x, f32_add y vec)
         else if dir = 1 then (f32_add x far, f32_add y vec)
         else if dir = 2 then (f32_add x far, y)
         else if dir = 3 then (f32_add x far, f32_sub y vec)
         else if dir = 4 then (x, f32_sub y vec)
         else if dir = 5 then (f32_sub x far, f32_sub y vec)
         else if dir = 6 then (f32_sub x far, y)
         else if dir = 7 then (f32_sub x far, f32_add y vec)
         else (x, y))"

definition DP_SetNextPos :: "'w dummy_env \<Rightarrow> nat \<Rightarrow> 'w load_client \<Rightarrow> 'w load_client outcome" where
  "DP_SetNextPos e sid s =
     with_dsession sid s (\<lambda>c.
       case (if dpMoveStep c = 10
             then (case drand_do e s of (r, s1) \<Rightarrow>
                   upd_dsession sid (\<lambda>c. c\<lparr>dpMoveStep := 0, dpCurrDir := r mod 8\<rparr>) s1)
             else upd_dsession sid (\<lambda>c. c\<lparr>dpMoveStep := dpMoveStep c + 1\<rparr>) s) of s2 \<Rightarrow>
       case drand_do e s2 of (r, s3) \<Rightarrow>
       Ok (upd_dsession sid
             (\<lambda>c. case DP_move (dpCurrDir c) (f32_add (f32_of_int (int (r mod 10))) (f32_of_int 3)) (dpPosX c, dpPosY c) of (x, y) \<Rightarrow>
                  c\<lparr>dpPosX := x, dpPosY := y\<rparr>) s3))"

text \<open>The chat text is a local array whose first 99 bytes are never written: what the stack holds.\<close>

definition DP_chat :: "'w dummy_env \<Rightarrow> nat \<Rightarrow> 'w load_client \<Rightarrow> 'w load_client outcome" where
  "DP_chat e sid s =
     with_dsession sid s (\<lambda>c.
       bnd (strcpy_s (mPlayerId ChatBroadcastRequest_new) (dpPlayerSessionId c)) (\<lambda>idArr.
       bnd (strcpy_s (mChat ChatBroadcastRequest_new) (takeWhile (\<lambda>b. b \<noteq> 0) (take 99 (dstack e (dworld s))))) (\<lambda>chatArr.
       bnd (DS_PostSend e sid
              (chat_bytes (ChatBroadcastRequest_new\<lparr>mPlayerId := idArr, mChat := chatArr\<rparr>)) s) (\<lambda>(_, s1). Ok s1))))"

definition DP_move_request :: "'w dummy_env \<Rightarrow> nat \<Rightarrow> 'w load_client \<Rightarrow> 'w load_client outcome" where
  "DP_move_request e sid s =
     bnd (DP_SetNextPos e sid s) (\<lambda>s1.
     with_dsession sid s1 (\<lambda>c.
       bnd (DS_PostSend e sid
              (move_bytes (MoveRequest_new\<lparr>mPlayerIdx := word_of_int (dpPlayerIdx c),
                 mPosX := dpPosX c, mPosY := dpPosY c\<rparr>)) s1) (\<lambda>(_, s2). Ok s2)))"

definition DP_PlayTest :: "'w dummy_env \<Rightarrow> nat \<Rightarrow> 'w load_client \<Rightarrow> 'w load_client outcome" where
  "DP_PlayTest e sid s =
     with_dsession sid s (\<lambda>c.
       let n = dpPlayTestCount c + 1;
           s1 = upd_dsession sid (\<lambda>c. c\<lparr>dpPlayTestCount := n\<rparr>) s
       in if dRequests s = n then DP_EndTest e sid s1
          else case drand_do e s1 of (r, s2) \<Rightarrow>
               bnd (if r mod 10 = 0 then DP_chat e sid s2 else DP_move_request e sid s2)
                 (D_DoAsyncAfter (dInterval s) sid))"

definition DP_ConnectCompletion :: "'w dummy_env \<Rightarrow> nat \<Rightarrow> 'w load_client \<Rightarrow> 'w load_client outcome" where
  "DP_ConnectCompletion e sid s =
     with_dsession sid s (\<lambda>c.
       case dsys_do e (DcUpdateConnectContext (dsSocket c)) s of (r, s1) \<Rightarrow>
       if r = - 1
       then (if derror e (dworld s1) = 10057
             then dprint (lit ''Connecting a server failed: maybe WSAENOTCONN??\<newline>'') s1
             else dprint_error e ''SO_UPDATE_CONNECT_CONTEXT failed: '' s1)
       else case dsys_do e (DcNoDelay (dsSocket c)) s1 of (r, s2) \<Rightarrow>
       if r = - 1 then bnd (dprint_error e ''[DEBUG] TCP_NODELAY error: '' s2) (\<lambda>_. Fault CrashAssert)
       else case dsys_do e (DcRcvBufZero (dsSocket c)) s2 of (r, s3) \<Rightarrow>
       if r = - 1 then bnd (dprint_error e ''[DEBUG] SO_RCVBUF change error: '' s3) (\<lambda>_. Fault CrashAssert)
       else if dsConnected c then Fault CrashAssert
       else bnd (DS_PreRecv e sid (upd_dsession sid (\<lambda>c. c\<lparr>dsConnected := True\<rparr>) s3)) (\<lambda>(ok, s4).
            if \<not> ok
            then bnd (dprint_error e ''[DEBUG] PreRecv for Server Connection error: '' s4)
                   (\<lambda>s5. Ok (upd_dsession sid (\<lambda>c. c\<lparr>dsConnected := False\<rparr>) s5))
            else bnd (dprint (lit ''[DEBUG] Session established: IP='' @ inet_ntoa (fst (dpConnectAddr c)) @
                              lit '', PORT='' @ decimal (unat (snd (dpConnectAddr c))) @ lit '' \<newline>'') s4)
                   (DP_StartTest e sid)))"

section \<open>Packet handlers\<close>

definition DP_ParsePacket :: "nat \<Rightarrow> nat \<Rightarrow> 'w load_client \<Rightarrow> (byte list option \<times> 'w load_client) outcome" where
  "DP_ParsePacket bytes sid s =
     with_dsession sid s (\<lambda>c.
       bnd (Read bytes (dsRecvBuffer c)) (\<lambda>(r, b).
       Ok (r, upd_dsession sid (\<lambda>c. c\<lparr>dsRecvBuffer := b\<rparr>) s)))"

definition dummy_DefaultHandler :: "'w dummy_env \<Rightarrow> nat \<Rightarrow> 'w load_client \<Rightarrow> 'w load_client outcome" where
  "dummy_DefaultHandler e sid s = DS_DisconnectRequest e sid DDR_ACTIVE s"

definition dparsing_error :: "PacketTypes \<Rightarrow> 'w load_client \<Rightarrow> 'w load_client" where
  "dparsing_error t s =
     s\<lparr>devents := EventLog (dLWorkerThreadId s) (lit ''packet parsing error: %d\<newline>'') (sint (pkt_value t)) (devents s)\<rparr>"

definition Handler_PKT_SC_LOGIN :: "'w dummy_env \<Rightarrow> nat \<Rightarrow> 'w load_client \<Rightarrow> 'w load_client outcome" where
  "Handler_PKT_SC_LOGIN e sid s =
     bnd (DP_ParsePacket sizeof_IdPacket sid s) (\<lambda>(r, s1).
     case r of None \<Rightarrow> Ok (dparsing_error PKT_SC_LOGIN s1)
     | Some bs \<Rightarrow>
         bnd (c_str (mPlayerId (id_of bs))) (\<lambda>playerId.
         bnd (dprint (lit ''Login OK: PlayerSessionId - '' @ playerId @ lit ''\<newline>'') s1)
           (D_DoAsyncAfter (dInterval s1) sid)))"

definition Handler_PKT_SC_CHAT :: "'w dummy_env \<Rightarrow> nat \<Rightarrow> 'w load_client \<Rightarrow> 'w load_client outcome" where
  "Handler_PKT_SC_CHAT e sid s =
     bnd (DP_ParsePacket sizeof_ChatPacket sid s) (\<lambda>(r, s1).
     Ok (case r of None \<Rightarrow> dparsing_error PKT_SC_CHAT s1 | Some _ \<Rightarrow> s1))"

definition Handler_PKT_SC_MOVE :: "'w dummy_env \<Rightarrow> nat \<Rightarrow> 'w load_client \<Rightarrow> 'w load_client outcome" where
  "Handler_PKT_SC_MOVE e sid s =
     bnd (DP_ParsePacket sizeof_MovePacket sid s) (\<lambda>(r, s1).
     Ok (case r of None \<Rightarrow> dparsing_error PKT_SC_MOVE s1 | Some _ \<Rightarrow> s1))"

definition dummy_HandlerTable :: "'w dummy_env \<Rightarrow> 16 word \<Rightarrow> nat \<Rightarrow> 'w load_client \<Rightarrow> 'w load_client outcome" where
  "dummy_HandlerTable e t =
     (if t = pkt_value PKT_SC_LOGIN then Handler_PKT_SC_LOGIN e
      else if t = pkt_value PKT_SC_CHAT then Handler_PKT_SC_CHAT e
      else if t = pkt_value PKT_SC_MOVE then Handler_PKT_SC_MOVE e
      else dummy_DefaultHandler e)"

partial_function (option) DP_OnRead ::
  "'w dummy_env \<Rightarrow> nat \<Rightarrow> 'w load_client \<Rightarrow> 'w load_client outcome option" where
  "DP_OnRead e sid s =
     (case dsessions s sid of
        None \<Rightarrow> Some (Fault DanglingRef)
      | Some c \<Rightarrow>
          (case Peek sizeof_PacketHeader (dsRecvBuffer c) of
             Fault f \<Rightarrow> Some (Fault f)
           | Ok None \<Rightarrow> Some (Ok s)
           | Ok (Some hb) \<Rightarrow>
               (let header = header_of hb
                in if GetStoredSize (dsRecvBuffer c) < size_of_short (mSize header) then Some (Ok s)
                   else if sint (mType header) \<ge> sint (pkt_value PKT_MAX) \<or>
                           sint (mType header) \<le> sint (pkt_value PKT_NONE)
                   then Some (DS_DisconnectRequest e sid DDR_ACTIVE s)
                   else (case dummy_HandlerTable e (mType header) sid s of
                           Fault f \<Rightarrow> Some (Fault f)
                         | Ok s' \<Rightarrow> DP_OnRead e sid s'))))"

definition DS_RecvCompletion ::
  "'w dummy_env \<Rightarrow> nat \<Rightarrow> nat \<Rightarrow> 'w load_client \<Rightarrow> 'w load_client outcome option" where
  "DS_RecvCompletion e sid transferred s =
     DP_OnRead e sid (upd_dsession sid (\<lambda>c. c\<lparr>dsRecvBuffer := Commit transferred (dsRecvBuffer c)\<rparr>) s)"

section \<open>\<^verbatim>\<open>Timer::DoTimerJob\<close> and \<^verbatim>\<open>WorkerThread\<close>\<close>

text \<open>
  A due element's job goes through the dispatcher of its session, which this thread, being free, runs
  at once (the theory of the dispatcher covers the case that another thread has it), holding a
  reference; then the timer gives its own back.
\<close>

definition D_add_ref :: "int \<Rightarrow> nat \<Rightarrow> 'w load_client \<Rightarrow> 'w load_client outcome" where
  "D_add_ref n sid s =
     with_dsession sid s (\<lambda>c. Ok (upd_dsession sid (\<lambda>c. c\<lparr>dsRefCount := dsRefCount c + n\<rparr>) s))"

definition D_DoTask :: "'w dummy_env \<Rightarrow> nat \<Rightarrow> 'w load_client \<Rightarrow> 'w load_client outcome" where
  "D_DoTask e sid s =
     bnd (D_add_ref 1 sid s) (\<lambda>s1.
     bnd (DP_PlayTest e sid s1) (\<lambda>s2.
     D_add_ref (- 1) sid s2))"

definition D_run_element :: "'w dummy_env \<Rightarrow> nat \<Rightarrow> 'w load_client \<Rightarrow> 'w load_client outcome" where
  "D_run_element e sid s = bnd (D_DoTask e sid s) (D_add_ref (- 1) sid)"

definition timer_jobs :: "'w load_client \<Rightarrow> nat JobElement list" where
  "timer_jobs s = (case dLTimer s of None \<Rightarrow> [] | Some q \<Rightarrow> q)"

definition set_timer_jobs :: "nat JobElement list \<Rightarrow> 'w load_client \<Rightarrow> 'w load_client" where
  "set_timer_jobs q s = s\<lparr>dLTimer := Some q\<rparr>"

definition D_DoTimerJob :: "'w dummy_env \<Rightarrow> 'w load_client \<Rightarrow> 'w load_client outcome option" where
  "D_DoTimerJob e s =
     (case dLTimer s of
        None \<Rightarrow> Some (Fault NullDeref)
      | Some _ \<Rightarrow>
          let now = dticks e (dworld s)
          in run_due timer_jobs set_timer_jobs pq_top pq_pop (D_run_element e) now (s\<lparr>dLTickCount := now\<rparr>))"

text \<open>What \<^verbatim>\<open>GetQueuedCompletionStatus\<close> gives, the stop key included.\<close>

record dcompletion =
  dret :: int
  dtransferred :: nat
  dcompleted :: "nat option"
  dstop :: bool
  dtimed_out :: bool

definition DW_dispatch ::
  "'w dummy_env \<Rightarrow> nat \<Rightarrow> DummyContext \<Rightarrow> nat \<Rightarrow> 'w load_client \<Rightarrow> (bool \<times> 'w load_client) outcome option" where
  "DW_dispatch e remote ctx transferred s =
     (case dcIoType ctx of
        DIO_CONNECT \<Rightarrow> Some (bnd (DP_ConnectCompletion e remote s) (\<lambda>s1. Ok (True, s1)))
      | DIO_DISCONNECT \<Rightarrow>
          Some (bnd (DS_DisconnectCompletion remote (dcDisconnectReason ctx) s) (\<lambda>s1. Ok (True, s1)))
      | DIO_RECV_ZERO \<Rightarrow> Some (DS_PostRecv e remote s)
      | DIO_SEND \<Rightarrow>
          Some (bnd (DS_SendCompletion e remote transferred s) (\<lambda>s1.
                if dcWsaLen ctx \<noteq> transferred
                then bnd (dprint (lit ''Partial SendCompletion requested ['' @ decimal (dcWsaLen ctx) @
                                  lit ''], sent ['' @ decimal transferred @ lit '']\<newline>'') s1)
                       (\<lambda>s2. Ok (False, s2))
                else Ok (True, s1)))
      | DIO_RECV \<Rightarrow>
          map_option (\<lambda>r. bnd r (DS_PreRecv e remote)) (DS_RecvCompletion e remote transferred s)
      | DIO_NONE \<Rightarrow>
          Some (bnd (dprint (lit ''Unknown I/O Type: '' @ fmt_d 0 @ lit ''\<newline>'') s) (\<lambda>_. Fault CrashAssert)))"

definition DW_DoIocpJob ::
  "'w dummy_env \<Rightarrow> dcompletion \<Rightarrow> 'w load_client \<Rightarrow> (bool \<times> 'w load_client) outcome option" where
  "DW_DoIocpJob e c s =
     (let failed = (dret c = 0 \<or> dtransferred c = 0)
      in if failed \<and> dstop c then Some (Ok (False, s))
         else if failed \<and> dcompleted c = None \<and> dtimed_out c then Some (Ok (True, s))
         else case dcompleted c of
           None \<Rightarrow> Some (if failed then Fault NullDeref else Fault CrashAssert)
         | Some x \<Rightarrow>
             (case dcontexts s x of
                None \<Rightarrow> Some (Fault DanglingRef)
              | Some ctx \<Rightarrow>
                  let remote = dcSessionObject ctx
                  in if failed \<and> (dcIoType ctx = DIO_RECV \<or> dcIoType ctx = DIO_SEND)
                     then Some (bnd (DS_DisconnectRequest e remote DDR_COMPLETION_ERROR s) (\<lambda>s1.
                                bnd (DeleteDummyContext (Some x) s1) (\<lambda>s2. Ok (True, s2))))
                     else map_option (\<lambda>r. bnd r (\<lambda>(completionOk, s1).
                            bnd (if completionOk then Ok s1
                                 else DS_DisconnectRequest e remote DDR_IO_REQUEST_ERROR s1) (\<lambda>s2.
                            bnd (DeleteDummyContext (Some x) s2) (\<lambda>s3. Ok (True, s3)))))
                            (DW_dispatch e remote ctx (dtransferred c) s)))"

text \<open>\<^verbatim>\<open>Run\<close> over the completions that the port delivers: whether it has ended.\<close>

fun DW_Run :: "'w dummy_env \<Rightarrow> dcompletion list \<Rightarrow> 'w load_client \<Rightarrow> (bool \<times> 'w load_client) outcome option" where
  "DW_Run e [] s = Some (Ok (False, s))"
| "DW_Run e (c # cs) s =
     (case DW_DoIocpJob e c s of
        None \<Rightarrow> None
      | Some (Fault f) \<Rightarrow> Some (Fault f)
      | Some (Ok (False, s1)) \<Rightarrow> Some (Ok (True, s1))
      | Some (Ok (True, s1)) \<Rightarrow>
          (case D_DoTimerJob e s1 of
             None \<Rightarrow> None
           | Some (Fault f) \<Rightarrow> Some (Fault f)
           | Some (Ok s2) \<Rightarrow> DW_Run e cs s2))"

end
