(* ===== verification/DummyGames.thy ===== *)
theory DummyGames
  imports DummyClient
begin

text \<open>
  The load clients' side of GameLift: \<^verbatim>\<open>GameSession\<close> (prefix \<^verbatim>\<open>DG\<close>), which
  finds or creates a game and connects its players, \<^verbatim>\<open>GameLiftManager\<close>
  (\<^verbatim>\<open>DL\<close>), \<^verbatim>\<open>IocpManager\<close> (\<^verbatim>\<open>DI\<close>) and
  \<^verbatim>\<open>main\<close>. The loops that wait for a status have no bound: \<^verbatim>\<open>None\<close> means that
  one does not end.
\<close>

section \<open>\<^verbatim>\<open>GameSession\<close>\<close>

definition with_game :: "nat \<Rightarrow> 'w load_client \<Rightarrow> (DummyGame \<Rightarrow> 'a outcome) \<Rightarrow> 'a outcome" where
  "with_game gid s f = (case dgames s gid of None \<Rightarrow> Fault DanglingRef | Some g \<Rightarrow> f g)"

definition upd_game :: "nat \<Rightarrow> (DummyGame \<Rightarrow> DummyGame) \<Rightarrow> 'w load_client \<Rightarrow> 'w load_client" where
  "upd_game gid f s = s\<lparr>dgames := (dgames s)(gid := map_option f (dgames s gid))\<rparr>"

definition dsleep :: "'w dummy_env \<Rightarrow> int \<Rightarrow> 'w load_client \<Rightarrow> 'w load_client" where
  "dsleep e ms s = snd (dsys_do e (DcSleep ms) s)"

text \<open>A call on the AWS client, which is null until \<^verbatim>\<open>SetUpAwsClient\<close> has run.\<close>

definition daws ::
  "(aws_config \<Rightarrow> 'w \<Rightarrow> 'a aws_outcome \<times> 'w) \<Rightarrow> 'w load_client \<Rightarrow> ('a aws_outcome \<times> 'w load_client) outcome" where
  "daws call s =
     (case dlGLClient s of None \<Rightarrow> Fault NullDeref
      | Some cl \<Rightarrow> (case call cl (dworld s) of (r, w) \<Rightarrow> Ok (r, s\<lparr>dworld := w\<rparr>)))"

definition DG_new :: "int \<Rightarrow> int \<Rightarrow> byte list \<Rightarrow> DummyGame" where
  "DG_new startPlayerId maxPlayerCount name =
     \<lparr>dgReadySessionList = [], dgStartPlayerId = startPlayerId, dgMaxPlayerCount = maxPlayerCount,
      dgGameSessionName = name, dgPort = - 1, dgIpAddress = [], dgGameSessionId = [],
      dgPlayerSessionList = [], dgPlacementId = []\<rparr>"

fun DG_prepare :: "'w dummy_env \<Rightarrow> nat \<Rightarrow> nat \<Rightarrow> 'w load_client \<Rightarrow> (bool \<times> 'w load_client) outcome" where
  "DG_prepare e 0 gid s = Ok (True, s)"
| "DG_prepare e (Suc n) gid s =
     (case dsys_do e DcSocket s of (sock, s1) \<Rightarrow>
      let client = dnext_session s1;
          s2 = s1\<lparr>dsessions := (dsessions s1)(client \<mapsto> DP_new sock gid), dnext_session := client + 1\<rparr>
      in bnd (DP_PrepareSession e client s2) (\<lambda>(ok, s3).
         if \<not> ok then Ok (False, s3)
         else DG_prepare e n gid (upd_game gid (\<lambda>g. g\<lparr>dgReadySessionList := dgReadySessionList g @ [client]\<rparr>) s3)))"

definition DG_PreparePlayerSessions ::
  "'w dummy_env \<Rightarrow> nat \<Rightarrow> 'w load_client \<Rightarrow> (bool \<times> 'w load_client) outcome" where
  "DG_PreparePlayerSessions e gid s =
     (if dLThreadType s \<noteq> DTHREAD_MAIN then Fault CrashAssert
      else with_game gid s (\<lambda>g. DG_prepare e (nat (dgMaxPlayerCount g - dExcept s)) gid s))"

text \<open>The loop that waits until the game session is active.\<close>

partial_function (option) DG_wait_active ::
  "'w dummy_env \<Rightarrow> byte list \<Rightarrow> 'w load_client \<Rightarrow> (bool \<times> 'w load_client) outcome option" where
  "DG_wait_active e gameSessionId s =
     (case daws (\<lambda>cl. ddescribe_game e cl gameSessionId) s of
        Fault f \<Rightarrow> Some (Fault f)
      | Ok (AwsError msg, s1) \<Rightarrow> Some (bnd (dprint (msg @ lit ''\<newline>'') s1) (\<lambda>s2. Ok (False, s2)))
      | Ok (AwsOk [], s1) \<Rightarrow> Some (Fault OutOfBounds)
      | Ok (AwsOk (status # _), s1) \<Rightarrow>
          if status = ACTIVE then Some (Ok (True, s1))
          else DG_wait_active e gameSessionId (dsleep e 500 s1))"

definition DG_found :: "int \<Rightarrow> byte list \<Rightarrow> byte list \<Rightarrow> DummyGame \<Rightarrow> DummyGame" where
  "DG_found port ipAddress gameSessionId g =
     g\<lparr>dgPort := port, dgIpAddress := ipAddress, dgGameSessionId := gameSessionId\<rparr>"

definition DG_CreateGameSession ::
  "'w dummy_env \<Rightarrow> nat \<Rightarrow> 'w load_client \<Rightarrow> (bool \<times> 'w load_client) outcome option" where
  "DG_CreateGameSession e gid s =
     (case dgames s gid of None \<Rightarrow> Some (Fault DanglingRef)
      | Some g \<Rightarrow>
          let fleet = (if dlAliasId s = lit ''TEST_LOCAL'' then Inl (lit ''fleet-'' @ dgGameSessionName g)
                       else Inr (dlAliasId s))
          in (case daws (\<lambda>cl. dcreate_game e cl fleet (dgGameSessionName g) (dgMaxPlayerCount g)) s of
                Fault f \<Rightarrow> Some (Fault f)
              | Ok (AwsError msg, s1) \<Rightarrow>
                  Some (bnd (dprint (lit ''CreateGameSession: '' @ msg @ lit ''\<newline>'') s1) (\<lambda>s2. Ok (False, s2)))
              | Ok (AwsOk gs, s1) \<Rightarrow>
                  DG_wait_active e (agGameSessionId gs)
                    (upd_game gid (DG_found (agPort gs) (agIpAddress gs) (agGameSessionId gs)) s1)))"

definition DG_FindAvailableGameSession ::
  "'w dummy_env \<Rightarrow> nat \<Rightarrow> 'w load_client \<Rightarrow> (bool \<times> 'w load_client) outcome" where
  "DG_FindAvailableGameSession e gid s =
     (if dlAliasId s = lit ''TEST_LOCAL'' then Ok (False, s)
      else bnd (daws (\<lambda>cl. dsearch_games e cl (dlAliasId s)
                        (lit ''playerSessionCount=0 AND hasAvailablePlayerSessions=true'') 1) s) (\<lambda>(r, s1).
           case r of
             AwsOk [] \<Rightarrow> Ok (False, s1)
           | AwsOk (gs # _) \<Rightarrow>
               Ok (True, upd_game gid (DG_found (agPort gs) (agIpAddress gs) (agGameSessionId gs)) s1)
           | AwsError msg \<Rightarrow>
               bnd (dprint (lit ''FindAvailableGameSession: '' @ msg @ lit ''\<newline>'') s1) (\<lambda>s2. Ok (False, s2))))"

definition DG_player_ids :: "int \<Rightarrow> nat \<Rightarrow> byte list list" where
  "DG_player_ids start n = map (\<lambda>i. lit ''DummyPlayer'' @ fmt_d (start + int i)) [0..<n]"

definition DG_CreatePlayerSessions ::
  "'w dummy_env \<Rightarrow> nat \<Rightarrow> 'w load_client \<Rightarrow> (bool \<times> 'w load_client) outcome" where
  "DG_CreatePlayerSessions e gid s =
     with_game gid s (\<lambda>g.
       let playerIds = DG_player_ids (dgStartPlayerId g) (nat (dgMaxPlayerCount g - dExcept s))
       in bnd (daws (\<lambda>cl. dcreate_players e cl (dgGameSessionId g) playerIds) s) (\<lambda>(r, s1).
          case r of
            AwsOk ids \<Rightarrow> Ok (True, upd_game gid (\<lambda>g. g\<lparr>dgPlayerSessionList := ids\<rparr>) s1)
          | AwsError msg \<Rightarrow>
              bnd (dprint (lit ''CreatePlayerSessions: '' @ msg @ lit ''\<newline>'') s1) (\<lambda>s2. Ok (False, s2))))"

text \<open>
  The loop of \<^verbatim>\<open>ConnectPlayerSessions\<close> runs over the player sessions and advances an iterator
  of the prepared ones without a check against its end.
\<close>

fun DG_connect ::
  "'w dummy_env \<Rightarrow> byte list list \<Rightarrow> nat list \<Rightarrow> int \<Rightarrow> 'w load_client \<Rightarrow> (bool \<times> 'w load_client) outcome" where
  "DG_connect e [] its idx s = Ok (True, s)"
| "DG_connect e (i # is) [] idx s = Fault IteratorInvalidated"
| "DG_connect e (i # is) (it # its) idx s =
     bnd (DS_AddRef it s) (\<lambda>s1.
     bnd (DP_ConnectRequest e it i idx s1) (\<lambda>(ok, s2).
     if \<not> ok then Ok (False, s2)
     else DG_connect e is its (idx + 1) (dsleep e 10 s2)))"

definition DG_ConnectPlayerSessions ::
  "'w dummy_env \<Rightarrow> nat \<Rightarrow> 'w load_client \<Rightarrow> (bool \<times> 'w load_client) outcome" where
  "DG_ConnectPlayerSessions e gid s =
     with_game gid s (\<lambda>g.
       DG_connect e (dgPlayerSessionList g) (dgReadySessionList g) (dgStartPlayerId g) s)"

fun DG_disconnect :: "'w dummy_env \<Rightarrow> nat list \<Rightarrow> 'w load_client \<Rightarrow> 'w load_client outcome" where
  "DG_disconnect e [] s = Ok s"
| "DG_disconnect e (sid # rest) s =
     with_dsession sid s (\<lambda>c.
       bnd (if dsConnected c then DS_DisconnectRequest e sid DDR_ACTIVE s else Ok s) (DG_disconnect e rest))"

definition DG_DisconnectPlayerSessions ::
  "'w dummy_env \<Rightarrow> nat \<Rightarrow> 'w load_client \<Rightarrow> 'w load_client outcome" where
  "DG_DisconnectPlayerSessions e gid s = with_game gid s (\<lambda>g. DG_disconnect e (dgReadySessionList g) s)"

section \<open>Placement\<close>

definition DL_SetUpAwsClient :: "byte list \<Rightarrow> 'w load_client \<Rightarrow> 'w load_client" where
  "DL_SetUpAwsClient region s =
     (let config = \<lparr>acTimeoutMs = 10000, acRegion = region, acHttps = True, acEndpoint = []\<rparr>
      in s\<lparr>dlGLClient := Some (if dlAliasId s = lit ''TEST_LOCAL''
                              then config\<lparr>acHttps := False, acEndpoint := region\<rparr> else config)\<rparr>)"

definition DG_GeneratePlacementId :: "'w dummy_env \<Rightarrow> nat \<Rightarrow> 'w load_client \<Rightarrow> 'w load_client" where
  "DG_GeneratePlacementId e gid s =
     (case duuid e (dworld s) of (str, w) \<Rightarrow>
      upd_game gid (\<lambda>g. g\<lparr>dgPlacementId := str\<rparr>) (s\<lparr>dworld := w\<rparr>))"

text \<open>The address of a fulfilled placement, and the client moved to its region.\<close>

definition DG_placed :: "nat \<Rightarrow> placement \<Rightarrow> 'w load_client \<Rightarrow> 'w load_client" where
  "DG_placed gid p s =
     DL_SetUpAwsClient (plRegion p) (upd_game gid (DG_found (plPort p) (plIpAddress p) (plArn p)) s)"

partial_function (option) DG_CheckGameSessionPlacement ::
  "'w dummy_env \<Rightarrow> nat \<Rightarrow> 'w load_client \<Rightarrow> (bool \<times> 'w load_client) outcome option" where
  "DG_CheckGameSessionPlacement e gid s =
     (case dgames s gid of None \<Rightarrow> Some (Fault DanglingRef)
      | Some g \<Rightarrow>
          (case daws (\<lambda>cl. ddescribe_placement e cl (dgPlacementId g)) s of
             Fault f \<Rightarrow> Some (Fault f)
           | Ok (AwsError _, s1) \<Rightarrow> Some (Ok (False, s1))
           | Ok (AwsOk p, s1) \<Rightarrow>
               if plStatus p = FULFILLED then Some (Ok (True, DG_placed gid p s1))
               else DG_CheckGameSessionPlacement e gid (dsleep e 500 s1)))"

text \<open>The message of an outcome that succeeded with another status is empty.\<close>

definition DG_StartGameSessionPlacement ::
  "'w dummy_env \<Rightarrow> nat \<Rightarrow> 'w load_client \<Rightarrow> (bool \<times> 'w load_client) outcome option" where
  "DG_StartGameSessionPlacement e gid s =
     (let s1 = DG_GeneratePlacementId e gid (DL_SetUpAwsClient (dlRegion s) s)
      in case dgames s1 gid of None \<Rightarrow> Some (Fault DanglingRef)
         | Some g \<Rightarrow>
             (case daws (\<lambda>cl. dstart_placement e cl (dlMatchQueueName s1) MAX_PLAYER_PER_GAME (dgPlacementId g)) s1 of
                Fault f \<Rightarrow> Some (Fault f)
              | Ok (AwsError msg, s2) \<Rightarrow> Some (bnd (dprint (msg @ lit ''\<newline>'') s2) (\<lambda>s3. Ok (False, s3)))
              | Ok (AwsOk p, s2) \<Rightarrow>
                  if plStatus p = PENDING then DG_CheckGameSessionPlacement e gid s2
                  else if plStatus p = FULFILLED then Some (Ok (True, DG_placed gid p s2))
                  else Some (bnd (dprint (lit ''\<newline>'') s2) (\<lambda>s3. Ok (False, s3)))))"

section \<open>\<^verbatim>\<open>GameLiftManager\<close>\<close>

text \<open>The result of \<^verbatim>\<open>PreparePlayerSessions\<close> is dropped: a game with fewer sessions than
  players is kept.\<close>

fun DL_prepare :: "'w dummy_env \<Rightarrow> nat list \<Rightarrow> 'w load_client \<Rightarrow> 'w load_client outcome" where
  "DL_prepare e [] s = Ok s"
| "DL_prepare e (i # is) s =
     (let gid = dnext_game s;
          newGs = DG_new (int i * MAX_PLAYER_PER_GAME) MAX_PLAYER_PER_GAME
                    (lit ''MyTestGameSession'' @ fmt_d (int i + 1));
          s1 = s\<lparr>dgames := (dgames s)(gid \<mapsto> newGs), dnext_game := gid + 1\<rparr>
      in bnd (DG_PreparePlayerSessions e gid s1) (\<lambda>(_, s2).
         DL_prepare e is (s2\<lparr>dlGameSessions := dlGameSessions s2 @ [gid]\<rparr>)))"

definition DL_PrepareGameSessions :: "'w dummy_env \<Rightarrow> int \<Rightarrow> 'w load_client \<Rightarrow> 'w load_client outcome" where
  "DL_PrepareGameSessions e gsCount = DL_prepare e [0..<nat gsCount]"

text \<open>A game that could be opened gets its players.\<close>

definition DL_fill ::
  "'w dummy_env \<Rightarrow> nat \<Rightarrow> (bool \<times> 'w load_client) outcome \<Rightarrow> 'w load_client outcome" where
  "DL_fill e gid opened =
     bnd opened (\<lambda>(ok, s1).
     bnd (if \<not> ok then Ok s1
          else bnd (DG_CreatePlayerSessions e gid s1) (\<lambda>(ok, s2).
               if \<not> ok then Ok s2
               else bnd (DG_ConnectPlayerSessions e gid s2) (\<lambda>(_, s3). Ok s3))) (\<lambda>s4.
     Ok (dsleep e 1000 s4)))"

fun DL_launch ::
  "(nat \<Rightarrow> 'w load_client \<Rightarrow> (bool \<times> 'w load_client) outcome option) \<Rightarrow> 'w dummy_env \<Rightarrow> nat list \<Rightarrow>
   'w load_client \<Rightarrow> 'w load_client outcome option" where
  "DL_launch openg e [] s = Some (Ok s)"
| "DL_launch openg e (gid # gids) s =
     (case openg gid s of
        None \<Rightarrow> None
      | Some opened \<Rightarrow>
          (case DL_fill e gid opened of
             Fault f \<Rightarrow> Some (Fault f)
           | Ok s1 \<Rightarrow> DL_launch openg e gids s1))"

definition DL_LaunchGameSessions :: "'w dummy_env \<Rightarrow> 'w load_client \<Rightarrow> 'w load_client outcome option" where
  "DL_LaunchGameSessions e s = DL_launch (DG_CreateGameSession e) e (dlGameSessions s) s"

definition DL_LaunchGameSessionPlacement :: "'w dummy_env \<Rightarrow> 'w load_client \<Rightarrow> 'w load_client outcome option" where
  "DL_LaunchGameSessionPlacement e s = DL_launch (DG_StartGameSessionPlacement e) e (dlGameSessions s) s"

fun DL_terminate :: "'w dummy_env \<Rightarrow> nat list \<Rightarrow> 'w load_client \<Rightarrow> 'w load_client outcome" where
  "DL_terminate e [] s = Ok s"
| "DL_terminate e (gid # gids) s = bnd (DG_DisconnectPlayerSessions e gid s) (DL_terminate e gids)"

definition DL_TerminateGameSessions :: "'w dummy_env \<Rightarrow> 'w load_client \<Rightarrow> 'w load_client outcome" where
  "DL_TerminateGameSessions e s = DL_terminate e (dlGameSessions s) s"

section \<open>\<^verbatim>\<open>IocpManager\<close>\<close>

definition DI_Initialize :: "'w dummy_env \<Rightarrow> 'w load_client \<Rightarrow> (bool \<times> 'w load_client) outcome" where
  "DI_Initialize e s0 =
     (let n = dprocessors e (dworld s0);
          s = s0\<lparr>diIoThreadCount := if n > MAX_IOTHREAD then MAX_IOTHREAD else n\<rparr>
      in case dsys_do e DcWsaStartup s of (r, s1) \<Rightarrow>
      if r \<noteq> 0 then Ok (False, s1)
      else case dsys_do e DcCreatePort s1 of (port, s2) \<Rightarrow>
      let s3 = s2\<lparr>diCompletionPort := port\<rparr>
      in if port = 0 then Ok (False, s3)
      else case dsys_do e DcSocket s3 of (sock, s4) \<Rightarrow>
      if sock = - 1 then Ok (False, s4)
      else case dsys_do e (DcAssociate sock port) s4 of (handle, s5) \<Rightarrow>
      if handle \<noteq> port
      then bnd (dprint_error e ''[DEBUG] listen socket IOCP register error: '' s5) (\<lambda>s6. Ok (False, s6))
      else let s6 = snd (dsys_do e (DcReuseAddr sock) s5)
      in case dsys_do e (DcIoctl sock True) s6 of (r, s7) \<Rightarrow>
      if r = - 1 then Ok (False, s7)
      else case dsys_do e (DcIoctl sock False) s7 of (r, s8) \<Rightarrow> Ok (r \<noteq> - 1, s8))"

fun DI_begin_threads :: "'w dummy_env \<Rightarrow> nat list \<Rightarrow> 'w load_client \<Rightarrow> bool \<times> 'w load_client" where
  "DI_begin_threads e [] s = (True, s)"
| "DI_begin_threads e (i # is) s =
     (case dsys_do e (DcBeginThread i) s of (hThread, s1) \<Rightarrow>
      if hThread = 0 then (False, s1) else DI_begin_threads e is s1)"

definition DI_StartIoThreads :: "'w dummy_env \<Rightarrow> 'w load_client \<Rightarrow> bool \<times> 'w load_client" where
  "DI_StartIoThreads e s =
     (case DI_begin_threads e [0..<diIoThreadCount s] s of (ok, s1) \<Rightarrow>
      if \<not> ok then (False, s1)
      else (True, fold (\<lambda>i s. snd (dsys_do e (DcResumeThread i) s)) [0..<diIoThreadCount s] s1))"

fun DI_post_stops :: "'w dummy_env \<Rightarrow> nat list \<Rightarrow> 'w load_client \<Rightarrow> 'w load_client outcome" where
  "DI_post_stops e [] s = Ok s"
| "DI_post_stops e (i # is) s =
     (case dsys_do e (DcPostStop i) s of (r, s1) \<Rightarrow>
      bnd (if r = 0 then dprint_error e ''PostQueuedCompletionStatus Error: '' s1 else Ok s1) (DI_post_stops e is))"

definition DI_StopIoThreads :: "'w dummy_env \<Rightarrow> 'w load_client \<Rightarrow> 'w load_client outcome" where
  "DI_StopIoThreads e s =
     bnd (DI_post_stops e [0..<diIoThreadCount s] s) (\<lambda>s1.
     Ok (snd (dsys_do e (DcWaitThreads (diIoThreadCount s)) s1)))"

definition DI_Finalize :: "'w dummy_env \<Rightarrow> 'w load_client \<Rightarrow> 'w load_client" where
  "DI_Finalize e s =
     snd (dsys_do e DcWsaCleanup
       (snd (dsys_do e (DcClosePort (diCompletionPort s))
         (fold (\<lambda>i s. snd (dsys_do e (DcCloseThread i) s)) [0..<diIoThreadCount s] s))))"

text \<open>\<^verbatim>\<open>IoWorkerThread\<close>: the thread's own variables before \<^verbatim>\<open>Run\<close>.\<close>

definition DI_IoWorkerThread :: "'w dummy_env \<Rightarrow> nat \<Rightarrow> 'w load_client \<Rightarrow> 'w load_client" where
  "DI_IoWorkerThread e i s =
     s\<lparr>dLThreadType := DTHREAD_IO_WORKER, dLWorkerThreadId := int i, dLTimer := Some [],
       dLTickCount := dticks e (dworld s)\<rparr>"

section \<open>\<^verbatim>\<open>main\<close>\<close>

definition load_client_new :: "byte list \<Rightarrow> byte list \<Rightarrow> byte list \<Rightarrow> 'w \<Rightarrow> 'w load_client" where
  "load_client_new alias region matchQueue w =
     \<lparr>dsessions = \<lambda>_. None, dnext_session = 0, dcontexts = \<lambda>_. None, dnext_context = 0,
      dgames = \<lambda>_. None, dnext_game = 0, dlGLClient = None, dlRegion = region, dlAliasId = alias,
      dlMatchQueueName = matchQueue, dlGameSessions = [], diCompletionPort = 0, diIoThreadCount = 2,
      dLThreadType = DTHREAD_MAIN, dLWorkerThreadId = - 1, dLTimer = None, dLTickCount = 0,
      dRequests = 0, dInterval = 1000, dExcept = 0, devents = event_log_new, dlog = ConsoleLog_new, dworld = w\<rparr>"

text \<open>The settings of \<^verbatim>\<open>config.ini\<close>, with their defaults.\<close>

definition dummy_config :: "INIReader \<Rightarrow> 'w \<Rightarrow> int \<times> 'w load_client" where
  "dummy_config r w =
     (let get = \<lambda>name d. INI_Get (lit ''config'') name d r; int_of = \<lambda>name d. GetInteger (lit ''config'') name d r;
          s = load_client_new (get (lit ''ALIAS_ID'') (lit ''TEST_LOCAL''))
                (get (lit ''GAMELIFT_REGION'') (lit ''127.0.0.1:9080''))
                (get (lit ''MATCH_QUEUE_NAME'') (lit ''NotUse'')) w
      in (int_of (lit ''MAX_GAME_SESSIONS'') 1,
          s\<lparr>dRequests := int_of (lit ''PLAYER_ACTION_REQUEST'') 60,
            dInterval := int_of (lit ''PLAYER_ACTION_INTERVAL'') 1000,
            dExcept := MAX_PLAYER_PER_GAME - int_of (lit ''DUMMY_PLAYER_SESSION_PER_GAME_SESSION'') 8\<rparr>))"

text \<open>\<^verbatim>\<open>main\<close> up to \<^verbatim>\<open>getchar\<close>: its exit code, or the running client.\<close>

definition dummy_main_start ::
  "'w dummy_env \<Rightarrow> INIReader \<Rightarrow> 'w \<Rightarrow> (int + 'w load_client) outcome option" where
  "dummy_main_start e r w =
     (if ParseError r < 0 then Some (Ok (Inl 0))
      else case dummy_config r w of (maxGameSessionCount, s0) \<Rightarrow>
      let s1 = DL_SetUpAwsClient (dlRegion s0) (snd (dsys_do e DcInitAPI s0))
      in case DI_Initialize e s1 of
           Fault f \<Rightarrow> Some (Fault f)
         | Ok (ok, s2) \<Rightarrow>
             if \<not> ok then Some (Ok (Inl (- 1)))
             else case DL_PrepareGameSessions e maxGameSessionCount s2 of
                    Fault f \<Rightarrow> Some (Fault f)
                  | Ok s3 \<Rightarrow>
                      (case DI_StartIoThreads e s3 of (started, s4) \<Rightarrow>
                       if \<not> started then Some (Ok (Inl (- 1)))
                       else map_option (\<lambda>r. bnd r (\<lambda>s5. Ok (Inr s5)))
                              (if dlMatchQueueName s4 = lit ''NotUse'' then DL_LaunchGameSessions e s4
                               else DL_LaunchGameSessionPlacement e s4)))"

text \<open>The rest, once a key was pressed.\<close>

definition dummy_main_stop :: "'w dummy_env \<Rightarrow> 'w load_client \<Rightarrow> (int \<times> 'w load_client) outcome" where
  "dummy_main_stop e s =
     bnd (DL_TerminateGameSessions e (snd (dsys_do e DcGetChar s))) (\<lambda>s1.
     bnd (DI_StopIoThreads e s1) (\<lambda>s2.
     Ok (0, snd (dsys_do e DcShutdownAPI (DI_Finalize e s2)))))"

end
