(* ===== verification/DummyProofs.thy ===== *)
theory DummyProofs
  imports DummyGames
begin

text \<open>
  The load clients: how far a player moves, what a timer pass does to the players that are due, and how
  the players of a game are given their sessions.
\<close>

section \<open>Moving\<close>

text \<open>The step of \<^verbatim>\<open>SetNextPos\<close> on whole numbers.\<close>

definition whole_move :: "nat \<Rightarrow> int \<Rightarrow> int \<times> int \<Rightarrow> int \<times> int" where
  "whole_move dir v p =
     (fst p + (if dir \<in> {1, 2, 3} then v + 3 else if dir \<in> {5, 6, 7} then - (v + 3) else 0),
      snd p + (if dir \<in> {0, 1, 7} then v else if dir \<in> {3, 4, 5} then - v else 0))"

lemma whole_move_bound:
  assumes "3 \<le> v" and "v \<le> 12"
  shows "\<bar>fst (whole_move dir v p) - fst p\<bar> \<le> 15 \<and> \<bar>snd (whole_move dir v p) - snd p\<bar> \<le> 12"
  using assms by (auto simp: whole_move_def)

lemma DP_move_whole:
  assumes "3 \<le> v" and "v \<le> 12" and "\<bar>x\<bar> \<le> 2 ^ 24" and "\<bar>y\<bar> \<le> 2 ^ 24"
  shows "DP_move dir (f32_of_int v) (f32_of_int x, f32_of_int y) =
    (f32_of_int (fst (whole_move dir v (x, y))), f32_of_int (snd (whole_move dir v (x, y))))"
proof -
  have far: "f32_add (f32_of_int v) (f32_of_int 3) = f32_of_int (v + 3)"
    using assms(1,2) by (intro f32_add_of_int) simp_all
  have v: "\<bar>v\<bar> \<le> 2 ^ 24" "\<bar>v + 3\<bar> \<le> 2 ^ 24" "0 < v" "0 < v + 3" "v \<le> 2 ^ 24" "v + 3 \<le> 2 ^ 24"
    using assms(1,2) by simp_all
  note ops = f32_add_of_int [OF assms(3) v(2)] f32_add_of_int [OF assms(4) v(1)]
    f32_sub_of_int [OF assms(3) v(4,6)] f32_sub_of_int [OF assms(4) v(3,5)]
  show ?thesis
    unfolding DP_move_def Let_def far prod.case ops whole_move_def by (simp add: algebra_simps)
qed

text \<open>A player stands at whole coordinates.\<close>

definition stands :: "DummySession \<Rightarrow> int \<Rightarrow> int \<Rightarrow> bool" where
  "stands c x y \<longleftrightarrow> dpPosX c = f32_of_int x \<and> dpPosY c = f32_of_int y"

fun moves :: "'w dummy_env \<Rightarrow> nat \<Rightarrow> nat \<Rightarrow> 'w load_client \<Rightarrow> 'w load_client outcome" where
  "moves e sid 0 s = Ok s"
| "moves e sid (Suc n) s = bnd (DP_SetNextPos e sid s) (moves e sid n)"

lemma SetNextPos_step:
  assumes "dsessions s sid = Some c"
  shows "\<exists>s' c' c2 v. DP_SetNextPos e sid s = Ok s' \<and> dsessions s' sid = Some c' \<and>
    (case DP_move (dpCurrDir c2) (f32_of_int v) (dpPosX c, dpPosY c) of (x, y) \<Rightarrow>
       c' = c2\<lparr>dpPosX := x, dpPosY := y\<rparr>) \<and> 3 \<le> v \<and> v \<le> 12 \<and>
    (dpCurrDir c2 = dpCurrDir c \<or> dpCurrDir c2 < 8) \<and>
    (dpMoveStep c2 = dpMoveStep c + 1 \<and> dpMoveStep c \<noteq> 10 \<or> dpMoveStep c2 = 0)"
proof -
  let ?s2 = "if dpMoveStep c = 10
             then (case drand_do e s of (r, s1) \<Rightarrow>
                   upd_dsession sid (\<lambda>c. c\<lparr>dpMoveStep := 0, dpCurrDir := r mod 8\<rparr>) s1)
             else upd_dsession sid (\<lambda>c. c\<lparr>dpMoveStep := dpMoveStep c + 1\<rparr>) s"
  obtain r1 w1 where dr: "drand e (dworld s) = (r1, w1)" by force
  have "\<exists>c2. dsessions ?s2 sid = Some c2 \<and> dpPosX c2 = dpPosX c \<and> dpPosY c2 = dpPosY c \<and>
    (dpCurrDir c2 = dpCurrDir c \<or> dpCurrDir c2 < 8) \<and>
    (dpMoveStep c2 = dpMoveStep c + 1 \<and> dpMoveStep c \<noteq> 10 \<or> dpMoveStep c2 = 0)"
    using assms by (cases "dpMoveStep c = 10") (simp_all add: drand_do_def upd_dsession_def dr)
  then obtain c2 where c2: "dsessions ?s2 sid = Some c2" "dpPosX c2 = dpPosX c" "dpPosY c2 = dpPosY c"
    "dpCurrDir c2 = dpCurrDir c \<or> dpCurrDir c2 < 8"
    "dpMoveStep c2 = dpMoveStep c + 1 \<and> dpMoveStep c \<noteq> 10 \<or> dpMoveStep c2 = 0"
    by blast
  obtain r s3 where r: "drand_do e ?s2 = (r, s3)" by force
  then have s3: "dsessions s3 = dsessions ?s2" by (auto simp: drand_do_def split: prod.splits)
  let ?v = "int (r mod 10) + 3"
  have v: "3 \<le> ?v" "?v \<le> 12" by auto
  have fv: "f32_add (f32_of_int (int (r mod 10))) (f32_of_int 3) = f32_of_int ?v"
    by (intro f32_add_of_int) auto
  let ?f = "\<lambda>c. case DP_move (dpCurrDir c) (f32_of_int ?v) (dpPosX c, dpPosY c) of (x, y) \<Rightarrow>
           c\<lparr>dpPosX := x, dpPosY := y\<rparr>"
  have "DP_SetNextPos e sid s = Ok (upd_dsession sid ?f s3)"
    using r by (simp add: DP_SetNextPos_def with_dsession_def assms fv)
  moreover have "dsessions (upd_dsession sid ?f s3) sid = Some (?f c2)"
    using c2(1) s3 by (simp add: upd_dsession_def)
  ultimately show ?thesis
    using v c2(2-5) by (intro exI [of _ "upd_dsession sid ?f s3"] exI [of _ "?f c2"] exI [of _ c2] exI [of _ ?v])
      (simp split: prod.splits)
qed

lemma SetNextPos_runs: "dsessions s sid = Some c \<Longrightarrow> \<exists>s'. DP_SetNextPos e sid s = Ok s'"
  using SetNextPos_step by blast

lemma SetNextPos_spec:
  assumes "dsessions s sid = Some c" and "stands c x y" and "\<bar>x\<bar> \<le> 2 ^ 24" and "\<bar>y\<bar> \<le> 2 ^ 24"
  shows "\<exists>s' c' x' y'. DP_SetNextPos e sid s = Ok s' \<and> dsessions s' sid = Some c' \<and> stands c' x' y' \<and>
    \<bar>x' - x\<bar> \<le> 15 \<and> \<bar>y' - y\<bar> \<le> 12 \<and>
    (dpCurrDir c' = dpCurrDir c \<or> dpCurrDir c' < 8) \<and>
    (dpMoveStep c' = dpMoveStep c + 1 \<and> dpMoveStep c \<noteq> 10 \<or> dpMoveStep c' = 0)"
proof -
  obtain s' c' c2 v where st: "DP_SetNextPos e sid s = Ok s'" "dsessions s' sid = Some c'"
    "case DP_move (dpCurrDir c2) (f32_of_int v) (dpPosX c, dpPosY c) of (x, y) \<Rightarrow> c' = c2\<lparr>dpPosX := x, dpPosY := y\<rparr>"
    "3 \<le> v" "v \<le> 12" "dpCurrDir c2 = dpCurrDir c \<or> dpCurrDir c2 < 8"
    "dpMoveStep c2 = dpMoveStep c + 1 \<and> dpMoveStep c \<noteq> 10 \<or> dpMoveStep c2 = 0"
    using SetNextPos_step [OF assms(1), of e] by (elim exE conjE) (rule that)
  let ?p = "whole_move (dpCurrDir c2) v (x, y)"
  from st(3) assms(2) DP_move_whole [OF st(4,5) assms(3,4)]
  have "c' = c2\<lparr>dpPosX := f32_of_int (fst ?p), dpPosY := f32_of_int (snd ?p)\<rparr>" by (simp add: stands_def)
  with st whole_move_bound [OF st(4,5), of "dpCurrDir c2" "(x, y)"] show ?thesis
    by (intro exI [of _ s'] exI [of _ c'] exI [of _ "fst ?p"] exI [of _ "snd ?p"]) (simp add: stands_def)
qed

text \<open>A player's walk is exact and bounded: from the starting point that \<^verbatim>\<open>StartTest\<close> sets,
  for up to a million moves the \<^verbatim>\<open>float\<close> additions never round, so the player stands at whole
  coordinates within 15 per move of the start in x and 12 in y; its direction stays one of
  the eight.\<close>

theorem SetNextPos_bounds:
  assumes "dsessions s sid = Some c" and "dpPosX c = f32_of_int 480" and "dpPosY c = f32_of_int 320"
    and "dpCurrDir c < 8" and "0 \<le> dpMoveStep c" and "dpMoveStep c \<le> 10" and "n \<le> 1000000"
  shows "\<exists>s' c' x y. moves e sid n s = Ok s' \<and> dsessions s' sid = Some c' \<and>
    dpPosX c' = f32_of_int x \<and> dpPosY c' = f32_of_int y \<and>
    \<bar>x - 480\<bar> \<le> 15 * int n \<and> \<bar>y - 320\<bar> \<le> 12 * int n \<and> dpCurrDir c' < 8 \<and>
    0 \<le> dpMoveStep c' \<and> dpMoveStep c' \<le> 10"
proof -
  have "\<exists>s' c' x' y'. moves e sid n s = Ok s' \<and> dsessions s' sid = Some c' \<and> stands c' x' y' \<and>
    \<bar>x' - x\<bar> \<le> 15 * int n \<and> \<bar>y' - y\<bar> \<le> 12 * int n \<and> dpCurrDir c' < 8 \<and>
    0 \<le> dpMoveStep c' \<and> dpMoveStep c' \<le> 10"
    if "stands c x y" "\<bar>x\<bar> + 15 * int n \<le> 2 ^ 24" "\<bar>y\<bar> + 15 * int n \<le> 2 ^ 24" for x y
    using assms(1,4-6) that
  proof (induction n arbitrary: s c x y)
    case 0
    then show ?case by auto
  next
    case (Suc n)
    have "\<bar>x\<bar> \<le> 2 ^ 24" "\<bar>y\<bar> \<le> 2 ^ 24" using Suc.prems(6,7) by simp_all
    from SetNextPos_spec [OF Suc.prems(1,5) this, of e] obtain s1 c1 x1 y1 where
      s1: "DP_SetNextPos e sid s = Ok s1" "dsessions s1 sid = Some c1" "stands c1 x1 y1" "\<bar>x1 - x\<bar> \<le> 15"
        "\<bar>y1 - y\<bar> \<le> 12" "dpCurrDir c1 = dpCurrDir c \<or> dpCurrDir c1 < 8"
        "dpMoveStep c1 = dpMoveStep c + 1 \<and> dpMoveStep c \<noteq> 10 \<or> dpMoveStep c1 = 0" by blast
    with Suc.prems have "dpCurrDir c1 < 8" "0 \<le> dpMoveStep c1" "dpMoveStep c1 \<le> 10" by auto
    moreover have "\<bar>x1\<bar> + 15 * int n \<le> 2 ^ 24" "\<bar>y1\<bar> + 15 * int n \<le> 2 ^ 24"
      using Suc.prems(6,7) s1(4,5) by simp_all
    ultimately obtain s' c' x' y' where
      "moves e sid n s1 = Ok s'" "dsessions s' sid = Some c'" "stands c' x' y'"
      "\<bar>x' - x1\<bar> \<le> 15 * int n" "\<bar>y' - y1\<bar> \<le> 12 * int n"
      "dpCurrDir c' < 8" "0 \<le> dpMoveStep c'" "dpMoveStep c' \<le> 10"
      using Suc.IH [OF s1(2) _ _ _ s1(3)] by blast
    with s1(1,4,5) show ?case
      by (intro exI [of _ s'] exI [of _ c'] exI [of _ x'] exI [of _ y']) (simp, linarith)
  qed
  from this [of 480 320] assms(2,3,7) show ?thesis by (simp add: stands_def)
qed

text \<open>An environment in which every call succeeds at once, and a client with two players.\<close>

definition calm_env :: "unit dummy_env" where
  "calm_env = \<lparr>dsys = \<lambda>_ w. (0, w), dsend = \<lambda>_ _ w. (IoStarted, w), drecv = \<lambda>_ _ w. (IoStarted, w),
     ddisconnect = \<lambda>_ w. (IoStarted, w), dconnect = \<lambda>_ _ _ w. (IoStarted, w), derror = \<lambda>_. 0,
     drand = \<lambda>w. (7, w), dticks = \<lambda>_. 100, dprocessors = \<lambda>_. 4, dstack = \<lambda>_. [],
     dinet_addr = \<lambda>_. (127, 0, 0, 1), duuid = \<lambda>w. ([], w), dcreate_game = \<lambda>_ _ _ _ w. (AwsError [], w),
     ddescribe_game = \<lambda>_ _ w. (AwsError [], w), dsearch_games = \<lambda>_ _ _ _ w. (AwsError [], w),
     dcreate_players = \<lambda>_ _ _ w. (AwsError [], w), dstart_placement = \<lambda>_ _ _ _ w. (AwsError [], w),
     ddescribe_placement = \<lambda>_ _ w. (AwsError [], w)\<rparr>"

definition two_players :: "unit load_client" where
  "two_players = (load_client_new [] [] [] ())
     \<lparr>dsessions := [0 \<mapsto> (DP_new 5 0)\<lparr>dpPosX := f32_of_int 480, dpPosY := f32_of_int 320\<rparr>,
                    1 \<mapsto> (DP_new 6 0)\<lparr>dpPosX := f32_of_int 480, dpPosY := f32_of_int 320\<rparr>],
      dgames := [0 \<mapsto> (DG_new 10 2 [])\<lparr>dgReadySessionList := [0, 1], dgPlayerSessionList := [[65], [66]]\<rparr>],
      dRequests := 3, dLTimer := Some [\<lparr>mOwner = 0, mTask = 0, mExecutionTick = 50\<rparr>,
                                      \<lparr>mOwner = 1, mTask = 1, mExecutionTick = 200\<rparr>]\<rparr>"

lemma two_players_fields:
  "dsessions two_players 0 = Some ((DP_new 5 0)\<lparr>dpPosX := f32_of_int 480, dpPosY := f32_of_int 320\<rparr>)"
  "dsessions two_players 1 = Some ((DP_new 6 0)\<lparr>dpPosX := f32_of_int 480, dpPosY := f32_of_int 320\<rparr>)"
  "dgames two_players 0 = Some ((DG_new 10 2 [])\<lparr>dgReadySessionList := [0, 1], dgPlayerSessionList := [[65], [66]]\<rparr>)"
  "dRequests two_players = 3" "dInterval two_players = 1000" "dworld two_players = ()"
  "dLTimer two_players = Some [\<lparr>mOwner = 0, mTask = 0, mExecutionTick = 50\<rparr>,
     \<lparr>mOwner = 1, mTask = 1, mExecutionTick = 200\<rparr>]"
  by (simp_all add: two_players_def load_client_new_def)

lemma SetNextPos_bounds_witness:
  "\<exists>s' c' x y. moves calm_env 0 20 two_players = Ok s' \<and> dsessions s' 0 = Some c' \<and>
    dpPosX c' = f32_of_int x \<and> dpPosY c' = f32_of_int y \<and> \<bar>x - 480\<bar> \<le> 300 \<and> \<bar>y - 320\<bar> \<le> 240"
  using SetNextPos_bounds [OF two_players_fields(1), of 20 calm_env] by (auto simp: DP_new_def)

section \<open>What a player's action leaves alone\<close>

definition player_ok :: "DummySession \<Rightarrow> bool" where
  "player_ok c \<longleftrightarrow> cb_inv (dsSendBuffer c) \<and> 0 \<le> dsRefCount c \<and> length (dpPlayerSessionId c) < 128"

text \<open>Everything but one session, and of that one what the counting of its actions depends on.\<close>

definition keeps :: "nat \<Rightarrow> 'w load_client \<Rightarrow> 'w load_client \<Rightarrow> bool" where
  "keeps sid s s' \<longleftrightarrow>
     (\<forall>t. t \<noteq> sid \<longrightarrow> dsessions s' t = dsessions s t) \<and> dLTimer s' = dLTimer s \<and>
     dLTickCount s' = dLTickCount s \<and> dRequests s' = dRequests s \<and> dInterval s' = dInterval s \<and>
     dgames s' = dgames s \<and>
     (\<forall>c. dsessions s sid = Some c \<longrightarrow> player_ok c \<longrightarrow>
        (\<exists>c'. dsessions s' sid = Some c' \<and> player_ok c' \<and> dpPlayTestCount c' = dpPlayTestCount c \<and>
           dpPlayerSessionId c' = dpPlayerSessionId c))"

lemma keeps_refl [simp]: "keeps sid s s"
  by (simp add: keeps_def)

lemma keeps_trans [trans]: "keeps sid s s' \<Longrightarrow> keeps sid s' s'' \<Longrightarrow> keeps sid s s''"
  unfolding keeps_def by (metis (no_types, lifting))

lemma keeps_fields [simp]:
  "keeps sid s (s'\<lparr>dworld := w\<rparr>) = keeps sid s s'" "keeps sid s (s'\<lparr>dlog := l\<rparr>) = keeps sid s s'"
  "keeps sid s (s'\<lparr>dcontexts := m, dnext_context := n\<rparr>) = keeps sid s s'"
  "keeps sid s (s'\<lparr>dcontexts := m\<rparr>) = keeps sid s s'"
  by (simp_all add: keeps_def)

lemma keeps_upd:
  assumes "\<And>c. dsessions s sid = Some c \<Longrightarrow> player_ok c \<Longrightarrow> player_ok (f c) \<and>
      dpPlayTestCount (f c) = dpPlayTestCount c \<and> dpPlayerSessionId (f c) = dpPlayerSessionId c"
  shows "keeps sid s (upd_dsession sid f s)"
  using assms by (auto simp: keeps_def upd_dsession_def)

lemma keepsD: "keeps sid s s' \<Longrightarrow> dsessions s sid = Some c \<Longrightarrow> player_ok c \<Longrightarrow>
    \<exists>c'. dsessions s' sid = Some c' \<and> player_ok c' \<and> dpPlayTestCount c' = dpPlayTestCount c \<and>
      dpPlayerSessionId c' = dpPlayerSessionId c"
  by (simp add: keeps_def)

text \<open>Error codes are 32-bit numbers, so the messages with them fit.\<close>

definition errors_fit :: "'w dummy_env \<Rightarrow> bool" where
  "errors_fit e \<longleftrightarrow> (\<forall>w. 0 \<le> derror e w \<and> derror e w < 2 ^ 32)"

lemma dprint_fits: "length t < 512 \<Longrightarrow> \<exists>l. dprint t s = Ok (s\<lparr>dlog := l\<rparr>)"
  by (auto simp: dprint_def dummy_PrintOut_def)

lemma dprint_error_fits:
  assumes "errors_fit e" and "length text \<le> 100"
  shows "\<exists>l. dprint_error e text s = Ok (s\<lparr>dlog := l\<rparr>)"
proof -
  have "0 \<le> derror e (dworld s)" "derror e (dworld s) < 2 ^ 32" using assms(1) by (simp_all add: errors_fit_def)
  then have "length (fmt_d (derror e (dworld s))) \<le> 10"
    by (auto simp: fmt_d_def nat_less_iff intro!: length_decimal)
  with assms(2) have "length (lit text @ fmt_d (derror e (dworld s)) @ lit ''\<newline>'') < 512" by simp
  from dprint_fits [OF this] show ?thesis unfolding dprint_error_def by blast
qed

text \<open>An overlapped call takes a context, which holds a reference, and gives both back when it fails.\<close>

lemma start_io:
  assumes "dsessions s sid = Some c" and "player_ok c" and "dcSessionObject ctx = sid"
    and "dcIoType ctx \<noteq> DIO_NONE" and "errors_fit e" and "length text \<le> 100"
  shows "\<exists>x s1. new_dcontext ctx s = Ok (x, s1) \<and> keeps sid s s1 \<and>
    (\<exists>c1. dsessions s1 sid = Some c1 \<and> dsConnected c1 = dsConnected c \<and> player_ok c1) \<and>
    (\<forall>w. \<exists>s2 s3. DeleteDummyContext (Some x) (s1\<lparr>dworld := w\<rparr>) = Ok s2 \<and>
       dprint_error e text s2 = Ok s3 \<and> keeps sid s s3 \<and> keeps sid s s2)"
proof -
  let ?x = "dnext_context s"
  let ?c1 = "c\<lparr>dsRefCount := dsRefCount c + 1\<rparr>"
  let ?s1 = "(upd_dsession sid (\<lambda>c. c\<lparr>dsRefCount := dsRefCount c + 1\<rparr>) s)
      \<lparr>dcontexts := (dcontexts s)(?x \<mapsto> ctx), dnext_context := ?x + 1\<rparr>"
  have n: "new_dcontext ctx s = Ok (?x, ?s1)"
    using assms(1-3) by (simp add: new_dcontext_def DS_AddRef_def with_dsession_def player_ok_def upd_dsession_def)
  have k: "keeps sid s ?s1" by (simp, rule keeps_upd) (simp add: player_ok_def)
  have c1: "dsessions ?s1 sid = Some ?c1" using assms(1) by (simp add: upd_dsession_def)
  have "\<exists>s2 s3. DeleteDummyContext (Some ?x) (?s1\<lparr>dworld := w\<rparr>) = Ok s2 \<and>
      dprint_error e text s2 = Ok s3 \<and> keeps sid s s3 \<and> keeps sid s s2" for w
  proof -
    let ?s2 = "(upd_dsession sid (\<lambda>c. c\<lparr>dsRefCount := dsRefCount c - 1\<rparr>) (?s1\<lparr>dworld := w\<rparr>))
        \<lparr>dcontexts := (dcontexts s)(?x := None)\<rparr>"
    have "DeleteDummyContext (Some ?x) (?s1\<lparr>dworld := w\<rparr>) = Ok ?s2"
      using assms(1-4)
      by (simp add: DeleteDummyContext_def DS_ReleaseRef_def with_dsession_def Let_def player_ok_def upd_dsession_def)
    moreover have "keeps sid s ?s2"
      using assms(1) by (auto simp: keeps_def upd_dsession_def player_ok_def)
    moreover obtain l where "dprint_error e text ?s2 = Ok (?s2\<lparr>dlog := l\<rparr>)"
      using dprint_error_fits [OF assms(5,6)] by blast
    ultimately show ?thesis by (intro exI [of _ ?s2] exI [of _ "?s2\<lparr>dlog := l\<rparr>"]) simp
  qed
  with n k c1 assms(2) show ?thesis
    by (intro exI [of _ ?x] exI [of _ ?s1]) (simp add: player_ok_def)
qed

lemma DisconnectRequest_keeps:
  assumes "dsessions s sid = Some c" and "player_ok c" and "errors_fit e"
  shows "\<exists>s'. DS_DisconnectRequest e sid dr s = Ok s' \<and> keeps sid s s'"
proof (cases "dsConnected c")
  case False
  with assms(1) show ?thesis
    by (intro exI [of _ s]) (simp add: DS_DisconnectRequest_def with_dsession_def)
next
  case True
  let ?s0 = "upd_dsession sid (\<lambda>c. c\<lparr>dsConnected := False\<rparr>) s"
  let ?ctx = "(dcontext sid DIO_DISCONNECT)\<lparr>dcDisconnectReason := dr\<rparr>"
  have k0: "keeps sid s ?s0" by (rule keeps_upd) (simp add: player_ok_def)
  have c0: "dsessions ?s0 sid = Some (c\<lparr>dsConnected := False\<rparr>)" "player_ok (c\<lparr>dsConnected := False\<rparr>)"
    using assms(1,2) by (simp_all add: upd_dsession_def player_ok_def)
  obtain x s1 where x: "new_dcontext ?ctx ?s0 = Ok (x, s1)" "keeps sid ?s0 s1"
    and fail: "\<And>w. \<exists>s2 s3. DeleteDummyContext (Some x) (s1\<lparr>dworld := w\<rparr>) = Ok s2 \<and>
       dprint_error e ''Session::DisconnectRequest Error : '' s2 = Ok s3 \<and> keeps sid ?s0 s3 \<and> keeps sid ?s0 s2"
    using start_io [OF c0, of ?ctx e "''Session::DisconnectRequest Error : ''"] assms(3)
    by (auto simp: dcontext_def)
  obtain r w where call: "ddisconnect e (dsSocket c) (dworld s1) = (r, w)" by force
  show ?thesis
  proof (cases r)
    case IoStarted
    with assms(1) True x(1) call keeps_trans [OF k0 x(2)] show ?thesis
      by (intro exI [of _ "s1\<lparr>dworld := w\<rparr>"]) (simp add: DS_DisconnectRequest_def with_dsession_def Let_def)
  next
    case IoFailed
    obtain s2 s3 where "DeleteDummyContext (Some x) (s1\<lparr>dworld := w\<rparr>) = Ok s2"
      "dprint_error e ''Session::DisconnectRequest Error : '' s2 = Ok s3" "keeps sid ?s0 s3"
      using fail [of w] by blast
    with IoFailed assms(1) True x(1) call keeps_trans [OF k0] show ?thesis
      by (intro exI [of _ s3]) (simp add: DS_DisconnectRequest_def with_dsession_def Let_def)
  qed
qed

lemma FlushSend_keeps:
  assumes "dsessions s sid = Some c" and "player_ok c" and "errors_fit e"
  shows "\<exists>r s'. DS_FlushSend e sid s = Ok (r, s') \<and> keeps sid s s'"
proof -
  let ?len = "GetContiguiousBytes (dsSendBuffer c)"
  let ?ctx = "(dcontext sid DIO_SEND)\<lparr>dcWsaLen := ?len, dcWsaBuf := GetBufferStart (dsSendBuffer c)\<rparr>"
  have inv: "cb_inv (dsSendBuffer c)" using assms(2) by (simp add: player_ok_def)
  obtain data where data: "front ?len (dsSendBuffer c) = Ok data" using contiguous_spec(3) [OF inv, of ?len] by auto
  obtain x s1 c1 where x: "new_dcontext ?ctx s = Ok (x, s1)" "keeps sid s s1" "dsessions s1 sid = Some c1" "player_ok c1"
    and fail: "\<And>w. \<exists>s2 s3. DeleteDummyContext (Some x) (s1\<lparr>dworld := w\<rparr>) = Ok s2 \<and>
       dprint_error e ''Session::PostSend Error : '' s2 = Ok s3 \<and> keeps sid s s3 \<and> keeps sid s s2"
    using start_io [OF assms(1,2), of ?ctx e "''Session::PostSend Error : ''"] assms(3)
    by (auto simp: dcontext_def)
  obtain r w where call: "dsend e (dsSocket c) data (dworld s1) = (r, w)" by force
  show ?thesis
  proof (cases r)
    case IoStarted
    let ?s2 = "upd_dsession sid (\<lambda>c. c\<lparr>dsSendRequestedCount := dsSendRequestedCount c + 1\<rparr>) (s1\<lparr>dworld := w\<rparr>)"
    have "keeps sid (s1\<lparr>dworld := w\<rparr>) ?s2" by (rule keeps_upd) (simp add: player_ok_def)
    moreover have "keeps sid s (s1\<lparr>dworld := w\<rparr>)" using x(2) by simp
    ultimately have "keeps sid s ?s2" by (rule keeps_trans [rotated])
    with IoStarted assms(1) data x(1) call show ?thesis
      by (intro exI [of _ True] exI [of _ ?s2]) (simp add: DS_FlushSend_def with_dsession_def Let_def)
  next
    case IoFailed
    obtain s2 s3 where s3: "DeleteDummyContext (Some x) (s1\<lparr>dworld := w\<rparr>) = Ok s2"
      "dprint_error e ''Session::PostSend Error : '' s2 = Ok s3" "keeps sid s s3"
      using fail [of w] by blast
    from keepsD [OF s3(3) assms(1,2)] obtain c3 where "dsessions s3 sid = Some c3" "player_ok c3" by blast
    from DisconnectRequest_keeps [OF this assms(3)] obtain s4 where
      "DS_DisconnectRequest e sid DDR_IO_REQUEST_ERROR s3 = Ok s4" "keeps sid s3 s4" by blast
    with s3 IoFailed assms(1) data x(1) call keeps_trans [OF s3(3)] show ?thesis
      by (intro exI [of _ False] exI [of _ s4]) (simp add: DS_FlushSend_def with_dsession_def Let_def)
  qed
qed

lemma PostSend_keeps:
  assumes "dsessions s sid = Some c" and "player_ok c" and "errors_fit e"
  shows "\<exists>r s'. DS_PostSend e sid data s = Ok (r, s') \<and> keeps sid s s'"
proof (cases "dsConnected c")
  case False
  with assms(1) show ?thesis
    by (intro exI [of _ False] exI [of _ s]) (simp add: DS_PostSend_def with_dsession_def)
next
  case True
  have inv: "cb_inv (dsSendBuffer c)" using assms(2) by (simp add: player_ok_def)
  obtain ok b where b: "Write data (dsSendBuffer c) = Ok (ok, b)" "cb_inv b"
    using cb.wr_cases [OF inv, of data] by metis
  let ?s1 = "upd_dsession sid (\<lambda>c. c\<lparr>dsSendBuffer := b\<rparr>) s"
  have k: "keeps sid s ?s1" by (rule keeps_upd) (simp add: player_ok_def b(2))
  show ?thesis
  proof (cases "ok \<and> \<not> dsSendRequestedCount c > 0")
    case False
    then show ?thesis using assms(1) True b(1) k
      by (intro exI [of _ ok] exI [of _ ?s1]) (auto simp: DS_PostSend_def with_dsession_def Let_def)
  next
    case go: True
    from keepsD [OF k assms(1,2)] obtain c1 where "dsessions ?s1 sid = Some c1" "player_ok c1" by blast
    from FlushSend_keeps [OF this assms(3)] obtain r s' where
      "DS_FlushSend e sid ?s1 = Ok (r, s')" "keeps sid ?s1 s'" by blast
    with go assms(1) True b(1) keeps_trans [OF k] show ?thesis
      by (intro exI [of _ r] exI [of _ s']) (simp add: DS_PostSend_def with_dsession_def Let_def)
  qed
qed

lemma strcpy_s_fits: "length t < length dst \<Longrightarrow> \<exists>arr. strcpy_s dst t = Ok arr"
  by (simp add: strcpy_s_def)

lemma post_id_keeps:
  assumes "dsessions s sid = Some c" and "player_ok c" and "errors_fit e" and "length (mPlayerId pkt) = 128"
  shows "\<exists>s'. DP_post_id e sid pkt s = Ok s' \<and> keeps sid s s'"
proof -
  obtain arr where arr: "strcpy_s (mPlayerId pkt) (dpPlayerSessionId c) = Ok arr"
    using strcpy_s_fits [of "dpPlayerSessionId c" "mPlayerId pkt"] assms(2,4) by (auto simp: player_ok_def)
  from PostSend_keeps [OF assms(1-3), of "id_bytes (pkt\<lparr>mPlayerId := arr\<rparr>)"] obtain r s' where
    "DS_PostSend e sid (id_bytes (pkt\<lparr>mPlayerId := arr\<rparr>)) s = Ok (r, s')" "keeps sid s s'" by blast
  with assms(1) arr show ?thesis by (intro exI [of _ s']) (simp add: DP_post_id_def with_dsession_def)
qed

lemma EndTest_keeps:
  assumes "dsessions s sid = Some c" and "player_ok c" and "errors_fit e"
  shows "\<exists>s'. DP_EndTest e sid s = Ok s' \<and> keeps sid s s'"
proof -
  have "length (mPlayerId ExitRequest_new) = 128" by (simp add: packet_new_defs sizeof_defs)
  from post_id_keeps [OF assms this] obtain s1 where
    s1: "DP_post_id e sid ExitRequest_new s = Ok s1" "keeps sid s s1" by blast
  have "length (dpPlayerSessionId c @ lit '' requested to end a test\<newline>'') < 512"
    using assms(2) by (simp add: player_ok_def)
  from dprint_fits [OF this, of s1] s1 assms(1) show ?thesis
    by (auto simp: DP_EndTest_def with_dsession_def)
qed

lemma chat_keeps:
  assumes "dsessions s sid = Some c" and "player_ok c" and "errors_fit e"
  shows "\<exists>s'. DP_chat e sid s = Ok s' \<and> keeps sid s s'"
proof -
  let ?chat = "takeWhile (\<lambda>b. b \<noteq> 0) (take 99 (dstack e (dworld s)))"
  have "length ?chat \<le> length (take 99 (dstack e (dworld s)))" by (rule length_takeWhile_le)
  then have "length ?chat < 128" by simp
  moreover have "length (mChat ChatBroadcastRequest_new) = 128" "length (mPlayerId ChatBroadcastRequest_new) = 128"
    by (simp_all add: packet_new_defs sizeof_defs)
  ultimately obtain idArr chatArr where
    a: "strcpy_s (mPlayerId ChatBroadcastRequest_new) (dpPlayerSessionId c) = Ok idArr"
      "strcpy_s (mChat ChatBroadcastRequest_new) ?chat = Ok chatArr"
    using strcpy_s_fits [of "dpPlayerSessionId c" "mPlayerId ChatBroadcastRequest_new"]
      strcpy_s_fits [of ?chat "mChat ChatBroadcastRequest_new"] assms(2) by (auto simp: player_ok_def)
  let ?p = "chat_bytes (ChatBroadcastRequest_new\<lparr>mPlayerId := idArr, mChat := chatArr\<rparr>)"
  from PostSend_keeps [OF assms, of ?p] obtain r s' where
    "DS_PostSend e sid ?p s = Ok (r, s')" "keeps sid s s'" by blast
  with assms(1) a show ?thesis by (intro exI [of _ s']) (simp add: DP_chat_def with_dsession_def)
qed

lemma rand_keeps: "drand_do e s = (r, s1) \<Longrightarrow> keeps sid s s1 \<and> dsessions s1 = dsessions s"
  by (auto simp: drand_do_def split: prod.splits)

lemma SetNextPos_keeps:
  assumes "dsessions s sid = Some c" and "DP_SetNextPos e sid s = Ok s'"
  shows "keeps sid s s'"
proof -
  define s2 where "s2 = (if dpMoveStep c = 10
             then (case drand_do e s of (r, s1) \<Rightarrow>
                   upd_dsession sid (\<lambda>c. c\<lparr>dpMoveStep := 0, dpCurrDir := r mod 8\<rparr>) s1)
             else upd_dsession sid (\<lambda>c. c\<lparr>dpMoveStep := dpMoveStep c + 1\<rparr>) s)"
  have 2: "keeps sid s s2"
  proof (cases "dpMoveStep c = 10")
    case True
    obtain r s1 where r: "drand_do e s = (r, s1)" by force
    have "keeps sid s1 (upd_dsession sid (\<lambda>c. c\<lparr>dpMoveStep := 0, dpCurrDir := r mod 8\<rparr>) s1)"
      by (rule keeps_upd) (simp add: player_ok_def)
    with rand_keeps [OF r, of sid] True r show ?thesis by (auto simp: s2_def intro: keeps_trans)
  next
    case False
    then show ?thesis unfolding s2_def by (simp, intro keeps_upd) (simp add: player_ok_def)
  qed
  obtain r s3 where r: "drand_do e s2 = (r, s3)" by force
  let ?f = "\<lambda>c. case DP_move (dpCurrDir c) (f32_add (f32_of_int (int (r mod 10))) (f32_of_int 3)) (dpPosX c, dpPosY c) of (x, y) \<Rightarrow>
           c\<lparr>dpPosX := x, dpPosY := y\<rparr>"
  have "keeps sid s3 (upd_dsession sid ?f s3)"
    by (rule keeps_upd) (simp add: player_ok_def split: prod.splits)
  moreover have "s' = upd_dsession sid ?f s3"
    using assms r by (simp add: DP_SetNextPos_def with_dsession_def s2_def)
  ultimately show ?thesis using 2 rand_keeps [OF r, of sid] by (blast intro: keeps_trans)
qed

lemma move_request_keeps:
  assumes "dsessions s sid = Some c" and "player_ok c" and "errors_fit e"
  shows "\<exists>s'. DP_move_request e sid s = Ok s' \<and> keeps sid s s'"
proof -
  from SetNextPos_runs [OF assms(1)] obtain s1 where s1: "DP_SetNextPos e sid s = Ok s1" by blast
  note k = SetNextPos_keeps [OF assms(1) s1]
  from keepsD [OF k assms(1,2)] obtain c1 where c1: "dsessions s1 sid = Some c1" "player_ok c1" by blast
  let ?p = "move_bytes (MoveRequest_new\<lparr>mPlayerIdx := word_of_int (dpPlayerIdx c1),
                 mPosX := dpPosX c1, mPosY := dpPosY c1\<rparr>)"
  from PostSend_keeps [OF c1 assms(3), of ?p] obtain r s' where
    "DS_PostSend e sid ?p s1 = Ok (r, s')" "keeps sid s1 s'" by blast
  with s1 c1(1) keeps_trans [OF k] show ?thesis
    by (intro exI [of _ s']) (simp add: DP_move_request_def with_dsession_def)
qed

section \<open>One action, and a timer pass\<close>

text \<open>The element that \<^verbatim>\<open>PlayTest\<close> leaves in the timer: none after the last action.\<close>

definition next_play :: "int \<Rightarrow> int \<Rightarrow> int \<Rightarrow> nat \<Rightarrow> int \<Rightarrow> nat JobElement list" where
  "next_play requests interval now sid played =
     (if requests = played + 1 then []
      else [\<lparr>mOwner = sid, mTask = sid, mExecutionTick = int (nat (interval mod 2 ^ 32)) + now\<rparr>])"

lemma play_test_spec:
  assumes "dsessions s sid = Some c" and "player_ok c" and "errors_fit e" and "dLTimer s = Some q"
  shows "\<exists>s' c'. DP_PlayTest e sid s = Ok s' \<and> dsessions s' sid = Some c' \<and>
    dpPlayTestCount c' = dpPlayTestCount c + 1 \<and> (\<forall>t. t \<noteq> sid \<longrightarrow> dsessions s' t = dsessions s t) \<and>
    dLTickCount s' = dLTickCount s \<and> dRequests s' = dRequests s \<and> dInterval s' = dInterval s \<and>
    dLTimer s' = Some (fold pq_push (next_play (dRequests s) (dInterval s) (dLTickCount s) sid (dpPlayTestCount c)) q)"
proof -
  define n where "n = dpPlayTestCount c + 1"
  define s2 where "s2 = upd_dsession sid (\<lambda>c. c\<lparr>dpPlayTestCount := n\<rparr>) s"
  obtain c2 where c2: "dsessions s2 sid = Some c2" "player_ok c2" "dpPlayTestCount c2 = n"
    using assms(1,2) by (auto simp: s2_def upd_dsession_def player_ok_def)
  have fr: "\<forall>t. t \<noteq> sid \<longrightarrow> dsessions s2 t = dsessions s t" "dLTickCount s2 = dLTickCount s"
    "dRequests s2 = dRequests s" "dInterval s2 = dInterval s" "dLTimer s2 = dLTimer s" "dworld s2 = dworld s"
    by (simp_all add: s2_def upd_dsession_def)
  show ?thesis
  proof (cases "dRequests s = n")
    case True
    from EndTest_keeps [OF c2(1,2) assms(3)] obtain s' where s': "DP_EndTest e sid s2 = Ok s'" "keeps sid s2 s'" by blast
    from keepsD [OF s'(2) c2(1,2)] obtain c' where "dsessions s' sid = Some c'" "dpPlayTestCount c' = n"
      using c2(3) by auto
    with True s' fr assms(1,4) show ?thesis
      by (intro exI [of _ s'] exI [of _ c'])
        (simp add: DP_PlayTest_def with_dsession_def Let_def n_def [symmetric] s2_def [symmetric] next_play_def keeps_def)
  next
    case False
    obtain r s3 where r: "drand_do e s2 = (r, s3)" by force
    note k3 = rand_keeps [OF r, of sid]
    have c3: "dsessions s3 sid = Some c2" using k3 c2(1) by simp
    obtain s4 where s4: "(if r mod 10 = 0 then DP_chat e sid s3 else DP_move_request e sid s3) = Ok s4" "keeps sid s3 s4"
      using chat_keeps [OF c3 c2(2) assms(3)] move_request_keeps [OF c3 c2(2) assms(3)] by (cases "r mod 10 = 0") auto
    have k: "keeps sid s2 s4" using k3 s4(2) by (blast intro: keeps_trans)
    from keepsD [OF k c2(1,2)] obtain c4 where c4: "dsessions s4 sid = Some c4" "dpPlayTestCount c4 = n"
      using c2(3) by auto
    let ?s5 = "upd_dsession sid (\<lambda>c. c\<lparr>dsRefCount := dsRefCount c + 1\<rparr>)
        (s4\<lparr>dLTimer := Some (push_after pq_push sid sid (nat (dInterval s mod 2 ^ 32)) (dLTickCount s) q)\<rparr>)"
    have "D_DoAsyncAfter (dInterval s) sid s4 = Ok ?s5"
      using k fr assms(4) c4(1) by (simp add: D_DoAsyncAfter_def with_dsession_def keeps_def)
    with False r s4(1) assms(1) have "DP_PlayTest e sid s = Ok ?s5"
      by (simp add: DP_PlayTest_def with_dsession_def Let_def n_def [symmetric] s2_def [symmetric])
    with False k fr c4 show ?thesis
      by (intro exI [of _ ?s5] exI [of _ "c4\<lparr>dsRefCount := dsRefCount c4 + 1\<rparr>"])
        (simp add: keeps_def upd_dsession_def next_play_def n_def push_after_def)
  qed
qed

lemma run_element_spec:
  assumes "dsessions s sid = Some c" and "player_ok c" and "errors_fit e" and "dLTimer s = Some q"
  shows "\<exists>s' c'. D_run_element e sid s = Ok s' \<and> dsessions s' sid = Some c' \<and>
    dpPlayTestCount c' = dpPlayTestCount c + 1 \<and> (\<forall>t. t \<noteq> sid \<longrightarrow> dsessions s' t = dsessions s t) \<and>
    dLTickCount s' = dLTickCount s \<and> dRequests s' = dRequests s \<and> dInterval s' = dInterval s \<and>
    dLTimer s' = Some (fold pq_push (next_play (dRequests s) (dInterval s) (dLTickCount s) sid (dpPlayTestCount c)) q)"
proof -
  let ?ref = "\<lambda>k. upd_dsession sid (\<lambda>c. c\<lparr>dsRefCount := dsRefCount c + k\<rparr>)"
  have add: "D_add_ref k sid x = Ok (?ref k x)" if "dsessions x sid = Some d" for k x and d
    using that by (simp add: D_add_ref_def with_dsession_def)
  have s1: "dsessions (?ref 1 s) sid = Some (c\<lparr>dsRefCount := dsRefCount c + 1\<rparr>)"
    "player_ok (c\<lparr>dsRefCount := dsRefCount c + 1\<rparr>)" "dLTimer (?ref 1 s) = Some q"
    using assms(1,2,4) by (simp_all add: upd_dsession_def player_ok_def)
  have sel: "dLTickCount (?ref k x) = dLTickCount x" "dRequests (?ref k x) = dRequests x" "dInterval (?ref k x) = dInterval x"
    "dLTimer (?ref k x) = dLTimer x" "t \<noteq> sid \<Longrightarrow> dsessions (?ref k x) t = dsessions x t" for k t x
    by (simp_all add: upd_dsession_def)
  from play_test_spec [OF s1(1,2) assms(3) s1(3)] obtain s' c' where
    s': "DP_PlayTest e sid (?ref 1 s) = Ok s'" "dsessions s' sid = Some c'" "dpPlayTestCount c' = dpPlayTestCount c + 1"
      "\<forall>t. t \<noteq> sid \<longrightarrow> dsessions s' t = dsessions s t" "dLTickCount s' = dLTickCount s"
      "dRequests s' = dRequests s" "dInterval s' = dInterval s"
      "dLTimer s' = Some (fold pq_push (next_play (dRequests s) (dInterval s) (dLTickCount s) sid (dpPlayTestCount c)) q)"
    by (auto simp: sel)
  have r: "dsessions (?ref k s') sid = Some (c'\<lparr>dsRefCount := dsRefCount c' + k\<rparr>)" for k
    using s'(2) by (simp add: upd_dsession_def)
  have "D_run_element e sid s = Ok (?ref (- 1) (?ref (- 1) s'))"
    by (simp only: D_run_element_def D_DoTask_def add [OF assms(1)] s'(1) add [OF s'(2)] add [OF r] bnd.simps)
  with s' show ?thesis
    by (intro exI [of _ "?ref (- 1) (?ref (- 1) s')"] exI [of _ "c'\<lparr>dsRefCount := dsRefCount c' - 2\<rparr>"])
      (simp add: upd_dsession_def)
qed

text \<open>How far a pass has come: the players whose element is still due are as they were at its
  start, those whose element has run have played once more.\<close>

definition due_players :: "int \<Rightarrow> nat JobElement list \<Rightarrow> nat multiset" where
  "due_players now q = image_mset mTask (due now (mset q))"

definition pass_inv :: "int \<Rightarrow> nat multiset \<Rightarrow> 'w load_client \<Rightarrow> 'w load_client \<Rightarrow> bool" where
  "pass_inv now d0 s s' \<longleftrightarrow>
     dLTickCount s' = now \<and> dRequests s' = dRequests s \<and> dInterval s' = dInterval s \<and> dLTimer s' \<noteq> None \<and>
     due_players now (timer_jobs s') \<subseteq># d0 \<and>
     (\<forall>sid. sid \<in># due_players now (timer_jobs s') \<or> sid \<notin># d0 \<longrightarrow> dsessions s' sid = dsessions s sid) \<and>
     (\<forall>sid. sid \<in># d0 \<and> sid \<notin># due_players now (timer_jobs s') \<longrightarrow>
        (\<exists>c c'. dsessions s sid = Some c \<and> dsessions s' sid = Some c' \<and> dpPlayTestCount c' = dpPlayTestCount c + 1))"

definition follow_up :: "int \<Rightarrow> 'w load_client \<Rightarrow> nat \<Rightarrow> nat JobElement list" where
  "follow_up now s sid = (case dsessions s sid of None \<Rightarrow> []
     | Some c \<Rightarrow> next_play (dRequests s) (dInterval s) now sid (dpPlayTestCount c))"

lemma follow_up_later:
  assumes "dInterval s mod 2 ^ 32 \<noteq> 0" and "j \<in> set (follow_up now s sid)"
  shows "now < mExecutionTick j"
proof -
  have "0 < dInterval s mod 2 ^ 32"
    using assms(1) pos_mod_sign [of "2 ^ 32" "dInterval s"] by simp
  with assms(2) show ?thesis by (auto simp: follow_up_def next_play_def split: option.splits if_splits)
qed

lemma pass_inv_step:
  assumes I: "pass_inv now d0 s s1" and once: "\<forall>sid. count d0 sid \<le> 1" and ef: "errors_fit e"
    and ok: "\<forall>sid. sid \<in># d0 \<longrightarrow> (\<exists>c. dsessions s sid = Some c \<and> player_ok c)"
    and x: "x \<in># mset (timer_jobs s1)" "mExecutionTick x \<le> now"
    and int: "dInterval s mod 2 ^ 32 \<noteq> 0"
  shows "\<exists>s2. D_run_element e (mTask x) s1 = Ok s2 \<and>
    timer_jobs s2 = fold pq_push (follow_up now s (mTask x)) (timer_jobs s1) \<and>
    (mset (pq_pop (timer_jobs s2)) = mset (follow_up now s (mTask x)) + (mset (timer_jobs s1) - {#x#}) \<longrightarrow>
     pass_inv now d0 s (set_timer_jobs (pq_pop (timer_jobs s2)) s2))"
proof -
  let ?t = "mTask x"
  let ?d = "due_players now (timer_jobs s1)"
  have t: "?t \<in># ?d" using x by (auto simp: due_players_def due_def)
  have sub: "?d \<subseteq># d0" using I by (simp add: pass_inv_def)
  from t set_mset_mono [OF this] have td0: "?t \<in># d0" by blast
  then obtain c where c: "dsessions s ?t = Some c" "player_ok c" using ok by blast
  have c1: "dsessions s1 ?t = Some c" using I t c(1) by (simp add: pass_inv_def)
  obtain q where q: "dLTimer s1 = Some q" using I by (auto simp: pass_inv_def)
  from run_element_spec [OF c1 c(2) ef q] obtain s2 c2 where
    s2: "D_run_element e ?t s1 = Ok s2" "dsessions s2 ?t = Some c2" "dpPlayTestCount c2 = dpPlayTestCount c + 1"
      "\<forall>t. t \<noteq> ?t \<longrightarrow> dsessions s2 t = dsessions s1 t" "dLTickCount s2 = dLTickCount s1"
      "dRequests s2 = dRequests s1" "dInterval s2 = dInterval s1"
      "dLTimer s2 = Some (fold pq_push (next_play (dRequests s1) (dInterval s1) (dLTickCount s1) ?t (dpPlayTestCount c)) q)"
    by blast
  have f: "follow_up now s ?t = next_play (dRequests s1) (dInterval s1) (dLTickCount s1) ?t (dpPlayTestCount c)"
    using I c(1) by (simp add: pass_inv_def follow_up_def)
  have tj: "timer_jobs s2 = fold pq_push (follow_up now s ?t) (timer_jobs s1)"
    unfolding f by (simp add: timer_jobs_def q s2(8))
  have "pass_inv now d0 s (set_timer_jobs (pq_pop (timer_jobs s2)) s2)"
    if m: "mset (pq_pop (timer_jobs s2)) = mset (follow_up now s ?t) + (mset (timer_jobs s1) - {#x#})"
  proof -
    have "due now (mset (follow_up now s ?t)) = {#}"
      using follow_up_later [OF int] by (auto simp: due_def filter_mset_eq_conv not_le)
    then have "due now (mset (pq_pop (timer_jobs s2))) = due now (mset (timer_jobs s1)) - {#x#}"
      using x(2) by (simp add: m due_def filter_diff_mset)
    then have d: "due_players now (pq_pop (timer_jobs s2)) = ?d - {#?t#}"
      using x by (simp add: due_players_def image_mset_Diff due_def)
    have "count ?d ?t \<le> 1" using sub once by (meson mset_subset_eq_count order_trans)
    then have gone: "?t \<notin># ?d - {#?t#}" by (simp add: not_in_iff)
    have mem: "sid \<in># ?d - {#?t#} \<longleftrightarrow> sid \<in># ?d \<and> sid \<noteq> ?t" for sid
      using gone by (cases "sid = ?t") (auto dest: in_diffD simp: in_diff_count)
    let ?s3 = "set_timer_jobs (pq_pop (timer_jobs s2)) s2"
    have tj3: "timer_jobs ?s3 = pq_pop (timer_jobs s2)" by (simp add: timer_jobs_def set_timer_jobs_def)
    have ss3: "dsessions ?s3 = dsessions s2" by (simp add: set_timer_jobs_def)
    have sub3: "?d - {#?t#} \<subseteq># d0" using sub by (rule subset_mset.order_trans [OF diff_subset_eq_self])
    have same: "dsessions s2 sid = dsessions s sid" if "sid \<in># ?d \<and> sid \<noteq> ?t \<or> sid \<notin># d0" for sid
    proof -
      from that td0 have "sid \<noteq> ?t" by auto
      with that s2(4) I show ?thesis unfolding pass_inv_def by (metis (no_types, lifting))
    qed
    have played: "\<exists>c c'. dsessions s sid = Some c \<and> dsessions s2 sid = Some c' \<and>
        dpPlayTestCount c' = dpPlayTestCount c + 1" if "sid \<in># d0" "\<not> (sid \<in># ?d \<and> sid \<noteq> ?t)" for sid
    proof (cases "sid = ?t")
      case False
      with that s2(4) I show ?thesis by (simp add: pass_inv_def)
    qed (use c(1) s2(2,3) in simp)
    from I s2(5-7) sub3 same played show ?thesis
      by (simp add: pass_inv_def tj3 ss3 d mem) (simp add: set_timer_jobs_def)
  qed
  with s2(1) tj show ?thesis by blast
qed

lemma timer_pass_runs:
  assumes "errors_fit e" and "dLTimer s = Some q" and "pq_inv q"
    and once: "\<forall>sid. count (due_players now q) sid \<le> 1"
    and ok: "\<forall>sid. sid \<in># due_players now q \<longrightarrow> (\<exists>c. dsessions s sid = Some c \<and> player_ok c)"
    and int: "dInterval s mod 2 ^ 32 \<noteq> 0"
  shows "\<exists>s' jobs. run_due timer_jobs set_timer_jobs pq_top pq_pop (D_run_element e) now (s\<lparr>dLTickCount := now\<rparr>) = Some (Ok s') \<and>
     run_list (\<lambda>s. set_timer_jobs (pq_pop (timer_jobs s)) s) (D_run_element e) (map mTask jobs) (s\<lparr>dLTickCount := now\<rparr>) = Ok s' \<and>
     mset jobs = due now (mset q) \<and> sorted (map mExecutionTick jobs) \<and>
     mset (timer_jobs s') = pending now (mset q) + mset (concat (map (follow_up now s \<circ> mTask) jobs)) \<and>
     pass_inv now (due_players now q) s s'"
proof -
  let ?s0 = "s\<lparr>dLTickCount := now\<rparr>" and ?d0 = "due_players now q"
  have q0: "timer_jobs ?s0 = q" using assms(2) by (simp add: timer_jobs_def)
  have I0: "pass_inv now ?d0 s ?s0" using assms(2) by (simp add: pass_inv_def q0)
  have getset: "timer_jobs (set_timer_jobs q' s') = q'" for q' and s' :: "'a load_client"
    by (simp add: timer_jobs_def set_timer_jobs_def)
  have inv0: "pq_inv (timer_jobs ?s0)" using assms(3) by (simp add: q0)
  have step: "\<exists>s2. D_run_element e (mTask x) s1 = Ok s2 \<and>
    timer_jobs s2 = fold pq_push (follow_up now s (mTask x)) (timer_jobs s1) \<and>
    (mset (pq_pop (timer_jobs s2)) = mset (follow_up now s (mTask x)) + (mset (timer_jobs s1) - {#x#}) \<longrightarrow>
     pass_inv now ?d0 s (set_timer_jobs (pq_pop (timer_jobs s2)) s2))"
    if "pass_inv now ?d0 s s1" "pq_inv (timer_jobs s1)" "x \<in># mset (timer_jobs s1)"
      "pq_top (timer_jobs s1) = Some x" "mExecutionTick x \<le> now" for x s1
    by (rule pass_inv_step [OF that(1) once assms(1) ok that(3,5) int])
  have later: "now < mExecutionTick j" if "j \<in> set (follow_up now s t)" for t j
    using int that by (rule follow_up_later)
  have "\<exists>s' jobs. run_due timer_jobs set_timer_jobs pq_top pq_pop (D_run_element e) now ?s0 = Some (Ok s') \<and>
     run_list (\<lambda>s. set_timer_jobs (pq_pop (timer_jobs s)) s) (D_run_element e) (map mTask jobs) ?s0 = Ok s' \<and>
     mset jobs = due now (mset (timer_jobs ?s0)) \<and> sorted (map mExecutionTick jobs) \<and>
     mset (timer_jobs s') = pending now (mset (timer_jobs ?s0)) + mset (concat (map (follow_up now s \<circ> mTask) jobs)) \<and>
     pq_inv (timer_jobs s') \<and> pass_inv now ?d0 s s'"
    by (rule pq.run_due_spec [where I = "pass_inv now ?d0 s", OF inv0 I0 getset]) (use step later in blast)+
  then show ?thesis unfolding q0 by blast
qed

text \<open>C18. A timer pass of a worker thread ends; it performs exactly one action of every player that
  is due, in the order of the due times, and of nobody else, and afterwards the timer holds the players
  that were not due and, one interval later, those of the others that have actions left.\<close>

theorem DoTimerJob_plays_due:
  assumes "errors_fit e" and "dLTimer s = Some q" and "pq_inv q" and "now = dticks e (dworld s)"
    and once: "\<forall>sid. count (due_players now q) sid \<le> 1"
    and ok: "\<forall>sid. sid \<in># due_players now q \<longrightarrow> (\<exists>c. dsessions s sid = Some c \<and> player_ok c)"
    and int: "dInterval s mod 2 ^ 32 \<noteq> 0"
  shows "\<exists>s' jobs. D_DoTimerJob e s = Some (Ok s') \<and>
    mset jobs = due now (mset q) \<and> sorted (map mExecutionTick jobs) \<and>
    run_list (\<lambda>s. set_timer_jobs (pq_pop (timer_jobs s)) s) (D_run_element e) (map mTask jobs)
      (s\<lparr>dLTickCount := now\<rparr>) = Ok s' \<and>
    (\<forall>j\<in>set jobs. \<exists>c c'. dsessions s (mTask j) = Some c \<and> dsessions s' (mTask j) = Some c' \<and>
       dpPlayTestCount c' = dpPlayTestCount c + 1) \<and>
    (\<forall>sid. sid \<notin> mTask ` set jobs \<longrightarrow> dsessions s' sid = dsessions s sid) \<and>
    mset (timer_jobs s') = pending now (mset q) + mset (concat (map (follow_up now s \<circ> mTask) jobs))"
proof -
  let ?s0 = "s\<lparr>dLTickCount := now\<rparr>" and ?d0 = "due_players now q"
  obtain s' jobs where r:
    "run_due timer_jobs set_timer_jobs pq_top pq_pop (D_run_element e) now ?s0 = Some (Ok s')"
    "run_list (\<lambda>s. set_timer_jobs (pq_pop (timer_jobs s)) s) (D_run_element e) (map mTask jobs) ?s0 = Ok s'"
    "mset jobs = due now (mset q)" "sorted (map mExecutionTick jobs)"
    "mset (timer_jobs s') = pending now (mset q) + mset (concat (map (follow_up now s \<circ> mTask) jobs))"
    "pass_inv now ?d0 s s'"
    using timer_pass_runs [OF assms(1-3) once ok int] by blast
  have "due now (mset (timer_jobs s')) = {#}"
    using follow_up_later [OF int] unfolding r(5)
    by (auto simp: due_def pending_def filter_mset_eq_conv not_le)
  then have end0: "due_players now (timer_jobs s') = {#}" by (simp add: due_players_def)
  have set_d0: "sid \<in># ?d0 \<longleftrightarrow> sid \<in> mTask ` set jobs" for sid
    by (simp add: due_players_def flip: r(3))
  have "\<exists>c c'. dsessions s (mTask j) = Some c \<and> dsessions s' (mTask j) = Some c' \<and>
       dpPlayTestCount c' = dpPlayTestCount c + 1" if "j \<in> set jobs" for j
    using r(6) that by (simp add: pass_inv_def end0 set_d0)
  moreover have "dsessions s' sid = dsessions s sid" if "sid \<notin> mTask ` set jobs" for sid
    using r(6) that by (simp add: pass_inv_def end0 set_d0)
  moreover have "D_DoTimerJob e s = Some (Ok s')"
    using r(1) assms(2,4) by (simp add: D_DoTimerJob_def)
  ultimately show ?thesis using r(2-5) by blast
qed

lemma calm_errors_fit: "errors_fit calm_env"
  by (simp add: errors_fit_def calm_env_def)

lemma DP_new_ok: "player_ok ((DP_new sock gid)\<lparr>dpPosX := x, dpPosY := y\<rparr>)"
  using CircularBuffer_new_spec(1) [of DUMMY_BUFSIZE "[]"] by (simp add: player_ok_def DP_new_def DUMMY_BUFSIZE_def)

lemma DoTimerJob_plays_due_witness:
  "\<exists>s' c'. D_DoTimerJob calm_env two_players = Some (Ok s') \<and>
    dsessions s' 0 = Some c' \<and> dpPlayTestCount c' = 1 \<and> dsessions s' 1 = dsessions two_players 1 \<and>
    mset (timer_jobs s') = {#\<lparr>mOwner = 1, mTask = 1, mExecutionTick = 200\<rparr>, \<lparr>mOwner = 0, mTask = 0, mExecutionTick = 1100\<rparr>#}"
proof -
  let ?a = "\<lparr>mOwner = 0, mTask = 0, mExecutionTick = 50\<rparr> :: nat JobElement"
  let ?b = "\<lparr>mOwner = 1, mTask = 1, mExecutionTick = 200\<rparr> :: nat JobElement"
  have d: "due 100 (mset [?a, ?b]) = {#?a#}" "pending 100 (mset [?a, ?b]) = {#?b#}"
    by (simp_all add: due_def pending_def)
  have 1: "pq_inv [?a, ?b]" "100 = dticks calm_env (dworld two_players)"
    "\<forall>sid. count (due_players 100 [?a, ?b]) sid \<le> 1" "dInterval two_players mod 2 ^ 32 \<noteq> 0"
    "\<forall>sid. sid \<in># due_players 100 [?a, ?b] \<longrightarrow> (\<exists>c. dsessions two_players sid = Some c \<and> player_ok c)"
    using d DP_new_ok by (simp_all add: pq_inv_def calm_env_def due_players_def two_players_fields)
  obtain s' jobs where r: "D_DoTimerJob calm_env two_players = Some (Ok s')" "mset jobs = {#?a#}"
    "\<forall>j\<in>set jobs. \<exists>c c'. dsessions two_players (mTask j) = Some c \<and> dsessions s' (mTask j) = Some c' \<and>
       dpPlayTestCount c' = dpPlayTestCount c + 1"
    "\<forall>sid. sid \<notin> mTask ` set jobs \<longrightarrow> dsessions s' sid = dsessions two_players sid"
    "mset (timer_jobs s') = {#?b#} + mset (concat (map (follow_up 100 two_players \<circ> mTask) jobs))"
    using DoTimerJob_plays_due [OF calm_errors_fit two_players_fields(7) 1(1,2,3,5,4)] unfolding d by blast
  from r(2) have "jobs = [?a]" by simp
  with r show ?thesis
    by (auto simp: two_players_fields DP_new_def follow_up_def next_play_def)
qed

section \<open>Connecting the players of a game\<close>

definition prepared :: "'w load_client \<Rightarrow> nat \<Rightarrow> bool" where
  "prepared s sid \<longleftrightarrow> (\<exists>c. dsessions s sid = Some c \<and> player_ok c \<and> \<not> dsConnected c \<and>
     dgames s (dpOwnerGameSession c) \<noteq> None)"

lemma ConnectRequest_spec:
  assumes "prepared s sid" and "errors_fit e"
  shows "\<exists>s1 s' c'. DS_AddRef sid s = Ok s1 \<and> DP_ConnectRequest e sid i idx s1 = Ok (True, s') \<and>
    dsessions s' sid = Some c' \<and> dpPlayerSessionId c' = i \<and> dpPlayerIdx c' = idx \<and>
    (\<forall>t. t \<noteq> sid \<longrightarrow> dsessions s' t = dsessions s t) \<and> dgames s' = dgames s"
proof -
  from assms(1) obtain c g where c: "dsessions s sid = Some c" "player_ok c" "\<not> dsConnected c"
    "dgames s (dpOwnerGameSession c) = Some g" by (auto simp: prepared_def)
  let ?addr = "(dinet_addr e (dgIpAddress g), word_of_int (dgPort g))"
  define c1 where "c1 = c\<lparr>dsRefCount := dsRefCount c + 1\<rparr>"
  define s1 where "s1 = upd_dsession sid (\<lambda>c. c\<lparr>dsRefCount := dsRefCount c + 1\<rparr>) s"
  define s2 where "s2 = upd_dsession sid (\<lambda>c. c\<lparr>dpConnectAddr := ?addr\<rparr>) s1"
  let ?ctx = "dcontext sid DIO_CONNECT"
  let ?txt = "''PlayerSession::ConnectRequest Error : ''"
  have add: "DS_AddRef sid s = Ok s1"
    using c(1,2) by (simp add: DS_AddRef_def with_dsession_def s1_def player_ok_def)
  have c1: "dsessions s1 sid = Some c1" "\<not> dsConnected c1" "dpOwnerGameSession c1 = dpOwnerGameSession c"
    "dgames s1 = dgames s" using c(1,3) by (simp_all add: s1_def c1_def upd_dsession_def)
  have c2: "dsessions s2 sid = Some (c1\<lparr>dpConnectAddr := ?addr\<rparr>)" "player_ok (c1\<lparr>dpConnectAddr := ?addr\<rparr>)"
    using c1(1) c(2) by (simp_all add: s2_def c1_def upd_dsession_def player_ok_def)
  have k2: "\<forall>t. t \<noteq> sid \<longrightarrow> dsessions s2 t = dsessions s t" "dgames s2 = dgames s"
    by (simp_all add: s2_def s1_def upd_dsession_def)
  obtain x s3 where x: "new_dcontext ?ctx s2 = Ok (x, s3)" "keeps sid s2 s3"
    and fail: "\<And>w. \<exists>s4 s5. DeleteDummyContext (Some x) (s3\<lparr>dworld := w\<rparr>) = Ok s4 \<and>
       dprint_error e ?txt s4 = Ok s5 \<and> keeps sid s2 s5 \<and> keeps sid s2 s4"
    using start_io [OF c2, of ?ctx e ?txt] assms(2) by (auto simp: dcontext_def)
  obtain r w where call: "dconnect e (dsSocket c1) (fst ?addr) (snd ?addr) (dworld s3) = (r, w)" by force
  obtain s4 where s4: "(case r of IoStarted \<Rightarrow> Ok (s3\<lparr>dworld := w\<rparr>)
      | IoFailed \<Rightarrow> bnd (DeleteDummyContext (Some x) (s3\<lparr>dworld := w\<rparr>)) (dprint_error e ?txt)) = Ok s4" "keeps sid s2 s4"
    using x(2) fail [of w] by (cases r) auto
  let ?s' = "upd_dsession sid (\<lambda>c. c\<lparr>dpPlayerSessionId := i, dpPlayerIdx := idx\<rparr>) s4"
  have "DP_ConnectRequest e sid i idx s1 = Ok (True, ?s')"
    using c1 c(4) x(1) call s4(1)
    by (simp add: DP_ConnectRequest_def with_dsession_def Let_def s2_def [symmetric] del: bnd_eq_Ok)
  moreover obtain c4 where "dsessions s4 sid = Some c4" using keepsD [OF s4(2) c2] by blast
  moreover have "\<forall>t. t \<noteq> sid \<longrightarrow> dsessions s4 t = dsessions s t" "dgames s4 = dgames s"
    using s4(2) k2 by (simp_all add: keeps_def)
  ultimately show ?thesis using add
    by (intro exI [of _ s1] exI [of _ ?s'] exI [of _ "c4\<lparr>dpPlayerSessionId := i, dpPlayerIdx := idx\<rparr>"])
      (simp add: upd_dsession_def)
qed

lemma dsleep_same [simp]: "dsessions (dsleep e ms s) = dsessions s" "dgames (dsleep e ms s) = dgames s"
  by (simp_all add: dsleep_def dsys_do_def split: prod.splits)

lemma DG_connect_spec:
  assumes "distinct its" and "\<forall>sid\<in>set its. prepared s sid" and "errors_fit e"
  shows "if length ids \<le> length its
    then \<exists>s'. DG_connect e ids its idx s = Ok (True, s') \<and>
      (\<forall>k<length ids. \<exists>c'. dsessions s' (its ! k) = Some c' \<and> dpPlayerSessionId c' = ids ! k \<and>
         dpPlayerIdx c' = idx + int k) \<and>
      (\<forall>sid. sid \<notin> set (take (length ids) its) \<longrightarrow> dsessions s' sid = dsessions s sid)
    else DG_connect e ids its idx s = Fault IteratorInvalidated"
  using assms
proof (induction e ids its idx s rule: DG_connect.induct)
  case (3 e i "is" it its idx s)
  obtain s1 s2 c2 where r: "DS_AddRef it s = Ok s1" "DP_ConnectRequest e it i idx s1 = Ok (True, s2)"
    "dsessions s2 it = Some c2" "dpPlayerSessionId c2 = i" "dpPlayerIdx c2 = idx"
    "\<forall>t. t \<noteq> it \<longrightarrow> dsessions s2 t = dsessions s t" "dgames s2 = dgames s"
    using ConnectRequest_spec [of s it e i idx, OF _ "3.prems"(3)] "3.prems" by (metis list.set_intros(1))
  let ?s3 = "dsleep e 10 s2"
  have "\<forall>sid\<in>set its. prepared ?s3 sid"
  proof
    fix sid assume "sid \<in> set its"
    with "3.prems" have "sid \<noteq> it" "prepared s sid" by auto
    with r(6,7) show "prepared ?s3 sid" by (simp add: prepared_def)
  qed
  with "3.prems"(1,3) have IH: "if length is \<le> length its
    then \<exists>s'. DG_connect e is its (idx + 1) ?s3 = Ok (True, s') \<and>
      (\<forall>k<length is. \<exists>c'. dsessions s' (its ! k) = Some c' \<and> dpPlayerSessionId c' = is ! k \<and>
         dpPlayerIdx c' = idx + 1 + int k) \<and>
      (\<forall>sid. sid \<notin> set (take (length is) its) \<longrightarrow> dsessions s' sid = dsessions ?s3 sid)
    else DG_connect e is its (idx + 1) ?s3 = Fault IteratorInvalidated"
    using "3.IH" [OF r(1,2) refl] by simp
  have run: "DG_connect e (i # is) (it # its) idx s = DG_connect e is its (idx + 1) ?s3"
    using r(1,2) by simp
  show ?case
  proof (cases "length is \<le> length its")
    case True
    with IH obtain s' where s': "DG_connect e is its (idx + 1) ?s3 = Ok (True, s')"
      "\<forall>k<length is. \<exists>c'. dsessions s' (its ! k) = Some c' \<and> dpPlayerSessionId c' = is ! k \<and>
         dpPlayerIdx c' = idx + 1 + int k"
      "\<forall>sid. sid \<notin> set (take (length is) its) \<longrightarrow> dsessions s' sid = dsessions ?s3 sid" by auto
    have "it \<notin> set (take (length is) its)" using "3.prems"(1) by (auto dest: in_set_takeD)
    with s'(3) r(3) have "dsessions s' it = Some c2" by simp
    moreover have "\<exists>c'. dsessions s' ((it # its) ! k) = Some c' \<and> dpPlayerSessionId c' = (i # is) ! k \<and>
        dpPlayerIdx c' = idx + int k" if "k < Suc (length is)" for k
      using that s'(2) \<open>dsessions s' it = Some c2\<close> r(4,5) by (cases k) (auto simp: algebra_simps)
    moreover have "dsessions s' sid = dsessions s sid" if "sid \<notin> set (it # take (length is) its)" for sid
      using that s'(3) r(6) by simp
    ultimately show ?thesis using True s'(1) unfolding run by (simp add: run)
  qed (use IH run in simp)
qed simp_all

text \<open>C28. A game's players are given their sessions in order: when GameLift names no more player
  sessions than were prepared, each is connected with its identifier and its index and no other session
  changes. When it names more (a socket of a prepared session could not be bound, whose failure
  \<^verbatim>\<open>PrepareGameSessions\<close> drops), the loop runs past the end of the list of prepared
  sessions.\<close>

theorem ConnectPlayerSessions_pairs:
  assumes "dgames s gid = Some g" and "distinct (dgReadySessionList g)"
    and "\<forall>sid\<in>set (dgReadySessionList g). prepared s sid" and "errors_fit e"
  shows "if length (dgPlayerSessionList g) \<le> length (dgReadySessionList g)
    then \<exists>s'. DG_ConnectPlayerSessions e gid s = Ok (True, s') \<and>
      (\<forall>k<length (dgPlayerSessionList g). \<exists>c'. dsessions s' (dgReadySessionList g ! k) = Some c' \<and>
         dpPlayerSessionId c' = dgPlayerSessionList g ! k \<and> dpPlayerIdx c' = dgStartPlayerId g + int k) \<and>
      (\<forall>sid. sid \<notin> set (take (length (dgPlayerSessionList g)) (dgReadySessionList g)) \<longrightarrow>
         dsessions s' sid = dsessions s sid)
    else DG_ConnectPlayerSessions e gid s = Fault IteratorInvalidated"
  using DG_connect_spec [OF assms(2-4), of "dgPlayerSessionList g" "dgStartPlayerId g"] assms(1)
  by (simp add: DG_ConnectPlayerSessions_def with_game_def)

lemma ConnectPlayerSessions_pairs_witness:
  "\<exists>s' c c'. DG_ConnectPlayerSessions calm_env 0 two_players = Ok (True, s') \<and>
    dsessions s' 0 = Some c \<and> dpPlayerSessionId c = [65] \<and> dpPlayerIdx c = 10 \<and>
    dsessions s' 1 = Some c' \<and> dpPlayerSessionId c' = [66] \<and> dpPlayerIdx c' = 11"
proof -
  have own: "\<not> dsConnected ((DP_new sock 0)\<lparr>dpPosX := x, dpPosY := y\<rparr>)"
    "dpOwnerGameSession ((DP_new sock 0)\<lparr>dpPosX := x, dpPosY := y\<rparr>) = 0" for sock x y
    by (simp_all add: DP_new_def)
  have p: "prepared two_players 0" "prepared two_players 1"
    using two_players_fields(1-3) own DP_new_ok unfolding prepared_def by (metis option.distinct(1))+
  have "\<exists>s'. DG_ConnectPlayerSessions calm_env 0 two_players = Ok (True, s') \<and>
      (\<forall>k<2. \<exists>c'. dsessions s' ([0, 1] ! k) = Some c' \<and>
         dpPlayerSessionId c' = [[65], [66]] ! k \<and> dpPlayerIdx c' = 10 + int k)"
    using ConnectPlayerSessions_pairs [OF two_players_fields(3) _ _ calm_errors_fit] p
    by (auto simp: DG_new_def numeral_2_eq_2)
  then obtain s' where s': "DG_ConnectPlayerSessions calm_env 0 two_players = Ok (True, s')"
    "\<And>k. k < 2 \<Longrightarrow> \<exists>c'. dsessions s' ([0, 1] ! k) = Some c' \<and>
         dpPlayerSessionId c' = [[65], [66]] ! k \<and> dpPlayerIdx c' = 10 + int k" by blast
  from s'(1) s'(2) [of 0] s'(2) [of 1] show ?thesis by auto
qed

end
