(* ===== verification/DummyReceive.thy ===== *)
theory DummyReceive
  imports DummyProofs Framing
begin

text \<open>
  The receive path of the load clients: when a read completes, every complete packet of the server is taken
  out once and in order; chats and moves are dropped, and each login result is logged and schedules the
  player's next action.
\<close>

section \<open>One packet\<close>

definition logged :: "byte list \<Rightarrow> ConsoleLog \<Rightarrow> ConsoleLog" where
  "logged buf l = l\<lparr>console := console l @ [buf], mLogFileStream := mLogFileStream l @ [buf]\<rparr>"

definition login_line :: "byte list \<Rightarrow> byte list" where
  "login_line i = lit ''Login OK: PlayerSessionId - '' @ i @ lit ''\<newline>''"

definition scheduled :: "nat \<Rightarrow> 'w load_client \<Rightarrow> nat JobElement list \<Rightarrow> nat JobElement list" where
  "scheduled sid s = push_after pq_push sid sid (nat (dInterval s mod 2 ^ 32)) (dLTickCount s)"

fun react :: "nat \<Rightarrow> server_msg \<Rightarrow> 'w load_client \<Rightarrow> 'w load_client" where
  "react sid (SLogin p) s =
     (upd_dsession sid (\<lambda>c. c\<lparr>dsRefCount := dsRefCount c + 1\<rparr>) s)
       \<lparr>dlog := logged (login_line (takeWhile (\<lambda>x. x \<noteq> 0) (mPlayerId p))) (dlog s),
        dLTimer := map_option (scheduled sid s) (dLTimer s)\<rparr>"
| "react sid (SChat p) s = s"
| "react sid (SMove p) s = s"

definition d_consumed :: "nat \<Rightarrow> nat \<Rightarrow> 'w load_client \<Rightarrow> 'w load_client" where
  "d_consumed n sid s = upd_dsession sid (\<lambda>c. c\<lparr>dsRecvBuffer := after_read n (dsRecvBuffer c)\<rparr>) s"

definition d_holding :: "'w load_client \<Rightarrow> nat \<Rightarrow> byte list \<Rightarrow> bool" where
  "d_holding s sid xs \<longleftrightarrow>
     (\<exists>c. dsessions s sid = Some c \<and> cb_inv (dsRecvBuffer c) \<and> contents (dsRecvBuffer c) = xs)"

lemma d_consumed_sel [simp]:
  "dLTimer (d_consumed n sid s) = dLTimer s" "dlog (d_consumed n sid s) = dlog s"
  "dInterval (d_consumed n sid s) = dInterval s" "dLTickCount (d_consumed n sid s) = dLTickCount s"
  by (simp_all add: d_consumed_def upd_dsession_def)

lemma react_holding: "d_holding s sid xs \<Longrightarrow> d_holding (react sid m s) sid xs"
  by (cases m) (auto simp: d_holding_def upd_dsession_def)

lemma d_parse:
  assumes "d_holding s sid (xs @ rest)" and "n = length xs"
  shows "DP_ParsePacket n sid s = Ok (Some xs, d_consumed n sid s)" and "d_holding (d_consumed n sid s) sid rest"
proof -
  from assms(1) obtain c where c: "dsessions s sid = Some c" "cb_inv (dsRecvBuffer c)"
    "contents (dsRecvBuffer c) = xs @ rest" by (auto simp: d_holding_def)
  note ar = after_read_spec [OF c(2,3) assms(2)]
  show "DP_ParsePacket n sid s = Ok (Some xs, d_consumed n sid s)"
    using c(1) ar(1) by (simp add: DP_ParsePacket_def with_dsession_def d_consumed_def upd_dsession_def)
  show "d_holding (d_consumed n sid s) sid rest"
    using c(1) ar by (simp add: d_holding_def d_consumed_def upd_dsession_def)
qed

lemma login_reacts:
  assumes "d_holding s sid xs" and "dLTimer s \<noteq> None" and "wf_server (SLogin p)"
  shows "bnd (c_str (mPlayerId p)) (\<lambda>i. bnd (dprint (login_line i) s) (D_DoAsyncAfter (dInterval s) sid)) =
    Ok (react sid (SLogin p) s)"
proof -
  have "length (takeWhile (\<lambda>x. x \<noteq> 0) (mPlayerId p)) \<le> 128"
    using length_takeWhile_le [of "\<lambda>x. x \<noteq> 0" "mPlayerId p"] assms(3) by (simp add: sizeof_defs)
  with assms show ?thesis
    by (auto simp: c_str_def dprint_def dummy_PrintOut_def login_line_def logged_def D_DoAsyncAfter_def
        with_dsession_def d_holding_def scheduled_def upd_dsession_def)
qed

lemma dummy_handler_reacts:
  assumes "d_holding s sid (server_bytes m @ rest)" and "dLTimer s \<noteq> None" and "wf_server m"
  shows "dummy_HandlerTable e (mType (header_of (server_bytes m))) sid s =
    Ok (react sid m (d_consumed (length (server_bytes m)) sid s))"
proof -
  note pp = d_parse(1) [OF assms(1) refl]
  show ?thesis
  proof (cases m)
    case (SLogin p)
    have "d_holding (d_consumed (length (server_bytes m)) sid s) sid rest" by (rule d_parse(2) [OF assms(1) refl])
    note lr = login_reacts [OF this, unfolded d_consumed_sel, OF assms(2) assms(3) [unfolded SLogin]]
    from SLogin pp assms(3) lr id_of_bytes [of p "[]"] header_of_bytes [of p] show ?thesis
      by (simp add: dummy_HandlerTable_def Handler_PKT_SC_LOGIN_def sizeof_defs packet_new_defs id_bytes_def
          login_line_def del: bnd_eq_Ok)
  next
    case (SChat p)
    with pp assms(3) header_of_bytes [of p] show ?thesis
      by (simp add: dummy_HandlerTable_def Handler_PKT_SC_CHAT_def sizeof_defs packet_new_defs chat_bytes_def)
  next
    case (SMove p)
    with pp assms(3) header_of_bytes [of p] show ?thesis
      by (simp add: dummy_HandlerTable_def Handler_PKT_SC_MOVE_def sizeof_defs packet_new_defs move_bytes_def)
  qed
qed

section \<open>The loop\<close>

lemma d_on_read_incomplete: "d_holding s sid xs \<Longrightarrow> incomplete xs \<Longrightarrow> DP_OnRead e sid s = Some (Ok s)"
  by (subst DP_OnRead.simps)
    (auto simp: d_holding_def cb.pk_eq GetStoredSize_eq incomplete_def header_of_take sizeof_defs Let_def)

lemma server_type: "wf_server m \<Longrightarrow> mType (header_of (server_bytes m)) \<in> {2, 12, 22}"
  by (cases m) (auto simp: id_bytes_def chat_bytes_def move_bytes_def packet_new_defs
      header_of_bytes [of _ "[]", simplified])

lemma d_on_read_message:
  assumes "d_holding s sid (server_bytes m @ rest)" and "dLTimer s \<noteq> None" and "wf_server m"
  shows "DP_OnRead e sid s = DP_OnRead e sid (react sid m (d_consumed (length (server_bytes m)) sid s))"
proof -
  from assms(1) obtain c where c: "dsessions s sid = Some c" "cb_inv (dsRecvBuffer c)"
    "contents (dsRecvBuffer c) = server_bytes m @ rest" by (auto simp: d_holding_def)
  note b = server_bounds [OF assms(3)]
  have h: "header_of (take 4 (server_bytes m @ rest)) = header_of (server_bytes m)"
    using b by (simp add: header_of_take)
  have ty: "sint (mType (header_of (server_bytes m))) < 1024" "0 < sint (mType (header_of (server_bytes m)))"
    using server_type [OF assms(3)] by auto
  show ?thesis
    using c b h ty server_length [OF assms(3), of "[]"] dummy_handler_reacts [OF assms, of e]
    by (subst DP_OnRead.simps) (simp add: cb.pk_eq GetStoredSize_eq sizeof_defs Let_def)
qed

fun reacts :: "nat \<Rightarrow> server_msg list \<Rightarrow> 'w load_client \<Rightarrow> 'w load_client" where
  "reacts sid [] s = s"
| "reacts sid (m # ms) s = reacts sid ms (react sid m (d_consumed (length (server_bytes m)) sid s))"

lemma d_on_read_stream:
  assumes "d_holding s sid (concat (map server_bytes ms) @ t)" and "dLTimer s \<noteq> None"
    and "\<forall>m\<in>set ms. wf_server m" and "incomplete t"
  shows "DP_OnRead e sid s = Some (Ok (reacts sid ms s)) \<and> d_holding (reacts sid ms s) sid t"
  using assms
proof (induction ms arbitrary: s)
  case Nil
  then show ?case by (simp add: d_on_read_incomplete)
next
  case (Cons m ms)
  have m: "d_holding s sid (server_bytes m @ (concat (map server_bytes ms) @ t))" "wf_server m"
    using Cons.prems by simp_all
  let ?s = "react sid m (d_consumed (length (server_bytes m)) sid s)"
  have "dLTimer ?s \<noteq> None" using Cons.prems(2) by (cases m) simp_all
  with Cons.IH [OF react_holding [OF d_parse(2) [OF m(1) refl]]] Cons.prems(3,4)
    d_on_read_message [OF m(1) Cons.prems(2) m(2), of e]
  show ?case by simp
qed

section \<open>What the reactions amount to\<close>

fun login_of :: "server_msg \<Rightarrow> byte list list" where
  "login_of (SLogin p) = [takeWhile (\<lambda>x. x \<noteq> 0) (mPlayerId p)]"
| "login_of (SChat p) = []"
| "login_of (SMove p) = []"

abbreviation logins :: "server_msg list \<Rightarrow> byte list list" where
  "logins ms \<equiv> concat (map login_of ms)"

lemma react_scheduled: "scheduled sid (react sid m (d_consumed n sid s)) = scheduled sid s"
  by (cases m) (simp_all add: scheduled_def upd_dsession_def fun_eq_iff)

lemma reacts_effect:
  "dLTimer (reacts sid ms s) = map_option (fold (\<lambda>_. scheduled sid s) (logins ms)) (dLTimer s)"
  "console (dlog (reacts sid ms s)) = console (dlog s) @ map login_line (logins ms)"
  "dsessions s sid = Some c \<Longrightarrow> \<exists>c'. dsessions (reacts sid ms s) sid = Some c' \<and>
     dsRefCount c' = dsRefCount c + int (length (logins ms)) \<and> dsConnected c' = dsConnected c"
  "j \<noteq> sid \<Longrightarrow> dsessions (reacts sid ms s) j = dsessions s j"
proof -
  show "dLTimer (reacts sid ms s) = map_option (fold (\<lambda>_. scheduled sid s) (logins ms)) (dLTimer s)"
  proof (induction ms arbitrary: s)
    case (Cons m ms)
    let ?s = "react sid m (d_consumed (length (server_bytes m)) sid s)"
    have "dLTimer ?s = map_option (fold (\<lambda>_. scheduled sid s) (login_of m)) (dLTimer s)"
      by (cases m) (simp_all add: scheduled_def fun_eq_iff option.map_id0)
    moreover have "scheduled sid ?s = scheduled sid s" by (rule react_scheduled)
    ultimately show ?case using Cons.IH [of ?s] by (simp add: option.map_comp comp_def)
  qed (simp add: option.map_id0)
  show "console (dlog (reacts sid ms s)) = console (dlog s) @ map login_line (logins ms)"
  proof (induction ms arbitrary: s)
    case (Cons m ms)
    then show ?case by (cases m) (simp_all add: logged_def)
  qed simp
  show "\<exists>c'. dsessions (reacts sid ms s) sid = Some c' \<and>
     dsRefCount c' = dsRefCount c + int (length (logins ms)) \<and> dsConnected c' = dsConnected c"
    if "dsessions s sid = Some c"
    using that
  proof (induction ms arbitrary: s c)
    case (Cons m ms)
    obtain c1 where "dsessions (react sid m (d_consumed (length (server_bytes m)) sid s)) sid = Some c1"
      "dsRefCount c1 = dsRefCount c + int (length (login_of m))" "dsConnected c1 = dsConnected c"
      using Cons.prems by (cases m) (simp_all add: d_consumed_def upd_dsession_def)
    with Cons.IH [OF this(1)] show ?case by auto
  qed simp
  show "dsessions (reacts sid ms s) j = dsessions s j" if "j \<noteq> sid"
  proof (induction ms arbitrary: s)
    case (Cons m ms)
    then show ?case using that by (cases m) (simp_all add: d_consumed_def upd_dsession_def)
  qed simp
qed

section \<open>A completed read\<close>

definition d_arrived :: "nat \<Rightarrow> byte list \<Rightarrow> 'w load_client \<Rightarrow> 'w load_client" where
  "d_arrived sid d s = upd_dsession sid (\<lambda>c. c\<lparr>dsRecvBuffer := (dsRecvBuffer c)
     \<lparr>mBuffer := overwrite (GetBuffer (dsRecvBuffer c)) d (mBuffer (dsRecvBuffer c))\<rparr>\<rparr>) s"

lemma d_committed_holds:
  assumes "dsessions s sid = Some c" and "cb_inv (dsRecvBuffer c)"
    and "snd (GetFreeSpaceSize (dsRecvBuffer c)) = dsRecvBuffer c" and "length d \<le> room (dsRecvBuffer c)"
  shows "d_holding (upd_dsession sid (\<lambda>c. c\<lparr>dsRecvBuffer := Commit (length d) (dsRecvBuffer c)\<rparr>) (d_arrived sid d s))
    sid (contents (dsRecvBuffer c) @ d)"
proof -
  let ?b = "dsRecvBuffer c"
  from recv_spec [OF assms(2,4)] assms(3) obtain b' where b: "recv_into d ?b = Ok b'" "cb_inv b'"
    "contents b' = contents ?b @ d" by auto
  have "b' = Commit (length d) (?b\<lparr>mBuffer := overwrite (GetBuffer ?b) d (mBuffer ?b)\<rparr>)"
    using b(1) by (auto simp: recv_into_def mem_write_def split: if_splits)
  with b assms(1) show ?thesis
    by (simp add: d_holding_def d_arrived_def upd_dsession_def)
qed

lemma d_post_recv_offers:
  assumes "DS_PostRecv e sid s = Ok (True, s')" and "dsessions s sid = Some c" and "cb_inv (dsRecvBuffer c)"
  shows "\<exists>c'. dsessions s' sid = Some c' \<and> dsRecvBuffer c' = snd (GetFreeSpaceSize (dsRecvBuffer c))"
  using assms GetFreeSpaceSize_spec(8) [OF assms(3)]
  by (auto simp: DS_PostRecv_def with_dsession_def Let_def case_prod_beta upd_dsession_def new_dcontext_def
      DS_AddRef_def dcontext_def split: if_splits started.splits)

text \<open>C27. A load client that is told it is logged in goes on playing: when a read into the free space that
  \<^verbatim>\<open>PostRecv\<close> offered completes with any bytes that continue the server's stream, whatever else
  has happened to the client meanwhile, \<^verbatim>\<open>RecvCompletion\<close> returns without a fault, has logged one
  line and scheduled one action for each login result among the packets that are complete now, in their order,
  has taken all of these packets out, keeps the beginning of the next one, and touches no other session.\<close>

theorem RecvCompletion_schedules_logins:
  assumes "dsessions s0 sid = Some c" and "cb_inv (dsRecvBuffer c)" and "DS_PostRecv e sid s0 = Ok (True, s1)"
    and "map_option dsRecvBuffer (dsessions s sid) = map_option dsRecvBuffer (dsessions s1 sid)"
    and "length d \<le> room (dsRecvBuffer c)" and "contents (dsRecvBuffer c) @ d = concat (map server_bytes ms) @ t"
    and "\<forall>m\<in>set ms. wf_server m" and "incomplete t" and "dLTimer s = Some q"
  shows "\<exists>s' c'. DS_RecvCompletion e sid (length d) (d_arrived sid d s) = Some (Ok s') \<and>
    dsessions s' sid = Some c' \<and> contents (dsRecvBuffer c') = t \<and>
    dLTimer s' = Some (fold (\<lambda>_. scheduled sid s) (logins ms) q) \<and>
    console (dlog s') = console (dlog s) @ map login_line (logins ms) \<and>
    (\<forall>j. j \<noteq> sid \<longrightarrow> dsessions s' j = dsessions s j)"
proof -
  from d_post_recv_offers [OF assms(3,1,2)] assms(4) obtain c1 where
    c1: "dsessions s sid = Some c1" "dsRecvBuffer c1 = snd (GetFreeSpaceSize (dsRecvBuffer c))" by auto
  note sp = GetFreeSpaceSize_spec [OF assms(2), folded c1(2)]
  let ?s1 = "upd_dsession sid (\<lambda>c. c\<lparr>dsRecvBuffer := Commit (length d) (dsRecvBuffer c)\<rparr>) (d_arrived sid d s)"
  have keep: "dLTimer ?s1 = Some q" "dlog ?s1 = dlog s" "scheduled sid ?s1 = scheduled sid s"
    "j \<noteq> sid \<Longrightarrow> dsessions ?s1 j = dsessions s j" for j
    using assms(9) by (simp_all add: d_arrived_def upd_dsession_def scheduled_def fun_eq_iff)
  have "d_holding ?s1 sid (concat (map server_bytes ms) @ t)"
    using d_committed_holds [OF c1(1) sp(2,8), of d] sp(3,5) assms(5,6) by simp
  from d_on_read_stream [OF this _ assms(7,8), of e] keep(1)
  have "DP_OnRead e sid ?s1 = Some (Ok (reacts sid ms ?s1))" "d_holding (reacts sid ms ?s1) sid t" by simp_all
  then show ?thesis
    using reacts_effect(1,2) [of sid ms ?s1] reacts_effect(4) [of _ sid ms ?s1] keep by (auto simp: d_holding_def DS_RecvCompletion_def)
qed

text \<open>Player 0 of the two is told in two pieces that it is logged in.\<close>

definition login_result :: IdPacket where
  "login_result = LoginResult_new\<lparr>mPlayerId := 65 # replicate 127 0\<rparr>"

lemma login_result_wf: "wf_server (SLogin login_result)"
  by (simp add: login_result_def packet_new_defs sizeof_defs)

definition half_told :: "unit load_client" where
  "half_told = two_players\<lparr>dsessions := (dsessions two_players)(0 \<mapsto> (DP_new 5 0)\<lparr>dsConnected := True\<rparr>)\<rparr>"

theorem RecvCompletion_schedules_logins_witness:
  "\<exists>s1 s' c'. DS_PostRecv calm_env 0 half_told = Ok (True, s1) \<and>
     DS_RecvCompletion calm_env 0 (length (id_bytes login_result @ [12]))
       (d_arrived 0 (id_bytes login_result @ [12]) s1) = Some (Ok s') \<and>
     dsessions s' 0 = Some c' \<and> contents (dsRecvBuffer c') = [12] \<and>
     console (dlog s') = console (dlog s1) @ [login_line [65]]"
proof -
  let ?c = "(DP_new 5 0)\<lparr>dsConnected := True\<rparr>"
  have c: "dsessions half_told 0 = Some ?c" by (simp add: half_told_def)
  have b: "cb_inv (dsRecvBuffer ?c)" "contents (dsRecvBuffer ?c) = []" "room (dsRecvBuffer ?c) = DUMMY_BUFSIZE"
    by (simp_all add: DP_new_def DUMMY_BUFSIZE_def CircularBuffer_new_spec)
  have r: "dsRefCount (DP_new 5 0) = 0" by (simp add: DP_new_def)
  obtain s1 where s1: "DS_PostRecv calm_env 0 half_told = Ok (True, s1)" "dLTimer s1 = dLTimer half_told"
    using GetFreeSpaceSize_spec [OF b(1)] b c r
    by (auto simp: DS_PostRecv_def with_dsession_def new_dcontext_def DS_AddRef_def dcontext_def calm_env_def
        upd_dsession_def Let_def case_prod_beta DUMMY_BUFSIZE_def)
  have t: "dLTimer s1 = Some (the (dLTimer two_players))"
    by (simp add: s1(2) half_told_def two_players_fields)
  have l: "logins [SLogin login_result] = [[65]]"
    by (simp add: login_result_def)
  have "incomplete [12]" by (simp add: incomplete_def sizeof_defs)
  with RecvCompletion_schedules_logins [OF c b(1) s1(1) refl _ _ _ _ t, of "id_bytes login_result @ [12]"
      "[SLogin login_result]" "[12]"] b login_result_wf l server_bounds [OF login_result_wf]
  show ?thesis using s1(1) by (auto simp: DUMMY_BUFSIZE_def)
qed

end
