(* ===== verification/DummyRefs.thy ===== *)
theory DummyRefs
  imports DummyReceive
begin

text \<open>
  Who holds a session of the load clients: the reference count is kept apart from the rest of the
  state as a book with one account per session, and every operation of a session keeps the book in
  balance. Each context of an overlapped call holds a reference, so does each element of a timer, and
  the session itself holds one from its connect request to its disconnect completion.
\<close>

section \<open>Results that do not crash\<close>

text \<open>No \<^verbatim>\<open>CRASH_ASSERT\<close> has failed, and a result satisfies \<^verbatim>\<open>Q\<close>.\<close>

definition keeping :: "('a \<Rightarrow> bool) \<Rightarrow> 'a outcome \<Rightarrow> bool" where
  "keeping Q m = (case m of Ok y \<Rightarrow> Q y | Fault f \<Rightarrow> f \<noteq> CrashAssert)"

definition keeping_opt :: "('a \<Rightarrow> bool) \<Rightarrow> 'a outcome option \<Rightarrow> bool" where
  "keeping_opt Q m = (case m of None \<Rightarrow> True | Some r \<Rightarrow> keeping Q r)"

lemma keeping_simps [simp]:
  "keeping Q (Ok y) = Q y" "keeping Q (Fault f) = (f \<noteq> CrashAssert)"
  "keeping_opt Q (Some m) = keeping Q m" "keeping_opt Q None"
  by (simp_all add: keeping_def keeping_opt_def)

lemma keeping_bnd: "keeping P m \<Longrightarrow> (\<And>y. P y \<Longrightarrow> keeping Q (f y)) \<Longrightarrow> keeping Q (bnd m f)"
  by (cases m) (simp_all add: keeping_def)

lemma keeping_weaken: "keeping P m \<Longrightarrow> (\<And>y. P y \<Longrightarrow> Q y) \<Longrightarrow> keeping Q m"
  by (cases m) (simp_all add: keeping_def)

lemma keepingD: "keeping Q m \<Longrightarrow> m = Ok y \<Longrightarrow> Q y" "keeping Q m \<Longrightarrow> m \<noteq> Fault CrashAssert"
  by (auto simp: keeping_def)

lemma keeping_optD: "keeping_opt Q m \<Longrightarrow> m = Some (Ok y) \<Longrightarrow> Q y" "keeping_opt Q m \<Longrightarrow> m \<noteq> Some (Fault CrashAssert)"
  by (auto simp: keeping_opt_def keeping_def)

lemma keeping_opt_bnd:
  "keeping_opt P m \<Longrightarrow> (\<And>y. P y \<Longrightarrow> keeping Q (f y)) \<Longrightarrow> keeping_opt Q (map_option (\<lambda>r. bnd r f) m)"
  by (cases m) (auto intro: keeping_bnd)

section \<open>The book\<close>

record account =
  ac_refs :: int
  ac_connected :: bool
  ac_pending :: int
  ac_buffer :: cbuf

definition account_of :: "DummySession \<Rightarrow> account" where
  "account_of c = \<lparr>ac_refs = dsRefCount c, ac_connected = dsConnected c, ac_pending = dsSendRequestedCount c,
     ac_buffer = dsSendBuffer c\<rparr>"

type_synonym contexts = "nat \<Rightarrow> DummyContext option"
type_synonym timer = "nat JobElement list"

definition ctxs_of :: "contexts \<Rightarrow> nat \<Rightarrow> nat set" where
  "ctxs_of C sid = {x. \<exists>ctx. C x = Some ctx \<and> dcSessionObject ctx = sid}"

text \<open>Those of some type that no thread has taken from the port; \<^verbatim>\<open>X\<close> are the taken ones.\<close>

definition waiting :: "contexts \<Rightarrow> nat set \<Rightarrow> DummyIOType set \<Rightarrow> nat \<Rightarrow> nat set" where
  "waiting C X ts sid = {x. x \<notin> X \<and> (\<exists>ctx. C x = Some ctx \<and> dcSessionObject ctx = sid \<and> dcIoType ctx \<in> ts)}"

definition timed :: "timer \<Rightarrow> nat \<Rightarrow> nat" where
  "timed q sid = length (filter (\<lambda>j. mTask j = sid) q)"

text \<open>The references that contexts, the timer and others hold, and what remains for the session.\<close>

definition issued :: "contexts \<Rightarrow> timer \<Rightarrow> (nat \<Rightarrow> nat) \<Rightarrow> nat \<Rightarrow> account \<Rightarrow> int" where
  "issued C q H sid a = ac_refs a - int (card (ctxs_of C sid)) - int (timed q sid) - int (H sid)"

definition link_tokens :: "contexts \<Rightarrow> nat set \<Rightarrow> nat \<Rightarrow> account \<Rightarrow> int" where
  "link_tokens C X sid a = int (card (waiting C X {DIO_CONNECT, DIO_DISCONNECT} sid)) + (if ac_connected a then 1 else 0)"

definition offers :: "DummyContext \<Rightarrow> account \<Rightarrow> bool" where
  "offers ctx a \<longleftrightarrow> ac_pending a = 1 \<and> dcWsaLen ctx \<le> GetContiguiousBytes (ac_buffer a) \<and>
     (0 < dcWsaLen ctx \<longrightarrow> dcWsaBuf ctx = GetBufferStart (ac_buffer a))"

text \<open>\<^verbatim>\<open>E\<close> are the sessions whose completed send is being handled.\<close>

definition sends_in_order :: "nat set \<Rightarrow> nat set \<Rightarrow> contexts \<Rightarrow> nat \<Rightarrow> account \<Rightarrow> bool" where
  "sends_in_order X E C sid a \<longleftrightarrow>
     cb_inv (ac_buffer a) \<and> ac_pending a \<in> {0, 1} \<and>
     (sid \<notin> E \<longrightarrow> ac_connected a \<longrightarrow> ac_pending a = 1 \<longrightarrow> waiting C X {DIO_SEND} sid \<noteq> {}) \<and>
     (\<forall>x\<in>waiting C X {DIO_SEND} sid. offers (the (C x)) a) \<and>
     (\<forall>x\<in>waiting C X {DIO_SEND} sid. \<forall>y\<in>waiting C X {DIO_SEND} sid. x = y) \<and>
     (waiting C X {DIO_CONNECT} sid \<noteq> {} \<longrightarrow> ac_pending a = 0)"

text \<open>Nothing has been issued to the sessions in \<^verbatim>\<open>R\<close>, which are prepared but not yet connected.\<close>

definition balanced ::
  "nat set \<Rightarrow> nat set \<Rightarrow> nat set \<Rightarrow> (nat \<Rightarrow> nat) \<Rightarrow> contexts \<Rightarrow> timer \<Rightarrow> nat \<Rightarrow> account \<Rightarrow> bool" where
  "balanced R X E H C q sid a \<longleftrightarrow>
     link_tokens C X sid a \<le> issued C q H sid a \<and> issued C q H sid a \<le> 1 \<and> sends_in_order X E C sid a \<and>
     (sid \<in> R \<longrightarrow> issued C q H sid a = 0 \<and> ac_pending a = 0)"

text \<open>
  \<^verbatim>\<open>H\<close> counts the references that are held elsewhere (by the timers of the other threads, by a
  running task); \<^verbatim>\<open>J\<close> is the element at the top of the timer that the thread is running, and the
  tick of its pass, if it is in one.
\<close>

definition ids_ok :: "nat set \<Rightarrow> contexts \<Rightarrow> nat \<Rightarrow> (nat \<Rightarrow> account option) \<Rightarrow> bool" where
  "ids_ok X C n P \<longleftrightarrow> (\<forall>x. n \<le> x \<longrightarrow> C x = None) \<and> (\<forall>x\<in>X. x < n) \<and>
     (\<forall>x ctx. C x = Some ctx \<longrightarrow> dcIoType ctx \<noteq> DIO_NONE \<and> P (dcSessionObject ctx) \<noteq> None)"

type_synonym timer_pass = "nat JobElement option \<times> int option"

definition timer_ok :: "timer_pass \<Rightarrow> timer \<Rightarrow> int \<Rightarrow> bool" where
  "timer_ok J q T \<longleftrightarrow> pq_inv q \<and> (\<forall>j. fst J = Some j \<longrightarrow> pq_top q = Some j \<and> mExecutionTick j \<le> T) \<and>
     (\<forall>now. snd J = Some now \<longrightarrow> T = now)"

definition book_ok ::
  "nat set \<Rightarrow> nat set \<Rightarrow> nat set \<Rightarrow> (nat \<Rightarrow> nat) \<Rightarrow> timer_pass \<Rightarrow> contexts \<Rightarrow> nat \<Rightarrow> timer \<Rightarrow> int \<Rightarrow>
   (nat \<Rightarrow> account option) \<Rightarrow> bool" where
  "book_ok R X E H J C n q T P \<longleftrightarrow> ids_ok X C n P \<and> timer_ok J q T \<and> (\<forall>sid a. P sid = Some a \<longrightarrow> balanced R X E H C q sid a)"

lemma ctxs_finite: "\<forall>x. n \<le> x \<longrightarrow> C x = None \<Longrightarrow> finite (ctxs_of C sid)" "\<forall>x. n \<le> x \<longrightarrow> C x = None \<Longrightarrow> finite (waiting C X ts sid)"
proof -
  assume n: "\<forall>x. n \<le> x \<longrightarrow> C x = None"
  have "ctxs_of C sid \<subseteq> {..<n}"
  proof
    fix x assume "x \<in> ctxs_of C sid"
    with n show "x \<in> {..<n}" by (cases "n \<le> x") (auto simp: ctxs_of_def)
  qed
  then show f: "finite (ctxs_of C sid)" by (rule finite_subset) simp
  have "waiting C X ts sid \<subseteq> ctxs_of C sid" by (auto simp: waiting_def ctxs_of_def)
  then show "finite (waiting C X ts sid)" using f by (rule finite_subset)
qed

text \<open>A step that concerns one session: only its account has to be looked at.\<close>

lemma book_step:
  assumes "book_ok R X E H J C n q T P" and "P sid \<noteq> None"
    and ids: "ids_ok X C' n' (P(sid \<mapsto> a))" and "timer_ok J' q' T'" and "balanced R X E' H' C' q' sid a"
    and other: "\<And>t x ctx. t \<noteq> sid \<Longrightarrow> dcSessionObject ctx = t \<Longrightarrow> C' x = Some ctx \<longleftrightarrow> C x = Some ctx"
    and "\<And>t. t \<noteq> sid \<Longrightarrow> timed q' t + H' t = timed q t + H t" and "E - {sid} \<subseteq> E'"
  shows "book_ok R X E' H' J' C' n' q' T' (P(sid \<mapsto> a))"
  unfolding book_ok_def
proof (intro conjI allI impI)
  fix t b assume b: "(P(sid \<mapsto> a)) t = Some b"
  show "balanced R X E' H' C' q' t b"
  proof (cases "t = sid")
    case False
    then have old: "balanced R X E H C q t b" using assms(1) b by (simp add: book_ok_def)
    have same: "ctxs_of C' t = ctxs_of C t" "waiting C' X ts t = waiting C X ts t" for ts
      using other [OF False] by (auto simp: ctxs_of_def waiting_def)
    have the_same: "the (C' x) = the (C x)" if "x \<in> waiting C X ts t" for x ts
    proof -
      from that obtain ctx where "C x = Some ctx" "dcSessionObject ctx = t" by (auto simp: waiting_def)
      with other [OF False, of ctx x] show ?thesis by simp
    qed
    have "int (timed q' t) + int (H' t) = int (timed q t) + int (H t)"
      using assms(7) [OF False] by (metis of_nat_add)
    then have "issued C' q' H' t b = issued C q H t b" by (simp add: issued_def same)
    moreover have "link_tokens C' X t b = link_tokens C X t b" by (simp add: link_tokens_def same)
    moreover have "sends_in_order X E' C' t b"
      using old False assms(8) the_same unfolding balanced_def sends_in_order_def same by auto
    ultimately show ?thesis using old by (simp add: balanced_def)
  qed (use assms(5) b in simp)
qed (use ids assms(4) in simp_all)

lemma book_mono: "book_ok R X E H J C n q T P \<Longrightarrow> E \<subseteq> F \<Longrightarrow> book_ok R X F H J C n q T P"
  unfolding book_ok_def balanced_def sends_in_order_def by blast

section \<open>Entries of the book\<close>

lemma book_account:
  assumes "book_ok R X E H J C n q T P" and "P sid = Some a"
  shows "balanced R X E H C q sid a" and "0 \<le> ac_refs a" and "0 \<le> link_tokens C X sid a"
    and "C x = Some ctx \<Longrightarrow> dcSessionObject ctx = sid \<Longrightarrow> 0 < ac_refs a"
    and "link_tokens C X sid a + 1 \<le> issued C q H sid a \<Longrightarrow> 0 < ac_refs a"
proof -
  show b: "balanced R X E H C q sid a" using assms by (simp add: book_ok_def)
  show l: "0 \<le> link_tokens C X sid a" by (simp add: link_tokens_def)
  show "0 \<le> ac_refs a" "link_tokens C X sid a + 1 \<le> issued C q H sid a \<Longrightarrow> 0 < ac_refs a"
    using b l by (simp_all add: balanced_def issued_def)
  show "0 < ac_refs a" if "C x = Some ctx" "dcSessionObject ctx = sid"
  proof -
    have "x \<in> ctxs_of C sid" using that by (simp add: ctxs_of_def)
    moreover have "finite (ctxs_of C sid)"
      using assms(1) by (intro ctxs_finite(1) [of n]) (simp add: book_ok_def ids_ok_def)
    ultimately have "0 < card (ctxs_of C sid)" using card_gt_0_iff by blast
    then show ?thesis using b l by (simp add: balanced_def issued_def)
  qed
qed

lemma next_free: "book_ok R X E H J C n q T P \<Longrightarrow> C n = None \<and> n \<notin> X \<and> n \<notin> ctxs_of C sid \<and> n \<notin> waiting C X ts sid \<and>
    finite (ctxs_of C sid) \<and> finite (waiting C X ts sid)"
  using ctxs_finite [of n C] by (auto simp: book_ok_def ids_ok_def ctxs_of_def waiting_def)

lemma added_ctx:
  assumes "C n = None" and "n \<notin> X" and "dcSessionObject ctx = sid"
  shows "ctxs_of (C(n \<mapsto> ctx)) sid = insert n (ctxs_of C sid)"
    and "waiting (C(n \<mapsto> ctx)) X ts sid = (if dcIoType ctx \<in> ts then insert n (waiting C X ts sid) else waiting C X ts sid)"
    and "x \<in> waiting C X ts sid \<Longrightarrow> (C(n \<mapsto> ctx)) x = C x"
  using assms by (auto simp: ctxs_of_def waiting_def)

text \<open>A new reference and its context.\<close>

lemma book_new:
  assumes "book_ok R X E H J C n q T P" and "P sid = Some a" and "dcSessionObject ctx = sid" and "dcIoType ctx \<noteq> DIO_NONE"
    and "balanced R X E H (C(n \<mapsto> ctx)) q sid a'"
  shows "book_ok R X E H J (C(n \<mapsto> ctx)) (Suc n) q T (P(sid \<mapsto> a'))"
proof (rule book_step [OF assms(1)])
  show "ids_ok X (C(n \<mapsto> ctx)) (Suc n) (P(sid \<mapsto> a'))"
    using assms(1,3,4) by (auto simp: book_ok_def ids_ok_def less_SucI)
  show "timer_ok J q T" using assms(1) by (simp add: book_ok_def)
  show "(C(n \<mapsto> ctx)) x = Some d \<longleftrightarrow> C x = Some d" if "t \<noteq> sid" "dcSessionObject d = t" for t x d
    using next_free [OF assms(1)] that assms(3) by auto
qed (use assms in simp_all)

lemma book_new_plain:
  assumes "book_ok R X E H J C n q T P" and "P sid = Some a" and "dcSessionObject ctx = sid"
    and "dcIoType ctx \<in> {DIO_RECV, DIO_RECV_ZERO} \<or>
      dcIoType ctx \<in> {DIO_CONNECT, DIO_DISCONNECT} \<and> link_tokens C X sid a + 1 \<le> issued C q H sid a \<and>
      (dcIoType ctx = DIO_CONNECT \<longrightarrow> ac_pending a = 0)"
  shows "book_ok R X E H J (C(n \<mapsto> ctx)) (Suc n) q T (P(sid \<mapsto> a\<lparr>ac_refs := ac_refs a + 1\<rparr>))"
proof (rule book_new [OF assms(1-3)])
  show "dcIoType ctx \<noteq> DIO_NONE" using assms(4) by auto
  note f = next_free [OF assms(1)] and b = book_account(1) [OF assms(1,2)]
  have x: "n \<notin> X" using f by blast
  note ad = added_ctx [of C, OF conjunct1 [OF f] x assms(3)]
  have iss: "issued (C(n \<mapsto> ctx)) q H sid (a\<lparr>ac_refs := ac_refs a + 1\<rparr>) = issued C q H sid a"
    using f by (simp add: issued_def ad(1))
  have lk: "link_tokens (C(n \<mapsto> ctx)) X sid (a\<lparr>ac_refs := ac_refs a + 1\<rparr>) =
      link_tokens C X sid a + (if dcIoType ctx \<in> {DIO_CONNECT, DIO_DISCONNECT} then 1 else 0)"
    using f by (simp add: link_tokens_def ad(2))
  have "sends_in_order X E (C(n \<mapsto> ctx)) sid (a\<lparr>ac_refs := ac_refs a + 1\<rparr>)"
  proof -
    have w: "waiting (C(n \<mapsto> ctx)) X {DIO_SEND} sid = waiting C X {DIO_SEND} sid" using assms(4) ad(2) by auto
    have "ac_pending a = 0" if "waiting (C(n \<mapsto> ctx)) X {DIO_CONNECT} sid \<noteq> {}"
    proof (cases "dcIoType ctx = DIO_CONNECT")
      case False
      with that b show ?thesis by (simp add: ad(2) balanced_def sends_in_order_def)
    qed (use assms(4) in simp)
    moreover have "\<forall>x\<in>waiting C X {DIO_SEND} sid. (C(n \<mapsto> ctx)) x = C x" using ad(3) by blast
    ultimately show ?thesis
      using b unfolding balanced_def sends_in_order_def w by (simp add: offers_def)
  qed
  with b assms(4) show "balanced R X E H (C(n \<mapsto> ctx)) q sid (a\<lparr>ac_refs := ac_refs a + 1\<rparr>)"
    by (auto simp: balanced_def iss lk)
qed

lemma book_new_send:
  assumes "book_ok R X E H J C n q T P" and "P sid = Some a" and "dcSessionObject ctx = sid" and "dcIoType ctx = DIO_SEND"
    and "ac_pending a = 0" and "waiting C X {DIO_CONNECT} sid = {}" and "sid \<notin> R"
    and "dcWsaLen ctx = GetContiguiousBytes (ac_buffer a)" and "dcWsaBuf ctx = GetBufferStart (ac_buffer a)"
  shows "book_ok R X E H J (C(n \<mapsto> ctx)) (Suc n) q T (P(sid \<mapsto> a\<lparr>ac_refs := ac_refs a + 1, ac_pending := 1\<rparr>))"
proof (rule book_new [OF assms(1-3)])
  show "dcIoType ctx \<noteq> DIO_NONE" using assms(4) by simp
  note f = next_free [OF assms(1)] and b = book_account(1) [OF assms(1,2)]
  have x: "n \<notin> X" using f by blast
  note ad = added_ctx [of C, OF conjunct1 [OF f] x assms(3)]
  let ?a = "a\<lparr>ac_refs := ac_refs a + 1, ac_pending := 1\<rparr>"
  have iss: "issued (C(n \<mapsto> ctx)) q H sid ?a = issued C q H sid a" using f by (simp add: issued_def ad(1))
  have lk: "link_tokens (C(n \<mapsto> ctx)) X sid ?a = link_tokens C X sid a" using assms(4) by (simp add: link_tokens_def ad(2))
  have none: "waiting C X {DIO_SEND} sid = {}"
    using b assms(5) by (auto simp: balanced_def sends_in_order_def offers_def)
  have "sends_in_order X E (C(n \<mapsto> ctx)) sid ?a"
    using b assms(4,6,8,9) none unfolding balanced_def sends_in_order_def ad(2) by (simp add: offers_def)
  with b assms(7) show "balanced R X E H (C(n \<mapsto> ctx)) q sid ?a" by (simp add: balanced_def iss lk)
qed

text \<open>A context that its thread is done with.\<close>

lemma book_delete:
  assumes "book_ok R X E H J C n q T P" and "x \<in> X" and "C x = Some ctx" and "dcSessionObject ctx = sid" and "P sid = Some a"
  shows "book_ok R X E H J (C(x := None)) n q T (P(sid \<mapsto> a\<lparr>ac_refs := ac_refs a - 1\<rparr>))"
proof (rule book_step [OF assms(1)])
  let ?a = "a\<lparr>ac_refs := ac_refs a - 1\<rparr>"
  show "ids_ok X (C(x := None)) n (P(sid \<mapsto> ?a))" using assms(1) by (auto simp: book_ok_def ids_ok_def)
  have m: "x \<in> ctxs_of C sid" using assms(3,4) by (simp add: ctxs_of_def)
  have c: "ctxs_of (C(x := None)) sid = ctxs_of C sid - {x}" by (auto simp: ctxs_of_def)
  have w: "waiting (C(x := None)) X ts sid = waiting C X ts sid" for ts using assms(2) by (auto simp: waiting_def)
  have fin: "finite (ctxs_of C sid)" using next_free [OF assms(1)] by blast
  then have "0 < card (ctxs_of C sid)" using m card_gt_0_iff by blast
  then have "issued (C(x := None)) q H sid ?a = issued C q H sid a"
    using m fin by (simp add: issued_def c of_nat_diff)
  moreover have "y \<in> waiting C X ts sid \<Longrightarrow> (C(x := None)) y = C y" for y ts using assms(2) by (auto simp: waiting_def)
  ultimately show "balanced R X E H (C(x := None)) q sid ?a"
    using book_account(1) [OF assms(1,5)] by (auto simp: balanced_def link_tokens_def sends_in_order_def w offers_def)
  show "(C(x := None)) y = Some d \<longleftrightarrow> C y = Some d" if "t \<noteq> sid" "dcSessionObject d = t" for t y d
    using that assms(3,4) by auto
qed (use assms in \<open>simp_all add: book_ok_def\<close>)

lemma book_untake:
  assumes "book_ok R {x} E H J C n q T P" and "C x = None"
  shows "book_ok R {} E H J C n q T P"
proof -
  have "waiting C {} ts t = waiting C {x} ts t" for ts t using assms(2) by (auto simp: waiting_def)
  with assms(1) show ?thesis by (simp add: book_ok_def ids_ok_def balanced_def sends_in_order_def link_tokens_def)
qed

text \<open>A change of one account alone.\<close>

lemma book_update:
  assumes "book_ok R X E H J C n q T P" and "P sid = Some a" and "balanced R X E' H C q sid a'" and "E - {sid} \<subseteq> E'"
  shows "book_ok R X E' H J C n q T (P(sid \<mapsto> a'))"
proof (rule book_step [OF assms(1) _ _ _ assms(3)])
  show "ids_ok X C n (P(sid \<mapsto> a'))" using assms(1) by (auto simp: book_ok_def ids_ok_def)
qed (use assms in \<open>simp_all add: book_ok_def\<close>)

lemma book_off:
  assumes "book_ok R X E H J C n q T P" and "P sid = Some a"
  shows "book_ok R X (E - {sid}) H J C n q T (P(sid \<mapsto> a\<lparr>ac_connected := False\<rparr>))"
    and "ac_connected a \<Longrightarrow> link_tokens C X sid (a\<lparr>ac_connected := False\<rparr>) + 1 \<le> issued C q H sid (a\<lparr>ac_connected := False\<rparr>)"
proof -
  note b = book_account(1) [OF assms]
  show "book_ok R X (E - {sid}) H J C n q T (P(sid \<mapsto> a\<lparr>ac_connected := False\<rparr>))"
    by (rule book_update [OF assms])
      (use b in \<open>auto simp: balanced_def link_tokens_def issued_def sends_in_order_def offers_def split: if_splits\<close>)
  show "link_tokens C X sid (a\<lparr>ac_connected := False\<rparr>) + 1 \<le> issued C q H sid (a\<lparr>ac_connected := False\<rparr>)" if "ac_connected a"
    using b that by (simp add: balanced_def link_tokens_def issued_def)
qed

lemma book_not_connected:
  "book_ok R X E H J C n q T P \<Longrightarrow> P sid = Some a \<Longrightarrow> \<not> ac_connected a \<Longrightarrow> book_ok R X (E - {sid}) H J C n q T P"
  unfolding book_ok_def balanced_def sends_in_order_def by auto

lemma book_on:
  assumes "book_ok R X E H J C n q T P" and "P sid = Some a" and "ac_pending a = 0"
    and "link_tokens C X sid a + 1 \<le> issued C q H sid a"
  shows "\<not> ac_connected a" and "book_ok R X E H J C n q T (P(sid \<mapsto> a\<lparr>ac_connected := True\<rparr>))"
proof -
  note b = book_account(1) [OF assms(1,2)]
  show n: "\<not> ac_connected a" using b assms(4) by (auto simp: balanced_def link_tokens_def)
  show "book_ok R X E H J C n q T (P(sid \<mapsto> a\<lparr>ac_connected := True\<rparr>))"
    by (rule book_update [OF assms(1,2)])
      (use b n assms(3,4) in \<open>auto simp: balanced_def link_tokens_def issued_def sends_in_order_def offers_def\<close>)
qed

lemma connected_settled:
  assumes "book_ok R X E H J C n q T P" and "P sid = Some a" and "ac_connected a"
  shows "waiting C X {DIO_CONNECT} sid = {}" and "sid \<notin> R"
proof -
  note b = book_account(1) [OF assms(1,2)]
  show "sid \<notin> R" using b assms(3) by (auto simp: balanced_def link_tokens_def)
  have fin: "finite (waiting C X {DIO_CONNECT, DIO_DISCONNECT} sid)" using next_free [OF assms(1)] by blast
  have "card (waiting C X {DIO_CONNECT, DIO_DISCONNECT} sid) = 0"
    using b assms(3) by (simp add: balanced_def link_tokens_def)
  then have "waiting C X {DIO_CONNECT, DIO_DISCONNECT} sid = {}" using fin by simp
  then show "waiting C X {DIO_CONNECT} sid = {}" by (auto simp: waiting_def)
qed

lemma book_write:
  assumes "book_ok R X E H J C n q T P" and "P sid = Some a" and "Write d (ac_buffer a) = Ok (r, b)"
  shows "book_ok R X E H J C n q T (P(sid \<mapsto> a\<lparr>ac_buffer := b\<rparr>))"
proof (rule book_update [OF assms(1,2)])
  note bal = book_account(1) [OF assms(1,2)]
  have "cb_inv (ac_buffer a)" using bal by (simp add: balanced_def sends_in_order_def)
  note w = Write_front_stable [OF this assms(3)]
  have "offers ctx a \<Longrightarrow> offers ctx (a\<lparr>ac_buffer := b\<rparr>)" for ctx using w(3,4) by (auto simp: offers_def)
  then show "balanced R X E H C q sid (a\<lparr>ac_buffer := b\<rparr>)"
    using bal w(1) by (auto simp: balanced_def link_tokens_def issued_def sends_in_order_def)
qed simp

lemma book_sent:
  assumes "book_ok R X E H J C n q T P" and "P sid = Some a" and "cb_inv b" and "waiting C X {DIO_SEND} sid = {}"
  shows "book_ok R X (E - {sid}) H J C n q T (P(sid \<mapsto> a\<lparr>ac_buffer := b, ac_pending := 0\<rparr>))"
  by (rule book_update [OF assms(1,2)])
    (use book_account(1) [OF assms(1,2)] assms(3,4) in
      \<open>auto simp: balanced_def link_tokens_def issued_def sends_in_order_def\<close>)

lemma book_release:
  assumes "book_ok R X E H J C n q T P" and "P sid = Some a" and "link_tokens C X sid a + 1 \<le> issued C q H sid a"
  shows "book_ok R X E H J C n q T (P(sid \<mapsto> a\<lparr>ac_refs := ac_refs a - 1\<rparr>))"
proof (rule book_update [OF assms(1,2)])
  note b = book_account(1) [OF assms(1,2)]
  let ?a = "a\<lparr>ac_refs := ac_refs a - 1\<rparr>"
  have "issued C q H sid ?a = issued C q H sid a - 1" "link_tokens C X sid ?a = link_tokens C X sid a"
    by (simp_all add: issued_def link_tokens_def)
  moreover have "sends_in_order X E C sid ?a" using b by (simp add: balanced_def sends_in_order_def offers_def)
  moreover have "sid \<notin> R" using b assms(3) book_account(3) [OF assms(1,2)] by (auto simp: balanced_def)
  ultimately show "balanced R X E H C q sid ?a" using b assms(3) by (simp add: balanced_def)
qed simp

lemma timed_push: "timed (pq_push j q) sid = timed q sid + (if mTask j = sid then 1 else 0)"
  by (induction q) (simp_all add: timed_def)

lemma timed_pop: "pq_top q = Some j \<Longrightarrow> timed q sid = timed (pq_pop q) sid + (if mTask j = sid then 1 else 0)"
  by (cases q) (simp_all add: timed_def pq_top_def pq_pop_def)

lemma book_push:
  assumes "book_ok R X E H J C n q T P" and "P sid = Some a" and "mTask j = sid" and "T \<le> mExecutionTick j"
  shows "book_ok R X E H J C n (pq_push j q) T (P(sid \<mapsto> a\<lparr>ac_refs := ac_refs a + 1\<rparr>))"
proof (rule book_step [OF assms(1)])
  show "ids_ok X C n (P(sid \<mapsto> a\<lparr>ac_refs := ac_refs a + 1\<rparr>))" using assms(1) by (auto simp: book_ok_def ids_ok_def)
  show "timer_ok J (pq_push j q) T"
    using assms(1,4) pq.push_keeps_top [of q _ j] by (auto simp: book_ok_def timer_ok_def pq_push_inv)
  show "balanced R X E H C (pq_push j q) sid (a\<lparr>ac_refs := ac_refs a + 1\<rparr>)"
    using book_account(1) [OF assms(1,2)] assms(3)
    by (auto simp: balanced_def link_tokens_def issued_def sends_in_order_def offers_def timed_push)
qed (use assms in \<open>simp_all add: timed_push\<close>)

text \<open>The reference of a running task, and what is left when it is done.\<close>

lemma book_hold:
  assumes "book_ok R X E H J C n q T P" and "P sid = Some a"
  shows "book_ok R X E (H(sid := H sid + 1)) J C n q T (P(sid \<mapsto> a\<lparr>ac_refs := ac_refs a + 1\<rparr>))"
proof (rule book_step [OF assms(1)])
  show "ids_ok X C n (P(sid \<mapsto> a\<lparr>ac_refs := ac_refs a + 1\<rparr>))" using assms(1) by (auto simp: book_ok_def ids_ok_def)
  show "balanced R X E (H(sid := H sid + 1)) C q sid (a\<lparr>ac_refs := ac_refs a + 1\<rparr>)"
    using book_account(1) [OF assms(1,2)]
    by (auto simp: balanced_def link_tokens_def issued_def sends_in_order_def offers_def)
qed (use assms in \<open>simp_all add: book_ok_def\<close>)

lemma book_done:
  assumes "book_ok R X E (H(sid := H sid + 1)) (Some j, N) C n q T P" and "P sid = Some a" and "mTask j = sid"
  shows "book_ok R X E H (None, N) C n (pq_pop q) T (P(sid \<mapsto> a\<lparr>ac_refs := ac_refs a - 2\<rparr>))"
proof (rule book_step [OF assms(1)])
  have top: "pq_top q = Some j" "pq_inv q" using assms(1) by (simp_all add: book_ok_def timer_ok_def)
  note tp = timed_pop [OF top(1)]
  show "ids_ok X C n (P(sid \<mapsto> a\<lparr>ac_refs := ac_refs a - 2\<rparr>))" using assms(1) by (auto simp: book_ok_def ids_ok_def)
  show "timer_ok (None, N) (pq_pop q) T"
    using pq.pop_inv [OF top(2)] assms(1) by (simp add: timer_ok_def book_ok_def)
  show "balanced R X E H C (pq_pop q) sid (a\<lparr>ac_refs := ac_refs a - 2\<rparr>)"
    using book_account(1) [OF assms(1,2)] tp [of sid] assms(3)
    by (auto simp: balanced_def link_tokens_def issued_def sends_in_order_def offers_def)
  show "timed (pq_pop q) t + H t = timed q t + (H(sid := H sid + 1)) t" if "t \<noteq> sid" for t
    using that tp [of t] assms(3) by simp
qed (use assms in simp_all)

lemma book_start: "book_ok R X E H (K, N) C n q T P \<Longrightarrow> pq_top q = Some j \<Longrightarrow> mExecutionTick j \<le> T \<Longrightarrow>
  book_ok R X E H (Some j, N) C n q T P"
  by (simp add: book_ok_def timer_ok_def)

lemma book_skip: "book_ok R X E H J C n q T P \<Longrightarrow> book_ok R X E H J C (Suc n) q T P"
  by (auto simp: book_ok_def ids_ok_def less_SucI)

section \<open>The book of a state\<close>

definition accounts :: "'w load_client \<Rightarrow> nat \<Rightarrow> account option" where
  "accounts s sid = map_option account_of (dsessions s sid)"

definition d_ok ::
  "nat set \<Rightarrow> nat set \<Rightarrow> nat set \<Rightarrow> (nat \<Rightarrow> nat) \<Rightarrow> timer_pass \<Rightarrow> 'w load_client \<Rightarrow> bool" where
  "d_ok R X E H J s = book_ok R X E H J (dcontexts s) (dnext_context s) (timer_jobs s) (dLTickCount s) (accounts s)"

lemma accounts_upd: "accounts (upd_dsession sid f s) = (accounts s)(sid := map_option (\<lambda>c. account_of (f c)) (dsessions s sid))"
  by (auto simp: accounts_def upd_dsession_def option.map_comp comp_def fun_eq_iff)

lemma accounts_some: "dsessions s sid = Some c \<Longrightarrow> accounts s sid = Some (account_of c)"
  by (simp add: accounts_def)

lemma upd_dsession_rest [simp]:
  "dcontexts (upd_dsession sid f s) = dcontexts s" "dnext_context (upd_dsession sid f s) = dnext_context s"
  "timer_jobs (upd_dsession sid f s) = timer_jobs s" "dLTickCount (upd_dsession sid f s) = dLTickCount s"
  "dLTimer (upd_dsession sid f s) = dLTimer s" "dworld (upd_dsession sid f s) = dworld s"
  "dsessions (upd_dsession sid f s) sid = map_option f (dsessions s sid)"
  by (simp_all add: upd_dsession_def timer_jobs_def)

text \<open>What the book does not see.\<close>

definition unseen :: "'w load_client \<Rightarrow> 'w load_client \<Rightarrow> bool" where
  "unseen s s' \<longleftrightarrow> dcontexts s' = dcontexts s \<and> dnext_context s' = dnext_context s \<and> timer_jobs s' = timer_jobs s \<and>
     dLTickCount s' = dLTickCount s \<and> accounts s' = accounts s"

lemma d_ok_unseen: "unseen s s' \<Longrightarrow> d_ok R X E H J s' = d_ok R X E H J s"
  by (simp add: unseen_def d_ok_def)

lemma d_ok_fields [simp]:
  "d_ok R X E H J (s\<lparr>dworld := w\<rparr>) = d_ok R X E H J s" "d_ok R X E H J (s\<lparr>dlog := l\<rparr>) = d_ok R X E H J s"
  "d_ok R X E H J (s\<lparr>devents := v\<rparr>) = d_ok R X E H J s" "d_ok R X E H J (s\<lparr>dgames := g\<rparr>) = d_ok R X E H J s"
  by (auto intro!: d_ok_unseen simp: unseen_def timer_jobs_def accounts_def fun_eq_iff)

lemma d_ok_do [simp]: "d_ok R X E H J (snd (dsys_do e k s)) = d_ok R X E H J s" "d_ok R X E H J (snd (drand_do e s)) = d_ok R X E H J s"
  by (simp_all add: dsys_do_def drand_do_def split: prod.splits)

lemma accounts_same: "(\<And>c. account_of (f c) = account_of c) \<Longrightarrow> accounts (upd_dsession sid f s) = accounts s"
  by (auto simp: accounts_upd fun_eq_iff accounts_def)

lemma d_ok_upd_unseen: "(\<And>c. account_of (f c) = account_of c) \<Longrightarrow> d_ok R X E H J (upd_dsession sid f s) = d_ok R X E H J s"
  by (rule d_ok_unseen) (simp add: unseen_def accounts_same)

lemma keeping_with: "(\<And>c. dsessions s sid = Some c \<Longrightarrow> keeping Q (f c)) \<Longrightarrow> keeping Q (with_dsession sid s f)"
  by (simp add: with_dsession_def split: option.splits)

named_theorems balances \<open>operations of the load clients that keep the book in balance\<close>

lemma dprint_balances [balances]: "d_ok R X E H J s \<Longrightarrow> keeping (d_ok R X E H J) (dprint t s)"
  by (simp add: dprint_def dummy_PrintOut_def)

lemma dprint_error_balances [balances]: "d_ok R X E H J s \<Longrightarrow> keeping (d_ok R X E H J) (dprint_error e t s)"
  unfolding dprint_error_def by (rule dprint_balances)

lemma d_ok_wider: "d_ok R X E H J s \<Longrightarrow> E \<subseteq> F \<Longrightarrow> d_ok R X F H J s"
  unfolding d_ok_def by (rule book_mono)

lemma strcpy_s_crash: "keeping (\<lambda>_. True) (strcpy_s dst t)"
  by (simp add: strcpy_s_def)

section \<open>Contexts\<close>

abbreviation more_refs :: "int \<Rightarrow> nat \<Rightarrow> 'w load_client \<Rightarrow> 'w load_client" where
  "more_refs n sid s \<equiv> upd_dsession sid (\<lambda>c. c\<lparr>dsRefCount := dsRefCount c + n\<rparr>) s"

definition with_context :: "DummyContext \<Rightarrow> 'w load_client \<Rightarrow> 'w load_client" where
  "with_context ctx s = (more_refs 1 (dcSessionObject ctx) s)
     \<lparr>dcontexts := (dcontexts s)(dnext_context s \<mapsto> ctx), dnext_context := Suc (dnext_context s)\<rparr>"

lemma account_refs: "account_of (c\<lparr>dsRefCount := n\<rparr>) = (account_of c)\<lparr>ac_refs := n\<rparr>"
  by (simp add: account_of_def)

lemma account_sel [simp]:
  "ac_refs (account_of c) = dsRefCount c" "ac_connected (account_of c) = dsConnected c"
  "ac_pending (account_of c) = dsSendRequestedCount c" "ac_buffer (account_of c) = dsSendBuffer c"
  by (simp_all add: account_of_def)

lemma with_context_sel:
  assumes "dsessions s sid = Some c" and "dcSessionObject ctx = sid"
  shows "dcontexts (with_context ctx s) = (dcontexts s)(dnext_context s \<mapsto> ctx)"
    and "dnext_context (with_context ctx s) = Suc (dnext_context s)"
    and "timer_jobs (with_context ctx s) = timer_jobs s" and "dLTickCount (with_context ctx s) = dLTickCount s"
    and "accounts (with_context ctx s) = (accounts s)(sid \<mapsto> (account_of c)\<lparr>ac_refs := dsRefCount c + 1\<rparr>)"
    and "dsessions (with_context ctx s) sid = Some (c\<lparr>dsRefCount := dsRefCount c + 1\<rparr>)"
    and "dworld (with_context ctx s) = dworld s"
  using assms accounts_upd [of sid "\<lambda>c. c\<lparr>dsRefCount := dsRefCount c + 1\<rparr>" s]
  by (simp_all add: with_context_def timer_jobs_def account_refs accounts_def fun_eq_iff)

lemma new_dcontext_run:
  assumes "d_ok R X E H J s" and "dsessions s (dcSessionObject ctx) = Some c"
  shows "new_dcontext ctx s = Ok (dnext_context s, with_context ctx s)"
proof -
  have "0 \<le> dsRefCount c"
    using book_account(2) [OF assms(1) [unfolded d_ok_def] accounts_some [OF assms(2)]] by simp
  then show ?thesis
    using assms(2) by (simp add: new_dcontext_def DS_AddRef_def with_dsession_def with_context_def)
qed

text \<open>A call that fails to start leaves the state as it was.\<close>

lemma undo_context:
  assumes "d_ok R X E H J s" and "dsessions s sid = Some c" and "dcSessionObject ctx = sid" and "dcIoType ctx \<noteq> DIO_NONE"
  shows "\<exists>s'. DeleteDummyContext (Some (dnext_context s)) ((with_context ctx s)\<lparr>dworld := w\<rparr>) = Ok s' \<and>
    d_ok R X E H J s' \<and> dsessions s' = dsessions s"
proof -
  note ws = with_context_sel [OF assms(2,3)]
  let ?t = "(with_context ctx s)\<lparr>dworld := w\<rparr>"
  let ?s' = "(more_refs (- 1) sid ?t)\<lparr>dcontexts := (dcontexts ?t)(dnext_context s := None)\<rparr>"
  have "0 \<le> dsRefCount c"
    using book_account(2) [OF assms(1) [unfolded d_ok_def] accounts_some [OF assms(2)]] by simp
  then have run: "DeleteDummyContext (Some (dnext_context s)) ?t = Ok ?s'"
    using ws assms(3,4) by (simp add: DeleteDummyContext_def DS_ReleaseRef_def with_dsession_def Let_def)
  have ss: "dsessions ?s' = dsessions s"
    using assms(2,3) by (auto simp: with_context_def upd_dsession_def fun_eq_iff)
  have free: "dcontexts s (dnext_context s) = None"
    using next_free [OF assms(1) [unfolded d_ok_def]] by blast
  have "d_ok R X E H J ?s'"
  proof -
    have "dcontexts ?s' = dcontexts s" using ws(1) free by (auto simp: fun_eq_iff)
    moreover have "accounts ?s' = accounts s" using ss by (simp add: accounts_def fun_eq_iff)
    moreover have "timer_jobs ?s' = timer_jobs s" using ws(3) by (simp add: timer_jobs_def upd_dsession_def)
    moreover have "dnext_context ?s' = Suc (dnext_context s)" "dLTickCount ?s' = dLTickCount s" using ws by simp_all
    ultimately show ?thesis
      unfolding d_ok_def using book_skip [OF assms(1) [unfolded d_ok_def]] by (simp only:)
  qed
  with run ss show ?thesis by blast
qed

definition link_free :: "nat set \<Rightarrow> (nat \<Rightarrow> nat) \<Rightarrow> nat \<Rightarrow> 'w load_client \<Rightarrow> bool" where
  "link_free X H sid s \<longleftrightarrow> (\<forall>a. accounts s sid = Some a \<longrightarrow>
     link_tokens (dcontexts s) X sid a + 1 \<le> issued (dcontexts s) (timer_jobs s) H sid a)"

lemma with_context_keeps:
  assumes "d_ok R X E H J s" and "dsessions s sid = Some c" and "dcSessionObject ctx = sid"
    and "dcIoType ctx \<in> {DIO_RECV, DIO_RECV_ZERO} \<or> dcIoType ctx \<in> {DIO_CONNECT, DIO_DISCONNECT} \<and> link_free X H sid s \<and>
      (dcIoType ctx = DIO_CONNECT \<longrightarrow> dsSendRequestedCount c = 0)"
  shows "d_ok R X E H J ((with_context ctx s)\<lparr>dworld := w\<rparr>)"
proof -
  note a = accounts_some [OF assms(2)]
  have "book_ok R X E H J ((dcontexts s)(dnext_context s \<mapsto> ctx)) (Suc (dnext_context s)) (timer_jobs s) (dLTickCount s)
      ((accounts s)(sid \<mapsto> (account_of c)\<lparr>ac_refs := ac_refs (account_of c) + 1\<rparr>))"
    by (rule book_new_plain [OF assms(1) [unfolded d_ok_def] a assms(3)])
      (use assms(4) a in \<open>auto simp: link_free_def\<close>)
  then show ?thesis by (simp add: d_ok_def [of _ _ _ _ _ "with_context ctx s"] with_context_sel [OF assms(2,3)])
qed

section \<open>The operations of a session\<close>

lemma disconnect_balances [balances]:
  assumes ok: "d_ok R X E H J s"
  shows "keeping (d_ok R X (E - {sid}) H J) (DS_DisconnectRequest e sid dr s)"
  unfolding DS_DisconnectRequest_def
proof (rule keeping_with)
  fix c assume c: "dsessions s sid = Some c"
  note a = accounts_some [OF c]
  show "keeping (d_ok R X (E - {sid}) H J) (if \<not> dsConnected c then Ok s
       else bnd (new_dcontext ((dcontext sid DIO_DISCONNECT)\<lparr>dcDisconnectReason := dr\<rparr>)
                   (upd_dsession sid (\<lambda>c. c\<lparr>dsConnected := False\<rparr>) s)) (\<lambda>(context, s1).
            case ddisconnect e (dsSocket c) (dworld s1) of (r, w) \<Rightarrow>
            let s2 = s1\<lparr>dworld := w\<rparr>
            in case r of IoStarted \<Rightarrow> Ok s2
               | IoFailed \<Rightarrow> bnd (DeleteDummyContext (Some context) s2)
                               (dprint_error e ''Session::DisconnectRequest Error : '')))"
  proof (cases "dsConnected c")
    case False
    then have "d_ok R X (E - {sid}) H J s" using book_not_connected [OF ok [unfolded d_ok_def] a] by (simp add: d_ok_def)
    with False show ?thesis by simp
  next
    case True
    let ?s = "upd_dsession sid (\<lambda>c. c\<lparr>dsConnected := False\<rparr>) s"
    let ?ctx = "(dcontext sid DIO_DISCONNECT)\<lparr>dcDisconnectReason := dr\<rparr>"
    have acc: "accounts ?s = (accounts s)(sid \<mapsto> (account_of c)\<lparr>ac_connected := False\<rparr>)"
      using c by (simp add: accounts_upd account_of_def)
    note off = book_off [OF ok [unfolded d_ok_def] a]
    have s: "d_ok R X (E - {sid}) H J ?s" "dsessions ?s sid = Some (c\<lparr>dsConnected := False\<rparr>)"
      using off(1) c by (simp_all add: d_ok_def acc)
    have lf: "link_free X H sid ?s" using off(2) True by (simp add: link_free_def acc)
    have ctx: "dcSessionObject ?ctx = sid" "dcIoType ?ctx = DIO_DISCONNECT" by (simp_all add: dcontext_def)
    have new: "new_dcontext ?ctx ?s = Ok (dnext_context ?s, with_context ?ctx ?s)"
      by (rule new_dcontext_run [OF s(1)]) (simp add: ctx c)
    have fine: "d_ok R X (E - {sid}) H J ((with_context ?ctx ?s)\<lparr>dworld := w\<rparr>)" for w
      by (rule with_context_keeps [OF s ctx(1)]) (use ctx lf in simp)
    have undo: "\<exists>s'. DeleteDummyContext (Some (dnext_context ?s)) ((with_context ?ctx ?s)\<lparr>dworld := w\<rparr>) = Ok s' \<and>
        d_ok R X (E - {sid}) H J s'" for w
      using undo_context [OF s ctx(1)] ctx(2) by auto
    obtain r w where r: "ddisconnect e (dsSocket c) (dworld (with_context ?ctx ?s)) = (r, w)" by force
    from undo [of w] fine [of w] True r show ?thesis
      by (cases r) (auto simp: new Let_def simp del: upd_dsession_rest intro: dprint_error_balances)
  qed
qed

lemma disconnect_balances' [balances]: "d_ok R X E H J s \<Longrightarrow> keeping (d_ok R X E H J) (DS_DisconnectRequest e sid dr s)"
  using keeping_weaken [OF disconnect_balances] d_ok_wider by blast

text \<open>The two receives.\<close>

lemma start_receive:
  assumes ok: "d_ok R X E H J s" and c: "dsessions s sid = Some c"
    and ctx: "dcSessionObject ctx = sid" "dcIoType ctx \<in> {DIO_RECV, DIO_RECV_ZERO}"
  shows "keeping (\<lambda>(r, s'). d_ok R X E H J s') (bnd (new_dcontext ctx s) (\<lambda>(recvContext, s1).
      case drecv e sock len (dworld s1) of (r, w) \<Rightarrow>
      let s2 = s1\<lparr>dworld := w\<rparr>
      in case r of IoStarted \<Rightarrow> Ok (True, s2)
         | IoFailed \<Rightarrow> bnd (DeleteDummyContext (Some recvContext) s2) (\<lambda>s3.
             bnd (dprint_error e t s3) (\<lambda>s4. Ok (False, s4)))))"
proof -
  have new: "new_dcontext ctx s = Ok (dnext_context s, with_context ctx s)"
    by (rule new_dcontext_run [OF ok]) (simp add: ctx c)
  have fine: "d_ok R X E H J ((with_context ctx s)\<lparr>dworld := w\<rparr>)" for w
    by (rule with_context_keeps [OF ok c ctx(1)]) (use ctx in simp)
  have undo: "\<exists>s'. DeleteDummyContext (Some (dnext_context s)) ((with_context ctx s)\<lparr>dworld := w\<rparr>) = Ok s' \<and> d_ok R X E H J s'" for w
    using undo_context [OF ok c ctx(1), of w] ctx(2) by (elim disjE insertE) fastforce+
  obtain r w where r: "drecv e sock len (dworld (with_context ctx s)) = (r, w)" by force
  have pr: "keeping (\<lambda>(r, s'). d_ok R X E H J s') (bnd (dprint_error e t s') (\<lambda>s4. Ok (False, s4)))" if "d_ok R X E H J s'" for s'
    by (rule keeping_bnd [OF dprint_error_balances [OF that]]) simp
  from undo [of w] fine [of w] r show ?thesis
    by (cases r) (auto simp: new Let_def intro: pr)
qed

lemma pre_recv_balances [balances]: "d_ok R X E H J s \<Longrightarrow> keeping (\<lambda>(r, s'). d_ok R X E H J s') (DS_PreRecv e sid s)"
  unfolding DS_PreRecv_def
  by (rule keeping_with) (auto intro!: start_receive simp: dcontext_def)

lemma post_recv_balances [balances]:
  assumes "d_ok R X E H J s"
  shows "keeping (\<lambda>(r, s'). d_ok R X E H J s') (DS_PostRecv e sid s)"
  unfolding DS_PostRecv_def
proof (rule keeping_with)
  fix c assume c: "dsessions s sid = Some c"
  obtain free b where f1: "GetFreeSpaceSize (dsRecvBuffer c) = (free, b)" by force
  obtain len b' where f2: "GetFreeSpaceSize b = (len, b')" by force
  define s0 where "s0 = upd_dsession sid (\<lambda>c. c\<lparr>dsRecvBuffer := b\<rparr>) s"
  define s1 where "s1 = upd_dsession sid (\<lambda>c. c\<lparr>dsRecvBuffer := b'\<rparr>) s0"
  have u: "d_ok R X E H J (upd_dsession sid (\<lambda>c. c\<lparr>dsRecvBuffer := b\<rparr>) s) = d_ok R X E H J s" for b and s :: "'a load_client"
    by (rule d_ok_upd_unseen) (simp add: account_of_def)
  have ok: "d_ok R X E H J s0" "d_ok R X E H J s1" using assms by (simp_all add: s0_def s1_def u)
  have c1: "dsessions s1 sid = Some (c\<lparr>dsRecvBuffer := b'\<rparr>)" using c by (simp add: s0_def s1_def)
  let ?ctx = "(dcontext sid DIO_RECV)\<lparr>dcWsaLen := len, dcWsaBuf := Some (GetBuffer b')\<rparr>"
  have ctx: "dcSessionObject ?ctx = sid" "dcIoType ?ctx \<in> {DIO_RECV, DIO_RECV_ZERO}" by (simp_all add: dcontext_def)
  note start = start_receive [where e = e and sock = "dsSocket c" and len = len and t = "''Session::PostRecv Error : ''", OF ok(2) c1 ctx]
  show "keeping (\<lambda>(r, s'). d_ok R X E H J s')
     (if \<not> dsConnected c then Ok (False, s)
       else case GetFreeSpaceSize (dsRecvBuffer c) of (free, b) \<Rightarrow>
       let s0 = upd_dsession sid (\<lambda>c. c\<lparr>dsRecvBuffer := b\<rparr>) s
       in if free = 0 then Ok (False, s0)
       else case GetFreeSpaceSize b of (len, b') \<Rightarrow>
       bnd (new_dcontext ((dcontext sid DIO_RECV)\<lparr>dcWsaLen := len, dcWsaBuf := Some (GetBuffer b')\<rparr>)
              (upd_dsession sid (\<lambda>c. c\<lparr>dsRecvBuffer := b'\<rparr>) s0)) (\<lambda>(recvContext, s1).
       case drecv e (dsSocket c) len (dworld s1) of (r, w) \<Rightarrow>
       let s2 = s1\<lparr>dworld := w\<rparr>
       in case r of IoStarted \<Rightarrow> Ok (True, s2)
          | IoFailed \<Rightarrow> bnd (DeleteDummyContext (Some recvContext) s2) (\<lambda>s3.
              bnd (dprint_error e ''Session::PostRecv Error : '' s3) (\<lambda>s4. Ok (False, s4)))))"
    using assms ok(1) start unfolding f1 f2 prod.case Let_def s0_def [symmetric] s1_def [symmetric] by simp
qed

text \<open>The sends.\<close>

lemma keeping_snd: "keeping (\<lambda>(r, s'). Q s') m \<Longrightarrow> keeping Q (bnd m (\<lambda>(_, s'). Ok s'))"
  by (rule keeping_bnd [where P = "\<lambda>(r, s'). Q s'"]) auto

lemma flush_balances:
  assumes ok: "d_ok R X E H J s" and c: "dsessions s sid = Some c" and p: "dsSendRequestedCount c = 0"
    and settled: "waiting (dcontexts s) X {DIO_CONNECT} sid = {}" "sid \<notin> R"
  shows "keeping (\<lambda>(r, s'). d_ok R X E H J s') (DS_FlushSend e sid s)"
proof -
  note a = accounts_some [OF c]
  let ?b = "dsSendBuffer c"
  let ?ctx = "(dcontext sid DIO_SEND)\<lparr>dcWsaLen := GetContiguiousBytes ?b, dcWsaBuf := GetBufferStart ?b\<rparr>"
  have ctx: "dcSessionObject ?ctx = sid" "dcIoType ?ctx = DIO_SEND" "dcWsaLen ?ctx = GetContiguiousBytes ?b"
    "dcWsaBuf ?ctx = GetBufferStart ?b" by (simp_all add: dcontext_def)
  have inv: "cb_inv ?b"
    using book_account(1) [OF ok [unfolded d_ok_def] a] by (simp add: balanced_def sends_in_order_def)
  note fr = contiguous_spec(3) [OF inv order_refl]
  have new: "new_dcontext ?ctx s = Ok (dnext_context s, with_context ?ctx s)"
    by (rule new_dcontext_run [OF ok]) (simp add: ctx c)
  have fine: "d_ok R X E H J (upd_dsession sid (\<lambda>c. c\<lparr>dsSendRequestedCount := dsSendRequestedCount c + 1\<rparr>)
      ((with_context ?ctx s)\<lparr>dworld := w\<rparr>))" for w
  proof -
    let ?t = "(with_context ?ctx s)\<lparr>dworld := w\<rparr>"
    note ws = with_context_sel [OF c ctx(1)]
    have tj: "timer_jobs ?t = timer_jobs s" using ws(3) by (simp add: timer_jobs_def)
    have acc: "accounts (upd_dsession sid (\<lambda>c. c\<lparr>dsSendRequestedCount := dsSendRequestedCount c + 1\<rparr>) ?t) =
        (accounts s)(sid \<mapsto> (account_of c)\<lparr>ac_refs := ac_refs (account_of c) + 1, ac_pending := 1\<rparr>)"
    proof -
      have "accounts ?t = accounts (with_context ?ctx s)" by (simp add: accounts_def fun_eq_iff)
      then show ?thesis using ws(5,6) p by (simp add: accounts_upd account_of_def)
    qed
    from book_new_send [OF ok [unfolded d_ok_def] a ctx(1,2) _ settled] p ctx(3,4)
    show ?thesis by (simp add: d_ok_def acc tj ws(1,2,4) del: ctx)
  qed
  have undo: "\<exists>s'. DeleteDummyContext (Some (dnext_context s)) ((with_context ?ctx s)\<lparr>dworld := w\<rparr>) = Ok s' \<and> d_ok R X E H J s'" for w
    using undo_context [OF ok c ctx(1), of w] ctx(2) by auto
  have rest: "keeping (\<lambda>(r, s'). d_ok R X E H J s') (bnd (dprint_error e t s3) (\<lambda>s4.
      bnd (DS_DisconnectRequest e sid DDR_IO_REQUEST_ERROR s4) (\<lambda>s5. Ok (False, s5))))" if "d_ok R X E H J s3" for s3 t
    by (rule keeping_bnd [OF dprint_error_balances [OF that]], rule keeping_bnd [OF disconnect_balances']) simp_all
  obtain r w where r: "dsend e (dsSocket c) (take (GetContiguiousBytes ?b) (contents ?b)) (dworld (with_context ?ctx s)) = (r, w)"
    by force
  from undo [of w] fine [of w] r show ?thesis
    unfolding DS_FlushSend_def with_dsession_def c option.case Let_def fr bnd.simps new prod.case
    by (cases r) (auto intro: rest)
qed

lemma post_send_balances [balances]:
  assumes ok: "d_ok R X E H J s"
  shows "keeping (\<lambda>(r, s'). d_ok R X E H J s') (DS_PostSend e sid data s)"
  unfolding DS_PostSend_def
proof (rule keeping_with)
  fix c assume c: "dsessions s sid = Some c"
  note a = accounts_some [OF c]
  have inv: "cb_inv (dsSendBuffer c)" "dsSendRequestedCount c \<in> {0, 1}"
    using book_account(1) [OF ok [unfolded d_ok_def] a] by (simp_all add: balanced_def sends_in_order_def)
  obtain q b where b: "Write data (dsSendBuffer c) = Ok (q, b)"
    using Write_ok [OF inv(1), of data] Write_full [OF inv(1), of data] by (cases "length data \<le> room (dsSendBuffer c)") auto
  let ?s1 = "upd_dsession sid (\<lambda>c. c\<lparr>dsSendBuffer := b\<rparr>) s"
  have acc: "accounts ?s1 = (accounts s)(sid \<mapsto> (account_of c)\<lparr>ac_buffer := b\<rparr>)"
    using c by (simp add: accounts_upd account_of_def)
  have "d_ok R X E H J ?s1"
    using book_write [OF ok [unfolded d_ok_def] a, of data q b] b by (simp add: d_ok_def acc)
  moreover have "dsessions ?s1 sid = Some (c\<lparr>dsSendBuffer := b\<rparr>)" using c by simp
  moreover have "waiting (dcontexts ?s1) X {DIO_CONNECT} sid = {}" if "dsConnected c"
    using connected_settled(1) [OF ok [unfolded d_ok_def] a] that by simp
  moreover have "sid \<notin> R" if "dsConnected c" using connected_settled(2) [OF ok [unfolded d_ok_def] a] that by simp
  ultimately have "keeping (\<lambda>(r, s'). d_ok R X E H J s') (DS_FlushSend e sid ?s1)" if "dsConnected c" "dsSendRequestedCount c = 0"
    using that by (intro flush_balances [where c = "c\<lparr>dsSendBuffer := b\<rparr>"]) simp_all
  with \<open>d_ok R X E H J ?s1\<close> show "keeping (\<lambda>(r, s'). d_ok R X E H J s') (if \<not> dsConnected c then Ok (False, s)
       else bnd (Write data (dsSendBuffer c)) (\<lambda>(ok, b).
            let s1 = upd_dsession sid (\<lambda>c. c\<lparr>dsSendBuffer := b\<rparr>) s
            in if \<not> ok then Ok (False, s1)
               else if dsSendRequestedCount c > 0 then Ok (True, s1)
               else DS_FlushSend e sid s1))"
    using ok inv(2) by (auto simp: b Let_def)
qed

lemma send_completion_balances:
  assumes ok: "d_ok R X {sid} H J s" and c: "dsessions s sid = Some c" and p: "dsSendRequestedCount c = 1"
    and none: "waiting (dcontexts s) X {DIO_SEND} sid = {}" "waiting (dcontexts s) X {DIO_CONNECT} sid = {}"
  shows "keeping (d_ok R X {} H J) (DS_SendCompletion e sid n s)"
proof -
  note a = accounts_some [OF c]
  have inv: "cb_inv (dsSendBuffer c)"
    using book_account(1) [OF ok [unfolded d_ok_def] a] by (simp add: balanced_def sends_in_order_def)
  obtain b where b: "Remove n (dsSendBuffer c) = Ok b" "cb_inv b" using Remove_spec [OF inv] by blast
  have R: "sid \<notin> R" using book_account(1) [OF ok [unfolded d_ok_def] a] p by (simp add: balanced_def)
  let ?s1 = "upd_dsession sid (\<lambda>c. c\<lparr>dsSendBuffer := b, dsSendRequestedCount := dsSendRequestedCount c - 1\<rparr>) s"
  have acc: "accounts ?s1 = (accounts s)(sid \<mapsto> (account_of c)\<lparr>ac_buffer := b, ac_pending := 0\<rparr>)"
    using c p by (simp add: accounts_upd account_of_def)
  have ok1: "d_ok R X {} H J ?s1"
    using book_sent [OF ok [unfolded d_ok_def] a b(2) none(1)] by (simp add: d_ok_def acc)
  have "keeping (\<lambda>(r, s'). d_ok R X {} H J s') (DS_FlushSend e sid ?s1)"
    by (rule flush_balances [OF ok1, of _ "c\<lparr>dsSendBuffer := b, dsSendRequestedCount := 0\<rparr>"]) (use c p none R in simp_all)
  from keeping_snd [OF this] ok1 show ?thesis
    by (simp add: DS_SendCompletion_def with_dsession_def c p b(1) Let_def)
qed

end
