(* ===== verification/DummyWorkers.thy ===== *)
theory DummyWorkers
  imports DummyRefs
begin

text \<open>
  The worker threads of the load clients: every completion that a thread handles and every pass of a
  thread's timer keeps the book of references in balance, whatever the other threads' timers hold.
\<close>

section \<open>Players\<close>

lemma d_ok_player_fields [simp]:
  "d_ok R X E H J (upd_dsession sid (\<lambda>c. c\<lparr>dpPlayTestCount := n\<rparr>) s) = d_ok R X E H J s"
  "d_ok R X E H J (upd_dsession sid (\<lambda>c. c\<lparr>dpMoveStep := f c, dpCurrDir := g c\<rparr>) s) = d_ok R X E H J s"
  "d_ok R X E H J (upd_dsession sid (\<lambda>c. c\<lparr>dpMoveStep := f c\<rparr>) s) = d_ok R X E H J s"
  "d_ok R X E H J (upd_dsession sid (\<lambda>c. c\<lparr>dpPosX := x, dpPosY := y, dpCurrDir := d\<rparr>) s) = d_ok R X E H J s"
  "d_ok R X E H J (upd_dsession sid (\<lambda>c. c\<lparr>dpPosX := u c, dpPosY := v c\<rparr>) s) = d_ok R X E H J s"
  "d_ok R X E H J (upd_dsession sid (\<lambda>c. c\<lparr>dsRecvBuffer := h c\<rparr>) s) = d_ok R X E H J s"
  "d_ok R X E H J (upd_dsession sid (\<lambda>c. c\<lparr>dpConnectAddr := a\<rparr>) s) = d_ok R X E H J s"
  "d_ok R X E H J (upd_dsession sid (\<lambda>c. c\<lparr>dpPlayerSessionId := i, dpPlayerIdx := k\<rparr>) s) = d_ok R X E H J s"
  by (rule d_ok_upd_unseen, simp add: account_of_def)+

lemma post_id_balances [balances]: "d_ok R X E H J s \<Longrightarrow> keeping (d_ok R X E H J) (DP_post_id e sid pkt s)"
  unfolding DP_post_id_def
  by (rule keeping_with, rule keeping_bnd [OF strcpy_s_crash], rule keeping_snd, rule post_send_balances)

lemma start_test_balances [balances]: "d_ok R X E H J s \<Longrightarrow> keeping (d_ok R X E H J) (DP_StartTest e sid s)"
  unfolding DP_StartTest_def case_prod_beta by (rule post_id_balances) simp

lemma end_test_balances [balances]: "d_ok R X E H J s \<Longrightarrow> keeping (d_ok R X E H J) (DP_EndTest e sid s)"
  unfolding DP_EndTest_def
  by (rule keeping_with, rule keeping_bnd [OF post_id_balances]) (assumption | rule dprint_balances)+

lemma chat_balances [balances]: "d_ok R X E H J s \<Longrightarrow> keeping (d_ok R X E H J) (DP_chat e sid s)"
  unfolding DP_chat_def
  by (rule keeping_with, rule keeping_bnd [OF strcpy_s_crash], rule keeping_bnd [OF strcpy_s_crash],
      rule keeping_snd, rule post_send_balances)

lemma next_pos_balances [balances]: "d_ok R X E H J s \<Longrightarrow> keeping (d_ok R X E H J) (DP_SetNextPos e sid s)"
  unfolding DP_SetNextPos_def by (intro keeping_with) (simp add: case_prod_beta)

lemma move_request_balances [balances]: "d_ok R X E H J s \<Longrightarrow> keeping (d_ok R X E H J) (DP_move_request e sid s)"
  unfolding DP_move_request_def
  by (rule keeping_bnd [OF next_pos_balances], assumption, rule keeping_with, rule keeping_snd, rule post_send_balances)

lemma async_after_balances [balances]:
  assumes ok: "d_ok R X E H J s"
  shows "keeping (d_ok R X E H J) (D_DoAsyncAfter after sid s)"
proof (cases "dLTimer s")
  case (Some q)
  show ?thesis
    unfolding D_DoAsyncAfter_def Some option.case
  proof (rule keeping_with)
    fix c assume c: "dsessions s sid = Some c"
    note a = accounts_some [OF c]
    define j where "j = \<lparr>mOwner = sid, mTask = sid, mExecutionTick = int (nat (after mod 2 ^ 32)) + dLTickCount s\<rparr>"
    define s' where "s' = upd_dsession sid (\<lambda>c. c\<lparr>dsRefCount := dsRefCount c + 1\<rparr>) (s\<lparr>dLTimer := Some (pq_push j q)\<rparr>)"
    have "accounts s' = (accounts s)(sid \<mapsto> (account_of c)\<lparr>ac_refs := ac_refs (account_of c) + 1\<rparr>)"
      using c by (simp add: s'_def accounts_upd account_of_def) (simp add: accounts_def fun_eq_iff)
    moreover have "timer_jobs s' = pq_push j (timer_jobs s)" by (simp add: s'_def timer_jobs_def Some)
    moreover have "dcontexts s' = dcontexts s" "dnext_context s' = dnext_context s" "dLTickCount s' = dLTickCount s"
      by (simp_all add: s'_def)
    moreover have "mTask j = sid" "dLTickCount s \<le> mExecutionTick j" by (simp_all add: j_def)
    ultimately have "d_ok R X E H J s'"
      using book_push [OF ok [unfolded d_ok_def] a] by (simp add: d_ok_def)
    then show "keeping (d_ok R X E H J) (Ok (upd_dsession sid (\<lambda>c. c\<lparr>dsRefCount := dsRefCount c + 1\<rparr>)
        (s\<lparr>dLTimer := Some (push_after pq_push sid sid (nat (after mod 2 ^ 32)) (dLTickCount s) q)\<rparr>)))"
      by (simp add: s'_def push_after_def j_def)
  qed
qed (simp add: D_DoAsyncAfter_def)

lemma play_test_balances [balances]:
  assumes "d_ok R X E H J s"
  shows "keeping (d_ok R X E H J) (DP_PlayTest e sid s)"
  unfolding DP_PlayTest_def Let_def case_prod_beta
  using assms
  by (intro keeping_with) (auto intro!: end_test_balances keeping_bnd [OF _ async_after_balances] chat_balances move_request_balances)

section \<open>Packets\<close>

lemma mem_crash: "keeping (\<lambda>_. True) (mem_read k n m)" "keeping (\<lambda>_. True) (mem_write k xs m)"
  by (simp_all add: mem_read_def mem_write_def)

lemma buffer_crash: "keeping (\<lambda>_. True) (copy_from_B n b)" "keeping (\<lambda>_. True) (rebase b)"
  by (auto simp: copy_from_B_def rebase_def mem_crash split: option.splits
      intro!: keeping_bnd [OF mem_crash(1)] keeping_bnd [OF mem_crash(2)])

lemma read_crash: "keeping (\<lambda>_. True) (Read n b)" "keeping (\<lambda>_. True) (Peek n b)"
  by (auto simp: Read_def Peek_def Let_def split: if_splits
      intro!: keeping_bnd [OF mem_crash(1)] keeping_bnd [OF buffer_crash(1)] keeping_bnd [OF buffer_crash(2)])

lemma parse_balances [balances]:
  "d_ok R X E H J s \<Longrightarrow> keeping (\<lambda>(r, s'). d_ok R X E H J s') (DP_ParsePacket n sid s)"
  unfolding DP_ParsePacket_def
  by (rule keeping_with, rule keeping_bnd [OF read_crash(1)]) (simp add: case_prod_beta)

lemma parsing_error_balances [simp]: "d_ok R X E H J (dparsing_error t s) = d_ok R X E H J s"
  by (simp add: dparsing_error_def)

lemma c_str_crash: "keeping (\<lambda>_. True) (c_str xs)"
  by (simp add: c_str_def)

lemma handler_balances [balances]: "d_ok R X E H J s \<Longrightarrow> keeping (d_ok R X E H J) (dummy_HandlerTable e t sid s)"
  unfolding dummy_HandlerTable_def Handler_PKT_SC_LOGIN_def Handler_PKT_SC_CHAT_def Handler_PKT_SC_MOVE_def
    dummy_DefaultHandler_def
  by (auto split: option.splits
      intro!: disconnect_balances' keeping_bnd [OF parse_balances] keeping_bnd [OF c_str_crash]
        keeping_bnd [OF dprint_balances] async_after_balances)

lemma on_read_balances [balances]: "d_ok R X E H J s \<Longrightarrow> keeping_opt (d_ok R X E H J) (DP_OnRead e sid s)"
proof -
  have "DP_OnRead e sid s = Some r \<Longrightarrow> d_ok R X E H J s \<longrightarrow> keeping (d_ok R X E H J) r" for r
  proof (rule DP_OnRead.raw_induct [of "\<lambda>e sid s r. d_ok R X E H J s \<longrightarrow> keeping (d_ok R X E H J) r"])
    fix f e sid s r
    assume IH: "\<And>e sid s r. f e sid s = Some r \<Longrightarrow> d_ok R X E H J s \<longrightarrow> keeping (d_ok R X E H J) r"
      and run: "(case dsessions s sid of None \<Rightarrow> Some (Fault DanglingRef)
        | Some c \<Rightarrow> (case Peek sizeof_PacketHeader (dsRecvBuffer c) of Ok None \<Rightarrow> Some (Ok s)
           | Ok (Some hb) \<Rightarrow>
               let header = header_of hb
               in if GetStoredSize (dsRecvBuffer c) < size_of_short (mSize header) then Some (Ok s)
                  else if sint (pkt_value PKT_MAX) \<le> sint (mType header) \<or> sint (mType header) \<le> sint (pkt_value PKT_NONE)
                  then Some (DS_DisconnectRequest e sid DDR_ACTIVE s)
                  else (case dummy_HandlerTable e (mType header) sid s of Ok s' \<Rightarrow> f e sid s' | Fault f \<Rightarrow> Some (Fault f))
           | Fault f \<Rightarrow> Some (Fault f))) = Some r"
    show "d_ok R X E H J s \<longrightarrow> keeping (d_ok R X E H J) r"
    proof
      assume ok: "d_ok R X E H J s"
      note h = handler_balances [OF ok, of e] and d = disconnect_balances' [OF ok, of e sid DDR_ACTIVE]
      show "keeping (d_ok R X E H J) r"
        using run ok d keepingD [OF read_crash(2)] keepingD [OF h] IH
        by (auto simp: Let_def h split: option.splits outcome.splits if_splits)
    qed
  qed
  then show "d_ok R X E H J s \<Longrightarrow> keeping_opt (d_ok R X E H J) (DP_OnRead e sid s)"
    by (cases "DP_OnRead e sid s") auto
qed

lemma recv_completion_balances [balances]: "d_ok R X E H J s \<Longrightarrow> keeping_opt (d_ok R X E H J) (DS_RecvCompletion e sid n s)"
  unfolding DS_RecvCompletion_def by (rule on_read_balances) simp

section \<open>Connecting\<close>

text \<open>
  The two assertions that are no matter of the counts: \<^verbatim>\<open>ConnectCompletion\<close> fails one when the system
  refuses to turn off the delay or the receive buffer of the socket whose connect context it has just updated.
\<close>

definition options_refused :: "'w dummy_env \<Rightarrow> nat \<Rightarrow> 'w load_client \<Rightarrow> bool" where
  "options_refused e sid s =
     (case dsessions s sid of None \<Rightarrow> False
      | Some c \<Rightarrow>
          (case dsys_do e (DcUpdateConnectContext (dsSocket c)) s of (r1, s1) \<Rightarrow>
           case dsys_do e (DcNoDelay (dsSocket c)) s1 of (r2, s2) \<Rightarrow>
           r1 \<noteq> - 1 \<and> (r2 = - 1 \<or> fst (dsys_do e (DcRcvBufZero (dsSocket c)) s2) = - 1)))"

lemma connect_refused_faults:
  assumes "options_refused e sid s"
  shows "DP_ConnectCompletion e sid s \<noteq> Ok s'"
    and "errors_fit e \<Longrightarrow> DP_ConnectCompletion e sid s = Fault CrashAssert"
proof -
  from assms show "DP_ConnectCompletion e sid s \<noteq> Ok s'"
    by (auto simp: options_refused_def DP_ConnectCompletion_def with_dsession_def split: option.splits prod.splits)
  assume fit: "errors_fit e"
  have "\<exists>t'. dprint_error e u t = Ok t'" if "length u \<le> 100" for u and t :: "'a load_client"
    using dprint_error_fits [OF fit that] by blast
  then have b: "bnd (dprint_error e u t) (\<lambda>_. Fault CrashAssert) = (Fault CrashAssert :: 'a load_client outcome)"
    if "length u \<le> 100" for u and t :: "'a load_client"
    using that by (metis bnd.simps(1))
  from assms show "DP_ConnectCompletion e sid s = Fault CrashAssert"
    by (auto simp: options_refused_def DP_ConnectCompletion_def with_dsession_def b split: option.splits prod.splits)
qed

lemma dsys_state: "dsys_do e k s = (r, s') \<Longrightarrow> \<exists>w. s' = s\<lparr>dworld := w\<rparr>"
  by (auto simp: dsys_do_def split: prod.splits)

lemma link_free_world [simp]: "link_free X H sid (s\<lparr>dworld := w\<rparr>) = link_free X H sid s"
  by (simp add: link_free_def timer_jobs_def accounts_def)

lemma off_balances:
  assumes ok: "d_ok R X E H J s"
  shows "d_ok R X E H J (upd_dsession sid (\<lambda>c. c\<lparr>dsConnected := False\<rparr>) s)"
proof (cases "dsessions s sid")
  case None
  then have "accounts (upd_dsession sid (\<lambda>c. c\<lparr>dsConnected := False\<rparr>) s) = accounts s"
    by (simp add: accounts_upd accounts_def fun_eq_iff)
  with ok show ?thesis by (simp add: d_ok_def)
next
  case (Some c)
  have "accounts (upd_dsession sid (\<lambda>c. c\<lparr>dsConnected := False\<rparr>) s) = (accounts s)(sid \<mapsto> (account_of c)\<lparr>ac_connected := False\<rparr>)"
    using Some by (simp add: accounts_upd account_of_def)
  with book_off(1) [OF ok [unfolded d_ok_def] accounts_some [OF Some]] show ?thesis
    using book_mono [of R X "E - {sid}" H J _ _ _ _ _ E] by (simp add: d_ok_def)
qed

lemma on_balances:
  assumes ok: "d_ok R X E H J s" and c: "dsessions s sid = Some c" and "dsSendRequestedCount c = 0" and "link_free X H sid s"
  shows "\<not> dsConnected c" and "d_ok R X E H J (upd_dsession sid (\<lambda>c. c\<lparr>dsConnected := True\<rparr>) s)"
proof -
  note a = accounts_some [OF c]
  have lf: "link_tokens (dcontexts s) X sid (account_of c) + 1 \<le> issued (dcontexts s) (timer_jobs s) H sid (account_of c)"
    using assms(4) a by (simp add: link_free_def)
  note on = book_on [OF ok [unfolded d_ok_def] a _ lf]
  show "\<not> dsConnected c" using on(1) assms(3) by simp
  have "accounts (upd_dsession sid (\<lambda>c. c\<lparr>dsConnected := True\<rparr>) s) = (accounts s)(sid \<mapsto> (account_of c)\<lparr>ac_connected := True\<rparr>)"
    using c by (simp add: accounts_upd account_of_def)
  with on(2) assms(3) show "d_ok R X E H J (upd_dsession sid (\<lambda>c. c\<lparr>dsConnected := True\<rparr>) s)" by (simp add: d_ok_def)
qed

lemma established:
  assumes ok: "d_ok R X E H J s"
  shows "keeping (d_ok R X E H J) (bnd (DS_PreRecv e sid s) (\<lambda>(ok, s4).
      if \<not> ok then bnd (dprint_error e t s4) (\<lambda>s5. Ok (upd_dsession sid (\<lambda>c. c\<lparr>dsConnected := False\<rparr>) s5))
      else bnd (dprint u s4) (DP_StartTest e sid)))"
  by (rule keeping_bnd [OF pre_recv_balances [OF ok]])
    (auto intro!: keeping_bnd [OF dprint_error_balances] keeping_bnd [OF dprint_balances] start_test_balances off_balances)

lemma connect_completion_balances:
  assumes ok: "d_ok R X E H J s" and lf: "link_free X H sid s" and opt: "\<not> options_refused e sid s"
    and p: "\<And>c. dsessions s sid = Some c \<Longrightarrow> dsSendRequestedCount c = 0"
  shows "keeping (d_ok R X E H J) (DP_ConnectCompletion e sid s)"
  unfolding DP_ConnectCompletion_def
proof (rule keeping_with)
  fix c assume c: "dsessions s sid = Some c"
  obtain r1 s1 where 1: "dsys_do e (DcUpdateConnectContext (dsSocket c)) s = (r1, s1)" by force
  obtain r2 s2 where 2: "dsys_do e (DcNoDelay (dsSocket c)) s1 = (r2, s2)" by force
  obtain r3 s3 where 3: "dsys_do e (DcRcvBufZero (dsSocket c)) s2 = (r3, s3)" by force
  obtain w1 where w1: "s1 = s\<lparr>dworld := w1\<rparr>" using dsys_state [OF 1] by blast
  obtain w3 where "s3 = s\<lparr>dworld := w3\<rparr>" using dsys_state [OF 2] dsys_state [OF 3] w1 by force
  then have s3: "d_ok R X E H J s3" "dsessions s3 sid = Some c" "link_free X H sid s3" using ok c lf by simp_all
  have r: "r1 \<noteq> - 1 \<Longrightarrow> r2 \<noteq> - 1 \<and> r3 \<noteq> - 1"
    using opt by (simp add: options_refused_def c 1 2 3)
  note on = on_balances [OF s3(1,2) p [OF c] s3(3)]
  have s1: "d_ok R X E H J s1" using ok by (simp add: w1)
  show "keeping (d_ok R X E H J) (case dsys_do e (DcUpdateConnectContext (dsSocket c)) s of (r, s1) \<Rightarrow>
       if r = - 1
       then (if derror e (dworld s1) = 10057
             then dprint (lit ''Connecting a server failed: maybe WSAENOTCONN??\<newline>'') s1
             else dprint_error e ''SO_UPDATE_CONNECT_CONTEXT failed: '' s1)
       else case dsys_do e (DcNoDelay (dsSocket c)) s1 of (r, s2) \<Rightarrow>
       if r = - 1 then bnd (dprint_error e ''[DEBUG] TCP_NODELAY error: '' s2) (\<lambda>_. Fault CrashAssert)
       else case dsys_do e (DcRcvBufZero (dsSocket c)) s2 of (r, s3) \<Rightarrow>
       if r = - 1 then bnd (dprint_error e ''[DEBUG] SO_RCVBUF change error: '' s3) (\<lambda>_. Fault CrashAssert)
       else if dsConnected c then Fault CrashAssert
       else bnd (DS_PreRecv e sid (upd_dsession sid (\<lambda>c. c\<lparr>dsConnected := True\<rparr>) s3)) (\<lambda>(ok, s4).
            if \<not> ok
            then bnd (dprint_error e ''[DEBUG] PreRecv for Server Connection error: '' s4)
                   (\<lambda>s5. Ok (upd_dsession sid (\<lambda>c. c\<lparr>dsConnected := False\<rparr>) s5))
            else bnd (dprint (lit ''[DEBUG] Session established: IP='' @ inet_ntoa (fst (dpConnectAddr c)) @
                              lit '', PORT='' @ decimal (unat (snd (dpConnectAddr c))) @ lit '' \<newline>'') s4)
                   (DP_StartTest e sid)))"
    using r on(1) established [OF on(2)] dprint_balances [OF s1] dprint_error_balances [OF s1]
    by (simp add: 1 2 3)
qed

section \<open>A completion\<close>

text \<open>The context that the port has given to the thread is no longer waiting.\<close>

definition handles :: "DummyContext \<Rightarrow> nat set" where
  "handles ctx = (if dcIoType ctx = DIO_SEND then {dcSessionObject ctx} else {})"

lemma job_taken:
  assumes ok: "d_ok R {} {} H J s" and x: "dcontexts s x = Some ctx"
  shows "d_ok R {x} (handles ctx) H J s"
    and "dcIoType ctx \<in> {DIO_CONNECT, DIO_DISCONNECT} \<Longrightarrow> link_free {x} H (dcSessionObject ctx) s"
    and "dcIoType ctx = DIO_CONNECT \<Longrightarrow> dsessions s (dcSessionObject ctx) = Some c \<Longrightarrow> dsSendRequestedCount c = 0"
    and "dcIoType ctx = DIO_SEND \<Longrightarrow> waiting (dcontexts s) {x} {DIO_SEND} (dcSessionObject ctx) = {}"
    and "dcIoType ctx = DIO_SEND \<Longrightarrow> waiting (dcontexts s) {x} {DIO_CONNECT} (dcSessionObject ctx) = {}"
    and "dcIoType ctx = DIO_SEND \<Longrightarrow> dsessions s (dcSessionObject ctx) = Some c \<Longrightarrow> dsSendRequestedCount c = 1"
proof -
  let ?C = "dcontexts s" and ?sid = "dcSessionObject ctx"
  note book = ok [unfolded d_ok_def] and nf = next_free [OF ok [unfolded d_ok_def]]
  have w: "waiting ?C {x} ts t = waiting ?C {} ts t - {x}" for ts t by (auto simp: waiting_def)
  have other: "x \<notin> waiting ?C {} ts t" if "t \<noteq> ?sid \<or> dcIoType ctx \<notin> ts" for ts t
    using that x by (auto simp: waiting_def)
  have mem: "x \<in> waiting ?C {} ts ?sid" if "dcIoType ctx \<in> ts" for ts using that x by (auto simp: waiting_def)
  have lt: "x < dnext_context s" using book x by (auto simp: book_ok_def ids_ok_def not_less [symmetric])
  have bal: "balanced R {} {} H ?C (timer_jobs s) t a" if "accounts s t = Some a" for t a
    using book that by (simp add: book_ok_def)
  have tok: "link_tokens ?C {x} t a \<le> link_tokens ?C {} t a" for t a
    unfolding link_tokens_def w using nf by (simp add: card_mono Diff_subset)
  have sends: "sends_in_order {x} (handles ctx) ?C t a" if "accounts s t = Some a" for t a
  proof -
    have live: "waiting ?C {} {DIO_SEND} t - {x} = waiting ?C {} {DIO_SEND} t" if "t \<notin> handles ctx"
      using other [of t "{DIO_SEND}"] that by (auto simp: handles_def split: if_splits)
    have "waiting ?C {} ts t - {x} \<noteq> {} \<Longrightarrow> waiting ?C {} ts t \<noteq> {}" for ts by blast
    with bal [OF that] live show ?thesis unfolding balanced_def sends_in_order_def w by blast
  qed
  have "balanced R {x} (handles ctx) H ?C (timer_jobs s) t a" if "accounts s t = Some a" for t a
    using bal [OF that] tok [of t a] sends [OF that] by (simp add: balanced_def)
  then show "d_ok R {x} (handles ctx) H J s"
    using book lt by (simp add: d_ok_def book_ok_def ids_ok_def)
  show "link_free {x} H ?sid s" if t: "dcIoType ctx \<in> {DIO_CONNECT, DIO_DISCONNECT}"
  proof -
    let ?W = "waiting ?C {} {DIO_CONNECT, DIO_DISCONNECT} ?sid"
    have f: "finite ?W" "x \<in> ?W" using nf mem [OF t] by blast+
    then have "card (?W - {x}) < card ?W" by (intro card_Diff1_less)
    then have "link_tokens ?C {x} ?sid a + 1 \<le> link_tokens ?C {} ?sid a" for a by (simp add: link_tokens_def w)
    with bal show ?thesis unfolding link_free_def balanced_def by (blast intro: order_trans)
  qed
  have sd: "waiting ?C {} {DIO_SEND} ?sid = {x} \<and> ac_pending a = 1 \<and> waiting ?C {} {DIO_CONNECT} ?sid = {}"
    if "dcIoType ctx = DIO_SEND" "accounts s ?sid = Some a" for a
    using bal [OF that(2)] mem [of "{DIO_SEND}"] that(1) by (auto simp: balanced_def sends_in_order_def offers_def)
  have "accounts s ?sid \<noteq> None" using book x by (auto simp: book_ok_def ids_ok_def)
  then obtain a where a: "accounts s ?sid = Some a" by blast
  show "dcIoType ctx = DIO_CONNECT \<Longrightarrow> dsessions s ?sid = Some c \<Longrightarrow> dsSendRequestedCount c = 0"
    using bal [OF accounts_some] mem [of "{DIO_CONNECT}"] by (fastforce simp: balanced_def sends_in_order_def)
  show "dcIoType ctx = DIO_SEND \<Longrightarrow> waiting ?C {x} {DIO_SEND} ?sid = {}"
    "dcIoType ctx = DIO_SEND \<Longrightarrow> waiting ?C {x} {DIO_CONNECT} ?sid = {}"
    using sd [OF _ a] by (simp_all add: w)
  show "dcIoType ctx = DIO_SEND \<Longrightarrow> dsessions s ?sid = Some c \<Longrightarrow> dsSendRequestedCount c = 1"
    using sd [OF _ accounts_some] by simp
qed

text \<open>The end of a job: its context goes, with the reference it held.\<close>

lemma job_done:
  assumes ok: "d_ok R {x} {} H J s"
  shows "keeping (d_ok R {} {} H J) (DeleteDummyContext (Some x) s)"
proof (cases "dcontexts s x")
  case (Some ctx)
  let ?sid = "dcSessionObject ctx"
  note book = ok [unfolded d_ok_def]
  have "accounts s ?sid \<noteq> None" "dcIoType ctx \<noteq> DIO_NONE" using book Some by (auto simp: book_ok_def ids_ok_def)
  then obtain c where c: "dsessions s ?sid = Some c" by (auto simp: accounts_def)
  note a = accounts_some [OF c]
  have pos: "0 < dsRefCount c" using book_account(4) [OF book a Some] by simp
  let ?s = "(upd_dsession ?sid (\<lambda>c. c\<lparr>dsRefCount := dsRefCount c - 1\<rparr>) s)\<lparr>dcontexts := (dcontexts s)(x := None)\<rparr>"
  have run: "DeleteDummyContext (Some x) s = Ok ?s"
    using Some c pos \<open>dcIoType ctx \<noteq> DIO_NONE\<close> by (simp add: DeleteDummyContext_def DS_ReleaseRef_def with_dsession_def Let_def)
  have "accounts ?s = accounts (upd_dsession ?sid (\<lambda>c. c\<lparr>dsRefCount := dsRefCount c - 1\<rparr>) s)" by (simp add: accounts_def fun_eq_iff)
  then have acc: "accounts ?s = (accounts s)(?sid \<mapsto> (account_of c)\<lparr>ac_refs := ac_refs (account_of c) - 1\<rparr>)"
    using c by (simp add: accounts_upd account_of_def)
  have tj: "timer_jobs ?s = timer_jobs s" by (simp add: timer_jobs_def)
  have "book_ok R {x} {} H J ((dcontexts s)(x := None)) (dnext_context s) (timer_jobs s) (dLTickCount s)
      ((accounts s)(?sid \<mapsto> (account_of c)\<lparr>ac_refs := ac_refs (account_of c) - 1\<rparr>))"
    by (rule book_delete [OF book _ Some refl a]) simp
  then have "d_ok R {x} {} H J ?s" by (simp add: d_ok_def acc tj)
  then have "d_ok R {} {} H J ?s" unfolding d_ok_def by (rule book_untake) simp
  with run show ?thesis by simp
qed (simp add: DeleteDummyContext_def)

lemma disconnect_completion_balances:
  assumes ok: "d_ok R X E H J s" and lf: "link_free X H sid s"
  shows "keeping (d_ok R X E H J) (DS_DisconnectCompletion sid dr s)"
proof -
  have rel: "keeping (d_ok R X E H J) (DS_ReleaseRef sid (s\<lparr>dlog := l\<rparr>))" for l
    unfolding DS_ReleaseRef_def
  proof (rule keeping_with)
    fix c assume c: "dsessions (s\<lparr>dlog := l\<rparr>) sid = Some c"
    let ?s = "s\<lparr>dlog := l\<rparr>"
    have ok': "d_ok R X E H J ?s" using ok by simp
    note book = ok' [unfolded d_ok_def] and a = accounts_some [OF c]
    have acc: "accounts (upd_dsession sid (\<lambda>c. c\<lparr>dsRefCount := dsRefCount c - 1\<rparr>) ?s) = (accounts ?s)(sid \<mapsto> (account_of c)\<lparr>ac_refs := ac_refs (account_of c) - 1\<rparr>)"
      using c by (simp add: accounts_upd account_of_def)
    have "accounts ?s = accounts s" by (simp add: accounts_def fun_eq_iff)
    then have l: "link_tokens (dcontexts ?s) X sid (account_of c) + 1 \<le> issued (dcontexts ?s) (timer_jobs ?s) H sid (account_of c)"
      using lf a by (simp add: link_free_def timer_jobs_def)
    have "d_ok R X E H J (upd_dsession sid (\<lambda>c. c\<lparr>dsRefCount := dsRefCount c - 1\<rparr>) ?s)"
      using book_release [OF book a l] by (simp add: d_ok_def acc)
    moreover have "0 < dsRefCount c" using book_account(5) [OF book a l] by simp
    ultimately show "keeping (d_ok R X E H J) (let ret = dsRefCount c;
           s1 = upd_dsession sid (\<lambda>c. c\<lparr>dsRefCount := dsRefCount c - 1\<rparr>) ?s
       in if \<not> ret > 0 then Fault CrashAssert
          else Ok (if ret = 0 then DS_OnRelease sid s1 else s1))"
      by (simp add: Let_def)
  qed
  have "keeping (\<lambda>s'. \<exists>l. s' = s\<lparr>dlog := l\<rparr>) (DP_OnDisconnect sid dr s)"
    unfolding DP_OnDisconnect_def by (rule keeping_with) (auto simp: dprint_def dummy_PrintOut_def)
  then show ?thesis
    unfolding DS_DisconnectCompletion_def by (rule keeping_bnd) (auto intro: rel)
qed

section \<open>\<^verbatim>\<open>DoIocpJob\<close>\<close>

lemma dispatch_balances:
  assumes ok: "d_ok R {} {} H J s" and x: "dcontexts s x = Some ctx"
    and opt: "dcIoType ctx = DIO_CONNECT \<Longrightarrow> \<not> options_refused e (dcSessionObject ctx) s"
  shows "keeping_opt (\<lambda>(r, s'). d_ok R {x} {} H J s') (DW_dispatch e (dcSessionObject ctx) ctx n s)"
proof -
  let ?sid = "dcSessionObject ctx"
  note tk = job_taken [OF ok x]
  have pair: "keeping (\<lambda>(r, s'). d_ok R {x} {} H J s') (bnd m (\<lambda>s1. Ok (True, s1)))" if "keeping (d_ok R {x} {} H J) m" for m
    by (rule keeping_bnd [OF that]) simp
  have plain: "d_ok R {x} {} H J s" if "dcIoType ctx \<noteq> DIO_SEND" using tk(1) that by (simp add: handles_def)
  show ?thesis
  proof (cases "dcIoType ctx")
    case DIO_NONE
    then show ?thesis using ok x by (auto simp: d_ok_def book_ok_def ids_ok_def)
  next
    case DIO_SEND
    have "\<exists>c. dsessions s ?sid = Some c" using ok x by (auto simp: d_ok_def book_ok_def ids_ok_def accounts_def)
    then obtain c where c: "dsessions s ?sid = Some c" by blast
    have "d_ok R {x} {?sid} H J s" using tk(1) DIO_SEND by (simp add: handles_def)
    from send_completion_balances [OF this c tk(6) [OF DIO_SEND c] tk(4,5) [OF DIO_SEND]]
    show ?thesis
      by (auto simp: DW_dispatch_def DIO_SEND intro!: keeping_bnd [where P = "d_ok R {x} {} H J"] keeping_bnd [OF dprint_balances])
  next
    case DIO_RECV
    have "keeping_opt (d_ok R {x} {} H J) (DS_RecvCompletion e ?sid n s)"
      by (rule recv_completion_balances [OF plain]) (simp add: DIO_RECV)
    from keeping_opt_bnd [OF this pre_recv_balances] show ?thesis by (simp add: DW_dispatch_def DIO_RECV)
  next
    case DIO_RECV_ZERO
    then show ?thesis using post_recv_balances [OF plain] by (simp add: DW_dispatch_def)
  next
    case DIO_DISCONNECT
    then show ?thesis
      using pair [OF disconnect_completion_balances [OF plain tk(2)]] by (simp add: DW_dispatch_def)
  next
    case DIO_CONNECT
    then show ?thesis
      using pair [OF connect_completion_balances [OF plain tk(2) opt [OF DIO_CONNECT] tk(3)]] by (simp add: DW_dispatch_def)
  qed
qed

text \<open>A successful call of \<^verbatim>\<open>GetQueuedCompletionStatus\<close> gives a context.\<close>

definition port_gives :: "dcompletion \<Rightarrow> bool" where
  "port_gives c \<longleftrightarrow> dcompleted c = None \<longrightarrow> dret c = 0 \<or> dtransferred c = 0"

text \<open>The thread takes the completion of a connect, and the options of its socket are refused.\<close>

definition connect_refused :: "'w dummy_env \<Rightarrow> dcompletion \<Rightarrow> 'w load_client \<Rightarrow> bool" where
  "connect_refused e c s \<longleftrightarrow> \<not> ((dret c = 0 \<or> dtransferred c = 0) \<and> dstop c) \<and>
     (\<exists>x ctx. dcompleted c = Some x \<and> dcontexts s x = Some ctx \<and> dcIoType ctx = DIO_CONNECT \<and>
       options_refused e (dcSessionObject ctx) s)"

lemma connect_refused_ends:
  "connect_refused e c s \<Longrightarrow> DW_DoIocpJob e c s \<noteq> Some (Ok y)"
  "connect_refused e c s \<Longrightarrow> errors_fit e \<Longrightarrow> DW_DoIocpJob e c s = Some (Fault CrashAssert)"
  by (auto simp: connect_refused_def DW_DoIocpJob_def DW_dispatch_def Let_def connect_refused_faults)

lemma job_balances:
  assumes ok: "d_ok R {} {} H J s" and opt: "\<not> connect_refused e c s" and port: "port_gives c"
  shows "keeping_opt (\<lambda>(r, s'). d_ok R {} {} H J s') (DW_DoIocpJob e c s)"
proof (cases "dcompleted c")
  case None
  then show ?thesis using ok port by (simp add: DW_DoIocpJob_def port_gives_def)
next
  case (Some x)
  show ?thesis
  proof (cases "dcontexts s x")
    case None
    with Some ok show ?thesis by (simp add: DW_DoIocpJob_def Let_def)
  next
    case ctx: (Some ctx)
    let ?sid = "dcSessionObject ctx"
    have fin: "keeping (\<lambda>(r, s'). d_ok R {} {} H J s') (bnd (DeleteDummyContext (Some x) s2) (\<lambda>s3. Ok (True, s3)))"
      if "d_ok R {x} {} H J s2" for s2 by (rule keeping_bnd [OF job_done [OF that]]) simp
    have lost: "keeping (\<lambda>(r, s'). d_ok R {} {} H J s') (bnd (DS_DisconnectRequest e ?sid DDR_COMPLETION_ERROR s) (\<lambda>s1.
        bnd (DeleteDummyContext (Some x) s1) (\<lambda>s2. Ok (True, s2))))"
    proof (rule keeping_bnd [OF _ fin])
      have "handles ctx - {?sid} = {}" by (simp add: handles_def)
      with disconnect_balances [OF job_taken(1) [OF ok ctx], of ?sid e DDR_COMPLETION_ERROR]
      show "keeping (d_ok R {x} {} H J) (DS_DisconnectRequest e ?sid DDR_COMPLETION_ERROR s)" by simp
    qed
    have rest: "keeping_opt (\<lambda>(r, s'). d_ok R {} {} H J s') (map_option (\<lambda>r. bnd r (\<lambda>(completionOk, s1).
        bnd (if completionOk then Ok s1 else DS_DisconnectRequest e ?sid DDR_IO_REQUEST_ERROR s1) (\<lambda>s2.
        bnd (DeleteDummyContext (Some x) s2) (\<lambda>s3. Ok (True, s3))))) (DW_dispatch e ?sid ctx (dtransferred c) s))"
      if "\<not> ((dret c = 0 \<or> dtransferred c = 0) \<and> dstop c)"
    proof -
      have "dcIoType ctx = DIO_CONNECT \<Longrightarrow> \<not> options_refused e ?sid s"
        using opt Some ctx that by (auto simp: connect_refused_def)
      then show ?thesis
        by (intro keeping_opt_bnd [OF dispatch_balances [OF ok ctx]]) (auto intro!: fin keeping_bnd [OF disconnect_balances'])
    qed
    from Some ctx ok lost rest show ?thesis by (simp add: DW_DoIocpJob_def Let_def)
  qed
qed

section \<open>The timer\<close>

lemma run_due_keeping:
  assumes "run_due getq setq topq popq exec now s = Some r" and "I s"
    and "\<And>s job. I s \<Longrightarrow> topq (getq s) = Some job \<Longrightarrow> mExecutionTick job \<le> now \<Longrightarrow>
      keeping (\<lambda>s'. I (setq (popq (getq s')) s')) (exec (mTask job) s)"
  shows "keeping I r"
proof -
  let ?P = "\<lambda>gq sq tq pq ex n s r. (\<forall>s job. I s \<longrightarrow> tq (gq s) = Some job \<longrightarrow> mExecutionTick job \<le> n \<longrightarrow>
    keeping (\<lambda>s'. I (sq (pq (gq s')) s')) (ex (mTask job) s)) \<longrightarrow> I s \<longrightarrow> keeping I r"
  have "?P getq setq topq popq exec now s r"
  proof (rule run_due.raw_induct [where P = ?P, OF _ assms(1)], intro impI)
    fix f gq sq tq pq ex n s r
    assume IH: "\<And>gq sq tq pq ex n s r. f gq sq tq pq ex n s = Some r \<Longrightarrow> ?P gq sq tq pq ex n s r"
      and run: "(case tq (gq s) of None \<Rightarrow> Some (Ok s)
        | Some job \<Rightarrow> if n < mExecutionTick job then Some (Ok s)
            else (case ex (mTask job) s of Ok s' \<Rightarrow> f gq sq tq pq ex n (sq (pq (gq s')) s') | Fault f \<Rightarrow> Some (Fault f))) = Some r"
      and I: "\<forall>s job. I s \<longrightarrow> tq (gq s) = Some job \<longrightarrow> mExecutionTick job \<le> n \<longrightarrow>
        keeping (\<lambda>s'. I (sq (pq (gq s')) s')) (ex (mTask job) s)" "I s"
    show "keeping I r"
    proof (cases "r = Ok s")
      case False
      with run obtain j where j: "tq (gq s) = Some j" "mExecutionTick j \<le> n"
        "(case ex (mTask j) s of Ok s' \<Rightarrow> f gq sq tq pq ex n (sq (pq (gq s')) s') | Fault f \<Rightarrow> Some (Fault f)) = Some r"
        by (auto split: option.splits if_splits)
      from I j(1,2) have k: "keeping (\<lambda>s'. I (sq (pq (gq s')) s')) (ex (mTask j) s)" by blast
      show ?thesis
      proof (cases "ex (mTask j) s")
        case (Ok s')
        with j(3) k IH [of gq sq tq pq ex n "sq (pq (gq s')) s'" r] I(1) show ?thesis by simp
      next
        case (Fault x)
        with j(3) k show ?thesis by auto
      qed
    qed (use I in simp)
  qed
  with assms(2,3) show ?thesis by blast
qed

lemma element_balances:
  assumes ok: "d_ok R {} {} H (None, Some now) s" and top: "pq_top (timer_jobs s) = Some j" and due: "mExecutionTick j \<le> now"
  shows "keeping (\<lambda>s'. d_ok R {} {} H (None, Some now) (set_timer_jobs (pq_pop (timer_jobs s')) s')) (D_run_element e (mTask j) s)"
proof -
  let ?sid = "mTask j" and ?H = "H(mTask j := H (mTask j) + 1)"
  have hold: "keeping (d_ok R {} {} ?H (Some j, Some now)) (D_add_ref 1 ?sid s)"
    unfolding D_add_ref_def
  proof (rule keeping_with)
    fix c assume c: "dsessions s ?sid = Some c"
    have acc: "accounts (more_refs 1 ?sid s) = (accounts s)(?sid \<mapsto> (account_of c)\<lparr>ac_refs := ac_refs (account_of c) + 1\<rparr>)"
      using c by (simp add: accounts_upd account_of_def)
    have T: "dLTickCount s = now" using ok by (simp add: d_ok_def book_ok_def timer_ok_def)
    have "book_ok R {} {} H (Some j, Some now) (dcontexts s) (dnext_context s) (timer_jobs s) (dLTickCount s) (accounts s)"
      by (rule book_start [OF ok [unfolded d_ok_def] top]) (simp add: T due)
    from book_hold [OF this accounts_some [OF c]]
    show "keeping (d_ok R {} {} ?H (Some j, Some now)) (Ok (more_refs 1 ?sid s))" by (simp add: d_ok_def acc)
  qed
  have fin: "keeping (\<lambda>s'. d_ok R {} {} H (None, Some now) (set_timer_jobs (pq_pop (timer_jobs s')) s'))
      (bnd (D_add_ref (- 1) ?sid s2) (D_add_ref (- 1) ?sid))" if s2: "d_ok R {} {} ?H (Some j, Some now) s2" for s2
  proof (cases "dsessions s2 ?sid")
    case (Some c)
    let ?s3 = "more_refs (- 1) ?sid (more_refs (- 1) ?sid s2)"
    let ?s4 = "set_timer_jobs (pq_pop (timer_jobs ?s3)) ?s3"
    have run: "bnd (D_add_ref (- 1) ?sid s2) (D_add_ref (- 1) ?sid) = Ok ?s3"
      using Some by (simp add: D_add_ref_def with_dsession_def)
    have "accounts ?s4 = accounts ?s3" by (simp add: accounts_def set_timer_jobs_def fun_eq_iff)
    then have acc: "accounts ?s4 = (accounts s2)(?sid \<mapsto> (account_of c)\<lparr>ac_refs := ac_refs (account_of c) - 2\<rparr>)"
      using Some by (simp add: accounts_upd account_of_def)
    have rest: "timer_jobs ?s4 = pq_pop (timer_jobs s2)" "dcontexts ?s4 = dcontexts s2"
      "dnext_context ?s4 = dnext_context s2" "dLTickCount ?s4 = dLTickCount s2"
      by (simp_all add: set_timer_jobs_def) (simp_all add: timer_jobs_def upd_dsession_def)
    from book_done [OF s2 [unfolded d_ok_def] accounts_some [OF Some] refl]
    have "d_ok R {} {} H (None, Some now) ?s4" unfolding d_ok_def acc rest .
    then show ?thesis unfolding run by simp
  qed (simp add: D_add_ref_def with_dsession_def)
  have "D_run_element e ?sid s = bnd (D_add_ref 1 ?sid s) (\<lambda>s1. bnd (DP_PlayTest e ?sid s1) (\<lambda>s2.
      bnd (D_add_ref (- 1) ?sid s2) (D_add_ref (- 1) ?sid)))"
    by (simp add: D_run_element_def D_DoTask_def bnd_assoc)
  then show ?thesis
    by (simp only:) (rule keeping_bnd [OF hold], rule keeping_bnd [OF play_test_balances], assumption, rule fin)
qed

lemma timer_balances:
  assumes ok: "d_ok R {} {} H (None, None) s"
  shows "keeping_opt (d_ok R {} {} H (None, None)) (D_DoTimerJob e s)"
proof (cases "dLTimer s")
  case (Some q)
  let ?now = "dticks e (dworld s)" and ?s = "s\<lparr>dLTickCount := dticks e (dworld s)\<rparr>"
  have start: "d_ok R {} {} H (None, Some ?now) ?s"
  proof -
    have "timer_jobs ?s = timer_jobs s" "accounts ?s = accounts s" by (simp_all add: timer_jobs_def accounts_def fun_eq_iff)
    with ok show ?thesis by (simp add: d_ok_def book_ok_def timer_ok_def)
  qed
  have "keeping (d_ok R {} {} H (None, Some ?now)) r"
    if "run_due timer_jobs set_timer_jobs pq_top pq_pop (D_run_element e) ?now ?s = Some r" for r
    by (rule run_due_keeping [where I = "d_ok R {} {} H (None, Some ?now)", OF that start]) (rule element_balances)
  moreover have "d_ok R {} {} H (None, Some ?now) s' \<Longrightarrow> d_ok R {} {} H (None, None) s'" for s' :: "'a load_client"
    by (simp add: d_ok_def book_ok_def timer_ok_def)
  ultimately show ?thesis
    by (cases "run_due timer_jobs set_timer_jobs pq_top pq_pop (D_run_element e) ?now ?s")
      (auto simp: D_DoTimerJob_def Some Let_def intro: keeping_weaken)
qed (simp add: D_DoTimerJob_def)

end
