(* ===== verification/DummyThreads.thy ===== *)
theory DummyThreads
  imports DummyWorkers
begin

text \<open>
  The running load clients: the main thread, which connects the prepared sessions and disconnects them
  in the end, and any number of worker threads with a timer each, one step at a time. In
  every state they reach, the references of a session are exactly those of its contexts, of its timer
  elements and its own; so no assertion on a count fails, and sends are in order.
\<close>

section \<open>Threads\<close>

record 'w load_threads =
  lt_ready :: "nat set"
  lt_queue :: "nat \<Rightarrow> timer"
  lt_tick :: "nat \<Rightarrow> int"
  lt_state :: "'w load_client"

text \<open>The state with the thread-local variables of a worker, or of the main thread.\<close>

definition on_thread :: "nat \<Rightarrow> 'w load_threads \<Rightarrow> 'w load_client" where
  "on_thread i c = (lt_state c)\<lparr>dLThreadType := DTHREAD_IO_WORKER, dLWorkerThreadId := int i,
     dLTimer := Some (lt_queue c i), dLTickCount := lt_tick c i\<rparr>"

definition off_thread :: "nat \<Rightarrow> 'w load_client \<Rightarrow> 'w load_threads \<Rightarrow> 'w load_threads" where
  "off_thread i s c = c\<lparr>lt_queue := (lt_queue c)(i := timer_jobs s), lt_tick := (lt_tick c)(i := dLTickCount s), lt_state := s\<rparr>"

definition on_main :: "'w load_threads \<Rightarrow> 'w load_client" where
  "on_main c = (lt_state c)\<lparr>dLThreadType := DTHREAD_MAIN, dLWorkerThreadId := - 1, dLTimer := None\<rparr>"

text \<open>
  A step is a completion or a timer pass on one of the \<^verbatim>\<open>n\<close> workers, the connect request of a
  prepared session (a turn of the loop of \<^verbatim>\<open>ConnectPlayerSessions\<close>, which visits each once),
  \<^verbatim>\<open>TerminateGameSessions\<close>, or what concerns neither contexts nor accounts: bytes that arrive, and
  the main thread's calls to GameLift.
\<close>

inductive load_step :: "'w dummy_env \<Rightarrow> nat \<Rightarrow> 'w load_threads \<Rightarrow> 'w load_threads \<Rightarrow> bool" for e n where
  ls_job: "i < n \<Longrightarrow> port_gives k \<Longrightarrow> DW_DoIocpJob e k (on_thread i c) = Some (Ok (r, s')) \<Longrightarrow>
    load_step e n c (off_thread i s' c)"
| ls_timer: "i < n \<Longrightarrow> D_DoTimerJob e (on_thread i c) = Some (Ok s') \<Longrightarrow> load_step e n c (off_thread i s' c)"
| ls_connect: "sid \<in> lt_ready c \<Longrightarrow> bnd (DS_AddRef sid (on_main c)) (DP_ConnectRequest e sid p idx) = Ok (r, s') \<Longrightarrow>
    load_step e n c (c\<lparr>lt_ready := lt_ready c - {sid}, lt_state := s'\<rparr>)"
| ls_terminate: "DL_TerminateGameSessions e (on_main c) = Ok s' \<Longrightarrow> load_step e n c (c\<lparr>lt_state := s'\<rparr>)"
| ls_other: "dcontexts s' = dcontexts (lt_state c) \<Longrightarrow> dnext_context s' = dnext_context (lt_state c) \<Longrightarrow>
    accounts s' = accounts (lt_state c) \<Longrightarrow> load_step e n c (c\<lparr>lt_state := s'\<rparr>)"

inductive_cases load_stepE: "load_step e n c c'"

text \<open>The start: the sessions are prepared, the workers have just made their timers.\<close>

definition unborn :: "'w load_client \<Rightarrow> bool" where
  "unborn s \<longleftrightarrow> dsessions s = (\<lambda>_. None) \<and> dcontexts s = (\<lambda>_. None)"

definition load_init :: "'w dummy_env \<Rightarrow> 'w load_threads \<Rightarrow> bool" where
  "load_init e c \<longleftrightarrow> (\<exists>s0 games. unborn s0 \<and> DL_PrepareGameSessions e games s0 = Ok (lt_state c)) \<and>
     lt_ready c = {sid. dsessions (lt_state c) sid \<noteq> None} \<and> (\<forall>i. lt_queue c i = [])"

section \<open>Preparation\<close>

definition all_fresh :: "'w load_client \<Rightarrow> bool" where
  "all_fresh s \<longleftrightarrow> dcontexts s = (\<lambda>_. None) \<and>
     (\<forall>sid c. dsessions s sid = Some c \<longrightarrow> account_of c =
        \<lparr>ac_refs = 0, ac_connected = False, ac_pending = 0, ac_buffer = CircularBuffer_new DUMMY_BUFSIZE []\<rparr>)"

lemma fresh_rest:
  "all_fresh s \<Longrightarrow> dsys_do e k s = (r, s') \<Longrightarrow> all_fresh s'"
  "all_fresh s \<Longrightarrow> dprint t s = Ok s' \<Longrightarrow> all_fresh s'"
  "all_fresh s \<Longrightarrow> all_fresh (upd_game gid g s)"
  by (auto simp: all_fresh_def dsys_do_def dprint_def upd_game_def split: prod.splits)

lemma DG_prepare_fresh: "DG_prepare e k gid s = Ok (r, s') \<Longrightarrow> all_fresh s \<Longrightarrow> all_fresh s'"
proof (induction k arbitrary: s)
  case (Suc k)
  obtain sock s1 where s1: "dsys_do e DcSocket s = (sock, s1)" by force
  define s2 where "s2 = s1\<lparr>dsessions := (dsessions s1)(dnext_session s1 \<mapsto> DP_new sock gid), dnext_session := dnext_session s1 + 1\<rparr>"
  have "all_fresh s2"
    using fresh_rest(1) [OF Suc.prems(2) s1] by (auto simp: s2_def all_fresh_def DP_new_def account_of_def)
  have prep: "all_fresh s3" if "DP_PrepareSession e sid s2 = Ok (ok, s3)" for sid ok s3
    using that \<open>all_fresh s2\<close>
    by (auto simp: DP_PrepareSession_def with_dsession_def dprint_error_def split: option.splits prod.splits if_splits)
      (blast intro: fresh_rest(1,2))+
  from Suc.prems(1) obtain ok s3 where s3: "DP_PrepareSession e (dnext_session s1) s2 = Ok (ok, s3)"
    "(if \<not> ok then Ok (False, s3) else DG_prepare e k gid
        (upd_game gid (\<lambda>g. g\<lparr>dgReadySessionList := dgReadySessionList g @ [dnext_session s1]\<rparr>) s3)) = Ok (r, s')"
    by (auto simp: s1 s2_def Let_def)
  then show ?case using prep [OF s3(1)] fresh_rest(3) Suc.IH by (auto split: if_splits)
qed simp

lemma DL_prepare_fresh: "DL_prepare e is s = Ok s' \<Longrightarrow> all_fresh s \<Longrightarrow> all_fresh s'"
proof (induction "is" arbitrary: s)
  case (Cons i "is")
  let ?s = "s\<lparr>dgames := (dgames s)(dnext_game s \<mapsto> DG_new (int i * MAX_PLAYER_PER_GAME) MAX_PLAYER_PER_GAME
      (lit ''MyTestGameSession'' @ fmt_d (int i + 1))), dnext_game := dnext_game s + 1\<rparr>"
  have "all_fresh ?s" using Cons.prems(2) by (simp add: all_fresh_def)
  moreover from Cons.prems(1) obtain r s2 where "DG_PreparePlayerSessions e (dnext_game s) ?s = Ok (r, s2)"
    and go: "DL_prepare e is (s2\<lparr>dlGameSessions := dlGameSessions s2 @ [dnext_game s]\<rparr>) = Ok s'"
    by (auto simp: Let_def)
  ultimately have "all_fresh s2"
    using DG_prepare_fresh by (auto simp: DG_PreparePlayerSessions_def with_game_def split: if_splits option.splits)
  then have "all_fresh (s2\<lparr>dlGameSessions := dlGameSessions s2 @ [dnext_game s]\<rparr>)" by (simp add: all_fresh_def)
  from Cons.IH [OF go this] show ?case .
qed simp

section \<open>The book over all threads\<close>

definition timed_on :: "nat set \<Rightarrow> 'w load_threads \<Rightarrow> nat \<Rightarrow> nat" where
  "timed_on I c sid = (\<Sum>i\<in>I. timed (lt_queue c i) sid)"

lemma timed_on_state [simp]: "timed_on I (c\<lparr>lt_state := s\<rparr>) = timed_on I c"
  by (simp add: timed_on_def fun_eq_iff)

lemma timed_on_ready [simp]: "timed_on I (c\<lparr>lt_ready := R\<rparr>) = timed_on I c"
  by (simp add: timed_on_def fun_eq_iff)

definition threads_ok :: "nat \<Rightarrow> 'w load_threads \<Rightarrow> bool" where
  "threads_ok n c \<longleftrightarrow> book_ok (lt_ready c) {} {} (timed_on {..<n} c) (None, None) (dcontexts (lt_state c))
     (dnext_context (lt_state c)) [] 0 (accounts (lt_state c)) \<and> (\<forall>i<n. pq_inv (lt_queue c i))"

lemma book_swap:
  assumes "book_ok R X E H J C k q T P" and "timer_ok J' q' T'" and "\<And>t. timed q' t + H' t = timed q t + H t"
  shows "book_ok R X E H' J' C k q' T' P"
proof -
  have "issued C q' H' t a = issued C q H t a" for t a
  proof -
    have "int (timed q' t) + int (H' t) = int (timed q t) + int (H t)" using assms(3) by (metis of_nat_add)
    then show ?thesis by (simp add: issued_def)
  qed
  with assms(1,2) show ?thesis by (simp add: book_ok_def balanced_def)
qed

lemma split_thread: "i < n \<Longrightarrow> timed_on {..<n} c sid = timed (lt_queue c i) sid + timed_on ({..<n} - {i}) c sid"
  unfolding timed_on_def by (rule sum.remove) simp_all

lemma enter_thread:
  assumes "threads_ok n c" and "i < n"
  shows "d_ok (lt_ready c) {} {} (timed_on ({..<n} - {i}) c) (None, None) (on_thread i c)"
proof -
  have "accounts (on_thread i c) = accounts (lt_state c)" by (simp add: on_thread_def accounts_def fun_eq_iff)
  moreover have "timer_jobs (on_thread i c) = lt_queue c i" by (simp add: on_thread_def timer_jobs_def)
  moreover have "book_ok (lt_ready c) {} {} (timed_on ({..<n} - {i}) c) (None, None) (dcontexts (lt_state c))
      (dnext_context (lt_state c)) (lt_queue c i) T (accounts (lt_state c))" for T
    by (rule book_swap [OF conjunct1 [OF assms(1) [unfolded threads_ok_def]]])
      (use assms split_thread [OF assms(2), of c] in \<open>simp_all add: threads_ok_def timer_ok_def timed_def\<close>)
  ultimately show ?thesis by (simp add: d_ok_def) (simp add: on_thread_def)
qed

lemma leave_thread:
  assumes "threads_ok n c" and "i < n" and "d_ok (lt_ready c) {} {} (timed_on ({..<n} - {i}) c) (None, None) s"
  shows "threads_ok n (off_thread i s c)"
proof -
  have rest: "timed_on ({..<n} - {i}) (off_thread i s c) = timed_on ({..<n} - {i}) c"
    by (rule ext) (simp add: timed_on_def off_thread_def)
  have "timed_on {..<n} (off_thread i s c) t = timed (timer_jobs s) t + timed_on ({..<n} - {i}) c t" for t
    using split_thread [OF assms(2), of "off_thread i s c" t] by (simp add: rest) (simp add: off_thread_def)
  then have "book_ok (lt_ready c) {} {} (timed_on {..<n} (off_thread i s c)) (None, None) (dcontexts s)
      (dnext_context s) [] 0 (accounts s)"
    by (intro book_swap [OF assms(3) [unfolded d_ok_def]]) (simp_all add: timer_ok_def timed_def pq_inv_def)
  moreover have "pq_inv (timer_jobs s)" using assms(3) by (simp add: d_ok_def book_ok_def timer_ok_def)
  ultimately show ?thesis using assms(1) by (simp add: threads_ok_def) (simp add: off_thread_def)
qed

lemma enter_main:
  assumes "threads_ok n c"
  shows "d_ok (lt_ready c) {} {} (timed_on {..<n} c) (None, None) (on_main c)"
proof -
  have "accounts (on_main c) = accounts (lt_state c)" by (simp add: on_main_def accounts_def fun_eq_iff)
  moreover have "book_ok (lt_ready c) {} {} (timed_on {..<n} c) (None, None) (dcontexts (lt_state c))
      (dnext_context (lt_state c)) [] T (accounts (lt_state c))" for T
    by (rule book_swap [OF conjunct1 [OF assms [unfolded threads_ok_def]]]) (simp_all add: timer_ok_def pq_inv_def)
  ultimately show ?thesis by (simp add: d_ok_def) (simp add: on_main_def timer_jobs_def)
qed

lemma leave_main:
  assumes "threads_ok n c" and "d_ok R {} {} (timed_on {..<n} c) (None, None) s" and "timer_jobs s = []"
  shows "threads_ok n (c\<lparr>lt_ready := R, lt_state := s\<rparr>)"
proof -
  have t: "timed_on {..<n} (c\<lparr>lt_ready := R, lt_state := s\<rparr>) = timed_on {..<n} c" by (simp add: timed_on_def fun_eq_iff)
  have "book_ok R {} {} (timed_on {..<n} c) (None, None) (dcontexts s) (dnext_context s) [] 0 (accounts s)"
    by (rule book_swap [OF assms(2) [unfolded d_ok_def]]) (simp_all add: timer_ok_def timed_def pq_inv_def assms(3))
  with assms(1) show ?thesis by (simp add: threads_ok_def t)
qed

section \<open>The main thread\<close>

lemma timer_untouched:
  "dprint t s = Ok s' \<Longrightarrow> dLTimer s' = dLTimer s" "dprint_error e u s = Ok s' \<Longrightarrow> dLTimer s' = dLTimer s"
  "DS_AddRef sid s = Ok s' \<Longrightarrow> dLTimer s' = dLTimer s"
  "new_dcontext ctx s = Ok (x, s') \<Longrightarrow> dLTimer s' = dLTimer s"
  "DeleteDummyContext y s = Ok s' \<Longrightarrow> dLTimer s' = dLTimer s"
proof -
  show p: "dprint t s = Ok s' \<Longrightarrow> dLTimer s' = dLTimer s" for t by (auto simp: dprint_def)
  show "dprint_error e u s = Ok s' \<Longrightarrow> dLTimer s' = dLTimer s" by (auto simp: dprint_error_def intro: p)
  show a: "DS_AddRef sid s = Ok s' \<Longrightarrow> dLTimer s' = dLTimer s" for sid s'
    by (auto simp: DS_AddRef_def with_dsession_def split: option.splits if_splits)
  show "new_dcontext ctx s = Ok (x, s') \<Longrightarrow> dLTimer s' = dLTimer s" by (auto simp: new_dcontext_def dest: a)
  show "DeleteDummyContext y s = Ok s' \<Longrightarrow> dLTimer s' = dLTimer s"
    by (auto simp: DeleteDummyContext_def DS_ReleaseRef_def with_dsession_def DS_OnRelease_def Let_def
        split: option.splits if_splits)
qed

lemma disconnect_timer: "DS_DisconnectRequest e sid dr s = Ok s' \<Longrightarrow> dLTimer s' = dLTimer s"
  by (auto simp: DS_DisconnectRequest_def with_dsession_def Let_def case_prod_beta split: option.splits if_splits started.splits
      dest!: timer_untouched) (meson started.exhaust)+

lemma connect_timer: "DP_ConnectRequest e sid p idx s = Ok (r, s') \<Longrightarrow> dLTimer s' = dLTimer s"
  by (auto simp: DP_ConnectRequest_def with_dsession_def Let_def case_prod_beta split: option.splits if_splits started.splits
      dest!: timer_untouched) (meson started.exhaust)+

lemma connect_balances:
  assumes ok: "d_ok R {} {} H J s" and R: "sid \<in> R"
  shows "keeping (\<lambda>(r, s'). d_ok (R - {sid}) {} {} H J s') (bnd (DS_AddRef sid s) (DP_ConnectRequest e sid p idx))"
proof (cases "dsessions s sid")
  case (Some c)
  note a = accounts_some [OF Some] and book = ok [unfolded d_ok_def]
  note bal = book_account(1) [OF book a]
  have zero: "issued (dcontexts s) (timer_jobs s) H sid (account_of c) = 0" "dsSendRequestedCount c = 0"
    "link_tokens (dcontexts s) {} sid (account_of c) = 0"
    using bal R book_account(3) [OF book a] by (auto simp: balanced_def)
  let ?s1 = "more_refs 1 sid s"
  have acc: "accounts ?s1 = (accounts s)(sid \<mapsto> (account_of c)\<lparr>ac_refs := ac_refs (account_of c) + 1\<rparr>)"
    using Some by (simp add: accounts_upd account_of_def)
  have one: "issued (dcontexts s) (timer_jobs s) H sid ((account_of c)\<lparr>ac_refs := ac_refs (account_of c) + 1\<rparr>) = 1"
    "link_tokens (dcontexts s) {} sid ((account_of c)\<lparr>ac_refs := ac_refs (account_of c) + 1\<rparr>) = 0"
    using zero by (simp_all add: issued_def link_tokens_def)
  have less: "book_ok (R - {sid}) {} {} H J (dcontexts s) (dnext_context s) (timer_jobs s) (dLTickCount s) (accounts s)"
    using book by (simp add: book_ok_def balanced_def)
  have "balanced (R - {sid}) {} {} H (dcontexts s) (timer_jobs s) sid ((account_of c)\<lparr>ac_refs := ac_refs (account_of c) + 1\<rparr>)"
    using bal one by (simp add: balanced_def sends_in_order_def offers_def)
  from book_update [OF less a this] have ok1: "d_ok (R - {sid}) {} {} H J ?s1" by (simp add: d_ok_def acc)
  have lf: "link_free {} H sid ?s1" using one by (simp add: link_free_def acc)
  have add: "DS_AddRef sid s = Ok ?s1"
    using book_account(2) [OF book a] Some by (simp add: DS_AddRef_def with_dsession_def)
  have off: "\<not> dsConnected c" using zero(3) by (auto simp: link_tokens_def)
  show ?thesis
  proof (cases "dgames ?s1 (dpOwnerGameSession c)")
    case (Some g)
    let ?addr = "(dinet_addr e (dgIpAddress g), word_of_int (dgPort g))"
    let ?s2 = "upd_dsession sid (\<lambda>c. c\<lparr>dpConnectAddr := ?addr\<rparr>) ?s1" and ?ctx = "dcontext sid DIO_CONNECT"
    have ok2: "d_ok (R - {sid}) {} {} H J ?s2" using ok1 by simp
    have acc2: "accounts ?s2 = accounts ?s1" by (rule accounts_same) (simp add: account_of_def)
    have lf2: "link_free {} H sid ?s2" using lf by (simp add: link_free_def acc2)
    have c2: "dsessions ?s2 sid = Some (c\<lparr>dsRefCount := dsRefCount c + 1, dpConnectAddr := ?addr\<rparr>)"
      using \<open>dsessions s sid = Some c\<close> by simp
    have ctx: "dcSessionObject ?ctx = sid" "dcIoType ?ctx = DIO_CONNECT" by (simp_all add: dcontext_def)
    have new: "new_dcontext ?ctx ?s2 = Ok (dnext_context ?s2, with_context ?ctx ?s2)"
      by (rule new_dcontext_run [OF ok2]) (use c2 ctx in simp)
    have fine: "d_ok (R - {sid}) {} {} H J ((with_context ?ctx ?s2)\<lparr>dworld := w\<rparr>)" for w
      by (rule with_context_keeps [OF ok2 c2 ctx(1)]) (use ctx(2) lf2 zero(2) in simp)
    have undo: "\<exists>s'. DeleteDummyContext (Some (dnext_context ?s2)) ((with_context ?ctx ?s2)\<lparr>dworld := w\<rparr>) = Ok s' \<and>
        d_ok (R - {sid}) {} {} H J s'" for w
      using undo_context [OF ok2 c2 ctx(1), of w] ctx(2) by auto
    obtain r w where r: "dconnect e (dsSocket c) (fst ?addr) (snd ?addr) (dworld (with_context ?ctx ?s2)) = (r, w)" by force
    have fin: "keeping (\<lambda>(r, s'). d_ok (R - {sid}) {} {} H J s') (bnd (case r of
        IoStarted \<Rightarrow> Ok ((with_context ?ctx ?s2)\<lparr>dworld := w\<rparr>)
      | IoFailed \<Rightarrow> bnd (DeleteDummyContext (Some (dnext_context ?s2)) ((with_context ?ctx ?s2)\<lparr>dworld := w\<rparr>))
                      (dprint_error e ''PlayerSession::ConnectRequest Error : ''))
        (\<lambda>s3. Ok (True, upd_dsession sid (\<lambda>c. c\<lparr>dpPlayerSessionId := p, dpPlayerIdx := idx\<rparr>) s3)))"
      using fine [of w] undo [of w]
      by (cases r) (auto intro!: keeping_bnd [where P = "d_ok (R - {sid}) {} {} H J"] dprint_error_balances)
    show ?thesis
      using fin \<open>dsessions s sid = Some c\<close> off Some
      by (cases r) (simp_all add: add DP_ConnectRequest_def with_dsession_def Let_def new [simplified] r [simplified])
  qed (use off Some in \<open>simp add: add DP_ConnectRequest_def with_dsession_def\<close>)
qed (simp add: DS_AddRef_def with_dsession_def)

lemma disconnect_all_balances:
  fixes s :: "'w load_client"
  shows "d_ok R {} {} H J s \<Longrightarrow> keeping (\<lambda>s'. d_ok R {} {} H J s' \<and> dLTimer s' = dLTimer s) (DG_disconnect e sids s)"
proof (induction sids arbitrary: s)
  case (Cons sid sids)
  have one: "keeping (\<lambda>s'. d_ok R {} {} H J s' \<and> dLTimer s' = dLTimer s)
      (if dsConnected c then DS_DisconnectRequest e sid DDR_ACTIVE s else Ok s)" for c
    using disconnect_balances' [OF Cons.prems, of e sid DDR_ACTIVE]
    by (cases "DS_DisconnectRequest e sid DDR_ACTIVE s") (auto simp: Cons.prems disconnect_timer)
  show ?case
    unfolding DG_disconnect.simps
  proof (rule keeping_with, rule keeping_bnd [OF one])
    fix s1 :: "'w load_client" assume s1: "d_ok R {} {} H J s1 \<and> dLTimer s1 = dLTimer s"
    from Cons.IH [OF conjunct1 [OF s1]]
    show "keeping (\<lambda>s'. d_ok R {} {} H J s' \<and> dLTimer s' = dLTimer s) (DG_disconnect e sids s1)"
      by (rule keeping_weaken) (use s1 in simp)
  qed
qed simp

lemma terminate_balances:
  fixes s :: "'w load_client"
  shows "d_ok R {} {} H J s \<Longrightarrow> keeping (\<lambda>s'. d_ok R {} {} H J s' \<and> dLTimer s' = dLTimer s) (DL_terminate e gids s)"
proof (induction gids arbitrary: s)
  case (Cons gid gids)
  have one: "keeping (\<lambda>s'. d_ok R {} {} H J s' \<and> dLTimer s' = dLTimer s) (DG_DisconnectPlayerSessions e gid s)"
    using disconnect_all_balances [OF Cons.prems]
    by (auto simp: DG_DisconnectPlayerSessions_def with_game_def split: option.splits)
  show ?case
    unfolding DL_terminate.simps
  proof (rule keeping_bnd [OF one])
    fix s1 :: "'w load_client" assume s1: "d_ok R {} {} H J s1 \<and> dLTimer s1 = dLTimer s"
    from Cons.IH [OF conjunct1 [OF s1]]
    show "keeping (\<lambda>s'. d_ok R {} {} H J s' \<and> dLTimer s' = dLTimer s) (DL_terminate e gids s1)"
      by (rule keeping_weaken) (use s1 in simp)
  qed
qed simp

section \<open>Every step keeps the book\<close>

lemma main_timer: "dLTimer s = dLTimer (on_main c) \<Longrightarrow> timer_jobs s = []"
  by (simp add: on_main_def timer_jobs_def)

lemma load_step_keeps:
  assumes ok: "threads_ok n c" and "load_step e n c c'"
  shows "threads_ok n c'"
  using assms(2)
proof cases
  case (ls_job i k r s')
  have "\<not> connect_refused e k (on_thread i c)" using connect_refused_ends(1) ls_job(4) by blast
  from keeping_optD(1) [OF job_balances [OF enter_thread [OF ok ls_job(2)] this ls_job(3)] ls_job(4)]
  show ?thesis unfolding ls_job(1) by (intro leave_thread [OF ok ls_job(2)]) simp
next
  case (ls_timer i s')
  from keeping_optD(1) [OF timer_balances [OF enter_thread [OF ok ls_timer(2)]] ls_timer(3)]
  show ?thesis unfolding ls_timer(1) by (rule leave_thread [OF ok ls_timer(2)])
next
  case (ls_connect sid p idx r s')
  have "dLTimer s' = dLTimer (on_main c)" using ls_connect(3) by (auto dest!: connect_timer timer_untouched(3))
  with keepingD(1) [OF connect_balances [OF enter_main [OF ok] ls_connect(2)] ls_connect(3)]
  show ?thesis unfolding ls_connect(1) by (intro leave_main [OF ok _ main_timer]) simp_all
next
  case (ls_terminate s')
  from keepingD(1) [OF terminate_balances [OF enter_main [OF ok]] ls_terminate(2) [unfolded DL_TerminateGameSessions_def]]
  have "threads_ok n (c\<lparr>lt_ready := lt_ready c, lt_state := s'\<rparr>)" by (intro leave_main [OF ok _ main_timer]) simp_all
  then show ?thesis by (simp add: ls_terminate(1))
next
  case (ls_other s')
  then show ?thesis using ok by (simp add: threads_ok_def)
qed

lemma load_init_ok:
  assumes "load_init e c"
  shows "threads_ok n c"
proof -
  from assms obtain s0 games where "unborn s0" "DL_PrepareGameSessions e games s0 = Ok (lt_state c)"
    by (auto simp: load_init_def)
  then have "all_fresh (lt_state c)"
    unfolding DL_PrepareGameSessions_def by (elim DL_prepare_fresh) (simp add: unborn_def all_fresh_def)
  then have f: "dcontexts (lt_state c) = (\<lambda>_. None)"
    "accounts (lt_state c) sid = Some a \<Longrightarrow> a =
       \<lparr>ac_refs = 0, ac_connected = False, ac_pending = 0, ac_buffer = CircularBuffer_new DUMMY_BUFSIZE []\<rparr>" for sid a
    by (auto simp: all_fresh_def accounts_def)
  have q: "lt_queue c i = []" for i using assms by (simp add: load_init_def)
  have none: "ctxs_of (\<lambda>_. None) sid = {}" "waiting (\<lambda>_. None) X ts sid = {}" for sid X ts
    by (simp_all add: ctxs_of_def waiting_def)
  have "cb_inv (CircularBuffer_new DUMMY_BUFSIZE [])" by (rule CircularBuffer_new_spec) (simp add: DUMMY_BUFSIZE_def)
  then show ?thesis
    unfolding threads_ok_def book_ok_def ids_ok_def timer_ok_def balanced_def sends_in_order_def link_tokens_def issued_def f(1)
    by (auto dest!: f(2) simp: none timed_on_def timed_def q pq_inv_def)
qed

interpretation load: invariant_system "load_init e" "load_step e n" "threads_ok n" for e :: "'w dummy_env" and n
  by unfold_locales (auto intro: load_init_ok load_step_keeps)

lemma reached_account:
  assumes "reach (load_init e) (load_step e n) c" and "dsessions (lt_state c) sid = Some d"
  shows "balanced (lt_ready c) {} {} (timed_on {..<n} c) (dcontexts (lt_state c)) [] sid (account_of d)"
    and "finite (waiting (dcontexts (lt_state c)) {} ts sid)"
proof -
  have "threads_ok n c" by (rule load.inv_reach [OF assms(1)])
  then have book: "book_ok (lt_ready c) {} {} (timed_on {..<n} c) (None, None) (dcontexts (lt_state c))
     (dnext_context (lt_state c)) [] 0 (accounts (lt_state c))" by (simp add: threads_ok_def)
  from book_account(1) [OF book accounts_some [OF assms(2)]]
  show "balanced (lt_ready c) {} {} (timed_on {..<n} c) (dcontexts (lt_state c)) [] sid (account_of d)" .
  from next_free [OF book] show "finite (waiting (dcontexts (lt_state c)) {} ts sid)" by blast
qed

text \<open>C14. The reference counts of the load clients add up. Whatever the servers, the kernel and the
  service do, on any number of worker threads that take one job at a time in any order: the count of a session is the number of its overlapped calls
  in flight, plus the number of its elements in the threads' timers, plus one reference of its own; it holds its
  own for as long as it connects, is connected or disconnects, and those three exclude each other.\<close>

theorem reference_counts:
  assumes "reach (load_init e) (load_step e n) c" and "dsessions (lt_state c) sid = Some d"
  shows "\<exists>own. own \<in> {0, 1} \<and>
    dsRefCount d = int (card (ctxs_of (dcontexts (lt_state c)) sid)) + int (\<Sum>i<n. timed (lt_queue c i) sid) + own \<and>
    int (card (waiting (dcontexts (lt_state c)) {} {DIO_CONNECT, DIO_DISCONNECT} sid)) + (if dsConnected d then 1 else 0) \<le> own"
proof -
  note b = reached_account(1) [OF assms]
  let ?own = "issued (dcontexts (lt_state c)) [] (timed_on {..<n} c) sid (account_of d)"
  have "0 \<le> link_tokens (dcontexts (lt_state c)) {} sid (account_of d)" by (simp add: link_tokens_def)
  with b have "?own \<in> {0, 1}" by (auto simp: balanced_def)
  moreover have "dsRefCount d = int (card (ctxs_of (dcontexts (lt_state c)) sid)) + int (\<Sum>i<n. timed (lt_queue c i) sid) + ?own"
    by (simp add: issued_def timed_def [of "[]"] timed_on_def)
  moreover have "int (card (waiting (dcontexts (lt_state c)) {} {DIO_CONNECT, DIO_DISCONNECT} sid)) +
      (if dsConnected d then 1 else 0) \<le> ?own"
    using b by (simp add: balanced_def link_tokens_def)
  ultimately show ?thesis by blast
qed

text \<open>C15. The assertions of the load clients on counts never fail. In every state they reach, no
  timer pass, no connect request of a prepared session and no shutdown fails a \<^verbatim>\<open>CRASH_ASSERT\<close>, and
  a completion on a worker (of a send, a receive, a connect or a disconnect, complete, partial or failed)
  fails one exactly when it is a connect whose socket options the system then refuses to set, which the two
  assertions of \<^verbatim>\<open>ConnectCompletion\<close> on \<^verbatim>\<open>setsockopt\<close> test. So a
  count is not negative when it goes up and positive when it goes down, a completed send was requested, a
  session connects once. (That a refusal ends in the assertion needs the error code to fit the log line.)\<close>

theorem count_assertions_hold:
  assumes "reach (load_init e) (load_step e n) c"
  shows "(\<forall>i k. i < n \<and> port_gives k \<longrightarrow>
       (DW_DoIocpJob e k (on_thread i c) = Some (Fault CrashAssert) \<longrightarrow> connect_refused e k (on_thread i c)) \<and>
       (connect_refused e k (on_thread i c) \<and> errors_fit e \<longrightarrow>
          DW_DoIocpJob e k (on_thread i c) = Some (Fault CrashAssert))) \<and>
    (\<forall>i. i < n \<longrightarrow> D_DoTimerJob e (on_thread i c) \<noteq> Some (Fault CrashAssert)) \<and>
    (\<forall>sid p idx. sid \<in> lt_ready c \<longrightarrow> bnd (DS_AddRef sid (on_main c)) (DP_ConnectRequest e sid p idx) \<noteq> Fault CrashAssert) \<and>
    DL_TerminateGameSessions e (on_main c) \<noteq> Fault CrashAssert"
proof -
  have ok: "threads_ok n c" by (rule load.inv_reach [OF assms(1)])
  have "DW_DoIocpJob e k (on_thread i c) \<noteq> Some (Fault CrashAssert)"
    if "i < n" "port_gives k" "\<not> connect_refused e k (on_thread i c)" for i k
    by (rule keeping_optD(2) [OF job_balances [OF enter_thread [OF ok that(1)] that(3,2)]])
  then show ?thesis
    using keeping_optD(2) [OF timer_balances [OF enter_thread [OF ok]]] connect_refused_ends(2)
      keepingD(2) [OF connect_balances [OF enter_main [OF ok]]]
      keepingD(2) [OF terminate_balances [OF enter_main [OF ok]]]
    unfolding DL_TerminateGameSessions_def by blast
qed

text \<open>C16. The load clients send in order. In every state they reach, \<^verbatim>\<open>mSendRequestedCount\<close> is 0 or
  1 and bounds the session's sends in flight; for a connected session it is their number, so what waits in the
  send buffer always has a completion to wait for; and the bytes of the send in flight are still the
  first bytes of the send buffer, at the address given to \<^verbatim>\<open>WSASend\<close>.\<close>

theorem load_sends_in_order:
  assumes "reach (load_init e) (load_step e n) c" and "dsessions (lt_state c) sid = Some d"
  defines "flying \<equiv> waiting (dcontexts (lt_state c)) {} {DIO_SEND} sid"
  shows "int (card flying) \<le> dsSendRequestedCount d \<and> dsSendRequestedCount d \<le> 1 \<and>
    (dsConnected d \<longrightarrow> dsSendRequestedCount d = int (card flying)) \<and>
    (\<forall>x ctx p. x \<in> flying \<longrightarrow> dcontexts (lt_state c) x = Some ctx \<longrightarrow> 0 < dcWsaLen ctx \<longrightarrow> dcWsaBuf ctx = Some p \<longrightarrow>
       mem_read p (dcWsaLen ctx) (mBuffer (dsSendBuffer d)) = Ok (take (dcWsaLen ctx) (contents (dsSendBuffer d))))"
proof -
  note b = reached_account(1) [OF assms(1,2)]
  have fin: "finite flying" unfolding flying_def by (rule reached_account(2) [OF assms(1,2)])
  have s: "cb_inv (dsSendBuffer d)" "dsSendRequestedCount d \<in> {0, 1}"
    "dsConnected d \<Longrightarrow> dsSendRequestedCount d = 1 \<Longrightarrow> flying \<noteq> {}"
    "\<And>x. x \<in> flying \<Longrightarrow> offers (the (dcontexts (lt_state c) x)) (account_of d)"
    "\<And>x y. x \<in> flying \<Longrightarrow> y \<in> flying \<Longrightarrow> x = y"
    using b by (simp_all add: balanced_def sends_in_order_def flying_def)
  have one: "card flying = (if flying = {} then 0 else 1)"
  proof (cases "flying = {}")
    case False
    then obtain x where "x \<in> flying" by blast
    then have "flying = {x}" using s(5) by blast
    then show ?thesis by simp
  qed simp
  have p: "dsSendRequestedCount d = 1" if "flying \<noteq> {}" using that s(4) by (auto simp: offers_def)
  have region: "mem_read p (dcWsaLen ctx) (mBuffer (dsSendBuffer d)) = Ok (take (dcWsaLen ctx) (contents (dsSendBuffer d)))"
    if "x \<in> flying" "dcontexts (lt_state c) x = Some ctx" "0 < dcWsaLen ctx" "dcWsaBuf ctx = Some p" for x ctx p
  proof -
    have o: "dcWsaLen ctx \<le> GetContiguiousBytes (dsSendBuffer d)" "GetBufferStart (dsSendBuffer d) = Some p"
      using s(4) [OF that(1)] that(2-4) by (simp_all add: offers_def)
    from contiguous_spec(3) [OF s(1) o(1)] o(2) that(3) show ?thesis by (simp add: front_def)
  qed
  show ?thesis using one p s(2,3) region by auto
qed

section \<open>A run\<close>

text \<open>One session is prepared, and its connect request is made.\<close>

definition one_dummy :: "unit load_client" where
  "one_dummy = (load_client_new [] [] [] ())\<lparr>dExcept := MAX_PLAYER_PER_GAME - 1\<rparr>"

lemma one_prepared:
  "\<exists>s. DL_PrepareGameSessions calm_env 1 one_dummy = Ok s \<and> dsessions s = [0 \<mapsto> DP_new 0 0] \<and>
    dcontexts s = (\<lambda>_. None) \<and> dnext_context s = 0 \<and> dgames s 0 \<noteq> None"
  by (simp add: DL_PrepareGameSessions_def one_dummy_def load_client_new_def Let_def DG_PreparePlayerSessions_def
      with_game_def DG_new_def numeral_eq_Suc dsys_do_def calm_env_def DP_PrepareSession_def with_dsession_def upd_game_def)

lemma one_connecting:
  "\<exists>c d. reach (load_init calm_env) (load_step calm_env n) c \<and> dsessions (lt_state c) 0 = Some d \<and> dsRefCount d = 2 \<and>
    dcontexts (lt_state c) = [0 \<mapsto> dcontext 0 DIO_CONNECT]"
proof -
  obtain s g where s: "DL_PrepareGameSessions calm_env 1 one_dummy = Ok s" "dsessions s = [0 \<mapsto> DP_new 0 0]"
    "dcontexts s = (\<lambda>_. None)" "dnext_context s = 0" "dgames s 0 = Some g" using one_prepared by auto
  define c0 where "c0 = \<lparr>lt_ready = {0}, lt_queue = \<lambda>_. [], lt_tick = \<lambda>_. 0, lt_state = s\<rparr>"
  have "unborn one_dummy" by (simp add: unborn_def one_dummy_def load_client_new_def)
  then have "load_init calm_env c0" using s(1,2) unfolding load_init_def by (auto simp: c0_def)
  then have r0: "reach (load_init calm_env) (load_step calm_env n) c0" by (rule reach_init)
  have on: "dsessions (on_main c0) = [0 \<mapsto> DP_new 0 0]" "dcontexts (on_main c0) = (\<lambda>_. None)"
    "dnext_context (on_main c0) = 0" "dgames (on_main c0) 0 = Some g"
    using s by (simp_all add: on_main_def c0_def)
  have "\<exists>s' d. bnd (DS_AddRef 0 (on_main c0)) (DP_ConnectRequest calm_env 0 [] 0) = Ok (True, s') \<and>
      dsessions s' 0 = Some d \<and> dsRefCount d = 2 \<and> dcontexts s' = [0 \<mapsto> dcontext 0 DIO_CONNECT]"
    by (simp add: DS_AddRef_def with_dsession_def on DP_ConnectRequest_def Let_def new_dcontext_def calm_env_def
        dcontext_def upd_dsession_def DP_new_def)
  then obtain s' d where s': "bnd (DS_AddRef 0 (on_main c0)) (DP_ConnectRequest calm_env 0 [] 0) = Ok (True, s')"
    "dsessions s' 0 = Some d" "dsRefCount d = 2" "dcontexts s' = [0 \<mapsto> dcontext 0 DIO_CONNECT]" by blast
  have "0 \<in> lt_ready c0" by (simp add: c0_def)
  from reach_step [OF r0 ls_connect [OF this s'(1)]] s'(2-4) show ?thesis
    by (intro exI [of _ "c0\<lparr>lt_ready := lt_ready c0 - {0}, lt_state := s'\<rparr>"] exI [of _ d]) simp
qed

lemma reference_counts_witness:
  "\<exists>c d. reach (load_init calm_env) (load_step calm_env 2) c \<and> dsessions (lt_state c) 0 = Some d \<and> dsRefCount d = 2 \<and>
     int (card (ctxs_of (dcontexts (lt_state c)) 0)) + int (\<Sum>i<2. timed (lt_queue c i) 0) \<in> {1, 2}"
proof -
  obtain c d where c: "reach (load_init calm_env) (load_step calm_env 2) c" "dsessions (lt_state c) 0 = Some d" "dsRefCount d = 2"
    using one_connecting by blast
  from reference_counts [OF c(1,2)] obtain own where "own \<in> {0, 1}"
    "2 = int (card (ctxs_of (dcontexts (lt_state c)) 0)) + int (\<Sum>i<2. timed (lt_queue c i) 0) + own"
    unfolding c(3) by blast
  then have "int (card (ctxs_of (dcontexts (lt_state c)) 0)) + int (\<Sum>i<2. timed (lt_queue c i) 0) \<in> {1, 2}" by auto
  with c show ?thesis by blast
qed

lemma count_assertions_hold_witness:
  "\<exists>c. reach (load_init calm_env) (load_step calm_env 2) c \<and> dcontexts (lt_state c) 0 = Some (dcontext 0 DIO_CONNECT) \<and>
     DW_DoIocpJob calm_env \<lparr>dret = 1, dtransferred = 0, dcompleted = Some 0, dstop = False, dtimed_out = False\<rparr>
       (on_thread 1 c) \<noteq> Some (Fault CrashAssert)"
proof -
  let ?k = "\<lparr>dret = 1, dtransferred = 0, dcompleted = Some 0, dstop = False, dtimed_out = False\<rparr>"
  obtain c where c: "reach (load_init calm_env) (load_step calm_env 2) c" "dcontexts (lt_state c) 0 = Some (dcontext 0 DIO_CONNECT)"
    using one_connecting [of 2] by fastforce
  have "port_gives ?k" "\<not> connect_refused calm_env ?k (on_thread 1 c)"
    by (auto simp: port_gives_def connect_refused_def options_refused_def dsys_do_def calm_env_def split: option.splits)
  with conjunct1 [OF count_assertions_hold [OF c(1)], rule_format, of 1 ?k]
  have "DW_DoIocpJob calm_env ?k (on_thread 1 c) \<noteq> Some (Fault CrashAssert)" by simp
  with c show ?thesis by blast
qed

lemma load_sends_in_order_witness:
  "\<exists>c d. reach (load_init calm_env) (load_step calm_env 2) c \<and> dsessions (lt_state c) 0 = Some d \<and>
     int (card (waiting (dcontexts (lt_state c)) {} {DIO_SEND} 0)) \<le> dsSendRequestedCount d \<and> dsSendRequestedCount d \<le> 1"
proof -
  obtain c d where c: "reach (load_init calm_env) (load_step calm_env 2) c" "dsessions (lt_state c) 0 = Some d"
    using one_connecting by blast
  from load_sends_in_order [OF c] c show ?thesis by blast
qed

end
