(* ===== verification/Spec2Isabelle.thy ===== *)
theory Spec2Isabelle
  imports LinuxInvariant EndToEnd Spinlock ObjPool WinThread WinLocks IniParser EventLogs JobProofs DummyThreads
begin

text \<open>
  A verification development for the GameLift sample: two game servers (one for Linux, one for Windows),
  a game client and a load generator, which exchange the packets of \<^verbatim>\<open>PacketShare/PacketType.h\<close> over TCP
  and find each other through Amazon GameLift.

  \<^bold>\<open>The program and its parts.\<close> A server accepts connections; the bytes of a connection go into a
  circular buffer, are cut into packets by the size in the packet header, and a handler per packet type
  serves them: a login is accepted through the GameLift SDK, a chat or a move is broadcast to the players of
  the game session, an exit ends the player's session. Everything sent goes through a second circular buffer
  that is flushed when the socket takes bytes. The Linux server (\<^verbatim>\<open>GameLiftLinuxServer\<close>) does so in one thread
  on epoll, with a timer that beats for every client; the Windows server
  (\<^verbatim>\<open>GameLiftGameServer/GameLiftGameServer\<close>) and the load clients (\<^verbatim>\<open>DummyClients/DummyClients\<close>) use overlapped
  calls on an I/O completion port, with worker threads, spin locks and an object pool; the load clients give
  each player a job dispatcher that runs its tasks one at a time. The game client
  (\<^verbatim>\<open>Cocos2dxGameClient/Classes\<close>) receives on a thread of its own and calls into its scene.

  \<^bold>\<open>Theories and sources.\<close>

  \<^item> \<^verbatim>\<open>Prelude\<close>: bytes, the result type of a piece of C++ (\<^verbatim>\<open>outcome\<close>: a value or the \<^verbatim>\<open>fault\<close> that ends its
    defined behaviour: a failed assertion, a dangling or null pointer, an overrun, a blocked thread, a process that
    ended), memory regions by offset, counting lemmas, and transition systems with their reachable states (locale
    \<^verbatim>\<open>invariant_system\<close>).
  \<^item> \<^verbatim>\<open>CircBuf\<close>: \<^verbatim>\<open>CircularBuffer.h\<close> and \<^verbatim>\<open>.cpp\<close>, whose four copies agree; each method is one
    definition, pointers are offsets. The locale \<^verbatim>\<open>byte_queue\<close> says what the
    servers rely on; its interpretation proves it of the model.
  \<^item> \<^verbatim>\<open>Packets\<close>: the packed structs of \<^verbatim>\<open>PacketType.h\<close> and their bytes. \<^verbatim>\<open>Framing\<close>: the locale
    \<^verbatim>\<open>framing\<close> of byte streams cut into packets, interpreted on the clients' messages and on the servers'.
  \<^item> \<^verbatim>\<open>Console\<close>: \<^verbatim>\<open>Log.cpp\<close> of the Linux server with its 128-byte buffer. \<^verbatim>\<open>EventLogs\<close>: the ring logs
    of \<^verbatim>\<open>Log.h\<close>, \<^verbatim>\<open>Log.cpp\<close> and \<^verbatim>\<open>ThreadCallHistory\<close>.
  \<^item> \<^verbatim>\<open>Scheduling\<close>: \<^verbatim>\<open>Scheduler.cpp\<close> and the timers' loop (locale \<^verbatim>\<open>timer_queue\<close>, interpreted on an
    ordered list). \<^verbatim>\<open>WinTimer\<close>: \<^verbatim>\<open>Timer.cpp\<close> of the Windows server.
  \<^item> \<^verbatim>\<open>LinuxServer\<close>: \<^verbatim>\<open>ClientSession.cpp\<close>, \<^verbatim>\<open>ClientManager.cpp\<close>, \<^verbatim>\<open>PacketHandler.cpp\<close>,
    \<^verbatim>\<open>GameLiftManager.cpp\<close> and \<^verbatim>\<open>main.cpp\<close> of the Linux server on one record \<^verbatim>\<open>server\<close>; the objects held by
    \<^verbatim>\<open>shared_ptr\<close> are a store \<^verbatim>\<open>objs\<close>. \<^verbatim>\<open>LinuxFrames\<close>: what each operation leaves alone and when it does
    not fault. \<^verbatim>\<open>LinuxProofs\<close>: the receive path. \<^verbatim>\<open>LinuxSend\<close>: sending, broadcasts, timers, disconnecting.
    \<^verbatim>\<open>LinuxInvariant\<close>: the well-formedness of the whole server, kept by every turn of the event loop.
  \<^item> \<^verbatim>\<open>WinServer\<close>: the Windows server's \<^verbatim>\<open>Session\<close>, \<^verbatim>\<open>PlayerSession\<close>, \<^verbatim>\<open>GameSession\<close>,
    \<^verbatim>\<open>GameLiftManager\<close>, \<^verbatim>\<open>IOThread\<close>, \<^verbatim>\<open>IocpManager\<close> and main, with the locks a thread holds in the state.
    \<^verbatim>\<open>WinProofs\<close>: counting of players, the self-deadlock. \<^verbatim>\<open>WinSend\<close>: the discipline of overlapped sends.
    \<^verbatim>\<open>WinReceive\<close>: the receive path. \<^verbatim>\<open>WinPosted\<close>: the discipline of overlapped receives. \<^verbatim>\<open>WinLocks\<close>: two locks taken in opposite orders.
    \<^verbatim>\<open>WinThread\<close>: the loop of an I/O thread, a completion and a pass of its timer per turn.
  \<^item> \<^verbatim>\<open>Spinlock\<close>: both \<^verbatim>\<open>FastSpinlock.cpp\<close>; \<^verbatim>\<open>ObjPool\<close>: \<^verbatim>\<open>ObjectPool.h\<close>; \<^verbatim>\<open>JobDispatch\<close> and
    \<^verbatim>\<open>JobProofs\<close>: \<^verbatim>\<open>JobDispatcher.h\<close>. These are step relations over any number of threads.
  \<^item> \<^verbatim>\<open>DummyClient\<close>, \<^verbatim>\<open>DummyGames\<close>, \<^verbatim>\<open>DummyProofs\<close>: the load clients' sessions, players, timer and
    worker threads; their game sessions, GameLift manager and main; what is proved of them. \<^verbatim>\<open>DummyReceive\<close>: their
    receive path. \<^verbatim>\<open>DummyRefs\<close>: the book of contexts, timer elements and reference counts, and how each
    operation of a session balances it; \<^verbatim>\<open>DummyWorkers\<close>: the same for the jobs of a worker; \<^verbatim>\<open>DummyThreads\<close>:
    the main thread and any number of workers as a step relation, whose every state is balanced. \<^verbatim>\<open>IniParser\<close>:
    \<^verbatim>\<open>ini.c\<close> and \<^verbatim>\<open>INIReader.cpp\<close>, which read their configuration.
  \<^item> \<^verbatim>\<open>CocosClient\<close>, \<^verbatim>\<open>CocosProofs\<close>: \<^verbatim>\<open>TcpClient.cpp\<close> and \<^verbatim>\<open>GameLiftManager.cpp\<close> of the game client.
    \<^verbatim>\<open>CocosScene\<close>: its scene \<^verbatim>\<open>HelloWorldScene.cpp\<close>, its sprites in a store, and the start of the
    application. \<^verbatim>\<open>SceneProofs\<close>: the scene refines the picture that the messages of the server describe.
  \<^item> \<^verbatim>\<open>Float32\<close>: the \<^verbatim>\<open>float\<close> of the language, IEEE binary32 on 32-bit words, which the positions need.
  \<^item> \<^verbatim>\<open>EndToEnd\<close> and the end of this theory: a chat and a move from a game client
    through the Linux server to a game client.

  \<^bold>\<open>What the groups of lemmas show.\<close> The circular buffer is a bounded byte queue and none of its
  assertions or copies faults; on top of it both servers and the game client serve exactly the messages of the
  stream they receive, in order, however it is cut, and so do the load clients; what is sent is transmitted once and in order; a broadcast
  reaches every player of the session, from the request of one game client to the screen of another; the server's state stays well formed. The timers run what is due, once, by due time. At most one overlapped send of
  a Windows session is in flight and no assertion of the send path fails; a connected one has exactly one
  receive in flight, and every byte that arrives for it is served. The reference
  counts of the load clients are what their overlapped calls and timers hold, none of their assertions fails except the two that test
  whether the system sets the options of a socket, and they too
  have at most one send of a session in flight. The locks exclude, and a free lock can be taken;
  a pool block has one owner; the job dispatcher runs one job of an object at a time, in the order of
  the exchanges, and leaves none behind. The configuration reader returns the names and values of a file. The
  remaining theorems pin down inputs on which the code does not do what it means to (the findings of the manifest):
  packets on which the dispatcher does not return, a closed peer taken for data, an iterator erased under iteration,
  buffers that are overrun, a lock entered twice, two locks taken in opposite orders, a packet that is not sent to its end,
  clients that all take the same number.

  \<^bold>\<open>Conventions.\<close> What is outside the repository is a parameter: the environment records
  (\<^verbatim>\<open>env\<close>, \<^verbatim>\<open>win_env\<close>, \<^verbatim>\<open>dummy_env\<close>, \<^verbatim>\<open>gc_env\<close>) give for every system call, SDK call or clock reading its
  result and the next state of a world the program never looks into, so a theorem holds for every
  behaviour of them that its hypotheses allow. Fields of packets are words of their width; sizes and
  pointer offsets are naturals with the subtraction on \<^verbatim>\<open>size_t\<close> written out where it can wrap; counters far from their
  bounds (ticks, log positions) are integers. A \<^verbatim>\<open>float\<close> is its 32 bits; sums, differences and quotients round to the nearest as IEEE 754
  has it. Loops that the code does not bound (\<^verbatim>\<open>DispatchPacket\<close>, \<^verbatim>\<open>OnReceive\<close>, the sends, the polls of
  GameLift) are \<^verbatim>\<open>partial_function (option)\<close>: \<^verbatim>\<open>None\<close> is a loop that does not end, and the theorems about them state that the result
  is \<^verbatim>\<open>Some\<close>, or prove that it is \<^verbatim>\<open>None\<close>. The event loop of the Linux server takes a number of turns, because the server's
  own loop has no end; what is proved is about one turn or one operation, or about the state after any number of turns. C++ leaves the order of evaluation of
  arguments open, which matters in one place: \<^verbatim>\<open>OnReceive\<close> of the Linux server calls \<^verbatim>\<open>read\<close> with
  \<^verbatim>\<open>GetBuffer()\<close> and \<^verbatim>\<open>GetFreeSpaceSize()\<close>, and the second may begin region B. The order is a
  parameter of the environment (\<^verbatim>\<open>args_rtl\<close>, right to left). The receive theorems hold for both orders as far as
  the program does: \<^verbatim>\<open>order_free\<close> asks of the left-to-right order that what is stored and what arrives end in the front half
  of the buffer, so that no region B is begun, which an empty buffer gives for up to half of its capacity; and
  \<^verbatim>\<open>OnReceive_left_to_right_overruns\<close> proves that beyond it the buffer can be overrun. The concurrent parts are interleavings of
  single accesses to shared memory, sequentially consistent; their theorems are about all reachable states. The
  states of the Windows server begin with a run of its \<^verbatim>\<open>main\<close> (\<^verbatim>\<open>win_started\<close>), those of the load clients with
  \<^verbatim>\<open>PrepareGameSessions\<close> and new timers. Operations of
  the Windows server and the load clients are otherwise one thread at a time, as the locks allow; \<^verbatim>\<open>DummyThreads\<close>
  interleaves the load clients' jobs, each of them one step.

  \<^bold>\<open>Not modelled.\<close> The vendored headers of the AWS SDKs (\<^verbatim>\<open>include/aws\<close>) and the code
  protoc generated in them, which the program only calls; what the Cocos engine does beneath the scene (drawing, the memory of its nodes, pausing in the background);
  the crash dumps (\<^verbatim>\<open>Exception.cpp\<close>), whose only effect is a file; small utilities,
  precompiled headers and the thread-local declarations, whose variables are fields of the states. The locks
  inside the load clients' operations are left out, since none is entered twice by one thread; neither is
  the memory order of the atomics weaker than sequential consistency, nor the freeing of a session while
  another thread still uses it.
\<close>

section \<open>A chat from client to client\<close>

text \<open>C6. A chat reaches every player. When a logged-in game client chats, its kernel gets one request
  packet; when the Linux server has received these bytes, in whatever pieces and whichever argument of
  \<^verbatim>\<open>read\<close> is evaluated first, \<^verbatim>\<open>OnReceive\<close> has returned
  after appending one and the same reply to what goes out to each player of the game session, and nothing to
  anyone else; and a game client that is sent the reply, again in any pieces, shows the chat once with the
  name of the player who wrote it.\<close>

theorem chat_reaches_players:
  assumes "takes_all ce log" and "s_TcpClient c = Some t" and "m_loginId t = 416"
    and "length chat < MAX_CHAT_LEN" and "0 \<notin> set chat"
    and "stream_socket e unread" and "good s" and "objs s sid = Some k" and "mConnected k"
    and "capacity (mRecvBuffer k) = BUFSIZE" and "contents (mRecvBuffer k) = []" and "distinct (mPlayerSessions s)"
    and "\<forall>p\<in>set (mPlayerSessions s). can_take s (chat_bytes (player_chat ChatBroadcastResult_new chat)) p"
    and "unread (world s) (mSocket k) = chat_bytes (player_chat ChatBroadcastRequest_new chat)"
    and "s_TcpClient (app_client a) = Some t'" and "m_recvBuffer t' = CircularBuffer_new BUF_SIZE cells"
    and "scene_calls (app_client a) = []" and "scene_ok (app_scene a)" and "image_loads v (lit ''Target.png'')"
    and "concat inBufs = chat_bytes (player_chat ChatBroadcastResult_new chat)"
    and "\<forall>inBuf\<in>set inBufs. inBuf \<noteq> [] \<and> length inBuf \<le> 4096"
  shows "(\<exists>c'. TC_chatRequest ce chat c = Some (Ok c') \<and>
      log (gc_world c') = log (gc_world c) @ chat_bytes (player_chat ChatBroadcastRequest_new chat)) \<and>
    (\<exists>s'. CS_OnReceive e sid s = Some (Ok s') \<and> (\<forall>p. outgoing s' p = outgoing s p @
      (if p \<in> set (mPlayerSessions s) then chat_bytes (player_chat ChatBroadcastResult_new chat) else []))) \<and>
    (\<exists>d a'. TC_networkThread inBufs (app_client a) = Some (Ok d) \<and> app_frame v (a\<lparr>app_client := d\<rparr>) = Ok a' \<and>
      heard (picture_of a') = heard (picture_of a) @ [chat_line (lit ''Player416'') chat])"
proof (intro conjI)
  show "\<exists>c'. TC_chatRequest ce chat c = Some (Ok c') \<and>
      log (gc_world c') = log (gc_world c) @ chat_bytes (player_chat ChatBroadcastRequest_new chat)"
    by (rule chat_request_sent [OF assms(1-4)])
  show "\<exists>s'. CS_OnReceive e sid s = Some (Ok s') \<and> (\<forall>p. outgoing s' p = outgoing s p @
      (if p \<in> set (mPlayerSessions s) then chat_bytes (player_chat ChatBroadcastResult_new chat) else []))"
    by (rule server_delivers_chat [OF assms(6-11,4,5,12-14)])
  have "\<forall>m\<in>set [SChat (player_chat ChatBroadcastResult_new chat)]. wf_server m"
    using reply_wf [OF assms(4)] by (simp only: list.set ball_simps simp_thms)
  from stream_on_screen [OF assms(15-19) this _ assms(21)] assms(20)
    reply_seen [OF assms(4,5), of "picture_of a"]
  show "\<exists>d a'. TC_networkThread inBufs (app_client a) = Some (Ok d) \<and> app_frame v (a\<lparr>app_client := d\<rparr>) = Ok a' \<and>
      heard (picture_of a') = heard (picture_of a) @ [chat_line (lit ''Player416'') chat]"
    by (fastforce simp: player_name_def simp del: see.simps TC_networkThread.simps)
qed

lemma chat_reaches_players_witness:
  "\<exists>s' a'. CS_OnReceive quiet_env 0 ((one_client [] (chat_bytes (player_chat ChatBroadcastRequest_new [72, 105])))
       \<lparr>mPlayerSessions := [0]\<rparr>) = Some (Ok s') \<and>
     outgoing s' 0 = chat_bytes (player_chat ChatBroadcastResult_new [72, 105]) \<and>
     heard (picture_of (a' :: unit cocos_app)) = [chat_line (lit ''Player416'') [72, 105]]"
proof -
  let ?c = "CGL_new [] []\<lparr>s_TcpClient := Some (TcpClient_new\<lparr>m_loginId := 416\<rparr>)\<rparr>"
  let ?req = "chat_bytes (player_chat ChatBroadcastRequest_new [72, 105])"
  let ?rep = "chat_bytes (player_chat ChatBroadcastResult_new [72, 105])"
  let ?s = "(one_client [] ?req)\<lparr>mPlayerSessions := [0]\<rparr>"
  obtain a :: "unit cocos_app" where a: "s_TcpClient (app_client a) = Some (TcpClient_new\<lparr>m_loginId := 416\<rparr>)"
    "scene_calls (app_client a) = []" "scene_ok (app_scene a)" "heard (picture_of a) = []"
    using logged_in_app [of "()"] by blast
  have chat: "length [72, 105 :: byte] < MAX_CHAT_LEN" "0 \<notin> set [72, 105 :: byte]" by (simp_all add: MAX_CHAT_LEN_def)
  have len: "length ?rep = 260"
    using server_length [OF reply_wf [OF chat(1)], of "[]"] by (simp add: player_chat_def chat_bytes_def)
  then have "length ?rep < BUFSIZE" by (simp add: BUFSIZE_def)
  note srv = one_player_server [OF this, where req = ?req]
  have "?rep \<noteq> []" "length ?rep \<le> 4096" using len by (fastforce, linarith)
  then have bufs: "concat [?rep] = ?rep" "\<forall>inBuf\<in>set [?rep]. inBuf \<noteq> [] \<and> length inBuf \<le> 4096"
    by (simp_all only: list.set ball_simps simp_thms concat.simps append_Nil2)
  have one: "mPlayerSessions ?s = [0]" by simp
  have client: "s_TcpClient ?c = Some (TcpClient_new\<lparr>m_loginId := 416\<rparr>)"
    "m_loginId (TcpClient_new\<lparr>m_loginId := 416\<rparr>) = 416"
    "m_recvBuffer (TcpClient_new\<lparr>m_loginId := 416\<rparr>) = CircularBuffer_new BUF_SIZE []"
    "image_loads desktop (lit ''Target.png'')"
    by (simp_all add: TcpClient_new_def desktop_def)
  from chat_reaches_players [OF eager_takes_all client(1,2) chat quiet_net srv(1,2) fresh_client srv(3,6,4) a(1) client(3) a(2,3) client(4) bufs,
      unfolded one a(4)]
  obtain s' and a' :: "unit cocos_app" where r: "CS_OnReceive quiet_env 0 ?s = Some (Ok s')"
    "\<forall>p. outgoing s' p = outgoing ?s p @ (if p \<in> set [0] then ?rep else [])"
    "heard (picture_of a') = [] @ [chat_line (lit ''Player416'') [72, 105]]"
    by blast
  have "outgoing s' 0 = ?rep" using r(2) srv(5) by simp
  with r(1,3) show ?thesis unfolding append_Nil by blast
qed

section \<open>A move from client to client\<close>

text \<open>C33. A move moves everyone. When the player of a logged-in game client presses the up key, one request
  with the position ten units above its sprite goes out; when the Linux server has received it, in whatever pieces and whichever argument of \<^verbatim>\<open>read\<close> is evaluated first,
  \<^verbatim>\<open>OnReceive\<close> has returned after appending one and the same reply to what goes out to each player of
  the game session; but every logged-in client that gets this reply moves its own sprite there, and no
  sprite of a peer, because all clients have taken the number 416 at their login.\<close>

theorem move_moves_every_player:
  assumes "takes_all ce log" and "s_TcpClient (app_client a0) = Some t" and "m_loginId t = 416"
    and "me (picture_of a0) = Some (x, y)"
    and "stream_socket e unread" and "good s" and "objs s sid = Some k" and "mConnected k"
    and "capacity (mRecvBuffer k) = BUFSIZE" and "contents (mRecvBuffer k) = []" and "distinct (mPlayerSessions s)"
    and "pos = (x, f32_add y (f32_of_int 10))"
    and "\<forall>p\<in>set (mPlayerSessions s). can_take s (move_bytes (player_move MoveBroadcastResult_new pos)) p"
    and "unread (world s) (mSocket k) = move_bytes (player_move MoveRequest_new pos)"
    and "s_TcpClient (app_client a) = Some t'" and "m_recvBuffer t' = CircularBuffer_new BUF_SIZE cells"
    and "scene_calls (app_client a) = []" and "scene_ok (app_scene a)" and "image_loads v (lit ''Target.png'')"
    and "m_loginId t' = 416" and "concat inBufs = move_bytes (player_move MoveBroadcastResult_new pos)"
    and "\<forall>inBuf\<in>set inBufs. inBuf \<noteq> [] \<and> length inBuf \<le> 4096"
  shows "(\<exists>a1. HW_onKeyReleased ce KEY_UP_ARROW a0 = Some (Ok a1) \<and>
      log (gc_world (app_client a1)) = log (gc_world (app_client a0)) @ move_bytes (player_move MoveRequest_new pos)) \<and>
    (\<exists>s'. CS_OnReceive e sid s = Some (Ok s') \<and> (\<forall>p. outgoing s' p = outgoing s p @
      (if p \<in> set (mPlayerSessions s) then move_bytes (player_move MoveBroadcastResult_new pos) else []))) \<and>
    (\<exists>d a'. TC_networkThread inBufs (app_client a) = Some (Ok d) \<and> app_frame v (a\<lparr>app_client := d\<rparr>) = Ok a' \<and>
      picture_of a' = (picture_of a)\<lparr>me := Some pos\<rparr>)"
proof (intro conjI)
  show "\<exists>a1. HW_onKeyReleased ce KEY_UP_ARROW a0 = Some (Ok a1) \<and>
      log (gc_world (app_client a1)) = log (gc_world (app_client a0)) @ move_bytes (player_move MoveRequest_new pos)"
    unfolding assms(12) by (rule key_sends_move [OF assms(1-4)])
  show "\<exists>s'. CS_OnReceive e sid s = Some (Ok s') \<and> (\<forall>p. outgoing s' p = outgoing s p @
      (if p \<in> set (mPlayerSessions s) then move_bytes (player_move MoveBroadcastResult_new pos) else []))"
    by (rule server_delivers [OF assms(5-10) move_wf(1) move_act assms(11,13)]) (simp add: assms(14))
  have "\<forall>m\<in>set [SMove (player_move MoveBroadcastResult_new pos)]. wf_server m"
    using move_wf(2) [of pos] by (simp only: list.set ball_simps simp_thms)
  moreover have "viewer (picture_of a) = 416" by (simp add: picture_of_def drawn_def assms(15,20) Let_def)
  ultimately show "\<exists>d a'. TC_networkThread inBufs (app_client a) = Some (Ok d) \<and>
      app_frame v (a\<lparr>app_client := d\<rparr>) = Ok a' \<and> picture_of a' = (picture_of a)\<lparr>me := Some pos\<rparr>"
    using stream_on_screen [OF assms(15-19) _ _ assms(22)] assms(21) move_seen [of "picture_of a" pos]
    by (fastforce simp del: see.simps TC_networkThread.simps)
qed

lemma move_moves_every_player_witness:
  "\<exists>(a0 :: byte list cocos_app) a1 (a :: unit cocos_app) d a' pos. HW_onKeyReleased eager_env KEY_UP_ARROW a0 = Some (Ok a1) \<and>
     gc_world (app_client a1) = move_bytes (player_move MoveRequest_new pos) \<and>
     TC_networkThread [move_bytes (player_move MoveBroadcastResult_new pos)] (app_client a) = Some (Ok d) \<and>
     app_frame desktop (a\<lparr>app_client := d\<rparr>) = Ok a' \<and> picture_of a' = (picture_of a)\<lparr>me := Some pos\<rparr>"
proof -
  obtain a0 :: "byte list cocos_app" and x y where a0: "s_TcpClient (app_client a0) = Some (TcpClient_new\<lparr>m_loginId := 416\<rparr>)"
    "gc_world (app_client a0) = []" "me (picture_of a0) = Some (x, y)"
    using logged_in_app [of "[]"] by blast
  obtain a :: "unit cocos_app" where a: "s_TcpClient (app_client a) = Some (TcpClient_new\<lparr>m_loginId := 416\<rparr>)"
    "scene_calls (app_client a) = []" "scene_ok (app_scene a)" using logged_in_app [of "()"] by blast
  define pos where "pos = (x, f32_add y (f32_of_int 10))"
  let ?req = "move_bytes (player_move MoveRequest_new pos)" and ?rep = "move_bytes (player_move MoveBroadcastResult_new pos)"
  have len: "length ?rep = 16" by (simp add: move_bytes_def header_bytes_def enc16_def)
  then have "length ?rep < BUFSIZE" by (simp add: BUFSIZE_def)
  note srv = one_player_server [OF this, where req = ?req]
  have "?rep \<noteq> []" "length ?rep \<le> 4096" using len by (fastforce, linarith)
  then have bufs: "concat [?rep] = ?rep" "\<forall>inBuf\<in>set [?rep]. inBuf \<noteq> [] \<and> length inBuf \<le> 4096"
    by (simp_all only: list.set ball_simps simp_thms concat.simps append_Nil2)
  have client: "m_loginId (TcpClient_new\<lparr>m_loginId := 416\<rparr>) = 416" "image_loads desktop (lit ''Target.png'')"
    "m_recvBuffer (TcpClient_new\<lparr>m_loginId := 416\<rparr>) = CircularBuffer_new BUF_SIZE []"
    by (simp_all add: TcpClient_new_def desktop_def)
  from move_moves_every_player [OF eager_takes_all a0(1) client(1) a0(3) quiet_net srv(1,2) fresh_client srv(3) pos_def srv(6,4)
      a(1) client(3) a(2,3) client(2,1) bufs]
  show ?thesis unfolding a0(2) append_Nil by blast
qed

end
